(* ===== verification/Prelude.thy ===== *)
theory Prelude
  imports
    Main
    "HOL-Library.AList"
    "HOL-Library.Char_ord"
    "HOL-Library.List_Lexorder"
    "HOL-Library.Product_Lexorder"
    "HOL-Library.Multiset"
begin

text \<open>
  What every component shares: the exceptions of the program as values, the result type and its
  sequencing, Python dictionaries as association lists in insertion order, and the string,
  hexadecimal and integer-literal functions of the Python standard library the source uses.

  Python text is a list of characters, each a code point below 256, and Python \<open>bytes\<close> is a list of
  characters too, each one byte. Python integers are \<open>int\<close>; they do not overflow.
\<close>

type_synonym bytes = string

named_theorems dict_simps \<open>lookups in updated dictionaries\<close>
named_theorems result_elims \<open>what a computation that returned says about its parts\<close>

section \<open>Exceptions as values\<close>

text \<open>
  One constructor per exception class of the source, with the message it is raised with.
  \<open>TypeError\<close>, \<open>KeyError\<close>, \<open>IndexError\<close>, \<open>ValueError\<close> and \<open>JSONDecodeError\<close> come from the standard library without a message
  of the source, \<open>UnicodeEncodeError\<close> is what \<open>str.encode\<close> raises,
  \<open>OverflowError\<close> what the database driver raises for an integer of more than 64 bits, \<open>SQLiteIntegrityError\<close> a violated constraint of
  the database, \<open>FaultInjected\<close> what a fault
  injector raises. \<open>UndeclaredType\<close> is the outcome of the model where a document puts a value into a
  field of a dataclass that does not declare its type and the code does not check it: Python goes on
  with the value until an operation on it raises \<open>TypeError\<close> or \<open>AttributeError\<close>.
\<close>

datatype exn =
    ProtocolTransitionError string
  | MempoolError string
  | FinalityError string
  | SyncFinalityError string
  | ConsensusSyncError string
  | WireProtocolError string
  | StateStoreError string
  | ConsensusSigningJournalError string
  | NodePipelineError string
  | PeerSyncError string
  | BridgeProtocolError string
  | RelayerJournalError string
  | SyncRuntimeError string
  | ValidatorRuntimeError string
  | ValidatorNodeError string
  | EventIndexerError string
  | SigningBoundaryError string
  | SignatureQuorumError string
  | AssetIssuanceError string
  | TypeError
  | KeyError
  | IndexError
  | ValueError
  | JSONDecodeError
  | UnicodeEncodeError
  | OverflowError
  | SQLiteIntegrityError
  | FaultInjected string
  | UndeclaredType

type_synonym 'a result = "exn + 'a"

definition bindE :: "'a result \<Rightarrow> ('a \<Rightarrow> 'b result) \<Rightarrow> 'b result" where
  "bindE m f = (case m of Inl e \<Rightarrow> Inl e | Inr x \<Rightarrow> f x)"

lemma bindE_simps [simp]:
  "bindE (Inl e) f = Inl e"
  "bindE (Inr x) f = f x"
  by (simp_all add: bindE_def)

lemma bindE_Inr_iff [result_elims]: "bindE m f = Inr y \<longleftrightarrow> (\<exists>x. m = Inr x \<and> f x = Inr y)"
  by (cases m) auto

lemma bindE_Inl_iff: "bindE m f = Inl e \<longleftrightarrow> m = Inl e \<or> (\<exists>x. m = Inr x \<and> f x = Inl e)"
  by (cases m) auto

text \<open>\<open>if condition: raise e\<close>, as a statement.\<close>

definition raise_if :: "bool \<Rightarrow> exn \<Rightarrow> unit result" where
  "raise_if b e = (if b then Inl e else Inr ())"

lemma raise_if_simps [simp]:
  "raise_if True e = Inl e"
  "raise_if False e = Inr ()"
  by (simp_all add: raise_if_def)

lemma raise_if_Inr_iff [result_elims]: "raise_if b e = Inr u \<longleftrightarrow> \<not> b"
  by (simp add: raise_if_def)

text \<open>\<open>if condition: raise e\<close>, then the rest of the function.\<close>

lemma if_Inl_Inr_iff [result_elims]: "(if b then Inl e else x) = Inr y \<longleftrightarrow> \<not> b \<and> x = Inr y"
  by simp

text \<open>A \<open>for\<close> loop whose body may raise: the fold stops at the first exception.\<close>

fun foldE :: "('s \<Rightarrow> 'a \<Rightarrow> 's result) \<Rightarrow> 's \<Rightarrow> 'a list \<Rightarrow> 's result" where
  "foldE f s [] = Inr s"
| "foldE f s (x # xs) = bindE (f s x) (\<lambda>s'. foldE f s' xs)"

lemma foldE_append: "foldE f s (xs @ ys) = bindE (foldE f s xs) (\<lambda>s'. foldE f s' ys)"
proof (induction xs arbitrary: s)
  case (Cons x xs)
  then show ?case by (cases "f s x") auto
qed simp

text \<open>The invariant rule of such a loop.\<close>

lemma foldE_invariant:
  assumes "foldE f s xs = Inr t" and "P s"
    and "\<And>s s' x. x \<in> set xs \<Longrightarrow> P s \<Longrightarrow> f s x = Inr s' \<Longrightarrow> P s'"
  shows "P t"
  using assms
proof (induction xs arbitrary: s)
  case (Cons x xs)
  from Cons.prems(1) obtain s' where s': "f s x = Inr s'" "foldE f s' xs = Inr t"
    by (auto simp: bindE_Inr_iff)
  have "P s'"
    using Cons.prems(2,3) s'(1) by (metis list.set_intros(1))
  from s'(2) this show ?case
    by (rule Cons.IH) (use Cons.prems(3) in \<open>metis list.set_intros(2)\<close>)
qed simp

text \<open>A loop with a check and no state, as in \<open>for x in xs: check(x)\<close>.\<close>

definition all_ok :: "('a \<Rightarrow> unit result) \<Rightarrow> 'a list \<Rightarrow> unit result" where
  "all_ok f xs = foldE (\<lambda>_. f) () xs"

lemma all_ok_simps [simp]:
  "all_ok f [] = Inr ()"
  "all_ok f (x # xs) = bindE (f x) (\<lambda>_. all_ok f xs)"
  by (simp_all add: all_ok_def)

lemma all_ok_Inr_iff [result_elims]: "all_ok f xs = Inr u \<longleftrightarrow> (\<forall>x \<in> set xs. f x = Inr ())"
proof (induction xs)
  case (Cons x xs)
  then show ?case by (cases "f x") auto
qed simp

text \<open>A comprehension whose element expression may raise.\<close>

fun mapE :: "('a \<Rightarrow> 'b result) \<Rightarrow> 'a list \<Rightarrow> 'b list result" where
  "mapE f [] = Inr []"
| "mapE f (x # xs) = bindE (f x) (\<lambda>y. bindE (mapE f xs) (\<lambda>ys. Inr (y # ys)))"

lemma mapE_Inr_iff: "mapE f xs = Inr ys \<longleftrightarrow> list_all2 (\<lambda>x y. f x = Inr y) xs ys"
proof (induction xs arbitrary: ys)
  case (Cons x xs)
  then show ?case by (cases ys; cases "f x") (auto simp: bindE_Inr_iff)
qed (auto simp: list_all2_Nil)

lemma mapE_mem: "mapE f xs = Inr ys \<Longrightarrow> y \<in> set ys \<Longrightarrow> \<exists>x \<in> set xs. f x = Inr y"
  by (induction xs arbitrary: ys) (auto simp: bindE_Inr_iff)

lemma mapE_map_inverse:
  assumes "\<And>x. x \<in> set xs \<Longrightarrow> f (g x) = Inr x"
  shows "mapE f (map g xs) = Inr xs"
  using assms by (induction xs) auto

text \<open>The integers an SQLite column holds; the driver raises \<open>OverflowError\<close> for any other.\<close>

definition sqlite_int :: "int \<Rightarrow> bool" where
  "sqlite_int i = (-9223372036854775808 \<le> i \<and> i \<le> 9223372036854775807)"

section \<open>Dictionaries\<close>

text \<open>
  A Python dict keeps insertion order, replaces in place and deletes by key: an association list
  with distinct keys under \<open>AList.update\<close> and \<open>AList.delete\<close>, looked up with \<open>map_of\<close>.
\<close>

type_synonym ('k, 'v) dict = "('k \<times> 'v) list"

abbreviation dict_ok :: "('k, 'v) dict \<Rightarrow> bool" where
  "dict_ok d \<equiv> distinct (map fst d)"

abbreviation dict_get :: "('k, 'v) dict \<Rightarrow> 'k \<Rightarrow> 'v option" where
  "dict_get \<equiv> map_of"

abbreviation dict_set :: "'k \<Rightarrow> 'v \<Rightarrow> ('k, 'v) dict \<Rightarrow> ('k, 'v) dict" where
  "dict_set \<equiv> AList.update"

abbreviation dict_del :: "'k \<Rightarrow> ('k, 'v) dict \<Rightarrow> ('k, 'v) dict" where
  "dict_del \<equiv> AList.delete"

text \<open>\<open>d == e\<close>: the order of the entries does not count.\<close>

definition dict_eq :: "('k, 'v) dict \<Rightarrow> ('k, 'v) dict \<Rightarrow> bool" where
  "dict_eq d e = (length d = length e \<and> list_all (\<lambda>(k, v). map_of e k = Some v) d)"

definition dict_get_default :: "('k, 'v) dict \<Rightarrow> 'k \<Rightarrow> 'v \<Rightarrow> 'v" where
  "dict_get_default d k v = (case map_of d k of None \<Rightarrow> v | Some w \<Rightarrow> w)"

lemma dict_get_set [simp, dict_simps]: "map_of (AList.update k v d) = (map_of d)(k \<mapsto> v)"
  by (rule update_conv')

lemma dict_get_del [simp, dict_simps]: "map_of (AList.delete k d) = (map_of d)(k := None)"
  by (rule delete_conv')

lemma dict_ok_set [simp, intro]: "dict_ok d \<Longrightarrow> dict_ok (dict_set k v d)"
  by (rule distinct_update)

lemma dict_ok_del [simp, intro]: "dict_ok d \<Longrightarrow> dict_ok (dict_del k d)"
  by (rule distinct_delete)

lemma keys_dict_set [simp]: "fst ` set (dict_set k v d) = insert k (fst ` set d)"
  using dom_update [of k v d] by (simp add: dom_map_of_conv_image_fst)

lemma set_dict_set: "dict_ok d \<Longrightarrow> set (dict_set k v d) = insert (k, v) {p \<in> set d. fst p \<noteq> k}"
  by (induction d) (auto simp: image_iff)

lemma dict_mem_iff: "dict_ok d \<Longrightarrow> (k, v) \<in> set d \<longleftrightarrow> dict_get d k = Some v"
  by simp

lemma dict_set_new: "dict_get d k = None \<Longrightarrow> dict_set k v d = d @ [(k, v)]"
  by (induction d) auto

lemma dict_entry_iff:
  assumes "dict_ok d" "dict_get d k = Some v" "p \<in> set d"
  shows "fst p = k \<longleftrightarrow> p = (k, v)"
  using assms by (metis dict_mem_iff fst_conv option.inject prod.collapse)

lemma set_dict_del: "set (dict_del k d) = {p \<in> set d. fst p \<noteq> k}"
  by (auto simp: AList.delete_eq)

lemma length_dict_set: "length (dict_set k v d) = (if dict_get d k = None then Suc (length d) else length d)"
  using arg_cong [OF update_keys [of k v d], of length] by (auto simp: map_of_eq_None_iff split: if_splits)

lemma distinct_map_sort_key: "distinct (map f (sort_key g xs)) \<longleftrightarrow> distinct (map f xs)"
  by (metis mset_map mset_sort mset_eq_imp_distinct_iff)

lemma sum_list_mset_eq:
  fixes f :: "'a \<Rightarrow> int"
  assumes "mset xs = mset ys"
  shows "(\<Sum>x \<leftarrow> xs. f x) = (\<Sum>x \<leftarrow> ys. f x)"
proof -
  have "mset (map f xs) = mset (map f ys)"
    using assms by simp
  then show ?thesis
    by (simp only: sum_mset_sum_list [symmetric])
qed

lemma sum_list_sort_key: "(\<Sum>x \<leftarrow> sort_key g xs. f x) = (\<Sum>x \<leftarrow> xs. (f x :: int))"
  by (rule sum_list_mset_eq) simp

lemma distinct_keys_sort_key: "distinct (map fst (sort_key fst ms)) \<longleftrightarrow> distinct (map fst ms)"
  by (rule distinct_map_sort_key)

lemma map_of_sort_key: "dict_ok d \<Longrightarrow> map_of (sort_key fst d) = map_of d"
  using map_of_inject_set [of "sort_key fst d" d] by (simp add: distinct_keys_sort_key)

lemma dict_eq_iff:
  assumes "dict_ok d" "dict_ok e"
  shows "dict_eq d e \<longleftrightarrow> map_of d = map_of e"
proof
  assume eq: "dict_eq d e"
  then have sub: "set d \<subseteq> set e"
    by (auto simp: dict_eq_def list_all_iff dest!: map_of_SomeD)
  have "card (set d) = length d" "card (set e) = length e"
    using assms by (simp_all add: distinct_map distinct_card)
  then have "set d = set e"
    using sub eq by (intro card_subset_eq) (simp_all add: dict_eq_def)
  then show "map_of d = map_of e"
    using assms by (simp add: map_of_inject_set)
next
  assume eq: "map_of d = map_of e"
  then have "set d = set e"
    using assms by (simp add: map_of_inject_set)
  moreover from this have "length d = length e"
    using assms by (metis distinct_card distinct_map)
  ultimately show "dict_eq d e"
    using assms by (auto simp: dict_eq_def list_all_iff)
qed

lemma dict_eq_of_sorted:
  assumes "dict_ok d" "dict_ok e" "map_of d = map_of e"
  shows "sort_key fst d = sort_key (fst :: 'a::linorder \<times> 'b \<Rightarrow> 'a) e"
proof -
  have "set d = set e"
    using assms by (metis map_of_inject_set)
  moreover have "distinct d" "distinct e"
    using assms by (simp_all add: distinct_map)
  ultimately have "mset d = mset e"
    by (simp add: set_eq_iff_mset_eq_distinct)
  then show ?thesis
    using assms(1) by (intro sort_key_eq_sort_key) (simp_all add: distinct_map)
qed

lemma map_dict_set_same:
  "dict_get d k = Some v \<Longrightarrow> f (k, v') = f (k, v) \<Longrightarrow> map f (dict_set k v' d) = map f d"
  by (induction d) auto

lemma sum_dict_set:
  "dict_get d k = Some v \<Longrightarrow> sum_list (map f (dict_set k v' d)) = sum_list (map f d) - f (k, v) + (f (k, v') :: int)"
  by (induction d) auto

end
