(* ===== verification/Text.thy ===== *)
theory Text
  imports Prelude
begin

text \<open>
  The text functions of the Python standard library the source uses: \<open>str.lower\<close>, \<open>str.strip\<close>,
  \<open>str.isspace\<close>, \<open>str.startswith\<close>, \<open>str.encode\<close>, \<open>str(int)\<close>, \<open>bytes.hex\<close>, \<open>bytes.fromhex\<close> and the
  grammar \<open>int(s, 16)\<close> accepts, for text whose code points are below 256.
\<close>

section \<open>Case and white space\<close>

text \<open>\<open>str.lower\<close>: the letters A to Z and the upper-case letters of Latin-1.\<close>

definition lower_char :: "char \<Rightarrow> char" where
  "lower_char c =
     (let n = (of_char c :: nat)
      in if (65 \<le> n \<and> n \<le> 90) \<or> (192 \<le> n \<and> n \<le> 222 \<and> n \<noteq> 215) then char_of (n + 32) else c)"

definition lower :: "string \<Rightarrow> string" where
  "lower s = map lower_char s"

lemma of_char_less_256 [simp]: "(of_char c :: nat) < 256"
  using of_char_mod_256 [of c, where 'a = nat] by (metis mod_less_divisor zero_less_numeral)

lemma lower_char_idem [simp]: "lower_char (lower_char c) = lower_char c"
proof -
  have "(of_char (char_of (n + 32)) :: nat) = n + 32" if "n \<le> 222" for n :: nat
    using that by (simp add: of_char_of)
  then show ?thesis by (auto simp: lower_char_def Let_def)
qed

lemma lower_idem [simp]: "lower (lower s) = lower s"
  by (simp add: lower_def)

lemma length_lower [simp]: "length (lower s) = length s"
  by (simp add: lower_def)

lemma lower_Nil_iff [simp]: "lower s = [] \<longleftrightarrow> s = []"
  by (simp add: lower_def)

lemma lower_append [simp]: "lower (s @ t) = lower s @ lower t"
  by (simp add: lower_def)

definition is_space :: "char \<Rightarrow> bool" where
  "is_space c = (of_char c \<in> {9, 10, 11, 12, 13, 28, 29, 30, 31, 32, 133, 160 :: nat})"

definition strip :: "string \<Rightarrow> string" where
  "strip s = rev (dropWhile is_space (rev (dropWhile is_space s)))"

definition starts_with :: "string \<Rightarrow> string \<Rightarrow> bool" where
  "starts_with p s = (take (length p) s = p)"

lemma starts_with_simps [simp]:
  "starts_with [] s"
  "\<not> starts_with (p # ps) []"
  "starts_with (p # ps) (c # s) \<longleftrightarrow> c = p \<and> starts_with ps s"
  by (auto simp: starts_with_def)

text \<open>\<open>str.encode("utf-8")\<close>: a code point from 128 to 255 takes two bytes.\<close>

definition encode_char :: "char \<Rightarrow> bytes" where
  "encode_char c =
     (let n = (of_char c :: nat)
      in if n < 128 then [c] else [char_of (192 + n div 64), char_of (128 + n mod 64)])"

definition encode :: "string \<Rightarrow> bytes" where
  "encode s = concat (map encode_char s)"

definition is_ascii :: "string \<Rightarrow> bool" where
  "is_ascii s = list_all (\<lambda>c. (of_char c :: nat) < 128) s"

lemma encode_ascii: "is_ascii s \<Longrightarrow> encode s = s"
  by (induction s) (auto simp: is_ascii_def encode_def encode_char_def)

section \<open>Integer literals\<close>

text \<open>
  What \<open>int(s, 16)\<close> accepts: white space around the literal, one sign, the prefix 0x (after which one
  underscore may follow), then hexadecimal digits with single underscores between them.
\<close>

definition is_hex_digit :: "char \<Rightarrow> bool" where
  "is_hex_digit c =
     (let n = (of_char c :: nat)
      in (48 \<le> n \<and> n \<le> 57) \<or> (65 \<le> n \<and> n \<le> 70) \<or> (97 \<le> n \<and> n \<le> 102))"

definition is_lower_hex :: "char \<Rightarrow> bool" where
  "is_lower_hex c =
     (let n = (of_char c :: nat) in (48 \<le> n \<and> n \<le> 57) \<or> (97 \<le> n \<and> n \<le> 102))"

definition is_int_space :: "char \<Rightarrow> bool" where
  "is_int_space c = (of_char c \<in> {9, 10, 11, 12, 13, 32, 133, 160 :: nat})"

fun digits16_ok :: "bool \<Rightarrow> string \<Rightarrow> bool" where
  "digits16_ok digit_before [] = digit_before"
| "digits16_ok digit_before (c # cs) =
     (if is_hex_digit c then digits16_ok True cs
      else c = CHR ''_'' \<and> digit_before \<and> digits16_ok False cs)"

definition int16_ok :: "string \<Rightarrow> bool" where
  "int16_ok s =
     (let t = rev (dropWhile is_int_space (rev (dropWhile is_int_space s)));
          u = (if t \<noteq> [] \<and> hd t \<in> {CHR ''+'', CHR ''-''} then tl t else t);
          v = (if starts_with ''0x'' u \<or> starts_with ''0X'' u
               then (if starts_with ''_'' (drop 2 u) then drop 3 u else drop 2 u) else u)
      in digits16_ok False v)"

lemma lower_hex_is_hex: "is_lower_hex c \<Longrightarrow> is_hex_digit c"
  by (auto simp: is_lower_hex_def is_hex_digit_def Let_def)

lemma lower_hex_not_space: "is_lower_hex c \<Longrightarrow> \<not> is_int_space c"
  by (auto simp: is_lower_hex_def is_int_space_def Let_def)

lemma lower_lower_hex [simp]: "is_lower_hex c \<Longrightarrow> lower_char c = c"
  by (auto simp: is_lower_hex_def lower_char_def Let_def)

lemma lower_of_lower_hex: "list_all is_lower_hex s \<Longrightarrow> lower s = s"
  by (induction s) (auto simp: lower_def)

lemma digits16_ok_hex: "list_all is_hex_digit s \<Longrightarrow> digits16_ok b s \<longleftrightarrow> b \<or> s \<noteq> []"
  by (induction s arbitrary: b) auto

lemma dropWhile_lower_hex: "list_all is_lower_hex s \<Longrightarrow> dropWhile is_int_space s = s"
  by (cases s) (auto simp: lower_hex_not_space)

lemma int16_ok_lower_hex:
  assumes "list_all is_lower_hex s" "s \<noteq> []"
  shows "int16_ok s"
proof -
  have trimmed: "rev (dropWhile is_int_space (rev (dropWhile is_int_space s))) = s"
    using assms(1) by (simp add: dropWhile_lower_hex list_all_rev)
  have sign: "hd s \<notin> {CHR ''+'', CHR ''-''}"
    using assms by (cases s) (auto simp: is_lower_hex_def)
  have "CHR ''x'' \<notin> set s" "CHR ''X'' \<notin> set s"
    using assms(1) by (auto simp: list_all_iff is_lower_hex_def)
  then have "\<not> starts_with ''0x'' s" "\<not> starts_with ''0X'' s"
    using set_take_subset [of "Suc (Suc 0)" s] by (auto simp: starts_with_def)
  moreover have "digits16_ok False s"
    using assms by (subst digits16_ok_hex) (auto simp: list_all_iff lower_hex_is_hex)
  ultimately show ?thesis
    using sign by (simp add: int16_ok_def trimmed Let_def)
qed

text \<open>Lower-casing does not change what \<open>int(_, 16)\<close> accepts.\<close>

lemma of_char_lower_char:
  "(of_char (lower_char c) :: nat) =
     (let n = of_char c in if (65 \<le> n \<and> n \<le> 90) \<or> (192 \<le> n \<and> n \<le> 222 \<and> n \<noteq> 215) then n + 32 else n)"
  by (auto simp: lower_char_def Let_def of_char_of)

lemma char_eq_of_char: "c = d \<longleftrightarrow> (of_char c :: nat) = of_char d"
  by simp

lemma lower_char_classes [simp]:
  "is_hex_digit (lower_char c) = is_hex_digit c"
  "is_int_space (lower_char c) = is_int_space c"
  "lower_char c = CHR ''_'' \<longleftrightarrow> c = CHR ''_''"
  "lower_char c = CHR ''+'' \<longleftrightarrow> c = CHR ''+''"
  "lower_char c = CHR ''-'' \<longleftrightarrow> c = CHR ''-''"
  "lower_char c = CHR ''0'' \<longleftrightarrow> c = CHR ''0''"
  "lower_char c = CHR ''x'' \<longleftrightarrow> c = CHR ''x'' \<or> c = CHR ''X''"
  "lower_char c \<noteq> CHR ''X''"
  by (auto simp: is_hex_digit_def is_int_space_def Let_def of_char_lower_char
      simp del: of_char_eq_iff simp: char_eq_of_char split: if_splits)

lemma digits16_ok_lower [simp]: "digits16_ok b (lower s) = digits16_ok b s"
  by (induction s arbitrary: b) (auto simp: lower_def)

lemma dropWhile_int_space_lower: "dropWhile is_int_space (lower s) = lower (dropWhile is_int_space s)"
  by (induction s) (auto simp: lower_def)

lemma rev_lower: "rev (lower s) = lower (rev s)"
  by (simp add: lower_def rev_map)

lemma starts_with_0x_lower:
  "starts_with ''0x'' (lower s) \<or> starts_with ''0X'' (lower s) \<longleftrightarrow> starts_with ''0x'' s \<or> starts_with ''0X'' s"
  by (cases s rule: remdups_adj.cases) (simp_all add: lower_def, blast)

lemma starts_with_underscore_lower: "starts_with ''_'' (lower s) = starts_with ''_'' s"
  by (cases s) (auto simp: lower_def)

lemma int16_ok_lower [simp]: "int16_ok (lower s) = int16_ok s"
proof -
  let ?t = "rev (dropWhile is_int_space (rev (dropWhile is_int_space s)))"
  have trimmed: "rev (dropWhile is_int_space (rev (dropWhile is_int_space (lower s)))) = lower ?t"
    by (simp add: dropWhile_int_space_lower rev_lower)
  have sign: "(if lower t \<noteq> [] \<and> hd (lower t) \<in> {CHR ''+'', CHR ''-''} then tl (lower t) else lower t) =
      lower (if t \<noteq> [] \<and> hd t \<in> {CHR ''+'', CHR ''-''} then tl t else t)" for t
    by (cases t) (auto simp: lower_def)
  have drop: "drop n (lower u) = lower (drop n u)" for n u
    by (simp add: lower_def drop_map)
  show ?thesis
    unfolding int16_ok_def trimmed Let_def sign starts_with_0x_lower drop starts_with_underscore_lower
    by simp
qed

lemma starts_with_0x_lowerI: "starts_with ''0x'' s \<Longrightarrow> starts_with ''0x'' (lower s)"
  by (cases s rule: remdups_adj.cases) (auto simp: lower_def)

lemma drop_lower: "drop n (lower s) = lower (drop n s)"
  by (simp add: lower_def drop_map)

text \<open>\<open>str(n)\<close> for an integer.\<close>

fun nat_str :: "nat \<Rightarrow> string" where
  "nat_str n = (if n < 10 then [char_of (48 + n)] else nat_str (n div 10) @ [char_of (48 + n mod 10)])"

declare nat_str.simps [simp del]

definition int_str :: "int \<Rightarrow> string" where
  "int_str i = (if i < 0 then CHR ''-'' # nat_str (nat (- i)) else nat_str (nat i))"

section \<open>Hexadecimal text\<close>

definition hex_digit :: "nat \<Rightarrow> char" where
  "hex_digit n = (if n < 10 then char_of (48 + n) else char_of (87 + n))"

definition hex_of :: "bytes \<Rightarrow> string" where
  "hex_of bs = concat (map (\<lambda>c. [hex_digit (of_char c div 16), hex_digit (of_char c mod 16)]) bs)"

definition digit_val :: "char \<Rightarrow> nat" where
  "digit_val c =
     (let n = (of_char c :: nat) in if n \<le> 57 then n - 48 else if n \<le> 70 then n - 55 else n - 87)"

text \<open>\<open>bytes.fromhex\<close>: pairs of digits of either case, white space allowed between the pairs.\<close>

definition is_ascii_space :: "char \<Rightarrow> bool" where
  "is_ascii_space c = (of_char c \<in> {9, 10, 11, 12, 13, 32 :: nat})"

fun from_hex :: "string \<Rightarrow> bytes option" where
  "from_hex [] = Some []"
| "from_hex [c] = (if is_ascii_space c then Some [] else None)"
| "from_hex (c # d # cs) =
     (if is_ascii_space c then from_hex (d # cs)
      else if is_hex_digit c \<and> is_hex_digit d
      then map_option (\<lambda>bs. char_of (16 * digit_val c + digit_val d) # bs) (from_hex cs)
      else None)"

lemma hex_digit_lower_hex: "n < 16 \<Longrightarrow> is_lower_hex (hex_digit n)"
  by (auto simp: hex_digit_def is_lower_hex_def Let_def of_char_of)

lemma digit_val_hex_digit: "n < 16 \<Longrightarrow> digit_val (hex_digit n) = n"
  by (auto simp: hex_digit_def digit_val_def Let_def of_char_of)

lemma lower_hex_not_ascii_space: "is_lower_hex c \<Longrightarrow> \<not> is_ascii_space c"
  by (auto simp: is_lower_hex_def is_ascii_space_def Let_def)

lemma nibbles: "(of_char c :: nat) div 16 < 16" "(of_char c :: nat) mod 16 < 16"
  using of_char_less_256 [of c] by (simp_all add: less_mult_imp_div_less)

lemma length_hex_of [simp]: "length (hex_of bs) = 2 * length bs"
  by (induction bs) (auto simp: hex_of_def)

lemma hex_of_lower_hex: "list_all is_lower_hex (hex_of bs)"
  by (induction bs) (auto simp: hex_of_def hex_digit_lower_hex nibbles)

lemma hex_of_Nil_iff [simp]: "hex_of bs = [] \<longleftrightarrow> bs = []"
  by (cases bs) (auto simp: hex_of_def)

lemma lower_hex_of [simp]: "lower (hex_of bs) = hex_of bs"
  by (rule lower_of_lower_hex [OF hex_of_lower_hex])

lemma from_hex_hex_of [simp]: "from_hex (hex_of bs) = Some bs"
proof (induction bs)
  case (Cons c bs)
  have digits: "is_lower_hex (hex_digit (of_char c div 16))" "is_lower_hex (hex_digit (of_char c mod 16))"
    by (simp_all add: hex_digit_lower_hex nibbles)
  have "char_of (16 * (of_char c div 16) + of_char c mod 16 :: nat) = c"
    by simp
  then show ?case
    using Cons digits
    by (simp add: hex_of_def digit_val_hex_digit nibbles lower_hex_is_hex lower_hex_not_ascii_space)
qed (simp add: hex_of_def)

lemma hex_of_inject [simp]: "hex_of bs = hex_of cs \<longleftrightarrow> bs = cs"
  by (metis from_hex_hex_of option.inject)

section \<open>UTF-8 is unambiguous\<close>

lemma encode_Cons: "encode (c # s) = encode_char c @ encode s"
  by (simp add: encode_def)

lemma of_char_of_small: "n < 256 \<Longrightarrow> (of_char (char_of n :: char) :: nat) = n"
  by (simp add: of_char_of)

lemma encode_char_append_inject:
  assumes "encode_char c @ x = encode_char d @ y"
  shows "c = d \<and> x = y"
proof -
  define n where "n = (of_char c :: nat)"
  define m where "m = (of_char d :: nat)"
  have bound: "n < 256" "m < 256"
    by (simp_all add: n_def m_def)
  have bytes: "192 + k div 64 < 256" "128 + k mod 64 < 256" if "k < 256" for k :: nat
    using that by auto
  have n: "encode_char c = (if n < 128 then [c] else [char_of (192 + n div 64), char_of (128 + n mod 64)])"
    and m: "encode_char d = (if m < 128 then [d] else [char_of (192 + m div 64), char_of (128 + m mod 64)])"
    by (simp_all add: encode_char_def n_def m_def Let_def)
  consider "n < 128" "m < 128" | "n < 128" "\<not> m < 128" | "\<not> n < 128" "m < 128" | "\<not> n < 128" "\<not> m < 128"
    by blast
  then show ?thesis
  proof cases
    case 1
    then show ?thesis
      using assms by (simp add: n m)
  next
    case 2
    then have "n = 192 + m div 64"
      using assms of_char_of_small [OF bytes(1) [OF bound(2)]] by (simp add: n m) (simp add: n_def)
    then show ?thesis
      using 2 by simp
  next
    case 3
    then have "m = 192 + n div 64"
      using assms of_char_of_small [OF bytes(1) [OF bound(1)]] by (auto simp: n m m_def)
    then show ?thesis
      using 3 by simp
  next
    case 4
    then have eq: "char_of (192 + n div 64) = (char_of (192 + m div 64) :: char)" "char_of (128 + n mod 64) = (char_of (128 + m mod 64) :: char)" "x = y"
      using assms by (simp_all add: n m)
    have "n div 64 = m div 64" "n mod 64 = m mod 64"
      using eq(1,2) [THEN arg_cong, of "of_char :: char \<Rightarrow> nat"] bytes [OF bound(1)] bytes [OF bound(2)]
      by (simp_all only: of_char_of_small)
    then have "n div 64 * 64 + n mod 64 = m div 64 * 64 + m mod 64"
      by (simp only:)
    then have "n = m"
      by (simp only: div_mult_mod_eq)
    then have "c = d"
      unfolding n_def m_def char_eq_of_char [of c d] .
    then show ?thesis
      using eq(3) by simp
  qed
qed

lemma encode_char_not_Nil [simp]: "encode_char c \<noteq> []"
  by (simp add: encode_char_def Let_def)

lemma encode_inject [simp]: "encode s = encode t \<longleftrightarrow> s = t"
proof
  show "encode s = encode t \<Longrightarrow> s = t"
  proof (induction s arbitrary: t)
    case Nil
    then show ?case
      by (cases t) (simp_all add: encode_Cons, simp add: encode_def)
  next
    case (Cons c s)
    then obtain d t' where t: "t = d # t'"
      by (cases t) (auto simp: encode_Cons, simp add: encode_def)
    then show ?case
      using Cons.IH [of t'] Cons.prems encode_char_append_inject [of c "encode s" d "encode t'"] by (simp add: encode_Cons)
  qed
qed simp

end
