(* ===== verification/Sha256.thy ===== *)
theory Sha256
  imports Text "HOL-Library.Word"
begin

text \<open>
  SHA-256, the digest of \<open>hashlib.sha256\<close>, on byte strings: the constants, the message schedule, the
  compression rounds and the padding of FIPS 180-4 on 32-bit words, executable. The components use
  it through \<open>sha256_hex\<close>, which is \<open>hashlib.sha256(m).hexdigest()\<close>, and through the
  facts that this text has 64 lower-case hexadecimal digits; no component assumes that it is
  free of collisions.
\<close>

unbundle bit_operations_syntax

type_synonym word32 = "32 word"

text \<open>The round constants and the initial state, in decimal.\<close>

definition K256 :: "word32 list" where
  "K256 =
    [1116352408, 1899447441, 3049323471, 3921009573, 961987163, 1508970993, 2453635748, 2870763221,
     3624381080, 310598401, 607225278, 1426881987, 1925078388, 2162078206, 2614888103, 3248222580,
     3835390401, 4022224774, 264347078, 604807628, 770255983, 1249150122, 1555081692, 1996064986,
     2554220882, 2821834349, 2952996808, 3210313671, 3336571891, 3584528711, 113926993, 338241895,
     666307205, 773529912, 1294757372, 1396182291, 1695183700, 1986661051, 2177026350, 2456956037,
     2730485921, 2820302411, 3259730800, 3345764771, 3516065817, 3600352804, 4094571909, 275423344,
     430227734, 506948616, 659060556, 883997877, 958139571, 1322822218, 1537002063, 1747873779,
     1955562222, 2024104815, 2227730452, 2361852424, 2428436474, 2756734187, 3204031479, 3329325298]"

definition H256 :: "word32 list" where
  "H256 = [1779033703, 3144134277, 1013904242, 2773480762, 1359893119, 2600822924, 528734635, 1541459225]"

definition rotr :: "nat \<Rightarrow> word32 \<Rightarrow> word32" where
  "rotr n x = drop_bit n x OR push_bit (32 - n) x"

definition big_sigma0 :: "word32 \<Rightarrow> word32" where "big_sigma0 x = rotr 2 x XOR rotr 13 x XOR rotr 22 x"
definition big_sigma1 :: "word32 \<Rightarrow> word32" where "big_sigma1 x = rotr 6 x XOR rotr 11 x XOR rotr 25 x"
definition small_sigma0 :: "word32 \<Rightarrow> word32" where "small_sigma0 x = rotr 7 x XOR rotr 18 x XOR drop_bit 3 x"
definition small_sigma1 :: "word32 \<Rightarrow> word32" where "small_sigma1 x = rotr 17 x XOR rotr 19 x XOR drop_bit 10 x"
definition ch_sel :: "word32 \<Rightarrow> word32 \<Rightarrow> word32 \<Rightarrow> word32" where
  "ch_sel x y z = (x AND y) XOR ((NOT x) AND z)"
definition majority :: "word32 \<Rightarrow> word32 \<Rightarrow> word32 \<Rightarrow> word32" where
  "majority x y z = (x AND y) XOR (x AND z) XOR (y AND z)"

fun sha_schedule :: "nat \<Rightarrow> word32 list \<Rightarrow> word32 list" where
  "sha_schedule 0 ws = []"
| "sha_schedule (Suc n) ws = hd ws # sha_schedule n (tl ws @ [small_sigma1 (ws ! 14) + ws ! 9 + small_sigma0 (ws ! 1) + hd ws])"

fun sha_rounds :: "(word32 \<times> word32) list \<Rightarrow> word32 list \<Rightarrow> word32 list" where
  "sha_rounds [] s = s"
| "sha_rounds ((k, w) # r) [a, b, c, d, e, f, g, h] =
     (let t1 = h + big_sigma1 e + ch_sel e f g + k + w; t2 = big_sigma0 a + majority a b c
      in sha_rounds r [t1 + t2, a, b, c, d + t1, e, f, g])"
| "sha_rounds _ s = s"

definition sha_compress :: "word32 list \<Rightarrow> word32 list \<Rightarrow> word32 list" where
  "sha_compress h blk = map2 (+) h (sha_rounds (zip K256 (sha_schedule 64 blk)) h)"

fun sha_blocks :: "nat \<Rightarrow> word32 list \<Rightarrow> word32 list \<Rightarrow> word32 list" where
  "sha_blocks 0 ws h = h"
| "sha_blocks (Suc n) ws h = sha_blocks n (drop 16 ws) (sha_compress h (take 16 ws))"

fun be_words :: "string \<Rightarrow> word32 list" where
  "be_words (a # b # c # d # r) =
     word_of_int (of_char a * 16777216 + of_char b * 65536 + of_char c * 256 + of_char d) # be_words r"
| "be_words _ = []"

definition be_bytes4 :: "int \<Rightarrow> string" where
  "be_bytes4 n = [char_of (n div 16777216), char_of (n div 65536), char_of (n div 256), char_of n]"

definition sha_pad :: "string \<Rightarrow> string" where
  "sha_pad m = m @ [CHR 0x80] @ replicate ((119 - length m mod 64) mod 64) (CHR 0x00)
     @ be_bytes4 (8 * int (length m) div 4294967296) @ be_bytes4 (8 * int (length m))"

definition sha256 :: "string \<Rightarrow> string" where
  "sha256 m = (let p = sha_pad m in concat (map (\<lambda>w. be_bytes4 (uint w)) (sha_blocks (length p div 64) (be_words p) H256)))"

definition sha256_hex :: "bytes \<Rightarrow> string" where
  "sha256_hex m = hex_of (sha256 m)"

section \<open>The shape of a digest\<close>

lemma length_sha_rounds: "length s = 8 \<Longrightarrow> length (sha_rounds kws s) = 8"
  by (induction kws s rule: sha_rounds.induct) (auto simp: Let_def)

lemma length_sha_schedule: "length (sha_schedule n ws) = n"
  by (induction n ws rule: sha_schedule.induct) auto

lemma length_sha_compress: "length h = 8 \<Longrightarrow> length (sha_compress h blk) = 8"
  by (simp add: sha_compress_def length_sha_rounds)

lemma length_sha_blocks: "length h = 8 \<Longrightarrow> length (sha_blocks n ws h) = 8"
  by (induction n ws h rule: sha_blocks.induct) (auto simp: length_sha_compress)

lemma length_concat_words: "length (concat (map (\<lambda>w. be_bytes4 (uint w)) ws)) = 4 * length ws"
  by (induction ws) (auto simp: be_bytes4_def)

lemma length_sha256 [simp]: "length (sha256 m) = 32"
  by (simp add: sha256_def Let_def length_concat_words length_sha_blocks H256_def)

lemma length_sha256_hex [simp]: "length (sha256_hex m) = 64"
  by (simp add: sha256_hex_def)

lemma sha256_hex_lower_hex: "list_all is_lower_hex (sha256_hex m)"
  by (simp add: sha256_hex_def hex_of_lower_hex)

lemma lower_sha256_hex [simp]: "lower (sha256_hex m) = sha256_hex m"
  by (simp add: sha256_hex_def)

section \<open>32-byte hexadecimal values\<close>

text \<open>
  The condition the source repeats in every module for a 32-byte value: a text of 66 characters
  that starts with 0x and whose rest \<open>int(_, 16)\<close> accepts.
\<close>

definition is_hash32 :: "string \<Rightarrow> bool" where
  "is_hash32 v \<longleftrightarrow> length v = 66 \<and> starts_with ''0x'' v \<and> int16_ok (drop 2 v)"

text \<open>\<open>"0x" + hashlib.sha256(m).hexdigest()\<close>.\<close>

definition digest0x :: "bytes \<Rightarrow> string" where
  "digest0x m = ''0x'' @ sha256_hex m"

lemma is_hash32_digest0x [simp]: "is_hash32 (digest0x m)"
  using length_sha256_hex [of m]
  by (auto simp: is_hash32_def digest0x_def starts_with_def
      intro!: int16_ok_lower_hex sha256_hex_lower_hex simp del: length_sha256_hex)

lemma lower_digest0x [simp]: "lower (digest0x m) = digest0x m"
proof -
  have "lower ''0x'' = ''0x''"
    by (simp add: lower_def lower_char_def)
  then show ?thesis
    by (simp only: digest0x_def lower_append lower_sha256_hex)
qed

lemma digest0x_inject: "digest0x x = digest0x y \<longleftrightarrow> sha256 x = sha256 y"
  by (simp add: digest0x_def sha256_hex_def)

lemma length_digest0x [simp]: "length (digest0x m) = 66"
  by (simp add: digest0x_def)

lemma is_hash32_lower: "is_hash32 v \<Longrightarrow> is_hash32 (lower v)"
  by (simp add: is_hash32_def starts_with_0x_lowerI drop_lower)

end
