(* ===== verification/Json.thy ===== *)
theory Json
  imports Text
begin

text \<open>
  The JSON of \<open>json.dumps(v, sort_keys=True, separators=(",", ":"))\<close> and of \<open>json.loads\<close>, for
  documents whose numbers are integers: the source never serialises a float, and \<open>json_loads\<close> is
  \<open>None\<close> on a document with a float literal or with a code point above 255. The lemmas show that
  reading back what was written gives the same document, that the fuel of the reader is always
  enough, and that two documents have the same canonical text only if they are equal up to the
  order of object members.
\<close>

datatype json =
    JNull
  | JBool bool
  | JInt int
  | JStr string
  | JArr "json list"
  | JObj "(string \<times> json) list"

section \<open>Writing\<close>

text \<open>\<open>json.dumps\<close> with \<open>ensure_ascii\<close>: what is not printable ASCII becomes an escape.\<close>

definition json_escape :: "char \<Rightarrow> string" where
  "json_escape c =
     (if c = CHR 0x22 then [CHR 0x5C, CHR 0x22]
      else if c = CHR 0x5C then [CHR 0x5C, CHR 0x5C]
      else if c = CHR 0x0A then [CHR 0x5C, CHR ''n'']
      else if c = CHR 0x0D then [CHR 0x5C, CHR ''r'']
      else if c = CHR 0x09 then [CHR 0x5C, CHR ''t'']
      else if c = CHR 0x0C then [CHR 0x5C, CHR ''f'']
      else if c = CHR 0x08 then [CHR 0x5C, CHR ''b'']
      else if (of_char c :: nat) < 32 \<or> 126 < (of_char c :: nat)
      then [CHR 0x5C, CHR ''u'', CHR ''0'', CHR ''0'',
            hex_digit (of_char c div 16), hex_digit (of_char c mod 16)]
      else [c])"

definition json_quote :: "string \<Rightarrow> string" where
  "json_quote s = CHR 0x22 # concat (map json_escape s) @ [CHR 0x22]"

fun join :: "string \<Rightarrow> string list \<Rightarrow> string" where
  "join sep [] = []"
| "join sep [s] = s"
| "join sep (s # t # ss) = s @ sep @ join sep (t # ss)"

definition json_member :: "string \<times> string \<Rightarrow> string" where
  "json_member m = json_quote (fst m) @ '':'' @ snd m"

primrec json_render :: "json \<Rightarrow> string" where
  "json_render JNull = ''null''"
| "json_render (JBool b) = (if b then ''true'' else ''false'')"
| "json_render (JInt i) = int_str i"
| "json_render (JStr s) = json_quote s"
| "json_render (JArr vs) = ''['' @ join '','' (map json_render vs) @ '']''"
| "json_render (JObj ms) =
     ''{'' @ join '','' (map json_member (map (map_prod id json_render) ms)) @ ''}''"

text \<open>\<open>sort_keys=True\<close> sorts the members of every object.\<close>

primrec json_canon :: "json \<Rightarrow> json" where
  "json_canon JNull = JNull"
| "json_canon (JBool b) = JBool b"
| "json_canon (JInt i) = JInt i"
| "json_canon (JStr s) = JStr s"
| "json_canon (JArr vs) = JArr (map json_canon vs)"
| "json_canon (JObj ms) = JObj (sort_key fst (map (map_prod id json_canon) ms))"

definition json_dumps :: "json \<Rightarrow> string" where
  "json_dumps v = json_render (json_canon v)"

text \<open>
  Equality of documents as Python compares them: the order of object members does not count and
  \<open>True == 1\<close>, \<open>False == 0\<close>.
\<close>

primrec py_norm :: "json \<Rightarrow> json" where
  "py_norm JNull = JNull"
| "py_norm (JBool b) = JInt (if b then 1 else 0)"
| "py_norm (JInt i) = JInt i"
| "py_norm (JStr s) = JStr s"
| "py_norm (JArr vs) = JArr (map py_norm vs)"
| "py_norm (JObj ms) = JObj (sort_key fst (map (map_prod id py_norm) ms))"

definition py_eq :: "json \<Rightarrow> json \<Rightarrow> bool" where
  "py_eq v w \<longleftrightarrow> py_norm v = py_norm w"

lemma py_eq_refl [simp]: "py_eq v v"
  by (simp add: py_eq_def)

lemma py_eq_simps [simp]:
  "py_eq (JInt i) (JInt j) \<longleftrightarrow> i = j"
  "py_eq (JStr s) (JStr t) \<longleftrightarrow> s = t"
  by (simp_all add: py_eq_def)

text \<open>The keys of an object, and the object without one of them.\<close>

definition json_keys :: "(string \<times> json) list \<Rightarrow> string set" where
  "json_keys ms = set (map fst ms)"

definition json_without :: "string \<Rightarrow> (string \<times> json) list \<Rightarrow> (string \<times> json) list" where
  "json_without k ms = filter (\<lambda>m. fst m \<noteq> k) ms"

text \<open>\<open>d[k]\<close> where the key is known to be there.\<close>

definition json_at :: "(string \<times> json) list \<Rightarrow> string \<Rightarrow> json" where
  "json_at ms k = (case map_of ms k of Some v \<Rightarrow> v | None \<Rightarrow> JNull)"

text \<open>The value of a field a dataclass declares as \<open>str\<close> or \<open>int\<close>.\<close>

definition str_field :: "json \<Rightarrow> string result" where
  "str_field v = (case v of JStr s \<Rightarrow> Inr s | _ \<Rightarrow> Inl UndeclaredType)"

definition int_field :: "json \<Rightarrow> int result" where
  "int_field v = (case v of JInt i \<Rightarrow> Inr i | _ \<Rightarrow> Inl UndeclaredType)"

lemma field_simps [simp]:
  "str_field (JStr s) = Inr s"
  "int_field (JInt i) = Inr i"
  by (simp_all add: str_field_def int_field_def)

section \<open>Reading\<close>

definition skip_ws :: "string \<Rightarrow> string" where
  "skip_ws = dropWhile (\<lambda>c. c \<in> {CHR 0x20, CHR 0x09, CHR 0x0A, CHR 0x0D})"

definition json_unescape :: "char \<Rightarrow> char option" where
  "json_unescape e =
     map_of [(CHR 0x22, CHR 0x22), (CHR 0x5C, CHR 0x5C), (CHR ''/'', CHR ''/''),
             (CHR ''b'', CHR 0x08), (CHR ''f'', CHR 0x0C), (CHR ''n'', CHR 0x0A),
             (CHR ''r'', CHR 0x0D), (CHR ''t'', CHR 0x09)] e"

definition push_fst :: "'a \<Rightarrow> ('a list \<times> 'b) option \<Rightarrow> ('a list \<times> 'b) option" where
  "push_fst x r = map_option (\<lambda>(xs, rest). (x # xs, rest)) r"

fun parse_str :: "string \<Rightarrow> (string \<times> string) option" where
  "parse_str [] = None"
| "parse_str (c # cs) =
     (if c = CHR 0x22 then Some ([], cs)
      else if c = CHR 0x5C then
        (case cs of
           [] \<Rightarrow> None
         | e # ds \<Rightarrow>
             (if e = CHR ''u'' then
                (case ds of
                   h1 # h2 # h3 # h4 # rest \<Rightarrow>
                     (if list_all is_hex_digit [h1, h2, h3, h4] \<and> digit_val h1 = 0 \<and> digit_val h2 = 0
                      then push_fst (char_of (16 * digit_val h3 + digit_val h4)) (parse_str rest)
                      else None)
                 | _ \<Rightarrow> None)
              else (case json_unescape e of None \<Rightarrow> None | Some x \<Rightarrow> push_fst x (parse_str ds))))
      else if (of_char c :: nat) < 32 then None
      else push_fst c (parse_str cs))"

definition is_digit :: "char \<Rightarrow> bool" where
  "is_digit c = (48 \<le> (of_char c :: nat) \<and> (of_char c :: nat) \<le> 57)"

definition digits_val :: "string \<Rightarrow> nat" where
  "digits_val s = foldl (\<lambda>a c. 10 * a + (of_char c - 48)) 0 s"

definition parse_nat :: "string \<Rightarrow> (nat \<times> string) option" where
  "parse_nat s =
     (let ds = takeWhile is_digit s;
          (n, rest) = (if ds \<noteq> [] \<and> hd ds = CHR ''0'' then (0, tl s) else (digits_val ds, dropWhile is_digit s))
      in if ds = [] \<or> (rest \<noteq> [] \<and> hd rest \<in> {CHR ''.'', CHR ''e'', CHR ''E''}) then None
         else Some (n, rest))"

definition parse_int :: "string \<Rightarrow> (int \<times> string) option" where
  "parse_int s =
     (if starts_with ''-'' s then map_option (\<lambda>(n, rest). (- int n, rest)) (parse_nat (tl s))
      else map_option (\<lambda>(n, rest). (int n, rest)) (parse_nat s))"

text \<open>Later members replace earlier ones of the same name, as in a Python dict.\<close>

definition dict_of :: "(string \<times> 'a) list \<Rightarrow> (string, 'a) dict" where
  "dict_of ms = foldl (\<lambda>d (k, v). dict_set k v d) [] ms"

fun parse_value :: "nat \<Rightarrow> string \<Rightarrow> (json \<times> string) option"
  and parse_elems :: "nat \<Rightarrow> string \<Rightarrow> (json list \<times> string) option"
  and parse_members :: "nat \<Rightarrow> string \<Rightarrow> ((string \<times> json) list \<times> string) option"
where
  "parse_value 0 s = None"
| "parse_value (Suc n) s =
     (case s of
        [] \<Rightarrow> None
      | c # r \<Rightarrow>
          if c = CHR 0x22 then map_option (\<lambda>(t, rest). (JStr t, rest)) (parse_str r)
          else if c = CHR ''{'' then
            (if starts_with ''}'' (skip_ws r) then Some (JObj [], tl (skip_ws r))
             else map_option (\<lambda>(ms, rest). (JObj (dict_of ms), rest)) (parse_members n (skip_ws r)))
          else if c = CHR ''['' then
            (if starts_with '']'' (skip_ws r) then Some (JArr [], tl (skip_ws r))
             else map_option (\<lambda>(vs, rest). (JArr vs, rest)) (parse_elems n (skip_ws r)))
          else if starts_with ''null'' s then Some (JNull, drop 4 s)
          else if starts_with ''true'' s then Some (JBool True, drop 4 s)
          else if starts_with ''false'' s then Some (JBool False, drop 5 s)
          else map_option (\<lambda>(i, rest). (JInt i, rest)) (parse_int s))"
| "parse_elems 0 s = None"
| "parse_elems (Suc n) s =
     (case parse_value n s of
        None \<Rightarrow> None
      | Some (v, r) \<Rightarrow>
          (case skip_ws r of
             [] \<Rightarrow> None
           | c # r' \<Rightarrow>
               if c = CHR '']'' then Some ([v], r')
               else if c = CHR '','' then push_fst v (parse_elems n (skip_ws r'))
               else None))"
| "parse_members 0 s = None"
| "parse_members (Suc n) s =
     (case s of
        [] \<Rightarrow> None
      | q # r \<Rightarrow>
          if q \<noteq> CHR 0x22 then None
          else
            (case parse_str r of
               None \<Rightarrow> None
             | Some (k, r1) \<Rightarrow>
                 (case skip_ws r1 of
                    [] \<Rightarrow> None
                  | c # r2 \<Rightarrow>
                      if c \<noteq> CHR '':'' then None
                      else
                        (case parse_value n (skip_ws r2) of
                           None \<Rightarrow> None
                         | Some (v, r3) \<Rightarrow>
                             (case skip_ws r3 of
                                [] \<Rightarrow> None
                              | d # r4 \<Rightarrow>
                                  if d = CHR ''}'' then Some ([(k, v)], r4)
                                  else if d = CHR '','' then push_fst (k, v) (parse_members n (skip_ws r4))
                                  else None)))))"

declare parse_value.simps(2) [simp del] parse_elems.simps(2) [simp del] parse_members.simps(2) [simp del]

definition json_loads :: "string \<Rightarrow> json option" where
  "json_loads s =
     (case parse_value (2 * length s + 1) (skip_ws s) of
        None \<Rightarrow> None
      | Some (v, rest) \<Rightarrow> (if skip_ws rest = [] then Some v else None))"

section \<open>The fuel of the reader is enough\<close>

lemma length_skip_ws: "length (skip_ws s) \<le> length s"
  by (simp add: skip_ws_def length_dropWhile_le)

lemma push_fst_Some_iff:
  "push_fst x r = Some (ys, rest) \<longleftrightarrow> (\<exists>xs. r = Some (xs, rest) \<and> ys = x # xs)"
  by (auto simp: push_fst_def)

lemma parse_str_shorter: "parse_str s = Some (t, rest) \<Longrightarrow> length rest < length s"
proof (induction s arbitrary: t rest rule: parse_str.induct)
  case (2 c cs)
  show ?case
    using 2 by (fastforce simp: push_fst_Some_iff less_Suc_eq split: if_splits list.splits option.splits)
qed simp

lemma parse_nat_shorter: "parse_nat s = Some (n, rest) \<Longrightarrow> length rest < length s"
proof -
  have "length (dropWhile is_digit s) < length s" if "takeWhile is_digit s \<noteq> []"
    using that by (cases s) (auto simp: le_imp_less_Suc length_dropWhile_le split: if_splits)
  then show "parse_nat s = Some (n, rest) \<Longrightarrow> ?thesis"
    by (cases s) (auto simp: parse_nat_def Let_def split: if_splits)
qed

lemma parse_int_shorter: "parse_int s = Some (i, rest) \<Longrightarrow> length rest < length s"
  by (cases s) (auto simp: parse_int_def dest: parse_nat_shorter split: if_splits)

lemma tl_skip_ws: "length (tl (skip_ws s)) \<le> length s"
  using length_skip_ws [of s] by simp

lemma parse_shorter:
  "parse_value n s = Some (v, rest) \<Longrightarrow> length rest < length s"
  "parse_elems n s = Some (vs, rest) \<Longrightarrow> length rest < length s"
  "parse_members n s = Some (ms, rest) \<Longrightarrow> length rest < length s"
proof (induction n s and n s and n s arbitrary: v rest and vs rest and ms rest
    rule: parse_value_parse_elems_parse_members.induct)
  case (2 n s)
  show ?case
  proof (cases s)
    case (Cons c r)
    have members: "length rest' < length r"
      if "parse_members n (skip_ws r) = Some (ms, rest')" "c = CHR ''{''" "\<not> starts_with ''}'' (skip_ws r)" for ms rest'
      using "2.IH"(1) [OF Cons _ that(2,3,1)] that(2) length_skip_ws [of r] by simp
    have elems: "length rest' < length r"
      if "parse_elems n (skip_ws r) = Some (vs, rest')" "c = CHR ''[''" "\<not> starts_with '']'' (skip_ws r)" for vs rest'
      using "2.IH"(2) [OF Cons _ _ that(2,3,1)] that(2) length_skip_ws [of r] by simp
    have skipped: "length (tl (skip_ws r)) < length s"
      using tl_skip_ws [of r] Cons by simp
    note unfolded = "2.prems" [unfolded parse_value.simps(2) Cons list.case]
    consider "c = CHR 0x22" | "c = CHR ''{''" | "c = CHR ''[''"
      | "c \<noteq> CHR 0x22" "c \<noteq> CHR ''{''" "c \<noteq> CHR ''[''"
      by blast
    then show ?thesis
    proof cases
      case 1
      then show ?thesis
        using unfolded Cons by (auto dest: parse_str_shorter)
    next
      case 2
      then show ?thesis
        using unfolded Cons skipped members by (auto split: if_splits)
    next
      case 3
      then show ?thesis
        using unfolded Cons skipped elems by (auto split: if_splits)
    next
      case 4
      then show ?thesis
        using unfolded Cons parse_int_shorter [of "c # r"]
        by (simp only: if_False) (auto simp del: starts_with_simps split: if_splits)
    qed
  qed (use 2 in \<open>simp add: parse_value.simps(2)\<close>)
next
  case (4 n s)
  from "4.prems" obtain v1 r1 c r2 where v1: "parse_value n s = Some (v1, r1)" "skip_ws r1 = c # r2"
    by (auto simp: parse_elems.simps(2) split: option.splits list.splits)
  have "length r2 < length r1" "length r1 < length s" 
    using "4.IH"(1) v1 length_skip_ws [of r1] by auto
  moreover have "length rest < length r2" if "parse_elems n (skip_ws r2) = Some (xs, rest)" "c = CHR '',''" for xs
    using "4.IH"(2) [OF v1(1) refl v1(2) _ that(2) that(1)] that(2) length_skip_ws [of r2] by simp
  ultimately show ?case
    using "4.prems" v1 by (auto simp: parse_elems.simps(2) push_fst_Some_iff split: if_splits)
next
  case (6 n s)
  from "6.prems" obtain q r k r1 c r2 v1 r3 d r4 where
    steps: "s = q # r" "q = CHR 0x22" "parse_str r = Some (k, r1)" "skip_ws r1 = c # r2" "c = CHR '':''"
      "parse_value n (skip_ws r2) = Some (v1, r3)" "skip_ws r3 = d # r4"
    by (auto simp: parse_members.simps(2) split: option.splits list.splits if_splits)
  have "length r3 < length (skip_ws r2)"
    using "6.IH"(1) [OF steps(1) _ steps(3) refl steps(4) _ steps(6)] steps(2,5) by simp
  then have "length r2 < length s" "length r3 < length r2" "length r4 < length r3"
    using parse_str_shorter [OF steps(3)] length_skip_ws [of r1] length_skip_ws [of r2]
      length_skip_ws [of r3] steps by auto
  moreover have "length rest < length r4" if "parse_members n (skip_ws r4) = Some (xs, rest)" "d = CHR '',''" for xs
    using "6.IH"(2) [OF steps(1) _ steps(3) refl steps(4) _ steps(6) refl steps(7) _ that(2,1)] steps(2,5) that(2)
      length_skip_ws [of r4] by simp
  ultimately show ?case
    using "6.prems" steps by (auto simp: parse_members.simps(2) push_fst_Some_iff split: if_splits)
qed simp_all

text \<open>A value needs fuel for twice its text, elements and members for one step more.\<close>

lemma parse_fuel_Suc:
  "2 * length s < n \<Longrightarrow> parse_value (Suc n) s = parse_value n s"
  "2 * length s + 1 < n \<Longrightarrow> parse_elems (Suc n) s = parse_elems n s"
  "2 * length s + 1 < n \<Longrightarrow> parse_members (Suc n) s = parse_members n s"
proof (induction n s and n s and n s rule: parse_value_parse_elems_parse_members.induct)
  case (2 n s)
  show ?case
  proof (cases s)
    case (Cons c r)
    have "2 * length (skip_ws r) + 1 < n"
      using "2.prems" Cons length_skip_ws [of r] by simp
    then show ?thesis
      using "2.IH" Cons by (simp add: parse_value.simps(2))
  qed (simp add: parse_value.simps(2))
next
  case (4 n s)
  then have first: "parse_value (Suc n) s = parse_value n s"
    by simp
  have more: "parse_elems (Suc n) (skip_ws r2) = parse_elems n (skip_ws r2)"
    if "parse_value n s = Some (v, r1)" "skip_ws r1 = CHR '','' # r2" for v r1 r2
    using "4.IH"(2) [OF that(1) refl that(2)] "4.prems" parse_shorter(1) [OF that(1)]
      length_skip_ws [of r1] length_skip_ws [of r2] that(2) by simp
  show ?case
    by (simp add: parse_elems.simps(2) [of "Suc n" s] parse_elems.simps(2) [of n s] first more split: option.split list.split)
next
  case (6 n s)
  have first: "parse_value (Suc n) (skip_ws r2) = parse_value n (skip_ws r2)"
    if "s = CHR 0x22 # r" "parse_str r = Some (k, r1)" "skip_ws r1 = CHR '':'' # r2" for r k r1 r2
    using "6.IH"(1) [OF that(1) _ that(2) refl that(3)] "6.prems" that parse_str_shorter [OF that(2)]
      length_skip_ws [of r1] length_skip_ws [of r2] by simp
  have more: "parse_members (Suc n) (skip_ws r4) = parse_members n (skip_ws r4)"
    if "s = CHR 0x22 # r" "parse_str r = Some (k, r1)" "skip_ws r1 = CHR '':'' # r2"
      "parse_value n (skip_ws r2) = Some (v, r3)" "skip_ws r3 = CHR '','' # r4" for r k r1 r2 v r3 r4
    using "6.IH"(2) [OF that(1) _ that(2) refl that(3) _ that(4) refl that(5)] "6.prems" that
      parse_str_shorter [OF that(2)] parse_shorter(1) [OF that(4)]
      length_skip_ws [of r1] length_skip_ws [of r2] length_skip_ws [of r3] length_skip_ws [of r4]
    by simp
  show ?case
    by (auto simp: parse_members.simps(2) [of "Suc n" s] parse_members.simps(2) [of n s] first more split: option.split list.split)
qed simp_all

text \<open>So no fuel above the bound changes what \<open>json_loads\<close> reads.\<close>

theorem parse_value_fuel:
  "2 * length s < n \<Longrightarrow> parse_value (n + k) s = parse_value n s"
proof (induction k)
  case (Suc k)
  then show ?case
    using parse_fuel_Suc(1) [of s "n + k"] by simp
qed simp

section \<open>What was written is read back\<close>

lemma push_fst_Some [simp]: "push_fst x (Some (xs, rest)) = Some (x # xs, rest)"
  by (simp add: push_fst_def)

lemma parse_str_escape: "parse_str (json_escape c @ t) = push_fst c (parse_str t)"
proof -
  have hex: "is_hex_digit (hex_digit (of_char c div 16))" "is_hex_digit (hex_digit (of_char c mod 16))"
    by (simp_all add: lower_hex_is_hex hex_digit_lower_hex nibbles)
  have "is_hex_digit (CHR ''0'')" "digit_val (CHR ''0'') = 0"
    by (simp_all add: is_hex_digit_def digit_val_def)
  moreover have "char_of (16 * (of_char c div 16) + of_char c mod 16 :: nat) = c"
    by simp
  ultimately show ?thesis
    using hex by (simp add: json_escape_def json_unescape_def digit_val_hex_digit nibbles)
qed

lemma parse_str_escapes: "parse_str (concat (map json_escape s) @ CHR 0x22 # rest) = Some (s, rest)"
  by (induction s) (simp_all add: parse_str_escape)

lemma nat_str_digits: "list_all is_digit (nat_str n) \<and> nat_str n \<noteq> []"
proof (induction n rule: nat_str.induct)
  case (1 n)
  have digit: "is_digit (char_of (48 + m))" if "m < 10" for m :: nat
    using that by (simp add: is_digit_def of_char_of)
  show ?case
    using 1 by (subst (1 2) nat_str.simps) (auto simp: digit)
qed

lemma digits_val_snoc: "digits_val (s @ [c]) = 10 * digits_val s + (of_char c - 48)"
  by (simp add: digits_val_def)

lemma digits_val_nat_str: "digits_val (nat_str n) = n"
proof (induction n rule: nat_str.induct)
  case (1 n)
  have digit: "of_char (char_of (48 + m)) = 48 + m" if "m < 10" for m :: nat
    using that by (simp add: of_char_of)
  show ?case
  proof (cases "n < 10")
    case True
    then show ?thesis
      by (subst nat_str.simps) (simp add: digits_val_def digit)
  next
    case False
    then show ?thesis
      using 1 by (subst nat_str.simps) (simp add: digits_val_snoc digit)
  qed
qed

lemma nat_str_leading: "hd (nat_str n) = CHR ''0'' \<Longrightarrow> n = 0"
proof (induction n rule: nat_str.induct)
  case (1 n)
  have digit: "of_char (char_of (48 + m)) = 48 + m" if "m < 10" for m :: nat
    using that by (simp add: of_char_of)
  show ?case
  proof (cases "n < 10")
    case True
    with 1 have "char_of (48 + n) = CHR ''0''"
      by (subst (asm) nat_str.simps) simp
    then have "of_char (char_of (48 + n)) = (of_char (CHR ''0'') :: nat)"
      by (simp only:)
    then show ?thesis
      using digit [OF True] by simp
  next
    case False
    then have "hd (nat_str n) = hd (nat_str (n div 10))"
      using nat_str_digits [of "n div 10"] by (subst nat_str.simps) simp
    then show ?thesis
      using 1 False by simp
  qed
qed

text \<open>What may follow a number in a document: nothing, or a separator.\<close>

definition num_stop :: "string \<Rightarrow> bool" where
  "num_stop rest \<longleftrightarrow> rest = [] \<or> hd rest \<in> {CHR '','', CHR '']'', CHR ''}''}"

lemma num_stop_simps [simp]:
  "num_stop []"
  "num_stop (c # r) \<longleftrightarrow> c \<in> {CHR '','', CHR '']'', CHR ''}''}"
  by (simp_all add: num_stop_def)

lemma span_digits:
  assumes "list_all is_digit ds" "num_stop rest"
  shows "takeWhile is_digit (ds @ rest) = ds" "dropWhile is_digit (ds @ rest) = rest"
proof -
  have "takeWhile is_digit rest = []" "dropWhile is_digit rest = rest"
    using assms(2) by (cases rest; auto simp: is_digit_def)+
  then show "takeWhile is_digit (ds @ rest) = ds" "dropWhile is_digit (ds @ rest) = rest"
    using assms(1) by (simp_all add: list_all_iff takeWhile_append2 dropWhile_append2)
qed

lemma parse_nat_str: "num_stop rest \<Longrightarrow> parse_nat (nat_str n @ rest) = Some (n, rest)"
proof -
  assume stop: "num_stop rest"
  have no_float: "rest = [] \<or> hd rest \<notin> {CHR ''.'', CHR ''e'', CHR ''E''}"
    using stop by (cases rest) auto
  show ?thesis
  proof (cases "n = 0")
    case True
    moreover have "is_digit (CHR ''0'')"
      by (simp add: is_digit_def)
    moreover have "takeWhile is_digit rest = []"
      using stop by (cases rest) (auto simp: is_digit_def)
    moreover have "nat_str 0 = [CHR ''0'']"
      by code_simp
    ultimately show ?thesis
      using no_float by (auto simp: parse_nat_def)
  next
    case False
    then show ?thesis
      using no_float nat_str_digits [of n] nat_str_leading [of n]
      by (auto simp: parse_nat_def span_digits stop digits_val_nat_str Let_def)
  qed
qed

lemma parse_int_str: "num_stop rest \<Longrightarrow> parse_int (int_str i @ rest) = Some (i, rest)"
proof -
  have "\<not> starts_with ''-'' (nat_str n @ t)" for n t
    using nat_str_digits [of n] by (cases "nat_str n") (auto simp: starts_with_def is_digit_def)
  then show "num_stop rest \<Longrightarrow> ?thesis"
    by (auto simp: parse_int_def int_str_def parse_nat_str)
qed

text \<open>Every object of the document has distinct member names, as every Python dict has.\<close>

primrec json_ok :: "json \<Rightarrow> bool" where
  "json_ok JNull = True"
| "json_ok (JBool b) = True"
| "json_ok (JInt i) = True"
| "json_ok (JStr s) = True"
| "json_ok (JArr vs) = list_all (\<lambda>b. b) (map json_ok vs)"
| "json_ok (JObj ms) =
     (distinct (map fst ms) \<and> list_all (\<lambda>m. snd m) (map (map_prod id json_ok) ms))"

lemma skip_ws_id: "s \<noteq> [] \<Longrightarrow> hd s \<notin> {CHR 0x20, CHR 0x09, CHR 0x0A, CHR 0x0D} \<Longrightarrow> skip_ws s = s"
  by (cases s) (auto simp: skip_ws_def)

lemma skip_ws_Nil [simp]: "skip_ws [] = []"
  by (simp add: skip_ws_def)

lemma skip_ws_Cons [simp]:
  "skip_ws (c # s) = (if c \<in> {CHR 0x20, CHR 0x09, CHR 0x0A, CHR 0x0D} then skip_ws s else c # s)"
  by (simp add: skip_ws_def)

lemma int_str_head:
  "\<exists>c t. int_str i = c # t \<and> (c = CHR ''-'' \<or> is_digit c)"
proof (cases "i < 0")
  case False
  then show ?thesis
    using nat_str_digits [of "nat i"] by (cases "nat_str (nat i)") (auto simp: int_str_def)
qed (auto simp: int_str_def)

text \<open>No rendered value starts with white space or with a closing bracket.\<close>

lemma json_render_head:
  "\<exists>c t. json_render v = c # t \<and> c \<notin> {CHR 0x20, CHR 0x09, CHR 0x0A, CHR 0x0D, CHR '']'', CHR ''}''}"
proof (cases v)
  case (JInt i)
  then show ?thesis
    using int_str_head [of i] by (auto simp: is_digit_def)
qed (auto simp: json_quote_def)

lemma skip_ws_render [simp]: "skip_ws (json_render v @ rest) = json_render v @ rest"
  using json_render_head [of v] by auto

lemma not_bracket_render [simp]: "\<not> starts_with '']'' (json_render v @ rest)"
  using json_render_head [of v] by (auto simp: starts_with_def)

lemma dict_of_distinct: "distinct (map fst ms) \<Longrightarrow> dict_of ms = ms"
proof -
  have step: "AList.update k v d = d @ [(k, v)]" if "k \<notin> fst ` set d" for k and v :: 'a and d
    using that by (induction d) auto
  have "foldl (\<lambda>d (k, v). dict_set k v d) d ms = d @ ms"
    if "distinct (map fst (d @ ms))" for d
    using that by (induction ms arbitrary: d) (auto simp: step)
  then show "distinct (map fst ms) \<Longrightarrow> ?thesis"
    by (simp add: dict_of_def)
qed

lemma length_join_ge: "s \<in> set ss \<Longrightarrow> length s \<le> length (join sep ss)"
  by (induction sep ss rule: join.induct) auto

lemma parse_render_int:
  assumes "num_stop rest"
  shows "parse_value (Suc n) (int_str i @ rest) = Some (JInt i, rest)"
proof -
  obtain c t where ct: "int_str i = c # t" "c = CHR ''-'' \<or> is_digit c"
    using int_str_head by blast
  have "c \<noteq> CHR 0x22" "c \<noteq> CHR ''{''" "c \<noteq> CHR ''[''" "c \<noteq> CHR ''n''" "c \<noteq> CHR ''t''" "c \<noteq> CHR ''f''"
    using ct(2) by (auto simp: is_digit_def)
  then show ?thesis
    using parse_int_str [OF assms, of i] by (simp add: parse_value.simps(2) ct(1))
qed

text \<open>
  The main induction, on the document: with enough fuel the reader consumes exactly the rendered
  value. \<open>parses\<close> states it for one value; elements and members follow from their parts.
\<close>

definition parses :: "json \<Rightarrow> bool" where
  "parses v \<longleftrightarrow>
     (\<forall>n rest. 2 * length (json_render v) < n \<longrightarrow> num_stop rest \<longrightarrow>
        parse_value n (json_render v @ rest) = Some (v, rest))"

lemma parsesD:
  "parses v \<Longrightarrow> 2 * length (json_render v) < n \<Longrightarrow> num_stop rest \<Longrightarrow>
     parse_value n (json_render v @ rest) = Some (v, rest)"
  by (simp add: parses_def)

lemma parse_elems_render:
  assumes "vs \<noteq> []" "\<And>v. v \<in> set vs \<Longrightarrow> parses v"
    and "2 * length (join '','' (map json_render vs)) + 1 < n"
  shows "parse_elems n (join '','' (map json_render vs) @ CHR '']'' # rest) = Some (vs, rest)"
  using assms
proof (induction vs arbitrary: n)
  case (Cons v vs)
  then obtain m where n: "n = Suc m"
    by (cases n) auto
  show ?case
  proof (cases vs)
    case Nil
    then have "parse_value m (json_render v @ CHR '']'' # rest) = Some (v, CHR '']'' # rest)"
      using Cons.prems n by (auto simp: parses_def)
    then show ?thesis
      using Nil by (simp add: n parse_elems.simps(2))
  next
    case (Cons w ws)
    let ?more = "join '','' (map json_render vs) @ CHR '']'' # rest"
    have "parse_value m (json_render v @ CHR '','' # ?more) = Some (v, CHR '','' # ?more)"
      using Cons.prems n Cons by (auto simp: parses_def)
    moreover have "parse_elems m ?more = Some (vs, rest)"
      using Cons.IH [of m] Cons.prems n Cons by simp
    moreover have "skip_ws ?more = ?more"
      using Cons by (cases ws) simp_all
    ultimately show ?thesis
      using Cons by (simp add: n parse_elems.simps(2))
  qed
qed simp

text \<open>The rendered members of an object, as one text.\<close>

definition members_text :: "(string \<times> json) list \<Rightarrow> string" where
  "members_text ms = join '','' (map json_member (map (map_prod id json_render) ms))"

lemma members_text_simps [simp]:
  "members_text [] = []"
  "members_text [m] = json_quote (fst m) @ '':'' @ json_render (snd m)"
  "members_text (m # m' # ms) =
     json_quote (fst m) @ '':'' @ json_render (snd m) @ '','' @ members_text (m' # ms)"
  by (simp_all add: members_text_def json_member_def)

lemma members_text_head: "ms \<noteq> [] \<Longrightarrow> \<exists>t. members_text ms = CHR 0x22 # t"
  by (cases ms rule: remdups_adj.cases) (auto simp: json_quote_def)

lemma parse_members_render:
  assumes "ms \<noteq> []" "\<And>m. m \<in> set ms \<Longrightarrow> parses (snd m)"
    and "2 * length (members_text ms) + 1 < n"
  shows "parse_members n (members_text ms @ CHR ''}'' # rest) = Some (ms, rest)"
  using assms
proof (induction ms arbitrary: n)
  case (Cons m ms)
  then obtain k where n: "n = Suc k"
    by (cases n) auto
  obtain key v where m: "m = (key, v)"
    by (cases m)
  show ?case
  proof (cases ms)
    case Nil
    then have "parse_value k (json_render v @ CHR ''}'' # rest) = Some (v, CHR ''}'' # rest)"
      using Cons.prems n m by (auto simp: parses_def)
    then show ?thesis
      using Nil by (simp add: n m parse_members.simps(2) json_quote_def parse_str_escapes)
  next
    case (Cons m' ms')
    let ?more = "members_text ms @ CHR ''}'' # rest"
    have "parses v"
      using Cons.prems(2) m by force
    then have "parse_value k (json_render v @ CHR '','' # ?more) = Some (v, CHR '','' # ?more)"
      using Cons.prems(3) n m Cons by (intro parsesD) auto
    moreover have "parse_members k ?more = Some (ms, rest)"
      using Cons.IH [of k] Cons.prems n Cons by simp
    moreover have "skip_ws ?more = ?more"
      using members_text_head [of ms] Cons by auto
    ultimately show ?thesis
      using Cons by (simp add: n m parse_members.simps(2) json_quote_def parse_str_escapes)
  qed
qed simp

lemma parses_arr:
  assumes "\<And>v. v \<in> set vs \<Longrightarrow> parses v"
  shows "parses (JArr vs)"
  unfolding parses_def
proof (intro allI impI)
  fix n rest
  assume n: "2 * length (json_render (JArr vs)) < n"
  then obtain k where k: "n = Suc k" by (cases n) auto
  show "parse_value n (json_render (JArr vs) @ rest) = Some (JArr vs, rest)"
  proof (cases vs)
    case (Cons v ws)
    let ?body = "join '','' (map json_render vs) @ CHR '']'' # rest"
    have "\<exists>t. ?body = json_render v @ t"
      using Cons by (cases ws) auto
    then have "skip_ws ?body = ?body" "\<not> starts_with '']'' ?body"
      by auto
    moreover have "parse_elems k ?body = Some (vs, rest)"
      using assms n k Cons by (intro parse_elems_render) auto
    ultimately show ?thesis
      by (simp add: k parse_value.simps(2))
  qed (simp add: k parse_value.simps(2))
qed

text \<open>An object ends at its own brace, whatever follows it.\<close>

lemma parse_value_obj:
  assumes "\<And>m. m \<in> set ms \<Longrightarrow> parses (snd m)" "distinct (map fst ms)"
    and "2 * length (json_render (JObj ms)) < n"
  shows "parse_value n (json_render (JObj ms) @ rest) = Some (JObj ms, rest)"
proof -
  obtain k where k: "n = Suc k" using assms(3) by (cases n) auto
  have rendered: "json_render (JObj ms) = ''{'' @ members_text ms @ ''}''"
    by (simp add: members_text_def)
  show ?thesis
  proof (cases ms)
    case (Cons m ms')
    let ?body = "members_text ms @ CHR ''}'' # rest"
    obtain t where t: "members_text ms = CHR 0x22 # t"
      using members_text_head [of ms] Cons by auto
    have "parse_members k ?body = Some (ms, rest)"
      using assms(1,3) k Cons rendered by (intro parse_members_render) auto
    then show ?thesis
      using t assms(2) unfolding rendered by (simp add: k parse_value.simps(2) dict_of_distinct)
  qed (simp add: k parse_value.simps(2))
qed

lemma parses_obj:
  assumes "\<And>m. m \<in> set ms \<Longrightarrow> parses (snd m)" "distinct (map fst ms)"
  shows "parses (JObj ms)"
  using parse_value_obj [OF assms] by (simp add: parses_def)

lemma parses_json_ok: "json_ok v \<Longrightarrow> parses v"
proof (induction v)
  case (JInt i)
  have "parse_value n (int_str i @ rest) = Some (JInt i, rest)"
    if "2 * length (int_str i) < n" "num_stop rest" for n rest
    using that parse_render_int by (cases n) auto
  then show ?case
    by (simp add: parses_def)
next
  case (JArr vs)
  then show ?case
    by (intro parses_arr) (auto simp: list_all_iff)
next
  case (JObj ms)
  then show ?case
    by (intro parses_obj) (force simp: list_all_iff)+
next
  case (JStr s)
  show ?case
    unfolding parses_def
  proof (intro allI impI)
    fix n rest
    assume "2 * length (json_render (JStr s)) < n"
    then show "parse_value n (json_render (JStr s) @ rest) = Some (JStr s, rest)"
      by (cases n) (simp_all add: json_quote_def parse_value.simps(2) parse_str_escapes)
  qed
next
  case (JBool b)
  show ?case
    unfolding parses_def
  proof (intro allI impI)
    fix n rest
    assume "2 * length (json_render (JBool b)) < n"
    then show "parse_value n (json_render (JBool b) @ rest) = Some (JBool b, rest)"
      by (cases n; cases b) (simp_all add: parse_value.simps(2))
  qed
next
  case JNull
  show ?case
    unfolding parses_def
  proof (intro allI impI)
    fix n rest
    assume "2 * length (json_render JNull) < n"
    then show "parse_value n (json_render JNull @ rest) = Some (JNull, rest)"
      by (cases n) (simp_all add: parse_value.simps(2))
  qed
qed

lemma json_loads_render: "json_ok v \<Longrightarrow> json_loads (json_render v) = Some v"
proof -
  assume "json_ok v"
  then have "parse_value (2 * length (json_render v) + 1) (json_render v @ []) = Some (v, [])"
    by (intro parsesD parses_json_ok) auto
  then show ?thesis
    using skip_ws_render [of v "[]"] by (simp add: json_loads_def)
qed

lemma parse_value_obj_ok:
  assumes "json_ok (JObj ms)" "2 * length (json_render (JObj ms)) < n"
  shows "parse_value n (json_render (JObj ms) @ rest) = Some (JObj ms, rest)"
  using assms by (intro parse_value_obj parses_json_ok) (force simp: list_all_iff)+

section \<open>Canonical text\<close>

lemma sort_key_map_snd:
  fixes ms :: "('a::linorder \<times> 'c) list"
  shows "sort_key fst (map (map_prod id g) ms) = map (map_prod id g) (sort_key fst ms)"
proof -
  have step: "insort_key fst (map_prod id g x) (map (map_prod id g) ms) = map (map_prod id g) (insort_key fst x ms)"
    for x :: "'a::linorder \<times> 'c" and ms
    by (induction ms) auto
  show ?thesis
    by (induction ms) (simp_all add: step step [unfolded id_def])
qed

lemma json_canon_idem [simp]: "json_canon (json_canon v) = json_canon v"
proof (induction v)
  case (JObj ms)
  have "map (map_prod id json_canon) (map (map_prod id json_canon) ms') = map (map_prod id json_canon) ms'"
    if "set ms' \<subseteq> set ms" for ms'
    using JObj that by (force simp: map_prod_def)
  from this [of "sort_key fst ms"] show ?case
    by (simp add: sort_key_map_snd sort_key_id_if_sorted del: map_map)
qed simp_all

text \<open>Sorting the members of an object changes neither its keys nor what they hold.\<close>

lemma json_keys_canon: "json_canon (JObj ms) = JObj ms' \<Longrightarrow> json_keys ms' = json_keys ms"
  by (force simp: json_keys_def)

lemma json_at_canon:
  assumes "json_canon (JObj ms) = JObj ms'" "dict_ok ms" "k \<in> json_keys ms"
  shows "json_at ms' k = json_canon (json_at ms k)"
proof -
  have "dict_ok (map (map_prod id json_canon) ms)"
    using assms(2) by (simp add: comp_def)
  then have "map_of ms' k = map_option json_canon (map_of ms k)"
    using assms(1) map_of_sort_key [of "map (map_prod id json_canon) ms"] map_of_map [of json_canon ms]
    by (simp add: map_prod_def case_prod_unfold)
  then show ?thesis
    using assms(3) by (auto simp: json_at_def json_keys_def split: option.split simp: map_of_eq_None_iff)
qed

lemma json_ok_canon [simp]: "json_ok v \<Longrightarrow> json_ok (json_canon v)"
proof (induction v)
  case (JObj ms)
  then have "distinct (map fst (map (map_prod id json_canon) ms))"
    by (simp add: comp_def)
  then show ?case
    using JObj by (auto simp: distinct_keys_sort_key list_all_iff simp del: map_map)
qed (auto simp: list_all_iff)

theorem json_loads_dumps: "json_ok v \<Longrightarrow> json_loads (json_dumps v) = Some (json_canon v)"
  by (simp add: json_dumps_def json_loads_render)

text \<open>Two documents have the same canonical text only if they are equal as Python values.\<close>

lemma json_dumps_inject:
  "json_ok v \<Longrightarrow> json_ok w \<Longrightarrow> json_dumps v = json_dumps w \<longleftrightarrow> json_canon v = json_canon w"
  by (metis json_dumps_def json_loads_dumps option.inject)

text \<open>The canonical text of an object is never a proper prefix of another one with a suffix.\<close>

lemma json_dumps_obj_append_inject:
  assumes "json_ok (JObj ms)" "json_ok (JObj ns)"
  shows "json_dumps (JObj ms) @ s = json_dumps (JObj ns) @ t \<longleftrightarrow>
         json_canon (JObj ms) = json_canon (JObj ns) \<and> s = t"
proof
  assume eq: "json_dumps (JObj ms) @ s = json_dumps (JObj ns) @ t"
  obtain ms' ns' where objs: "json_canon (JObj ms) = JObj ms'" "json_canon (JObj ns) = JObj ns'"
    by simp
  define n where "n = Suc (2 * length (json_render (JObj ms')) + 2 * length (json_render (JObj ns')))"
  have "parse_value n (json_render (JObj ms') @ s) = Some (JObj ms', s)"
    using json_ok_canon [OF assms(1)] objs unfolding n_def by (intro parse_value_obj_ok) auto
  moreover have "parse_value n (json_render (JObj ns') @ t) = Some (JObj ns', t)"
    using json_ok_canon [OF assms(2)] objs unfolding n_def by (intro parse_value_obj_ok) auto
  moreover have "json_render (JObj ms') @ s = json_render (JObj ns') @ t"
    using eq unfolding json_dumps_def objs .
  ultimately have "(JObj ms', s) = (JObj ns', t)"
    by (metis option.inject)
  then show "json_canon (JObj ms) = json_canon (JObj ns) \<and> s = t"
    unfolding objs by blast
qed (simp add: json_dumps_def del: json_canon.simps json_render.simps)

lemma is_ascii_simps [simp]:
  "is_ascii []"
  "is_ascii (c # s) \<longleftrightarrow> (of_char c :: nat) < 128 \<and> is_ascii s"
  "is_ascii (s @ t) \<longleftrightarrow> is_ascii s \<and> is_ascii t"
  by (simp_all add: is_ascii_def)

lemma is_ascii_hex_digit: "n < 16 \<Longrightarrow> (of_char (hex_digit n) :: nat) < 128"
  by (auto simp: hex_digit_def of_char_of)

lemma is_ascii_escape: "is_ascii (json_escape c)"
  by (auto simp: json_escape_def is_ascii_hex_digit nibbles)

lemma is_ascii_quote [simp]: "is_ascii (json_quote s)"
  by (induction s) (auto simp: json_quote_def is_ascii_escape)

lemma is_ascii_int_str [simp]: "is_ascii (int_str i)"
proof -
  have "is_ascii (nat_str n)" for n
    using nat_str_digits [of n] by (auto simp: is_ascii_def is_digit_def list_all_iff)
  then show ?thesis
    by (simp add: int_str_def)
qed

lemma is_ascii_join: "is_ascii sep \<Longrightarrow> (\<And>s. s \<in> set ss \<Longrightarrow> is_ascii s) \<Longrightarrow> is_ascii (join sep ss)"
  by (induction sep ss rule: join.induct) auto

lemma is_ascii_render [simp]: "is_ascii (json_render v)"
  by (induction v) (force simp: json_member_def intro!: is_ascii_join)+

lemma is_ascii_dumps [simp]: "is_ascii (json_dumps v)"
  by (simp add: json_dumps_def)

lemma encode_dumps [simp]: "encode (json_dumps v) = json_dumps v"
  by (simp add: encode_ascii)

lemma int_str_inject: "int_str i = int_str j \<longleftrightarrow> i = j"
proof
  assume "int_str i = int_str j"
  moreover have "parse_int (int_str k @ []) = Some (k, [])" for k
    by (rule parse_int_str) simp
  ultimately show "i = j"
    by (metis option.inject prod.inject)
qed simp

end
