(* ===== verification/ProtocolKernel.thy ===== *)
theory ProtocolKernel
  imports Sha256 Json
begin

text \<open>
  \<open>protocol_kernel.py\<close>: the account-state transition kernel. Accounts, transactions, receipts and block
  transitions are records with the fields of the dataclasses; \<open>execute_block\<close> runs
  \<open>apply_transaction\<close>, the body of its loop, over the numbered transactions and stops at the first
  exception. The signature verifier is the callback of the caller, a function into \<open>bool\<close>.
\<close>

section \<open>Data\<close>

record protocol_config =
  cfg_chain_id :: int
  block_gas_limit :: int
  target_gas :: int
  initial_base_fee :: int
  base_fee_change_denominator :: int
  intrinsic_gas :: int
  max_transaction_data_bytes :: int

definition protocol_config_post_init :: "protocol_config \<Rightarrow> unit result" where
  "protocol_config_post_init c =
     (if list_ex (\<lambda>v. v \<le> 0)
           [cfg_chain_id c, block_gas_limit c, target_gas c, initial_base_fee c,
            base_fee_change_denominator c, intrinsic_gas c, max_transaction_data_bytes c]
      then Inl (ProtocolTransitionError ''protocol configuration values must be positive integers'')
      else if target_gas c > block_gas_limit c
      then Inl (ProtocolTransitionError ''target_gas cannot exceed block_gas_limit'')
      else Inr ())"

record account_state =
  balance :: int
  nonce :: int

text \<open>The constructor of \<open>AccountState\<close>, which \<open>replace\<close> runs again.\<close>

definition mk_account :: "int \<Rightarrow> int \<Rightarrow> account_state result" where
  "mk_account b n =
     (if b < 0 \<or> n < 0
      then Inl (ProtocolTransitionError ''account balance and nonce must be non-negative integers'')
      else Inr \<lparr>balance = b, nonce = n\<rparr>)"

record tx_envelope =
  tx_chain_id :: int
  sender :: string
  recipient :: string
  tx_nonce :: int
  tx_value :: int
  gas_limit :: int
  max_fee_per_gas :: int
  max_priority_fee_per_gas :: int
  tx_data :: bytes
  signature :: bytes

definition tx_json :: "tx_envelope \<Rightarrow> json" where
  "tx_json t = JObj
     [(''chain_id'', JInt (tx_chain_id t)),
      (''data'', JStr (hex_of (tx_data t))),
      (''gas_limit'', JInt (gas_limit t)),
      (''max_fee_per_gas'', JInt (max_fee_per_gas t)),
      (''max_priority_fee_per_gas'', JInt (max_priority_fee_per_gas t)),
      (''nonce'', JInt (tx_nonce t)),
      (''recipient'', JStr (lower (recipient t))),
      (''sender'', JStr (lower (sender t))),
      (''value'', JInt (tx_value t))]"

definition signing_payload :: "tx_envelope \<Rightarrow> bytes" where
  "signing_payload t = encode (json_dumps (tx_json t))"

definition transaction_hash :: "tx_envelope \<Rightarrow> string" where
  "transaction_hash t = digest0x (signing_payload t @ signature t)"

record tx_receipt =
  rc_transaction_hash :: string
  transaction_index :: int
  rc_sender :: string
  rc_recipient :: string
  rc_gas_used :: int
  effective_gas_price :: int
  base_fee_burned :: int
  validator_tip :: int
  status :: string

type_synonym accounts = "(string, account_state) dict"

record block_transition =
  bt_chain_id :: int
  base_fee_per_gas :: int
  gas_used :: int
  total_base_fee_burned :: int
  total_validator_tips :: int
  state_root :: string
  bt_accounts :: accounts
  receipts :: "tx_receipt list"

definition block_transition_as_evidence :: "block_transition \<Rightarrow> json" where
  "block_transition_as_evidence b = JObj
     [(''schema_version'', JStr ''junca-protocol-kernel/v1''),
      (''chain_id'', JInt (bt_chain_id b)),
      (''base_fee_per_gas'', JInt (base_fee_per_gas b)),
      (''gas_used'', JInt (gas_used b)),
      (''total_base_fee_burned'', JInt (total_base_fee_burned b)),
      (''total_validator_tips'', JInt (total_validator_tips b)),
      (''state_root'', JStr (state_root b)),
      (''transaction_count'', JInt (int (length (receipts b)))),
      (''transition_status'', JStr ''VERIFIED''),
      (''mainnet_changed'', JBool False),
      (''assets_moved'', JBool False),
      (''bridge_activated'', JBool False)]"

section \<open>Operations\<close>

definition next_base_fee :: "protocol_config \<Rightarrow> int \<Rightarrow> int \<Rightarrow> int result" where
  "next_base_fee c parent_base_fee parent_gas_used =
     (if parent_base_fee \<le> 0
      then Inl (ProtocolTransitionError ''parent_base_fee must be a positive integer'')
      else if \<not> (0 \<le> parent_gas_used \<and> parent_gas_used \<le> block_gas_limit c)
      then Inl (ProtocolTransitionError ''parent_gas_used is outside the block gas boundary'')
      else if parent_gas_used = target_gas c then Inr parent_base_fee
      else
        (let gas_delta = \<bar>parent_gas_used - target_gas c\<bar>;
             fee_delta = parent_base_fee * gas_delta div target_gas c div base_fee_change_denominator c
         in if parent_gas_used > target_gas c then Inr (parent_base_fee + max fee_delta 1)
            else Inr (max (parent_base_fee - fee_delta) 1)))"

definition account_address :: "string \<Rightarrow> string \<Rightarrow> string result" where
  "account_address v field =
     (if length v \<noteq> 42 \<or> \<not> starts_with ''0x'' v
      then Inl (ProtocolTransitionError (field @ '' must be a 20-byte hex address''))
      else if \<not> int16_ok (drop 2 v)
      then Inl (ProtocolTransitionError (field @ '' must be a 20-byte hex address''))
      else Inr (lower v))"

definition normalize_account :: "accounts \<Rightarrow> string \<times> account_state \<Rightarrow> accounts result" where
  "normalize_account normalized item =
     bindE (account_address (fst item) ''account address'') (\<lambda>key.
     if dict_get normalized key \<noteq> None
     then Inl (ProtocolTransitionError ''duplicate account after address normalization'')
     else Inr (dict_set key (snd item) normalized))"

definition normalize_accounts :: "accounts \<Rightarrow> accounts result" where
  "normalize_accounts accounts = foldE normalize_account [] accounts"

definition validate_transaction :: "protocol_config \<Rightarrow> tx_envelope \<Rightarrow> int \<Rightarrow> unit result" where
  "validate_transaction c t base_fee =
     bindE (raise_if (tx_chain_id t \<noteq> cfg_chain_id c)
              (ProtocolTransitionError ''transaction chain_id mismatch'')) (\<lambda>_.
     bindE (account_address (sender t) ''sender'') (\<lambda>_.
     bindE (account_address (recipient t) ''recipient'') (\<lambda>_.
     if list_ex (\<lambda>v. v < 0)
          [tx_nonce t, tx_value t, gas_limit t, max_fee_per_gas t, max_priority_fee_per_gas t]
     then Inl (ProtocolTransitionError ''transaction integer fields must be non-negative'')
     else if gas_limit t < intrinsic_gas c
     then Inl (ProtocolTransitionError ''transaction gas_limit is below intrinsic gas'')
     else if gas_limit t > block_gas_limit c
     then Inl (ProtocolTransitionError ''transaction gas_limit exceeds block gas limit'')
     else if max_fee_per_gas t < base_fee
     then Inl (ProtocolTransitionError ''max_fee_per_gas is below block base fee'')
     else if max_priority_fee_per_gas t > max_fee_per_gas t
     then Inl (ProtocolTransitionError ''priority fee exceeds max fee'')
     else if int (length (tx_data t)) > max_transaction_data_bytes c
     then Inl (ProtocolTransitionError ''transaction data exceeds the protocol boundary'')
     else if signature t = []
     then Inl (ProtocolTransitionError ''transaction signature is required'')
     else Inr ())))"

definition account_json :: "string \<times> account_state \<Rightarrow> json" where
  "account_json item = JObj
     [(''address'', JStr (lower (fst item))),
      (''balance'', JInt (balance (snd item))),
      (''nonce'', JInt (nonce (snd item)))]"

definition compute_state_root :: "accounts \<Rightarrow> string" where
  "compute_state_root accounts =
     digest0x (encode (json_dumps (JArr (map account_json (sort_key fst accounts)))))"

text \<open>The variables of the loop of \<open>execute_block\<close>, and its body.\<close>

record block_loop =
  bl_state :: accounts
  bl_receipts :: "tx_receipt list"
  seen_hashes :: "string set"
  block_gas_used :: int
  total_burned :: int
  total_tips :: int

definition apply_transaction ::
  "protocol_config \<Rightarrow> int \<Rightarrow> (tx_envelope \<Rightarrow> bool) \<Rightarrow> block_loop \<Rightarrow> nat \<times> tx_envelope \<Rightarrow> block_loop result" where
  "apply_transaction c base_fee verifier l item =
     (let t = snd item in
      bindE (validate_transaction c t base_fee) (\<lambda>_.
      let tx_hash = transaction_hash t in
      if tx_hash \<in> seen_hashes l
      then Inl (ProtocolTransitionError ''duplicate transaction hash'')
      else if \<not> verifier t
      then Inl (ProtocolTransitionError ''transaction signature verification failed'')
      else if block_gas_used l + intrinsic_gas c > block_gas_limit c
      then Inl (ProtocolTransitionError ''block gas limit exceeded'')
      else
        let sender_key = lower (sender t);
            recipient_key = lower (recipient t);
            sender = dict_get_default (bl_state l) sender_key \<lparr>balance = 0, nonce = 0\<rparr> in
        if tx_nonce t \<noteq> nonce sender
        then Inl (ProtocolTransitionError ''transaction nonce does not match sender state'')
        else
          let priority_fee = min (max_priority_fee_per_gas t) (max_fee_per_gas t - base_fee);
              effective_gas_price = base_fee + priority_fee;
              fee = intrinsic_gas c * effective_gas_price;
              total_debit = tx_value t + fee in
          if balance sender < total_debit
          then Inl (ProtocolTransitionError ''insufficient sender balance'')
          else
            let recipient = dict_get_default (bl_state l) recipient_key \<lparr>balance = 0, nonce = 0\<rparr> in
            bindE (mk_account (balance sender - total_debit) (nonce sender + 1)) (\<lambda>sender'.
            bindE (mk_account (balance recipient + tx_value t) (nonce recipient)) (\<lambda>recipient'.
            let burned = intrinsic_gas c * base_fee;
                tip = intrinsic_gas c * priority_fee in
            Inr \<lparr>bl_state = dict_set recipient_key recipient' (dict_set sender_key sender' (bl_state l)),
                 bl_receipts = bl_receipts l @
                   [\<lparr>rc_transaction_hash = tx_hash,
                     transaction_index = int (fst item),
                     rc_sender = sender_key,
                     rc_recipient = recipient_key,
                     rc_gas_used = intrinsic_gas c,
                     effective_gas_price = effective_gas_price,
                     base_fee_burned = burned,
                     validator_tip = tip,
                     status = ''SUCCESS''\<rparr>],
                 seen_hashes = insert tx_hash (seen_hashes l),
                 block_gas_used = block_gas_used l + intrinsic_gas c,
                 total_burned = total_burned l + burned,
                 total_tips = total_tips l + tip\<rparr>))))"

definition execute_block ::
  "protocol_config \<Rightarrow> int \<Rightarrow> int \<Rightarrow> accounts \<Rightarrow> tx_envelope list \<Rightarrow> (tx_envelope \<Rightarrow> bool)
     \<Rightarrow> block_transition result" where
  "execute_block c parent_base_fee parent_gas_used accounts txs verifier =
     bindE (normalize_accounts accounts) (\<lambda>state.
     bindE (next_base_fee c parent_base_fee parent_gas_used) (\<lambda>base_fee.
     bindE (foldE (apply_transaction c base_fee verifier)
              \<lparr>bl_state = state, bl_receipts = [], seen_hashes = {},
               block_gas_used = 0, total_burned = 0, total_tips = 0\<rparr>
              (List.enumerate 0 txs)) (\<lambda>l.
     Inr \<lparr>bt_chain_id = cfg_chain_id c,
          base_fee_per_gas = base_fee,
          gas_used = block_gas_used l,
          total_base_fee_burned = total_burned l,
          total_validator_tips = total_tips l,
          state_root = compute_state_root (bl_state l),
          bt_accounts = sort_key fst (bl_state l),
          receipts = bl_receipts l\<rparr>)))"

section \<open>Addresses and accounts\<close>

lemma account_address_Inr [result_elims]:
  "account_address v f = Inr k \<longleftrightarrow>
     length v = 42 \<and> starts_with ''0x'' v \<and> int16_ok (drop 2 v) \<and> k = lower v"
  by (auto simp: account_address_def)

text \<open>A key of a normalised account map: an address in lower case.\<close>

definition canonical_address :: "string \<Rightarrow> bool" where
  "canonical_address k \<longleftrightarrow> account_address k [] = Inr k"

lemma canonical_address_iff:
  "canonical_address k \<longleftrightarrow> length k = 42 \<and> starts_with ''0x'' k \<and> int16_ok (drop 2 k) \<and> lower k = k"
  by (auto simp: canonical_address_def account_address_Inr)

lemma canonical_address_lower:
  "account_address v f = Inr k \<Longrightarrow> canonical_address k"
  by (auto simp: canonical_address_iff account_address_Inr starts_with_0x_lowerI drop_lower)

lemma canonical_address_check: "canonical_address k \<Longrightarrow> account_address k f = Inr k"
  by (simp add: canonical_address_iff account_address_Inr)

definition account_ok :: "account_state \<Rightarrow> bool" where
  "account_ok a \<longleftrightarrow> 0 \<le> balance a \<and> 0 \<le> nonce a"

lemma mk_account_Inr [result_elims]:
  "mk_account b n = Inr a \<longleftrightarrow> 0 \<le> b \<and> 0 \<le> n \<and> a = \<lparr>balance = b, nonce = n\<rparr>"
  by (auto simp: mk_account_def)

text \<open>The type invariant of a normalised account map.\<close>

definition accounts_ok :: "accounts \<Rightarrow> bool" where
  "accounts_ok d \<longleftrightarrow> dict_ok d \<and> (\<forall>(k, a) \<in> set d. canonical_address k \<and> account_ok a)"

lemma accounts_ok_Nil [simp]: "accounts_ok []"
  by (simp add: accounts_ok_def)

lemma accounts_ok_set:
  "accounts_ok d \<Longrightarrow> canonical_address k \<Longrightarrow> account_ok a \<Longrightarrow> accounts_ok (dict_set k a d)"
  by (auto simp: accounts_ok_def set_dict_set)

lemma accounts_ok_sort [simp]: "accounts_ok (sort_key fst d) \<longleftrightarrow> accounts_ok d"
  by (simp add: accounts_ok_def distinct_keys_sort_key)

definition total_balance :: "accounts \<Rightarrow> int" where
  "total_balance d = (\<Sum>p \<leftarrow> d. balance (snd p))"

definition balance_of :: "accounts \<Rightarrow> string \<Rightarrow> int" where
  "balance_of d k = balance (dict_get_default d k \<lparr>balance = 0, nonce = 0\<rparr>)"

definition nonce_of :: "accounts \<Rightarrow> string \<Rightarrow> int" where
  "nonce_of d k = nonce (dict_get_default d k \<lparr>balance = 0, nonce = 0\<rparr>)"

lemma total_balance_simps [simp]:
  "total_balance [] = 0"
  "total_balance (p # d) = balance (snd p) + total_balance d"
  by (simp_all add: total_balance_def)

lemma balance_of_simps [simp]:
  "balance_of [] k = 0"
  "balance_of (p # d) k = (if k = fst p then balance (snd p) else balance_of d k)"
  "balance_of (dict_set k' a d) k = (if k = k' then balance a else balance_of d k)"
  by (cases p; simp add: balance_of_def dict_get_default_def)+

lemma nonce_of_simps [simp]:
  "nonce_of [] k = 0"
  "nonce_of (dict_set k' a d) k = (if k = k' then nonce a else nonce_of d k)"
  by (simp_all add: nonce_of_def dict_get_default_def)

lemma total_balance_set: "total_balance (dict_set k a d) = total_balance d - balance_of d k + balance a"
  by (induction d) auto

lemma total_balance_sort [simp]: "total_balance (sort_key fst d) = total_balance d"
  by (metis total_balance_def mset_map mset_sort sum_mset_sum_list)

lemma nonce_of_sort [simp]: "dict_ok d \<Longrightarrow> nonce_of (sort_key fst d) k = nonce_of d k"
  by (simp add: nonce_of_def dict_get_default_def map_of_sort_key)

lemma balance_of_sort [simp]: "dict_ok d \<Longrightarrow> balance_of (sort_key fst d) k = balance_of d k"
  by (simp add: balance_of_def dict_get_default_def map_of_sort_key)

lemma balance_of_nonneg: "accounts_ok d \<Longrightarrow> 0 \<le> balance_of d k"
  by (auto simp: balance_of_def dict_get_default_def accounts_ok_def account_ok_def
      split: option.split dest!: map_of_SomeD)

lemma nonce_of_nonneg: "accounts_ok d \<Longrightarrow> 0 \<le> nonce_of d k"
  by (auto simp: nonce_of_def dict_get_default_def accounts_ok_def account_ok_def
      split: option.split dest!: map_of_SomeD)

section \<open>Normalisation\<close>

lemma normalize_account_Inr [result_elims]:
  "normalize_account d item = Inr d' \<longleftrightarrow>
     (\<exists>key. account_address (fst item) ''account address'' = Inr key \<and> dict_get d key = None \<and>
        d' = dict_set key (snd item) d)"
  by (auto simp: normalize_account_def bindE_Inr_iff)

lemma normalize_accounts_ok:
  assumes "normalize_accounts accounts = Inr d" "\<forall>(k, a) \<in> set accounts. account_ok a"
  shows "accounts_ok d"
  using assms(1) unfolding normalize_accounts_def
  by (rule foldE_invariant)
     (use assms(2) in \<open>auto simp: normalize_account_Inr intro!: accounts_ok_set dest: canonical_address_lower\<close>)

lemma normalize_accounts_total:
  "normalize_accounts accounts = Inr d \<Longrightarrow> total_balance d = total_balance accounts"
proof -
  have "foldE normalize_account s accounts = Inr d \<Longrightarrow> total_balance d = total_balance s + total_balance accounts" for s
    by (induction accounts arbitrary: s)
       (auto simp: bindE_Inr_iff normalize_account_Inr total_balance_set balance_of_def dict_get_default_def)
  from this [of "[]"] show "normalize_accounts accounts = Inr d \<Longrightarrow> ?thesis"
    by (simp add: normalize_accounts_def)
qed

text \<open>A normalised map is left as it is.\<close>

lemma normalize_accounts_id: "accounts_ok d \<Longrightarrow> normalize_accounts d = Inr d"
proof -
  have "accounts_ok (s @ d) \<Longrightarrow> foldE normalize_account s d = Inr (s @ d)" for s
  proof (induction d arbitrary: s)
    case (Cons p d)
    obtain k a where p: "p = (k, a)" by (cases p)
    have k: "canonical_address k" "dict_get s k = None"
      using Cons.prems by (auto simp: p accounts_ok_def map_of_eq_None_iff)
    then have "normalize_account s p = Inr (s @ [p])"
      by (simp add: p normalize_account_Inr canonical_address_check dict_set_new)
    then show ?case
      using Cons.IH [of "s @ [p]"] Cons.prems by simp
  qed simp
  from this [of "[]"] show "accounts_ok d \<Longrightarrow> ?thesis"
    by (simp add: normalize_accounts_def)
qed
section \<open>One transaction\<close>

definition priority_fee :: "int \<Rightarrow> tx_envelope \<Rightarrow> int" where
  "priority_fee base_fee t = min (max_priority_fee_per_gas t) (max_fee_per_gas t - base_fee)"

definition self_transfer :: "tx_envelope \<Rightarrow> bool" where
  "self_transfer t \<longleftrightarrow> lower (sender t) = lower (recipient t)"

definition tx_debit :: "protocol_config \<Rightarrow> int \<Rightarrow> tx_envelope \<Rightarrow> int" where
  "tx_debit c base_fee t = tx_value t + intrinsic_gas c * (base_fee + priority_fee base_fee t)"

definition tx_receipt_of :: "protocol_config \<Rightarrow> int \<Rightarrow> nat \<times> tx_envelope \<Rightarrow> tx_receipt" where
  "tx_receipt_of c base_fee item =
     (let t = snd item in
      \<lparr>rc_transaction_hash = transaction_hash t,
       transaction_index = int (fst item),
       rc_sender = lower (sender t),
       rc_recipient = lower (recipient t),
       rc_gas_used = intrinsic_gas c,
       effective_gas_price = base_fee + priority_fee base_fee t,
       base_fee_burned = intrinsic_gas c * base_fee,
       validator_tip = intrinsic_gas c * priority_fee base_fee t,
       status = ''SUCCESS''\<rparr>)"

definition state_after :: "protocol_config \<Rightarrow> int \<Rightarrow> tx_envelope \<Rightarrow> accounts \<Rightarrow> accounts" where
  "state_after c base_fee t s =
     dict_set (lower (recipient t))
       \<lparr>balance = balance_of s (lower (recipient t)) + tx_value t, nonce = nonce_of s (lower (recipient t))\<rparr>
       (dict_set (lower (sender t))
         \<lparr>balance = balance_of s (lower (sender t)) - tx_debit c base_fee t,
          nonce = nonce_of s (lower (sender t)) + 1\<rparr> s)"

text \<open>The guards of the loop body, in its order.\<close>

definition tx_admissible ::
  "protocol_config \<Rightarrow> int \<Rightarrow> (tx_envelope \<Rightarrow> bool) \<Rightarrow> block_loop \<Rightarrow> tx_envelope \<Rightarrow> bool" where
  "tx_admissible c base_fee verifier l t \<longleftrightarrow>
     validate_transaction c t base_fee = Inr () \<and>
     transaction_hash t \<notin> seen_hashes l \<and>
     verifier t \<and>
     block_gas_used l + intrinsic_gas c \<le> block_gas_limit c \<and>
     tx_nonce t = nonce_of (bl_state l) (lower (sender t)) \<and>
     tx_debit c base_fee t \<le> balance_of (bl_state l) (lower (sender t)) \<and>
     0 \<le> nonce_of (bl_state l) (lower (sender t)) + 1 \<and>
     0 \<le> balance_of (bl_state l) (lower (recipient t)) + tx_value t \<and>
     0 \<le> nonce_of (bl_state l) (lower (recipient t))"

lemma apply_transaction_Inr [result_elims]:
  "apply_transaction c base_fee verifier l item = Inr l' \<longleftrightarrow>
     tx_admissible c base_fee verifier l (snd item) \<and>
     l' = \<lparr>bl_state = state_after c base_fee (snd item) (bl_state l),
           bl_receipts = bl_receipts l @ [tx_receipt_of c base_fee item],
           seen_hashes = insert (transaction_hash (snd item)) (seen_hashes l),
           block_gas_used = block_gas_used l + intrinsic_gas c,
           total_burned = total_burned l + intrinsic_gas c * base_fee,
           total_tips = total_tips l + intrinsic_gas c * priority_fee base_fee (snd item)\<rparr>"
  by (auto simp: apply_transaction_def Let_def bindE_Inr_iff mk_account_Inr tx_admissible_def
      state_after_def tx_receipt_of_def tx_debit_def priority_fee_def balance_of_def nonce_of_def
      split: if_splits)

lemma validate_transaction_Inr [result_elims]:
  "validate_transaction c t base_fee = Inr u \<longleftrightarrow>
     tx_chain_id t = cfg_chain_id c \<and>
     account_address (sender t) ''sender'' = Inr (lower (sender t)) \<and>
     account_address (recipient t) ''recipient'' = Inr (lower (recipient t)) \<and>
     0 \<le> tx_nonce t \<and> 0 \<le> tx_value t \<and> 0 \<le> gas_limit t \<and> 0 \<le> max_fee_per_gas t \<and>
     0 \<le> max_priority_fee_per_gas t \<and>
     intrinsic_gas c \<le> gas_limit t \<and> gas_limit t \<le> block_gas_limit c \<and>
     base_fee \<le> max_fee_per_gas t \<and> max_priority_fee_per_gas t \<le> max_fee_per_gas t \<and>
     int (length (tx_data t)) \<le> max_transaction_data_bytes c \<and> signature t \<noteq> []"
  by (auto simp: validate_transaction_def bindE_Inr_iff raise_if_Inr_iff account_address_Inr split: if_splits)

lemma state_after_total:
  "total_balance (state_after c base_fee t s) =
     total_balance s - intrinsic_gas c * (base_fee + priority_fee base_fee t)
       + (if self_transfer t then tx_debit c base_fee t else 0)"
  by (auto simp: state_after_def total_balance_set tx_debit_def self_transfer_def)

lemma state_after_nonce:
  "nonce_of (state_after c base_fee t s) a =
     (if a = lower (sender t) \<and> \<not> self_transfer t then nonce_of s a + 1 else nonce_of s a)"
  by (auto simp: state_after_def self_transfer_def)

lemma state_after_ok:
  assumes "tx_admissible c base_fee verifier l t" "accounts_ok (bl_state l)"
  shows "accounts_ok (state_after c base_fee t (bl_state l))"
proof -
  have "canonical_address (lower (sender t))" "canonical_address (lower (recipient t))"
    using assms(1) by (auto simp: tx_admissible_def validate_transaction_Inr dest: canonical_address_lower)
  then show ?thesis
    using assms unfolding state_after_def
    by (intro accounts_ok_set) (auto simp: account_ok_def tx_admissible_def)
qed

section \<open>A block\<close>

definition minted_by_self_transfers :: "protocol_config \<Rightarrow> int \<Rightarrow> tx_envelope list \<Rightarrow> int" where
  "minted_by_self_transfers c base_fee txs =
     (\<Sum>t \<leftarrow> txs. if self_transfer t then tx_debit c base_fee t else 0)"

lemma minted_simps [simp]:
  "minted_by_self_transfers c b [] = 0"
  "minted_by_self_transfers c b (t # ts) =
     (if self_transfer t then tx_debit c b t else 0) + minted_by_self_transfers c b ts"
  by (simp_all add: minted_by_self_transfers_def)

lemma minted_zero: "(\<forall>t \<in> set txs. \<not> self_transfer t) \<Longrightarrow> minted_by_self_transfers c b txs = 0"
  by (induction txs) auto

text \<open>The loop over the numbered transactions, as one predicate on the variables before and after.\<close>

abbreviation run_block ::
  "protocol_config \<Rightarrow> int \<Rightarrow> (tx_envelope \<Rightarrow> bool) \<Rightarrow> nat \<Rightarrow> block_loop \<Rightarrow> tx_envelope list \<Rightarrow> block_loop result" where
  "run_block c b v n l txs \<equiv> foldE (apply_transaction c b v) l (List.enumerate n txs)"

lemma run_block_Cons:
  "run_block c b v n l (t # ts) = bindE (apply_transaction c b v l (n, t)) (\<lambda>l'. run_block c b v (Suc n) l' ts)"
  by simp

lemma run_block_total:
  "run_block c b v n l txs = Inr l' \<Longrightarrow>
     total_balance (bl_state l') + total_burned l' + total_tips l' =
     total_balance (bl_state l) + total_burned l + total_tips l + minted_by_self_transfers c b txs"
  by (induction txs arbitrary: n l)
     (auto simp: bindE_Inr_iff apply_transaction_Inr state_after_total algebra_simps)

lemma run_block_gas:
  "run_block c b v n l txs = Inr l' \<Longrightarrow>
     block_gas_used l' = block_gas_used l + intrinsic_gas c * int (length txs)"
  by (induction txs arbitrary: n l) (auto simp: bindE_Inr_iff apply_transaction_Inr algebra_simps)

lemma run_block_gas_bound:
  "run_block c b v n l txs = Inr l' \<Longrightarrow> block_gas_used l \<le> block_gas_limit c \<Longrightarrow>
     block_gas_used l' \<le> block_gas_limit c"
  by (induction txs arbitrary: n l) (auto simp: bindE_Inr_iff apply_transaction_Inr tx_admissible_def)

lemma run_block_receipts:
  "run_block c b v n l txs = Inr l' \<Longrightarrow>
     bl_receipts l' = bl_receipts l @ map (tx_receipt_of c b) (List.enumerate n txs)"
  by (induction txs arbitrary: n l) (auto simp: bindE_Inr_iff apply_transaction_Inr)

lemma run_block_totals:
  "run_block c b v n l txs = Inr l' \<Longrightarrow>
     total_burned l' = total_burned l + (\<Sum>t \<leftarrow> txs. intrinsic_gas c * b) \<and>
     total_tips l' = total_tips l + (\<Sum>t \<leftarrow> txs. intrinsic_gas c * priority_fee b t)"
  by (induction txs arbitrary: n l) (auto simp: bindE_Inr_iff apply_transaction_Inr)

lemma run_block_checked:
  "run_block c b v n l txs = Inr l' \<Longrightarrow>
     distinct (map transaction_hash txs) \<and> transaction_hash ` set txs \<inter> seen_hashes l = {} \<and>
     (\<forall>t \<in> set txs. validate_transaction c t b = Inr () \<and> v t)"
  by (induction txs arbitrary: n l)
     (fastforce simp: bindE_Inr_iff apply_transaction_Inr tx_admissible_def)+

lemma run_block_ok:
  "run_block c b v n l txs = Inr l' \<Longrightarrow> accounts_ok (bl_state l) \<Longrightarrow> accounts_ok (bl_state l')"
  by (rule foldE_invariant [where P = "\<lambda>l. accounts_ok (bl_state l)"])
     (auto simp: apply_transaction_Inr intro: state_after_ok)

definition sent_by :: "string \<Rightarrow> tx_envelope list \<Rightarrow> tx_envelope list" where
  "sent_by a txs = filter (\<lambda>t. lower (sender t) = a) txs"

lemma sent_by_simps [simp]:
  "sent_by a [] = []"
  "sent_by a (t # ts) = (if lower (sender t) = a then t # sent_by a ts else sent_by a ts)"
  by (simp_all add: sent_by_def)

lemma upt_shift: "map (\<lambda>k. m + 1 + int k) [0..<n] = map (\<lambda>k. m + int k) [1..<Suc n]"
  by (rule nth_equalityI) (auto simp del: upt_Suc)

lemma run_block_nonces:
  "run_block c b v n l txs = Inr l' \<Longrightarrow> \<forall>t \<in> set txs. \<not> self_transfer t \<Longrightarrow>
     nonce_of (bl_state l') a = nonce_of (bl_state l) a + int (length (sent_by a txs)) \<and>
     map tx_nonce (sent_by a txs) =
       map (\<lambda>k. nonce_of (bl_state l) a + int k) [0..<length (sent_by a txs)]"
proof (induction txs arbitrary: n l)
  case (Cons t txs)
  from Cons.prems(1) obtain l1 where
    l1: "apply_transaction c b v l (n, t) = Inr l1" "run_block c b v (Suc n) l1 txs = Inr l'"
    by (auto simp: bindE_Inr_iff)
  then have "bl_state l1 = state_after c b t (bl_state l)"
    "tx_nonce t = nonce_of (bl_state l) (lower (sender t))"
    by (auto simp: apply_transaction_Inr tx_admissible_def)
  then show ?case
    using Cons.IH [OF l1(2)] Cons.prems(2)
    by (auto simp: state_after_nonce upt_shift upt_conv_Cons simp del: upt_Suc)
qed simp

lemma execute_block_Inr [result_elims]:
  "execute_block c pf pg accounts txs v = Inr bt \<longleftrightarrow>
     (\<exists>s b l. normalize_accounts accounts = Inr s \<and> next_base_fee c pf pg = Inr b \<and>
        run_block c b v 0
          \<lparr>bl_state = s, bl_receipts = [], seen_hashes = {}, block_gas_used = 0, total_burned = 0, total_tips = 0\<rparr>
          txs = Inr l \<and>
        bt = \<lparr>bt_chain_id = cfg_chain_id c, base_fee_per_gas = b, gas_used = block_gas_used l,
              total_base_fee_burned = total_burned l, total_validator_tips = total_tips l,
              state_root = compute_state_root (bl_state l), bt_accounts = sort_key fst (bl_state l),
              receipts = bl_receipts l\<rparr>)"
  by (auto simp: execute_block_def bindE_Inr_iff)

section \<open>Base fee\<close>

lemma next_base_fee_Inr [result_elims]:
  "next_base_fee c pf pg = Inr b \<longleftrightarrow>
     0 < pf \<and> 0 \<le> pg \<and> pg \<le> block_gas_limit c \<and>
     (let d = pf * \<bar>pg - target_gas c\<bar> div target_gas c div base_fee_change_denominator c in
      b = (if pg = target_gas c then pf else if pg > target_gas c then pf + max d 1 else max (pf - d) 1))"
  by (auto simp: next_base_fee_def Let_def)

lemma base_fee_step_bound:
  fixes pf g t d k :: int
  assumes "0 < pf" "0 \<le> g" "g \<le> k * t" "0 < t" "0 < d"
  shows "0 \<le> pf * g div t div d \<and> pf * g div t div d \<le> k * pf div d"
proof -
  have "pf * g \<le> pf * (k * t)"
    using assms by (intro mult_left_mono) auto
  then have "pf * g div t \<le> (k * pf) * t div t"
    using assms(4) by (intro zdiv_mono1) (simp_all add: ac_simps)
  also have "\<dots> = k * pf"
    using assms(4) by simp
  finally have "pf * g div t div d \<le> k * pf div d"
    using assms(5) by (intro zdiv_mono1) auto
  moreover have "0 \<le> pf * g div t div d"
    using assms by (simp add: pos_imp_zdiv_nonneg_iff)
  ultimately show ?thesis by simp
qed

text \<open>
  C37. The next base fee is positive and follows the parent's load: unchanged at the target, higher
  by at least one above it, not higher below it. With a block limit of at most twice the target, as
  in the default configuration, one block moves it by at most the parent fee divided by the change
  denominator, or by one where that quotient is zero.
\<close>

theorem next_base_fee_bounds:
  assumes "protocol_config_post_init c = Inr ()" "next_base_fee c pf pg = Inr b"
  shows "1 \<le> b \<and> (pg = target_gas c \<longrightarrow> b = pf) \<and> (pg > target_gas c \<longrightarrow> pf < b) \<and>
         (pg < target_gas c \<longrightarrow> b \<le> pf) \<and>
         (block_gas_limit c \<le> 2 * target_gas c \<longrightarrow>
            pf - pf div base_fee_change_denominator c \<le> b \<and>
            b \<le> pf + max 1 (pf div base_fee_change_denominator c))"
proof -
  have pos: "0 < target_gas c" "0 < base_fee_change_denominator c"
    using assms(1) by (auto simp: protocol_config_post_init_def split: if_splits)
  define d where "d = pf * \<bar>pg - target_gas c\<bar> div target_gas c div base_fee_change_denominator c"
  define q where "q = pf div base_fee_change_denominator c"
  have b: "0 < pf" "0 \<le> pg" "pg \<le> block_gas_limit c"
      "b = (if pg = target_gas c then pf else if pg > target_gas c then pf + max d 1 else max (pf - d) 1)"
    using assms(2) by (auto simp: next_base_fee_Inr Let_def d_def)
  have "0 \<le> d" "0 \<le> q"
    using b(1) pos by (simp_all add: pos_imp_zdiv_nonneg_iff d_def q_def)
  moreover have "d \<le> q" if "block_gas_limit c \<le> 2 * target_gas c"
    using base_fee_step_bound [of pf "\<bar>pg - target_gas c\<bar>" 1 "target_gas c"] b pos that
    by (auto simp: d_def q_def)
  ultimately show ?thesis
    using b unfolding q_def [symmetric] by (auto simp: max_def)
qed

definition default_config :: "int \<Rightarrow> protocol_config" where
  "default_config chain =
     \<lparr>cfg_chain_id = chain, block_gas_limit = 30000000, target_gas = 15000000,
      initial_base_fee = 1000000000, base_fee_change_denominator = 8, intrinsic_gas = 21000,
      max_transaction_data_bytes = 131072\<rparr>"

lemma next_base_fee_bounds_witness:
  "875000000 \<le> (1125000000 :: int) \<and>
   next_base_fee (default_config 7) 1000000000 30000000 = Inr 1125000000 \<and>
   (1125000000 :: int) \<le> 1000000000 + max 1 (1000000000 div 8)"
proof -
  have "protocol_config_post_init (default_config 7) = Inr ()"
    by (simp add: protocol_config_post_init_def default_config_def)
  moreover have "next_base_fee (default_config 7) 1000000000 30000000 = Inr 1125000000"
    by (simp add: next_base_fee_def default_config_def)
  ultimately show ?thesis
    using next_base_fee_bounds [of "default_config 7" 1000000000 30000000 1125000000]
    by (simp add: default_config_def)
qed

section \<open>Properties of a block\<close>



section \<open>Sample inputs\<close>

definition addr_a :: string where "addr_a = ''0x00000000000000000000000000000000000000Aa''"
definition addr_b :: string where "addr_b = ''0x00000000000000000000000000000000000000bb''"

definition sample_config :: protocol_config where
  "sample_config =
     \<lparr>cfg_chain_id = 7, block_gas_limit = 20, target_gas = 10, initial_base_fee = 2,
      base_fee_change_denominator = 8, intrinsic_gas = 5, max_transaction_data_bytes = 4\<rparr>"

definition sample_tx :: "string \<Rightarrow> string \<Rightarrow> int \<Rightarrow> tx_envelope" where
  "sample_tx from to n =
     \<lparr>tx_chain_id = 7, sender = from, recipient = to, tx_nonce = n, tx_value = 30, gas_limit = 5,
      max_fee_per_gas = 4, max_priority_fee_per_gas = 1, tx_data = [], signature = [CHR ''s'']\<rparr>"

definition sample_accounts :: accounts where
  "sample_accounts = [(addr_a, \<lparr>balance = 200, nonce = 3\<rparr>)]"

lemma lower_addr:
  "lower addr_a = ''0x00000000000000000000000000000000000000aa''"
  "lower addr_b = addr_b"
  by (simp_all add: addr_a_def addr_b_def lower_def lower_char_def Let_def) code_simp

lemma sample_addresses [simp]:
  "account_address addr_a f = Inr (lower addr_a)"
  "account_address addr_b f = Inr (lower addr_b)"
proof -
  have "int16_ok (drop 2 addr_a)" "int16_ok (drop 2 addr_b)"
    by (simp_all add: addr_a_def addr_b_def int16_ok_def is_int_space_def is_hex_digit_def)
  then show "account_address addr_a f = Inr (lower addr_a)" "account_address addr_b f = Inr (lower addr_b)"
    by (simp_all add: account_address_Inr) (simp_all add: addr_a_def addr_b_def)
qed

lemma lower_addr_distinct [simp]: "lower addr_a \<noteq> lower addr_b" "lower addr_b \<noteq> lower addr_a"
  unfolding lower_addr by (simp_all add: addr_b_def)

lemmas sample_defs = sample_config_def sample_tx_def sample_accounts_def


section \<open>Properties of a block, continued\<close>

lemma sum_list_const: "(\<Sum>t \<leftarrow> xs. (k :: int)) = k * int (length xs)"
  by (induction xs) (auto simp: algebra_simps)

lemma map_snd_comp_enumerate: "map (\<lambda>item. g (snd item)) (List.enumerate n xs) = map g xs"
  by (induction xs arbitrary: n) auto

lemma map_fst_comp_enumerate: "map (\<lambda>item. g (fst item)) (List.enumerate n xs) = map g [n..<n + length xs]"
  using arg_cong [OF map_fst_enumerate [of n xs], of "map g"] by (simp add: comp_def del: map_fst_enumerate)

text \<open>What the loop body unfolds to on concrete inputs.\<close>

lemmas exec_defs =
  apply_transaction_def validate_transaction_def mk_account_def dict_get_default_def raise_if_def Let_def

lemma priority_fee_bounds:
  "validate_transaction c t b = Inr () \<Longrightarrow> 0 \<le> priority_fee b t \<and> b + priority_fee b t \<le> max_fee_per_gas t"
  by (auto simp: validate_transaction_Inr priority_fee_def)




text \<open>
  Nonces order the transactions of a sender: in a block without transfers to oneself, the nonces
  of each sender's transactions are the successive integers from its account nonce, and the account
  nonce afterwards is past all of them, so none of them can be executed again.
\<close>

theorem execute_block_nonces:
  assumes "accounts_ok accounts" "execute_block c pf pg accounts txs v = Inr bt"
    and "\<forall>t \<in> set txs. \<not> self_transfer t"
  shows "map tx_nonce (sent_by a txs) =
           map (\<lambda>k. nonce_of accounts a + int k) [0..<length (sent_by a txs)] \<and>
         nonce_of (bt_accounts bt) a = nonce_of accounts a + int (length (sent_by a txs)) \<and>
         (\<forall>t \<in> set (sent_by a txs). tx_nonce t < nonce_of (bt_accounts bt) a)"
proof -
  obtain b l where l: "run_block c b v 0
      \<lparr>bl_state = accounts, bl_receipts = [], seen_hashes = {}, block_gas_used = 0, total_burned = 0, total_tips = 0\<rparr>
      txs = Inr l" and bt: "bt_accounts bt = sort_key fst (bl_state l)"
    using assms(2) by (auto simp: execute_block_Inr normalize_accounts_id [OF assms(1)])
  have "dict_ok (bl_state l)"
    using run_block_ok [OF l] assms(1) by (simp add: accounts_ok_def)
  then have after: "nonce_of (bt_accounts bt) a = nonce_of accounts a + int (length (sent_by a txs))"
    and nonces: "map tx_nonce (sent_by a txs) =
      map (\<lambda>k. nonce_of accounts a + int k) [0..<length (sent_by a txs)]"
    using run_block_nonces [OF l assms(3), of a] by (simp_all add: bt)
  have "tx_nonce t < nonce_of (bt_accounts bt) a" if "t \<in> set (sent_by a txs)" for t
  proof -
    have "tx_nonce t \<in> set (map tx_nonce (sent_by a txs))"
      using that by simp
    then show ?thesis
      unfolding nonces after by auto
  qed
  with after nonces show ?thesis by simp
qed

lemma execute_block_nonces_witness:
  "\<exists>bt. execute_block sample_config 2 10 [(lower addr_a, \<lparr>balance = 200, nonce = 3\<rparr>)]
          [sample_tx addr_a addr_b 3] (\<lambda>_. True) = Inr bt \<and>
     nonce_of (bt_accounts bt) (lower addr_a) = 4"
proof -
  let ?accounts = "[(lower addr_a, \<lparr>balance = 200, nonce = 3\<rparr>)]"
  have ok: "accounts_ok ?accounts"
    using canonical_address_lower [OF sample_addresses(1)] by (simp add: accounts_ok_def account_ok_def)
  have "\<exists>bt. execute_block sample_config 2 10 ?accounts [sample_tx addr_a addr_b 3] (\<lambda>_. True) = Inr bt"
    by (simp add: execute_block_def normalize_accounts_id [OF ok] next_base_fee_def
        exec_defs sample_defs)
  then obtain bt where bt: "execute_block sample_config 2 10 ?accounts [sample_tx addr_a addr_b 3] (\<lambda>_. True) = Inr bt" ..
  have "nonce_of ?accounts (lower addr_a) = 3"
    by (simp add: nonce_of_def dict_get_default_def)
  then show ?thesis
    using execute_block_nonces [OF ok bt, of "lower addr_a"] bt by (simp add: self_transfer_def sample_tx_def)
qed

text \<open>
  What an executed block certifies of each transaction: it passed the validation rules at the
  block's base fee and the signature verifier, no hash occurs twice, the block's gas is the
  intrinsic gas of every transaction and within the limit, and the receipts follow the transactions
  one by one with a price between the base fee and the transaction's cap.
\<close>

theorem execute_block_receipts:
  assumes "protocol_config_post_init c = Inr ()" "execute_block c pf pg accounts txs v = Inr bt"
  shows "(\<forall>t \<in> set txs. validate_transaction c t (base_fee_per_gas bt) = Inr () \<and> v t) \<and>
         distinct (map transaction_hash txs) \<and>
         gas_used bt = intrinsic_gas c * int (length txs) \<and> gas_used bt \<le> block_gas_limit c \<and>
         map rc_transaction_hash (receipts bt) = map transaction_hash txs \<and>
         map transaction_index (receipts bt) = map int [0..<length txs] \<and>
         total_base_fee_burned bt = (\<Sum>r \<leftarrow> receipts bt. base_fee_burned r) \<and>
         total_validator_tips bt = (\<Sum>r \<leftarrow> receipts bt. validator_tip r) \<and>
         list_all2 (\<lambda>t r. base_fee_per_gas bt \<le> effective_gas_price r \<and>
                          effective_gas_price r \<le> max_fee_per_gas t \<and>
                          base_fee_burned r + validator_tip r = rc_gas_used r * effective_gas_price r)
                   txs (receipts bt)"
proof -
  obtain s b l where l: "run_block c b v 0
      \<lparr>bl_state = s, bl_receipts = [], seen_hashes = {}, block_gas_used = 0, total_burned = 0, total_tips = 0\<rparr>
      txs = Inr l" and bt: "base_fee_per_gas bt = b" "receipts bt = bl_receipts l" "gas_used bt = block_gas_used l"
      "total_base_fee_burned bt = total_burned l" "total_validator_tips bt = total_tips l"
    using assms(2) by (auto simp: execute_block_Inr)
  have "0 < block_gas_limit c"
    using assms(1) by (auto simp: protocol_config_post_init_def split: if_splits)
  note facts = run_block_gas [OF l] run_block_gas_bound [OF l] run_block_receipts [OF l]
    run_block_totals [OF l] run_block_checked [OF l]
  have receipts: "receipts bt = map (tx_receipt_of c b) (List.enumerate 0 txs)"
    using facts(3) bt by simp
  have sums: "(\<Sum>r \<leftarrow> receipts bt. base_fee_burned r) = (\<Sum>t \<leftarrow> txs. intrinsic_gas c * b)"
    "(\<Sum>r \<leftarrow> receipts bt. validator_tip r) = (\<Sum>t \<leftarrow> txs. intrinsic_gas c * priority_fee b t)"
    unfolding receipts map_map comp_def tx_receipt_of_def Let_def
    by (simp_all add: map_snd_comp_enumerate [of "\<lambda>t. intrinsic_gas c * b"]
        map_snd_comp_enumerate [of "\<lambda>t. intrinsic_gas c * priority_fee b t"])
  have columns: "map rc_transaction_hash (receipts bt) = map transaction_hash txs"
    "map transaction_index (receipts bt) = map int [0..<length txs]"
    unfolding receipts map_map comp_def tx_receipt_of_def Let_def
    using map_fst_comp_enumerate [of int 0 txs] by (simp_all add: map_snd_comp_enumerate)
  have "b \<le> effective_gas_price (tx_receipt_of c b (i, t)) \<and>
      effective_gas_price (tx_receipt_of c b (i, t)) \<le> max_fee_per_gas t \<and>
      base_fee_burned (tx_receipt_of c b (i, t)) + validator_tip (tx_receipt_of c b (i, t)) =
        rc_gas_used (tx_receipt_of c b (i, t)) * effective_gas_price (tx_receipt_of c b (i, t))"
    if "t \<in> set txs" for i t
    using facts(5) priority_fee_bounds [of c t b] that
    by (auto simp: tx_receipt_of_def Let_def algebra_simps)
  then have "list_all2 (\<lambda>t r. b \<le> effective_gas_price r \<and> effective_gas_price r \<le> max_fee_per_gas t \<and>
      base_fee_burned r + validator_tip r = rc_gas_used r * effective_gas_price r) txs (receipts bt)"
    unfolding receipts by (auto simp: list_all2_conv_all_nth nth_enumerate_eq)
  then show ?thesis
    using facts sums columns bt \<open>0 < block_gas_limit c\<close> by simp
qed

lemma execute_block_receipts_witness:
  "\<exists>bt. execute_block sample_config 2 10 sample_accounts [sample_tx addr_a addr_b 3] (\<lambda>_. True) = Inr bt \<and>
     gas_used bt = 5 \<and> gas_used bt \<le> 20 \<and> length (receipts bt) = 1"
proof -
  have config: "protocol_config_post_init sample_config = Inr ()"
    by (simp add: protocol_config_post_init_def sample_config_def)
  have "\<exists>bt. execute_block sample_config 2 10 sample_accounts [sample_tx addr_a addr_b 3] (\<lambda>_. True) = Inr bt"
    by (simp add: execute_block_def normalize_accounts_def normalize_account_def next_base_fee_def
        exec_defs sample_defs)
  then obtain bt where bt: "execute_block sample_config 2 10 sample_accounts [sample_tx addr_a addr_b 3] (\<lambda>_. True) = Inr bt" ..
  show ?thesis
    using execute_block_receipts [OF config bt] bt
    by (auto simp: sample_config_def list_all2_lengthD [symmetric] dest: list_all2_lengthD)
qed

text \<open>
  The accounts of an executed block are in canonical form: distinct lower-case addresses in
  order, balances and nonces that are not negative, and a state root that is the root of exactly
  these accounts, provided the accounts before it had valid values.
\<close>

theorem execute_block_canonical:
  assumes "execute_block c pf pg accounts txs v = Inr bt" "\<forall>(k, a) \<in> set accounts. account_ok a"
  shows "accounts_ok (bt_accounts bt) \<and> sorted (map fst (bt_accounts bt)) \<and>
         state_root bt = compute_state_root (bt_accounts bt) \<and> bt_chain_id bt = cfg_chain_id c \<and>
         normalize_accounts (bt_accounts bt) = Inr (bt_accounts bt)"
proof -
  obtain s b l where s: "normalize_accounts accounts = Inr s" and l: "run_block c b v 0
      \<lparr>bl_state = s, bl_receipts = [], seen_hashes = {}, block_gas_used = 0, total_burned = 0, total_tips = 0\<rparr>
      txs = Inr l" and bt: "bt_accounts bt = sort_key fst (bl_state l)"
      "state_root bt = compute_state_root (bl_state l)" "bt_chain_id bt = cfg_chain_id c"
    using assms(1) by (auto simp: execute_block_Inr)
  have "accounts_ok (bl_state l)"
    using run_block_ok [OF l] normalize_accounts_ok [OF s assms(2)] by simp
  then show ?thesis
    by (simp add: bt normalize_accounts_id compute_state_root_def sort_key_id_if_sorted)
qed

lemma execute_block_canonical_witness:
  "\<exists>bt. execute_block sample_config 2 10 sample_accounts [] (\<lambda>_. True) = Inr bt \<and> accounts_ok (bt_accounts bt)"
proof -
  have "\<exists>bt. execute_block sample_config 2 10 sample_accounts [] (\<lambda>_. True) = Inr bt"
    by (simp add: execute_block_def normalize_accounts_def normalize_account_def next_base_fee_def sample_defs)
  then obtain bt where bt: "execute_block sample_config 2 10 sample_accounts [] (\<lambda>_. True) = Inr bt" ..
  show ?thesis
    using execute_block_canonical [OF bt] bt by (auto simp: sample_accounts_def account_ok_def)
qed


section \<open>What hashes and roots commit to\<close>

text \<open>A transaction as the payload sees it: addresses in lower case.\<close>

definition lower_addresses :: "tx_envelope \<Rightarrow> tx_envelope" where
  "lower_addresses t = t\<lparr>sender := lower (sender t), recipient := lower (recipient t)\<rparr>"

lemma tx_json_ok [simp]: "json_ok (tx_json t)"
  by (simp add: tx_json_def)

lemma tx_json_canon: "json_canon (tx_json t) = json_canon (tx_json u) \<longleftrightarrow> tx_json t = tx_json u"
  by (simp add: tx_json_def)

lemma tx_json_inject:
  "tx_json t = tx_json u \<and> signature t = signature u \<longleftrightarrow> lower_addresses t = lower_addresses u"
  by (cases t; cases u) (auto simp: tx_json_def lower_addresses_def)

text \<open>
  A transaction hash commits to the whole transaction: two transactions have the same hash only
  if they agree in every field up to the case of the addresses, or their two encodings are a
  collision of SHA-256. The encoding itself is unambiguous, although the signature follows the
  payload without a separator.
\<close>

theorem transaction_hash_commits:
  "transaction_hash t = transaction_hash u \<longleftrightarrow>
     lower_addresses t = lower_addresses u \<or>
     (signing_payload t @ signature t \<noteq> signing_payload u @ signature u \<and>
      sha256 (signing_payload t @ signature t) = sha256 (signing_payload u @ signature u))"
proof -
  have "signing_payload t @ signature t = signing_payload u @ signature u \<longleftrightarrow>
      json_canon (tx_json t) = json_canon (tx_json u) \<and> signature t = signature u"
    unfolding signing_payload_def encode_dumps
    using tx_json_ok [of t] tx_json_ok [of u] unfolding tx_json_def
    by (rule json_dumps_obj_append_inject)
  then have "signing_payload t @ signature t = signing_payload u @ signature u \<longleftrightarrow>
      lower_addresses t = lower_addresses u"
    by (simp only: tx_json_canon tx_json_inject)
  then show ?thesis
    by (auto simp: transaction_hash_def digest0x_def sha256_hex_def)
qed

definition state_root_text :: "accounts \<Rightarrow> bytes" where
  "state_root_text accounts = encode (json_dumps (JArr (map account_json (sort_key fst accounts))))"

lemma account_json_inject:
  "json_canon (account_json p) = json_canon (account_json q) \<longleftrightarrow> lower (fst p) = lower (fst q) \<and> snd p = snd q"
  by (cases "snd p"; cases "snd q") (auto simp: account_json_def)

lemma state_root_text_inject:
  assumes "accounts_ok d" "accounts_ok e"
  shows "state_root_text d = state_root_text e \<longleftrightarrow> map_of d = map_of e"
proof
  assume "map_of d = map_of e"
  then show "state_root_text d = state_root_text e"
    using assms by (simp add: state_root_text_def accounts_ok_def dict_eq_of_sorted [of d e])
next
  assume eq: "state_root_text d = state_root_text e"
  let ?d = "sort_key fst d" and ?e = "sort_key fst e"
  have ok: "json_ok (JArr (map account_json xs))" for xs
    by (simp add: account_json_def list_all_iff)
  have "json_canon (JArr (map account_json ?d)) = json_canon (JArr (map account_json ?e))"
    using eq json_dumps_inject [OF ok ok] by (simp only: state_root_text_def encode_dumps)
  then have "map (json_canon \<circ> account_json) ?d = map (json_canon \<circ> account_json) ?e"
    by simp
  moreover have keys: "lower (fst p) = fst p" if "p \<in> set ?d \<union> set ?e" for p
    using assms that by (auto simp: accounts_ok_def canonical_address_iff)
  have "inj_on (json_canon \<circ> account_json) (set ?d \<union> set ?e)"
  proof (rule inj_onI)
    fix p q
    assume "p \<in> set ?d \<union> set ?e" "q \<in> set ?d \<union> set ?e"
      "(json_canon \<circ> account_json) p = (json_canon \<circ> account_json) q"
    then show "p = q"
      using keys [of p] keys [of q] by (simp only: comp_def account_json_inject prod_eq_iff)
  qed
  ultimately have "?d = ?e"
    by (rule map_inj_on)
  then show "map_of d = map_of e"
    using assms by (metis map_of_sort_key accounts_ok_def)
qed

text \<open>
  The state root does not depend on the order in which the accounts are held, and it commits to
  them: normalised maps with the same root hold the same accounts, or their canonical texts are a
  collision of SHA-256.
\<close>

theorem state_root_commits:
  assumes "accounts_ok d" "accounts_ok e"
  shows "compute_state_root d = compute_state_root e \<longleftrightarrow>
     map_of d = map_of e \<or>
     (state_root_text d \<noteq> state_root_text e \<and> sha256 (state_root_text d) = sha256 (state_root_text e))"
proof -
  have "compute_state_root d = compute_state_root e \<longleftrightarrow> sha256 (state_root_text d) = sha256 (state_root_text e)"
    by (simp add: compute_state_root_def state_root_text_def digest0x_def sha256_hex_def)
  then show ?thesis
    using state_root_text_inject [OF assms] by auto
qed

lemma state_root_commits_witness:
  "accounts_ok [(lower addr_a, \<lparr>balance = 1, nonce = 0\<rparr>), (lower addr_b, \<lparr>balance = 2, nonce = 0\<rparr>)] \<and>
   compute_state_root [(lower addr_a, \<lparr>balance = 1, nonce = 0\<rparr>), (lower addr_b, \<lparr>balance = 2, nonce = 0\<rparr>)] =
   compute_state_root [(lower addr_b, \<lparr>balance = 2, nonce = 0\<rparr>), (lower addr_a, \<lparr>balance = 1, nonce = 0\<rparr>)]"
proof -
  let ?d = "[(lower addr_a, \<lparr>balance = 1, nonce = 0\<rparr>), (lower addr_b, \<lparr>balance = 2, nonce = 0\<rparr>)]"
  let ?e = "[(lower addr_b, \<lparr>balance = 2, nonce = 0\<rparr>), (lower addr_a, \<lparr>balance = 1, nonce = 0\<rparr>)]"
  have ok: "accounts_ok ?d" "accounts_ok ?e"
    using canonical_address_lower [OF sample_addresses(1)] canonical_address_lower [OF sample_addresses(2)]
    by (simp_all add: accounts_ok_def account_ok_def)
  moreover have "map_of ?d = map_of ?e"
    by (rule ext) simp
  ultimately show ?thesis
    using state_root_commits [OF ok] by blast
qed


end
