(* ===== verification/Mempool.thy ===== *)
theory Mempool
  imports ProtocolKernel "HOL-Library.While_Combinator"
begin

text \<open>
  \<open>mempool.py\<close>: admission, replacement, pruning, block candidates and restart snapshots. A pool is a
  record of its configuration, its policy, the dictionary from sender and nonce to transaction and
  the set of hashes. Every operation raises before it changes the pool, so an exception is an \<open>Inl\<close>
  without a pool. \<open>set.remove\<close> is set difference: the invariant \<open>pool_ok\<close> shows that the element is
  always there. The candidate loop is a \<open>while_option\<close>, proved to end.
\<close>

section \<open>Data\<close>

record mempool_policy =
  max_transactions :: int
  max_per_sender :: int
  max_nonce_gap :: int
  replacement_bump_percent :: int

definition mempool_policy_post_init :: "mempool_policy \<Rightarrow> unit result" where
  "mempool_policy_post_init p =
     (if list_ex (\<lambda>v. v \<le> 0)
           [max_transactions p, max_per_sender p, max_nonce_gap p, replacement_bump_percent p]
      then Inl (MempoolError ''mempool policy values must be positive integers'')
      else if replacement_bump_percent p > 100
      then Inl (MempoolError ''replacement bump percent cannot exceed 100'')
      else Inr ())"

definition default_mempool_policy :: mempool_policy where
  "default_mempool_policy =
     \<lparr>max_transactions = 50000, max_per_sender = 256, max_nonce_gap = 64, replacement_bump_percent = 10\<rparr>"

record admission_result =
  ar_transaction_hash :: string
  ar_status :: string
  pool_size :: int

record block_candidate =
  cand_transactions :: "tx_envelope list"
  cand_gas_limit :: int
  cand_gas_used :: int
  candidate_digest :: string

definition block_candidate_as_evidence :: "block_candidate \<Rightarrow> json" where
  "block_candidate_as_evidence b = JObj
     [(''schema_version'', JStr ''junca-block-candidate/v1''),
      (''transaction_count'', JInt (int (length (cand_transactions b)))),
      (''transaction_hashes'', JArr (map (\<lambda>tx. JStr (transaction_hash tx)) (cand_transactions b))),
      (''gas_limit'', JInt (cand_gas_limit b)),
      (''gas_used'', JInt (cand_gas_used b)),
      (''candidate_digest'', JStr (candidate_digest b)),
      (''selection_status'', JStr ''DETERMINISTIC''),
      (''mainnet_changed'', JBool False),
      (''assets_moved'', JBool False),
      (''bridge_activated'', JBool False)]"

type_synonym pool_key = "string \<times> int"

record tx_pool =
  pool_config :: protocol_config
  pool_policy :: mempool_policy
  pool_txs :: "(pool_key, tx_envelope) dict"
  pool_hashes :: "string set"

definition mk_pool :: "protocol_config \<Rightarrow> mempool_policy option \<Rightarrow> tx_pool" where
  "mk_pool c policy =
     \<lparr>pool_config = c,
      pool_policy = (case policy of Some p \<Rightarrow> p | None \<Rightarrow> default_mempool_policy),
      pool_txs = [], pool_hashes = {}\<rparr>"

section \<open>Admission\<close>

definition validate_admission_boundary ::
  "protocol_config \<Rightarrow> mempool_policy \<Rightarrow> tx_envelope \<Rightarrow> account_state \<Rightarrow> int \<Rightarrow> (tx_envelope \<Rightarrow> bool)
     \<Rightarrow> unit result" where
  "validate_admission_boundary c p t account current_base_fee verifier =
     (if tx_chain_id t \<noteq> cfg_chain_id c
      then Inl (MempoolError ''transaction chain_id mismatch'')
      else if \<not> verifier t
      then Inl (MempoolError ''transaction signature verification failed'')
      else if tx_nonce t < nonce account
      then Inl (MempoolError ''transaction nonce is already consumed'')
      else if tx_nonce t - nonce account > max_nonce_gap p
      then Inl (MempoolError ''transaction nonce gap exceeds policy'')
      else if gas_limit t < intrinsic_gas c \<or> gas_limit t > block_gas_limit c
      then Inl (MempoolError ''transaction gas limit is outside protocol bounds'')
      else if max_fee_per_gas t < current_base_fee
      then Inl (MempoolError ''transaction fee cap is below current base fee'')
      else if max_priority_fee_per_gas t > max_fee_per_gas t
      then Inl (MempoolError ''transaction priority fee exceeds fee cap'')
      else
        let worst_case_debit = tx_value t + gas_limit t * max_fee_per_gas t in
        if balance account < worst_case_debit
        then Inl (MempoolError ''sender cannot cover worst-case transaction debit'')
        else if signature t = []
        then Inl (MempoolError ''transaction signature is required'')
        else Inr ())"

definition validate_replacement :: "mempool_policy \<Rightarrow> tx_envelope \<Rightarrow> tx_envelope \<Rightarrow> unit result" where
  "validate_replacement p current replacement =
     (let denominator = 100;
          numerator = denominator + replacement_bump_percent p;
          required_fee = (max_fee_per_gas current * numerator + denominator - 1) div denominator;
          required_tip = (max_priority_fee_per_gas current * numerator + denominator - 1) div denominator
      in if max_fee_per_gas replacement < required_fee \<or> max_priority_fee_per_gas replacement < required_tip
         then Inl (MempoolError ''replacement transaction fee bump is insufficient'')
         else Inr ())"

definition sender_count :: "(pool_key, tx_envelope) dict \<Rightarrow> string \<Rightarrow> nat" where
  "sender_count txs s = length (filter (\<lambda>item. fst (fst item) = s) txs)"

definition admit ::
  "tx_pool \<Rightarrow> tx_envelope \<Rightarrow> account_state \<Rightarrow> int \<Rightarrow> (tx_envelope \<Rightarrow> bool) \<Rightarrow> (admission_result \<times> tx_pool) result" where
  "admit pool t account current_base_fee verifier =
     bindE (validate_admission_boundary (pool_config pool) (pool_policy pool) t account current_base_fee verifier) (\<lambda>_.
     let sender_key = lower (sender t);
         key = (sender_key, tx_nonce t);
         store = (\<lambda>hashes status.
           let txs = dict_set key t (pool_txs pool) in
           Inr (\<lparr>ar_transaction_hash = transaction_hash t, ar_status = status, pool_size = int (length txs)\<rparr>,
                pool\<lparr>pool_txs := txs, pool_hashes := insert (transaction_hash t) hashes\<rparr>)) in
     if transaction_hash t \<in> pool_hashes pool
     then Inl (MempoolError ''duplicate transaction hash'')
     else
       (case dict_get (pool_txs pool) key of
          None \<Rightarrow>
            if int (length (pool_txs pool)) \<ge> max_transactions (pool_policy pool)
            then Inl (MempoolError ''mempool capacity exceeded'')
            else if int (sender_count (pool_txs pool) sender_key) \<ge> max_per_sender (pool_policy pool)
            then Inl (MempoolError ''per-sender mempool capacity exceeded'')
            else store (pool_hashes pool) ''ADMITTED''
        | Some current \<Rightarrow>
            bindE (validate_replacement (pool_policy pool) current t) (\<lambda>_.
            store (pool_hashes pool - {transaction_hash current}) ''REPLACED'')))"

section \<open>Removal\<close>

definition drop_included :: "tx_pool \<Rightarrow> tx_envelope \<Rightarrow> tx_pool" where
  "drop_included pool t =
     (let key = (lower (sender t), tx_nonce t) in
      case dict_get (pool_txs pool) key of
        None \<Rightarrow> pool
      | Some current \<Rightarrow>
          if transaction_hash current = transaction_hash t
          then pool\<lparr>pool_txs := dict_del key (pool_txs pool),
                    pool_hashes := pool_hashes pool - {transaction_hash current}\<rparr>
          else pool)"

definition remove_included :: "tx_pool \<Rightarrow> tx_envelope list \<Rightarrow> tx_pool" where
  "remove_included pool txs = foldl drop_included pool txs"

definition prunable :: "tx_pool \<Rightarrow> accounts \<Rightarrow> int \<Rightarrow> pool_key \<times> tx_envelope \<Rightarrow> bool" where
  "prunable pool accounts current_base_fee item =
     (let t = snd item; account = dict_get_default accounts (fst (fst item)) \<lparr>balance = 0, nonce = 0\<rparr> in
      tx_nonce t < nonce account \<or> max_fee_per_gas t < current_base_fee \<or>
      tx_nonce t - nonce account > max_nonce_gap (pool_policy pool))"

definition prune_one :: "accounts \<Rightarrow> int \<Rightarrow> string list \<times> tx_pool \<Rightarrow> pool_key \<times> tx_envelope \<Rightarrow> string list \<times> tx_pool" where
  "prune_one accounts current_base_fee acc item =
     (let (removed, pool) = acc in
      if prunable pool accounts current_base_fee item
      then (removed @ [transaction_hash (snd item)],
            pool\<lparr>pool_txs := dict_del (fst item) (pool_txs pool),
                 pool_hashes := pool_hashes pool - {transaction_hash (snd item)}\<rparr>)
      else (removed, pool))"

definition prune :: "tx_pool \<Rightarrow> accounts \<Rightarrow> int \<Rightarrow> string list \<times> tx_pool" where
  "prune pool accounts current_base_fee =
     (let (removed, pool') = foldl (prune_one accounts current_base_fee) ([], pool) (pool_txs pool)
      in (sort removed, pool'))"

section \<open>Block candidates\<close>

definition lower_keys :: "accounts \<Rightarrow> accounts" where
  "lower_keys accounts = foldl (\<lambda>m (k, v). dict_set (lower k) v m) [] accounts"

definition validator_reward_per_gas :: "tx_envelope \<Rightarrow> int \<Rightarrow> int result" where
  "validator_reward_per_gas t base_fee =
     (if max_fee_per_gas t < base_fee
      then Inl (ProtocolTransitionError ''transaction fee cap is below base fee'')
      else Inr (min (max_priority_fee_per_gas t) (max_fee_per_gas t - base_fee)))"

record candidate_loop =
  selected :: "tx_envelope list"
  next_nonce :: "(string, int) dict"
  loop_gas :: int

text \<open>
  The executable heads of one round. The code collects the senders in a set; their order does not
  matter, because the choice below compares a key that ends with the hash.
\<close>

definition head_of_sender ::
  "tx_pool \<Rightarrow> accounts \<Rightarrow> int \<Rightarrow> candidate_loop \<Rightarrow> string \<Rightarrow> tx_envelope option" where
  "head_of_sender pool normalized current_base_fee l s =
     (let n = dict_get_default (next_nonce l) s
                (nonce (dict_get_default normalized s \<lparr>balance = 0, nonce = 0\<rparr>)) in
      case dict_get (pool_txs pool) (s, n) of
        None \<Rightarrow> None
      | Some t \<Rightarrow> if max_fee_per_gas t \<ge> current_base_fee then Some t else None)"

definition executable_heads ::
  "tx_pool \<Rightarrow> accounts \<Rightarrow> int \<Rightarrow> candidate_loop \<Rightarrow> tx_envelope list" where
  "executable_heads pool normalized current_base_fee l =
     List.map_filter (head_of_sender pool normalized current_base_fee l)
       (remdups (map (fst \<circ> fst) (pool_txs pool)))"

definition candidate_key :: "int \<Rightarrow> tx_envelope \<Rightarrow> int \<times> string" where
  "candidate_key base_fee t =
     (case validator_reward_per_gas t base_fee of
        Inr reward \<Rightarrow> (- reward, transaction_hash t)
      | Inl _ \<Rightarrow> (0, transaction_hash t))"

text \<open>\<open>min(items, key=...)\<close>: the first of the smallest.\<close>

fun min_by :: "('a \<Rightarrow> 'k::linorder) \<Rightarrow> 'a \<Rightarrow> 'a list \<Rightarrow> 'a" where
  "min_by key x [] = x"
| "min_by key x (y # ys) = (if key y < key x then min_by key y ys else min_by key x ys)"

definition candidate_step ::
  "tx_pool \<Rightarrow> accounts \<Rightarrow> int \<Rightarrow> candidate_loop \<Rightarrow> candidate_loop" where
  "candidate_step pool normalized current_base_fee l =
     (case executable_heads pool normalized current_base_fee l of
        [] \<Rightarrow> l
      | t # ts \<Rightarrow>
          let best = min_by (candidate_key current_base_fee) t ts in
          \<lparr>selected = selected l @ [best],
           next_nonce = dict_set (lower (sender best)) (tx_nonce best + 1) (next_nonce l),
           loop_gas = loop_gas l + intrinsic_gas (pool_config pool)\<rparr>)"

definition candidate_json :: "int \<Rightarrow> int \<Rightarrow> int \<Rightarrow> tx_envelope list \<Rightarrow> json" where
  "candidate_json chain limit gas txs = JObj
     [(''chain_id'', JInt chain),
      (''gas_limit'', JInt limit),
      (''gas_used'', JInt gas),
      (''transactions'', JArr (map (\<lambda>tx. JStr (transaction_hash tx)) txs))]"

text \<open>\<open>None\<close> where the loop would not end.\<close>

definition build_candidate ::
  "tx_pool \<Rightarrow> accounts \<Rightarrow> int \<Rightarrow> int option \<Rightarrow> block_candidate result option" where
  "build_candidate pool accounts current_base_fee gas_limit_arg =
     (let limit = (case gas_limit_arg of None \<Rightarrow> block_gas_limit (pool_config pool) | Some g \<Rightarrow> g) in
      if \<not> (0 < limit \<and> limit \<le> block_gas_limit (pool_config pool))
      then Some (Inl (MempoolError ''candidate gas limit is outside protocol bounds''))
      else
        let normalized = lower_keys accounts;
            start = \<lparr>selected = [], next_nonce = map (map_prod id nonce) normalized, loop_gas = 0\<rparr> in
        map_option
          (\<lambda>l. Inr \<lparr>cand_transactions = selected l,
                    cand_gas_limit = limit,
                    cand_gas_used = loop_gas l,
                    candidate_digest = digest0x (encode (json_dumps
                      (candidate_json (cfg_chain_id (pool_config pool)) limit (loop_gas l) (selected l))))\<rparr>)
          (while_option
            (\<lambda>l. loop_gas l + intrinsic_gas (pool_config pool) \<le> limit \<and>
                 executable_heads pool normalized current_base_fee l \<noteq> [])
            (candidate_step pool normalized current_base_fee)
            start))"

section \<open>Restart snapshots\<close>

definition transaction_record :: "tx_envelope \<Rightarrow> (string \<times> json) list" where
  "transaction_record t =
     [(''chain_id'', JInt (tx_chain_id t)),
      (''sender'', JStr (lower (sender t))),
      (''recipient'', JStr (lower (recipient t))),
      (''nonce'', JInt (tx_nonce t)),
      (''value'', JInt (tx_value t)),
      (''gas_limit'', JInt (gas_limit t)),
      (''max_fee_per_gas'', JInt (max_fee_per_gas t)),
      (''max_priority_fee_per_gas'', JInt (max_priority_fee_per_gas t)),
      (''data'', JStr (hex_of (tx_data t))),
      (''signature'', JStr (hex_of (signature t))),
      (''transaction_hash'', JStr (transaction_hash t))]"

definition record_fields :: "string list" where
  "record_fields =
     [''chain_id'', ''sender'', ''recipient'', ''nonce'', ''value'', ''gas_limit'', ''max_fee_per_gas'',
      ''max_priority_fee_per_gas'', ''data'', ''signature'', ''transaction_hash'']"

text \<open>\<open>bytes.fromhex(v)\<close>, whose \<open>TypeError\<close> and \<open>ValueError\<close> the code turns into one exception.\<close>

definition hex_field :: "json \<Rightarrow> bytes result" where
  "hex_field v =
     (case v of
        JStr s \<Rightarrow> (case from_hex s of
                     Some b \<Rightarrow> Inr b
                   | None \<Rightarrow> Inl (MempoolError ''mempool snapshot transaction encoding is invalid''))
      | _ \<Rightarrow> Inl (MempoolError ''mempool snapshot transaction encoding is invalid''))"

definition transaction_from_record :: "json \<Rightarrow> tx_envelope result" where
  "transaction_from_record r =
     (case r of
        JObj ms \<Rightarrow>
          if json_keys ms \<noteq> set record_fields
          then Inl (MempoolError ''mempool snapshot transaction fields are invalid'')
          else
            bindE (hex_field (json_at ms ''data'')) (\<lambda>d.
            bindE (hex_field (json_at ms ''signature'')) (\<lambda>sig.
            bindE (int_field (json_at ms ''chain_id'')) (\<lambda>ch.
            bindE (str_field (json_at ms ''sender'')) (\<lambda>s.
            bindE (str_field (json_at ms ''recipient'')) (\<lambda>r.
            bindE (int_field (json_at ms ''nonce'')) (\<lambda>n.
            bindE (int_field (json_at ms ''value'')) (\<lambda>v.
            bindE (int_field (json_at ms ''gas_limit'')) (\<lambda>g.
            bindE (int_field (json_at ms ''max_fee_per_gas'')) (\<lambda>f.
            bindE (int_field (json_at ms ''max_priority_fee_per_gas'')) (\<lambda>p.
            let t = \<lparr>tx_chain_id = ch, sender = s, recipient = r, tx_nonce = n, tx_value = v, gas_limit = g,
                     max_fee_per_gas = f, max_priority_fee_per_gas = p, tx_data = d, signature = sig\<rparr> in
            if \<not> py_eq (json_at ms ''transaction_hash'') (JStr (transaction_hash t))
            then Inl (MempoolError ''mempool snapshot transaction hash mismatch'')
            else Inr t))))))))))
      | _ \<Rightarrow> Inl (MempoolError ''mempool snapshot transaction fields are invalid''))"

definition snapshot_digest :: "(string \<times> json) list \<Rightarrow> string" where
  "snapshot_digest body =
     digest0x (''JUNCA_MEMPOOL_SNAPSHOT_V1'' @ [CHR 0x00] @ encode (json_dumps (JObj body)))"

definition policy_json :: "mempool_policy \<Rightarrow> json" where
  "policy_json p = JObj
     [(''max_transactions'', JInt (max_transactions p)),
      (''max_per_sender'', JInt (max_per_sender p)),
      (''max_nonce_gap'', JInt (max_nonce_gap p)),
      (''replacement_bump_percent'', JInt (replacement_bump_percent p))]"

definition export_snapshot :: "tx_pool \<Rightarrow> (string \<times> json) list" where
  "export_snapshot pool =
     (let transactions = map (\<lambda>item. JObj (transaction_record (snd item))) (sort_key fst (pool_txs pool));
          body = [(''schema_version'', JStr ''junca-mempool-snapshot/v1''),
                  (''chain_id'', JInt (cfg_chain_id (pool_config pool))),
                  (''policy'', policy_json (pool_policy pool)),
                  (''transactions'', JArr transactions)]
      in body @ [(''snapshot_digest'', JStr (snapshot_digest body))])"

definition snapshot_fields :: "string list" where
  "snapshot_fields = [''schema_version'', ''chain_id'', ''policy'', ''transactions'', ''snapshot_digest'']"

definition restore_record ::
  "accounts \<Rightarrow> int \<Rightarrow> (tx_envelope \<Rightarrow> bool) \<Rightarrow> string list \<times> tx_pool \<Rightarrow> json \<Rightarrow> (string list \<times> tx_pool) result" where
  "restore_record normalized current_base_fee verifier acc r =
     bindE (transaction_from_record r) (\<lambda>t.
     let account = dict_get_default normalized (lower (sender t)) \<lparr>balance = 0, nonce = 0\<rparr> in
     bindE (admit (snd acc) t account current_base_fee verifier) (\<lambda>(_, restored).
     Inr (fst acc @ [transaction_hash t], restored)))"

definition restore_snapshot ::
  "tx_pool \<Rightarrow> json \<Rightarrow> accounts \<Rightarrow> int \<Rightarrow> (tx_envelope \<Rightarrow> bool) \<Rightarrow> (string list \<times> tx_pool) result" where
  "restore_snapshot pool snapshot accounts current_base_fee verifier =
     (if pool_txs pool \<noteq> []
      then Inl (MempoolError ''snapshot restore requires an empty mempool'')
      else case snapshot of
        JObj ms \<Rightarrow>
          if json_keys ms \<noteq> set snapshot_fields
          then Inl (MempoolError ''mempool snapshot fields are invalid'')
          else if \<not> py_eq (json_at ms ''schema_version'') (JStr ''junca-mempool-snapshot/v1'')
          then Inl (MempoolError ''mempool snapshot schema is unsupported'')
          else if \<not> py_eq (json_at ms ''chain_id'') (JInt (cfg_chain_id (pool_config pool)))
          then Inl (MempoolError ''mempool snapshot chain_id mismatch'')
          else if \<not> py_eq (json_at ms ''snapshot_digest'')
                       (JStr (snapshot_digest (json_without ''snapshot_digest'' ms)))
          then Inl (MempoolError ''mempool snapshot digest mismatch'')
          else if \<not> py_eq (json_at ms ''policy'') (policy_json (pool_policy pool))
          then Inl (MempoolError ''mempool snapshot policy mismatch'')
          else (case json_at ms ''transactions'' of
              JArr records \<Rightarrow>
                bindE (foldE (restore_record (lower_keys accounts) current_base_fee verifier)
                         ([], mk_pool (pool_config pool) (Some (pool_policy pool))) records) (\<lambda>(hashes, restored).
                Inr (hashes, pool\<lparr>pool_txs := pool_txs restored, pool_hashes := pool_hashes restored\<rparr>))
            | _ \<Rightarrow> Inl (MempoolError ''mempool snapshot transactions must be a list''))
      | _ \<Rightarrow> Inl (MempoolError ''mempool snapshot must be a mapping''))"

section \<open>The invariant of a pool\<close>

text \<open>The checks of admission that do not depend on accounts or the base fee.\<close>

definition pooled_ok :: "protocol_config \<Rightarrow> tx_envelope \<Rightarrow> bool" where
  "pooled_ok c t \<longleftrightarrow>
     tx_chain_id t = cfg_chain_id c \<and> intrinsic_gas c \<le> gas_limit t \<and> gas_limit t \<le> block_gas_limit c \<and>
     max_priority_fee_per_gas t \<le> max_fee_per_gas t \<and> signature t \<noteq> []"

definition key_of :: "tx_envelope \<Rightarrow> pool_key" where
  "key_of t = (lower (sender t), tx_nonce t)"

definition hash_of :: "pool_key \<times> tx_envelope \<Rightarrow> string" where
  "hash_of p = transaction_hash (snd p)"

definition pool_ok :: "tx_pool \<Rightarrow> bool" where
  "pool_ok pool \<longleftrightarrow>
     dict_ok (pool_txs pool) \<and>
     (\<forall>(k, t) \<in> set (pool_txs pool). k = key_of t \<and> pooled_ok (pool_config pool) t) \<and>
     distinct (map hash_of (pool_txs pool)) \<and>
     pool_hashes pool = hash_of ` set (pool_txs pool) \<and>
     int (length (pool_txs pool)) \<le> max_transactions (pool_policy pool) \<and>
     (\<forall>s. int (sender_count (pool_txs pool) s) \<le> max_per_sender (pool_policy pool))"

lemma distinct_values_set:
  assumes "dict_ok d" "distinct (map h d)" "\<And>p. p \<in> set d \<Longrightarrow> fst p \<noteq> k \<Longrightarrow> h p \<noteq> h (k, v)"
  shows "distinct (map h (dict_set k v d))"
  using assms
proof (induction d)
  case (Cons p d)
  show ?case
  proof (cases "fst p = k")
    case True
    then have "h q \<noteq> h (k, v)" if "q \<in> set d" for q
      using Cons.prems(1) that by (intro Cons.prems(3)) (auto intro: rev_image_eqI)
    then show ?thesis
      using Cons.prems(1,2) True by (cases p) (force simp: image_iff)
  next
    case False
    have "distinct (map h (dict_set k v d))"
      using Cons by simp
    moreover have "h q \<noteq> h p" if "q \<in> set (dict_set k v d)" for q
    proof (cases "q = (k, v)")
      case True
      then show ?thesis using Cons.prems(3) [of p] False by simp
    next
      case other: False
      then have "q \<in> set d"
        using that Cons.prems(1) by (auto simp: set_dict_set)
      then show ?thesis
        using Cons.prems(2) by (metis distinct.simps(2) image_eqI list.simps(9) set_map)
    qed
    ultimately show ?thesis
      using False by (cases p) force
  qed
qed simp

lemma distinct_values_del: "distinct (map g d) \<Longrightarrow> distinct (map g (dict_del k d))"
  by (simp add: AList.delete_eq distinct_map_filter)

lemma values_without:
  assumes "dict_ok d" "distinct (map h d)" "dict_get d k = Some v"
  shows "h ` set d - {h (k, v)} = h ` {p \<in> set d. fst p \<noteq> k}"
proof -
  have mem: "(k, v) \<in> set d"
    using assms(3) by (rule map_of_SomeD)
  have "h p \<noteq> h (k, v) \<longleftrightarrow> fst p \<noteq> k" if "p \<in> set d" for p
    using assms mem that inj_onD [of h "set d" p "(k, v)"]
    by (metis distinct_map fst_conv map_of_is_SomeI option.inject prod.collapse)
  then show ?thesis by auto
qed

lemma sender_count_keys: "sender_count d s = length (filter (\<lambda>k. fst k = s) (map fst d))"
  by (simp add: sender_count_def filter_map comp_def)

lemma sender_count_set:
  "sender_count (dict_set k v d) s =
     (if dict_get d k = None \<and> fst k = s then Suc (sender_count d s) else sender_count d s)"
  by (auto simp: sender_count_keys update_keys map_of_eq_None_iff)

lemma length_dict_del_le: "length (dict_del k d) \<le> length d"
  by (simp add: AList.delete_eq)

lemma sender_count_del_le: "sender_count (dict_del k d) s \<le> sender_count d s"
proof -
  have "length (filter P (filter Q d)) \<le> length (filter P d)" for P Q
    by (induction d) auto
  then show ?thesis by (simp add: sender_count_def AList.delete_eq)
qed

section \<open>Admission\<close>

lemma validate_admission_boundary_Inr [result_elims]:
  "validate_admission_boundary c p t a b v = Inr u \<longleftrightarrow>
     pooled_ok c t \<and> v t \<and> nonce a \<le> tx_nonce t \<and> tx_nonce t - nonce a \<le> max_nonce_gap p \<and>
     b \<le> max_fee_per_gas t \<and> tx_value t + gas_limit t * max_fee_per_gas t \<le> balance a"
  by (auto simp: validate_admission_boundary_def pooled_ok_def Let_def)

lemma admit_Inr [result_elims]:
  "admit pool t a b v = Inr (r, pool') \<longleftrightarrow>
     validate_admission_boundary (pool_config pool) (pool_policy pool) t a b v = Inr () \<and>
     transaction_hash t \<notin> pool_hashes pool \<and>
     (case dict_get (pool_txs pool) (key_of t) of
        None \<Rightarrow> int (length (pool_txs pool)) < max_transactions (pool_policy pool) \<and>
                int (sender_count (pool_txs pool) (lower (sender t))) < max_per_sender (pool_policy pool)
      | Some current \<Rightarrow> validate_replacement (pool_policy pool) current t = Inr ()) \<and>
     pool' = pool\<lparr>pool_txs := dict_set (key_of t) t (pool_txs pool),
                 pool_hashes := insert (transaction_hash t)
                   (case dict_get (pool_txs pool) (key_of t) of
                      None \<Rightarrow> pool_hashes pool
                    | Some current \<Rightarrow> pool_hashes pool - {transaction_hash current})\<rparr> \<and>
     r = \<lparr>ar_transaction_hash = transaction_hash t,
          ar_status = (if dict_get (pool_txs pool) (key_of t) = None then ''ADMITTED'' else ''REPLACED''),
          pool_size = int (length (pool_txs pool'))\<rparr>"
  by (auto simp: admit_def key_of_def Let_def bindE_Inr_iff split: option.splits)

lemma admit_ok:
  assumes "pool_ok pool" "admit pool t a b v = Inr (r, pool')"
  shows "pool_ok pool' \<and> pool_config pool' = pool_config pool \<and> pool_policy pool' = pool_policy pool"
proof -
  note admitted = assms(2) [unfolded admit_Inr validate_admission_boundary_Inr]
  have ok: "dict_ok (pool_txs pool)" "distinct (map hash_of (pool_txs pool))"
    "pool_hashes pool = hash_of ` set (pool_txs pool)"
    using assms(1) by (simp_all add: pool_ok_def)
  define rest where "rest = {p \<in> set (pool_txs pool). fst p \<noteq> key_of t}"
  have hashes: "(case dict_get (pool_txs pool) (key_of t) of
      None \<Rightarrow> pool_hashes pool | Some current \<Rightarrow> pool_hashes pool - {transaction_hash current}) =
      hash_of ` rest"
  proof (cases "dict_get (pool_txs pool) (key_of t)")
    case None
    then have "rest = set (pool_txs pool)"
      by (force simp: rest_def map_of_eq_None_iff)
    with None ok(3) show ?thesis by simp
  next
    case (Some current)
    with values_without [OF ok(1,2) Some] ok(3) show ?thesis by (simp add: rest_def hash_of_def)
  qed
  have "distinct (map hash_of (dict_set (key_of t) t (pool_txs pool)))"
    using ok admitted by (intro distinct_values_set) (auto simp: image_iff hash_of_def)
  moreover have "set (dict_set (key_of t) t (pool_txs pool)) = insert (key_of t, t) rest"
    using ok(1) by (simp add: set_dict_set rest_def)
  moreover have "\<forall>(k, t) \<in> rest. k = key_of t \<and> pooled_ok (pool_config pool) t"
    using assms(1) by (auto simp: pool_ok_def rest_def)
  moreover have "int (length (dict_set (key_of t) t (pool_txs pool))) \<le> max_transactions (pool_policy pool)"
    using assms(1) admitted by (auto simp: pool_ok_def length_dict_set)
  moreover have "int (sender_count (dict_set (key_of t) t (pool_txs pool)) s) \<le> max_per_sender (pool_policy pool)" for s
    using assms(1) admitted by (auto simp: pool_ok_def sender_count_set key_of_def)
  ultimately show ?thesis
    using ok(1) admitted hashes by (auto simp: pool_ok_def hash_of_def)
qed

section \<open>Removal\<close>

text \<open>A pool whose transactions are some of those of another pool.\<close>

definition keep_only :: "(pool_key \<times> tx_envelope \<Rightarrow> bool) \<Rightarrow> tx_pool \<Rightarrow> tx_pool" where
  "keep_only P pool =
     (let txs = filter P (pool_txs pool)
      in pool\<lparr>pool_txs := txs, pool_hashes := hash_of ` set txs\<rparr>)"

lemma sender_count_filter: "sender_count (filter P d) s \<le> sender_count d s"
  by (induction d) (auto simp: sender_count_def)

lemma keep_only_ok:
  assumes "pool_ok pool"
  shows "pool_ok (keep_only P pool)"
proof -
  have "int (length (filter P (pool_txs pool))) \<le> max_transactions (pool_policy pool)"
    using assms length_filter_le [of P "pool_txs pool"] unfolding pool_ok_def by linarith
  moreover have "int (sender_count (filter P (pool_txs pool)) s) \<le> max_per_sender (pool_policy pool)" for s
  proof -
    have "int (sender_count (pool_txs pool) s) \<le> max_per_sender (pool_policy pool)"
      using assms by (simp add: pool_ok_def)
    then show ?thesis
      using sender_count_filter [of P "pool_txs pool" s] by linarith
  qed
  moreover have "dict_ok (filter P (pool_txs pool))" "distinct (map hash_of (filter P (pool_txs pool)))"
    using assms by (simp_all add: pool_ok_def distinct_map_filter)
  ultimately show ?thesis
    using assms by (simp add: pool_ok_def keep_only_def Let_def)
qed

lemma keep_only_keep_only: "keep_only P (keep_only Q pool) = keep_only (\<lambda>p. P p \<and> Q p) pool"
  by (simp add: keep_only_def Let_def conj_commute)

lemma keep_only_fields [simp]:
  "pool_config (keep_only P pool) = pool_config pool"
  "pool_policy (keep_only P pool) = pool_policy pool"
  "pool_txs (keep_only P pool) = filter P (pool_txs pool)"
  by (simp_all add: keep_only_def Let_def)

lemma keep_only_cong: "(\<And>p. p \<in> set (pool_txs pool) \<Longrightarrow> P p \<longleftrightarrow> Q p) \<Longrightarrow> keep_only P pool = keep_only Q pool"
  by (simp add: keep_only_def Let_def cong: filter_cong)

lemma keep_only_all: "pool_ok pool \<Longrightarrow> (\<And>p. p \<in> set (pool_txs pool) \<Longrightarrow> P p) \<Longrightarrow> keep_only P pool = pool"
  by (simp add: keep_only_def Let_def pool_ok_def)

lemma delete_one:
  assumes "pool_ok pool" "dict_get (pool_txs pool) k = Some t"
  shows "pool\<lparr>pool_txs := dict_del k (pool_txs pool), pool_hashes := pool_hashes pool - {transaction_hash t}\<rparr> =
         keep_only (\<lambda>p. p \<noteq> (k, t)) pool"
proof -
  have d: "dict_ok (pool_txs pool)" "distinct (map hash_of (pool_txs pool))"
    using assms(1) by (simp_all add: pool_ok_def)
  have "fst p \<noteq> k \<longleftrightarrow> p \<noteq> (k, t)" if "p \<in> set (pool_txs pool)" for p
    using dict_entry_iff [OF d(1) assms(2) that] by simp
  then have "dict_del k (pool_txs pool) = filter (\<lambda>p. p \<noteq> (k, t)) (pool_txs pool)"
    unfolding AList.delete_eq by (intro filter_cong) (auto simp: case_prod_unfold)
  moreover have "pool_hashes pool - {transaction_hash t} = hash_of ` set (dict_del k (pool_txs pool))"
    using values_without [OF d assms(2)] assms(1) by (simp add: pool_ok_def set_dict_del hash_of_def)
  ultimately show ?thesis
    by (simp add: keep_only_def Let_def)
qed

lemma drop_included_keep:
  assumes "pool_ok pool"
  shows "drop_included pool u =
    keep_only (\<lambda>p. \<not> (fst p = key_of u \<and> hash_of p = transaction_hash u)) pool"
proof (cases "dict_get (pool_txs pool) (key_of u)")
  case None
  then have "fst p \<noteq> key_of u" if "p \<in> set (pool_txs pool)" for p
    using that by (force simp: map_of_eq_None_iff)
  then show ?thesis
    using None assms by (simp add: drop_included_def key_of_def [symmetric] keep_only_all)
next
  case (Some t)
  have here: "fst p = key_of u \<longleftrightarrow> p = (key_of u, t)" if "p \<in> set (pool_txs pool)" for p
    using dict_entry_iff [OF _ Some that] assms by (simp add: pool_ok_def)
  show ?thesis
  proof (cases "transaction_hash t = transaction_hash u")
    case True
    then have "drop_included pool u = keep_only (\<lambda>p. p \<noteq> (key_of u, t)) pool"
      using Some delete_one [OF assms Some] by (simp add: drop_included_def key_of_def [symmetric])
    also have "\<dots> = keep_only (\<lambda>p. \<not> (fst p = key_of u \<and> hash_of p = transaction_hash u)) pool"
      using True here by (intro keep_only_cong) (auto simp: hash_of_def)
    finally show ?thesis .
  next
    case False
    then have "drop_included pool u = pool"
      using Some by (simp add: drop_included_def key_of_def [symmetric])
    also have "\<dots> = keep_only (\<lambda>p. \<not> (fst p = key_of u \<and> hash_of p = transaction_hash u)) pool"
      using False here by (subst keep_only_all [OF assms]) (auto simp: hash_of_def)
    finally show ?thesis .
  qed
qed

lemma remove_included_keep:
  assumes "pool_ok pool"
  shows "remove_included pool us =
    keep_only (\<lambda>p. \<forall>u \<in> set us. \<not> (fst p = key_of u \<and> hash_of p = transaction_hash u)) pool"
  using assms
proof (induction us arbitrary: pool)
  case Nil
  then show ?case by (simp add: remove_included_def keep_only_all)
next
  case (Cons u us)
  then show ?case
    using Cons.IH [OF keep_only_ok [OF Cons.prems]]
    by (simp add: remove_included_def drop_included_keep keep_only_keep_only conj_commute)
qed

lemma prune_fold:
  assumes "pool_ok pool" "set items \<subseteq> set (pool_txs pool)" "distinct items"
  shows "foldl (prune_one accounts b) (removed, pool) items =
    (removed @ map hash_of (filter (prunable pool accounts b) items),
     keep_only (\<lambda>p. \<not> (p \<in> set items \<and> prunable pool accounts b p)) pool)"
  using assms
proof (induction items arbitrary: removed pool)
  case Nil
  then show ?case by (simp add: keep_only_all)
next
  case (Cons p items)
  obtain k t where p: "p = (k, t)" by (cases p)
  have same: "prunable (keep_only Q pool) accounts b = prunable pool accounts b" for Q
    by (simp add: prunable_def fun_eq_iff)
  show ?case
  proof (cases "prunable pool accounts b p")
    case True
    have "dict_get (pool_txs pool) k = Some t"
      using Cons.prems p by (auto simp: pool_ok_def)
    then have "prune_one accounts b (removed, pool) p =
        (removed @ [transaction_hash t], keep_only (\<lambda>q. q \<noteq> p) pool)"
      using True delete_one [OF Cons.prems(1)] by (simp add: prune_one_def p)
    moreover have "set items \<subseteq> set (pool_txs (keep_only (\<lambda>q. q \<noteq> p) pool))"
      using Cons.prems by auto
    ultimately show ?thesis
      using Cons.IH [OF keep_only_ok [OF Cons.prems(1)], of "\<lambda>q. q \<noteq> p" "removed @ [transaction_hash t]"] Cons.prems True
      by (auto simp: same keep_only_keep_only p hash_of_def intro!: keep_only_cong)
  next
    case False
    then show ?thesis
      using Cons.IH [OF Cons.prems(1)] Cons.prems by (auto simp: prune_one_def intro!: keep_only_cong)
  qed
qed

lemma prune_keep:
  assumes "pool_ok pool"
  shows "prune pool accounts b =
    (sort (map hash_of (filter (prunable pool accounts b) (pool_txs pool))),
     keep_only (\<lambda>p. \<not> prunable pool accounts b p) pool)"
  using prune_fold [OF assms subset_refl, of accounts b "[]"] assms
  by (auto simp: prune_def pool_ok_def distinct_map intro!: keep_only_cong)

section \<open>Reachable pools\<close>

text \<open>What a node does to its pool, in any order.\<close>

inductive pool_step :: "tx_pool \<Rightarrow> tx_pool \<Rightarrow> bool" where
  admit_step: "admit pool t account b v = Inr (r, pool') \<Longrightarrow> pool_step pool pool'"
| remove_step: "pool_step pool (remove_included pool us)"
| prune_step: "prune pool accounts b = (removed, pool') \<Longrightarrow> pool_step pool pool'"
| restore_step: "restore_snapshot pool snapshot accounts b v = Inr (hashes, pool') \<Longrightarrow> pool_step pool pool'"

inductive pool_reachable :: "protocol_config \<Rightarrow> mempool_policy \<Rightarrow> tx_pool \<Rightarrow> bool" for c p where
  initial: "pool_reachable c p (mk_pool c (Some p))"
| step: "pool_reachable c p pool \<Longrightarrow> pool_step pool pool' \<Longrightarrow> pool_reachable c p pool'"

inductive_cases pool_stepE: "pool_step pool pool'"

definition pool_for :: "protocol_config \<Rightarrow> mempool_policy \<Rightarrow> tx_pool \<Rightarrow> bool" where
  "pool_for c p pool \<longleftrightarrow> pool_ok pool \<and> pool_config pool = c \<and> pool_policy pool = p"

lemma pool_for_initial: "mempool_policy_post_init p = Inr () \<Longrightarrow> pool_for c p (mk_pool c (Some p))"
  by (auto simp: pool_for_def pool_ok_def mk_pool_def sender_count_def mempool_policy_post_init_def split: if_splits)

lemma restore_record_ok:
  assumes "restore_record accounts b v acc r = Inr acc'" "pool_for c p (snd acc)"
  shows "pool_for c p (snd acc')"
  using assms admit_ok by (auto simp: restore_record_def bindE_Inr_iff pool_for_def Let_def split: prod.splits)

lemma restore_snapshot_Inr:
  assumes "restore_snapshot pool snapshot accounts b v = Inr (hashes, pool')"
  obtains ms records restored where
    "pool_txs pool = []" "snapshot = JObj ms" "json_at ms ''transactions'' = JArr records"
    "foldE (restore_record (lower_keys accounts) b v)
       ([], mk_pool (pool_config pool) (Some (pool_policy pool))) records = Inr (hashes, restored)"
    "pool' = pool\<lparr>pool_txs := pool_txs restored, pool_hashes := pool_hashes restored\<rparr>"
  using assms
  by (auto simp: restore_snapshot_def bindE_Inr_iff split: json.splits if_splits prod.splits)

lemma restore_snapshot_ok:
  assumes "restore_snapshot pool snapshot accounts b v = Inr (hashes, pool')" "pool_for c p pool"
    and "mempool_policy_post_init p = Inr ()"
  shows "pool_for c p pool'"
proof -
  obtain ms records restored where
    "foldE (restore_record (lower_keys accounts) b v)
       ([], mk_pool (pool_config pool) (Some (pool_policy pool))) records = Inr (hashes, restored)"
    and pool': "pool' = pool\<lparr>pool_txs := pool_txs restored, pool_hashes := pool_hashes restored\<rparr>"
    by (rule restore_snapshot_Inr [OF assms(1)])
  then have fold: "foldE (restore_record (lower_keys accounts) b v) ([], mk_pool c (Some p)) records =
      Inr (hashes, restored)"
    using assms(2) by (simp add: pool_for_def)
  have "pool_for c p (snd (hashes, restored))"
    by (rule foldE_invariant [OF fold, where P = "\<lambda>acc. pool_for c p (snd acc)"])
       (auto simp: pool_for_initial [OF assms(3)] intro: restore_record_ok)
  then show ?thesis
    using assms(2) by (auto simp: pool' pool_for_def pool_ok_def)
qed

lemma pool_step_ok:
  assumes "pool_step pool pool'" "pool_for c p pool" "mempool_policy_post_init p = Inr ()"
  shows "pool_for c p pool'"
  using assms(1)
proof (cases rule: pool_step.cases)
  case (admit_step t account b v r)
  then show ?thesis using admit_ok assms(2) by (auto simp: pool_for_def)
next
  case (remove_step us)
  then show ?thesis using assms(2) by (simp add: pool_for_def remove_included_keep keep_only_ok)
next
  case (prune_step accounts b removed)
  then show ?thesis using assms(2) by (auto simp: pool_for_def prune_keep keep_only_ok)
next
  case (restore_step snapshot accounts b v hashes)
  then show ?thesis using restore_snapshot_ok assms(2,3) by blast
qed

lemma pool_reachable_for:
  "pool_reachable c p pool \<Longrightarrow> mempool_policy_post_init p = Inr () \<Longrightarrow> pool_for c p pool"
  by (induction rule: pool_reachable.induct) (auto simp: pool_for_initial intro: pool_step_ok)

lemma hash_of_fun: "hash_of = (\<lambda>item. transaction_hash (snd item))"
  by (simp add: hash_of_def fun_eq_iff)

text \<open>
  C20. The invariant of the transaction pool, over every sequence of admissions, removals, prunings
  and restores: the index has one transaction per sender and nonce, the set of hashes is that of the
  held transactions and no two of them have the same hash, the total and the per-sender capacity are
  respected, and every held transaction is signed, for this chain and within the gas and fee rules.
\<close>

theorem pool_reachable_ok:
  assumes "pool_reachable c p pool" "mempool_policy_post_init p = Inr ()"
  shows "dict_ok (pool_txs pool) \<and>
         (\<forall>((s, n), t) \<in> set (pool_txs pool). s = lower (sender t) \<and> n = tx_nonce t \<and>
            tx_chain_id t = cfg_chain_id c \<and> intrinsic_gas c \<le> gas_limit t \<and>
            gas_limit t \<le> block_gas_limit c \<and> max_priority_fee_per_gas t \<le> max_fee_per_gas t \<and>
            signature t \<noteq> []) \<and>
         distinct (map (\<lambda>item. transaction_hash (snd item)) (pool_txs pool)) \<and>
         pool_hashes pool = (\<lambda>item. transaction_hash (snd item)) ` set (pool_txs pool) \<and>
         int (length (pool_txs pool)) \<le> max_transactions p \<and>
         (\<forall>s. int (sender_count (pool_txs pool) s) \<le> max_per_sender p)"
proof -
  have "pool_for c p pool"
    using assms by (rule pool_reachable_for)
  then show ?thesis
    unfolding pool_for_def pool_ok_def hash_of_fun by (auto simp: pooled_ok_def key_of_def)
qed

definition sample_policy :: mempool_policy where
  "sample_policy = \<lparr>max_transactions = 2, max_per_sender = 2, max_nonce_gap = 5, replacement_bump_percent = 10\<rparr>"

definition sample_pool :: tx_pool where
  "sample_pool =
     (let t = sample_tx addr_a addr_b 3 in
      \<lparr>pool_config = sample_config, pool_policy = sample_policy,
       pool_txs = [((lower addr_a, 3), t)], pool_hashes = {transaction_hash t}\<rparr>)"

lemma sample_admit:
  "admit (mk_pool sample_config (Some sample_policy)) (sample_tx addr_a addr_b 3) \<lparr>balance = 200, nonce = 3\<rparr> 2 (\<lambda>_. True) =
     Inr (\<lparr>ar_transaction_hash = transaction_hash (sample_tx addr_a addr_b 3), ar_status = ''ADMITTED'', pool_size = 1\<rparr>,
          sample_pool)"
proof -
  let ?t = "sample_tx addr_a addr_b 3" and ?pool = "mk_pool sample_config (Some sample_policy)"
  have "validate_admission_boundary sample_config sample_policy ?t \<lparr>balance = 200, nonce = 3\<rparr> 2 (\<lambda>_. True) = Inr ()"
    by (simp add: validate_admission_boundary_def sample_policy_def sample_defs)
  moreover have "key_of ?t = (lower addr_a, 3)"
    by (simp add: key_of_def sample_tx_def)
  moreover have "pool_txs ?pool = []" "pool_hashes ?pool = {}" "pool_config ?pool = sample_config"
    "pool_policy ?pool = sample_policy" "0 < max_transactions sample_policy" "0 < max_per_sender sample_policy"
    by (simp_all add: mk_pool_def sample_policy_def)
  ultimately show ?thesis
    by (simp add: admit_Inr sample_pool_def sender_count_def Let_def mk_pool_def)
qed

lemma sample_policy_ok: "mempool_policy_post_init sample_policy = Inr ()"
  by (simp add: mempool_policy_post_init_def sample_policy_def)

lemma sample_pool_reachable: "pool_reachable sample_config sample_policy sample_pool"
  using pool_reachable.step [OF pool_reachable.initial pool_step.admit_step [OF sample_admit]] .

lemma pool_reachable_ok_witness:
  "pool_reachable sample_config sample_policy sample_pool \<and> dict_ok (pool_txs sample_pool) \<and>
   int (length (pool_txs sample_pool)) \<le> 2"
  using pool_reachable_ok [OF sample_pool_reachable sample_policy_ok] sample_pool_reachable
  by (simp add: sample_policy_def)

section \<open>Replacement\<close>

lemma ceiling_percent: "(b :: int) < (x + 100 - 1) div 100 \<longleftrightarrow> 100 * b < x"
proof -
  define q where "q = (x + 100 - 1) div 100"
  have "x + 100 - 1 = 100 * q + (x + 100 - 1) mod 100"
    unfolding q_def by (simp only: mult_div_mod_eq)
  moreover have "0 \<le> (x + 100 - 1) mod 100" "(x + 100 - 1) mod 100 < 100"
    by simp_all
  ultimately show ?thesis
    unfolding q_def [symmetric] by linarith
qed

lemma validate_replacement_Inr [result_elims]:
  "validate_replacement p current t = Inr u \<longleftrightarrow>
     max_fee_per_gas current * (100 + replacement_bump_percent p) \<le> 100 * max_fee_per_gas t \<and>
     max_priority_fee_per_gas current * (100 + replacement_bump_percent p) \<le> 100 * max_priority_fee_per_gas t"
  unfolding validate_replacement_def Let_def ceiling_percent by (simp add: not_less)

text \<open>
  Admission: a transaction of a fresh sender and nonce is added where both capacities allow it;
  one that replaces a held transaction raises the fee cap and the tip by at least the bump
  percentage, takes its place and leaves the size of the pool unchanged. Every other transaction is
  untouched, and the sender could pay the worst case of this transaction.
\<close>

theorem admit_effect:
  assumes "admit pool t account b v = Inr (r, pool')"
  shows "v t \<and> b \<le> max_fee_per_gas t \<and> nonce account \<le> tx_nonce t \<and>
         tx_nonce t \<le> nonce account + max_nonce_gap (pool_policy pool) \<and>
         tx_value t + gas_limit t * max_fee_per_gas t \<le> balance account \<and>
         transaction_hash t \<notin> pool_hashes pool \<and> transaction_hash t \<in> pool_hashes pool' \<and>
         map_of (pool_txs pool') = (map_of (pool_txs pool))((lower (sender t), tx_nonce t) \<mapsto> t) \<and>
         (case map_of (pool_txs pool) (lower (sender t), tx_nonce t) of
            None \<Rightarrow> ar_status r = ''ADMITTED'' \<and> length (pool_txs pool') = length (pool_txs pool) + 1 \<and>
                    int (length (pool_txs pool')) \<le> max_transactions (pool_policy pool)
          | Some current \<Rightarrow> ar_status r = ''REPLACED'' \<and> length (pool_txs pool') = length (pool_txs pool) \<and>
              (100 + replacement_bump_percent (pool_policy pool)) * max_fee_per_gas current
                \<le> 100 * max_fee_per_gas t \<and>
              (100 + replacement_bump_percent (pool_policy pool)) * max_priority_fee_per_gas current
                \<le> 100 * max_priority_fee_per_gas t)"
  using assms
  by (auto simp: admit_Inr validate_admission_boundary_Inr validate_replacement_Inr key_of_def
      length_dict_set mult.commute split: option.splits)

lemma admit_effect_witness:
  "length (pool_txs sample_pool) = 0 + 1 \<and> int (length (pool_txs sample_pool)) \<le> 2"
  using admit_effect [OF sample_admit] by (simp add: mk_pool_def sample_policy_def)

text \<open>
  Pruning removes exactly the transactions whose nonce is consumed, whose fee cap is below the
  base fee or whose nonce is too far ahead, reports their hashes in order, and keeps the rest in
  place.
\<close>

theorem prune_exact:
  assumes "pool_reachable c p pool" "mempool_policy_post_init p = Inr ()"
  shows "prune pool accounts b =
           (sort (map (\<lambda>item. transaction_hash (snd item)) (filter (prunable pool accounts b) (pool_txs pool))),
            pool\<lparr>pool_txs := filter (\<lambda>item. \<not> prunable pool accounts b item) (pool_txs pool),
                 pool_hashes := (\<lambda>item. transaction_hash (snd item)) `
                   set (filter (\<lambda>item. \<not> prunable pool accounts b item) (pool_txs pool))\<rparr>)"
proof -
  have "pool_ok pool"
    using pool_reachable_for [OF assms] by (simp add: pool_for_def)
  then show ?thesis
    by (simp add: prune_keep keep_only_def Let_def hash_of_fun)
qed

lemma prune_exact_witness:
  "snd (prune sample_pool [(lower addr_a, \<lparr>balance = 0, nonce = 4\<rparr>)] 2) =
     sample_pool\<lparr>pool_txs := [], pool_hashes := {}\<rparr>"
  by (subst prune_exact [OF sample_pool_reachable sample_policy_ok])
     (simp add: sample_pool_def prunable_def dict_get_default_def sample_defs Let_def)

section \<open>Block candidates: the loop\<close>

lemma min_by_in: "min_by key x ys \<in> set (x # ys)"
proof (induction ys arbitrary: x)
  case (Cons y ys)
  from Cons [of x] Cons [of y] show ?case by auto
qed simp

lemma min_by_least: "y \<in> set (x # ys) \<Longrightarrow> key (min_by key x ys) \<le> key y"
proof (induction ys arbitrary: x y)
  case (Cons z ys)
  have "key (min_by key x ys) \<le> key x" "key (min_by key z ys) \<le> key z"
    by (simp_all add: Cons.IH)
  then show ?case
    using Cons.prems Cons.IH by (fastforce simp: not_less)
qed simp

text \<open>The nonce a sender must use next, after the transactions selected so far.\<close>

definition due_nonce :: "accounts \<Rightarrow> tx_envelope list \<Rightarrow> string \<Rightarrow> int" where
  "due_nonce accounts txs s = nonce_of (lower_keys accounts) s + int (length (sent_by s txs))"

text \<open>An executable head: a held transaction of the sender with that nonce and a sufficient fee cap.\<close>

definition is_head :: "tx_pool \<Rightarrow> accounts \<Rightarrow> int \<Rightarrow> tx_envelope list \<Rightarrow> tx_envelope \<Rightarrow> bool" where
  "is_head pool accounts b txs t \<longleftrightarrow>
     (\<exists>s. dict_get (pool_txs pool) (s, due_nonce accounts txs s) = Some t) \<and> b \<le> max_fee_per_gas t"

definition loop_inv :: "tx_pool \<Rightarrow> accounts \<Rightarrow> int \<Rightarrow> int \<Rightarrow> candidate_loop \<Rightarrow> bool" where
  "loop_inv pool accounts b limit l \<longleftrightarrow>
     loop_gas l = intrinsic_gas (pool_config pool) * int (length (selected l)) \<and> loop_gas l \<le> limit \<and>
     (\<forall>s. dict_get_default (next_nonce l) s (nonce_of (lower_keys accounts) s) = due_nonce accounts (selected l) s) \<and>
     (\<forall>i < length (selected l). is_head pool accounts b (take i (selected l)) (selected l ! i) \<and>
        (\<forall>t. is_head pool accounts b (take i (selected l)) t \<longrightarrow>
           candidate_key b (selected l ! i) \<le> candidate_key b t))"

lemma map_filter_set: "set (List.map_filter f xs) = {y. \<exists>x \<in> set xs. f x = Some y}"
  by (force simp: List.map_filter_def)

lemma executable_heads_iff:
  assumes "loop_inv pool accounts b limit l"
  shows "t \<in> set (executable_heads pool (lower_keys accounts) b l) \<longleftrightarrow> is_head pool accounts b (selected l) t"
proof -
  have due: "dict_get_default (next_nonce l) s
      (nonce (dict_get_default (lower_keys accounts) s \<lparr>balance = 0, nonce = 0\<rparr>)) =
      due_nonce accounts (selected l) s" for s
    using assms by (simp add: loop_inv_def nonce_of_def)
  have head: "head_of_sender pool (lower_keys accounts) b l s = Some t \<longleftrightarrow>
      dict_get (pool_txs pool) (s, due_nonce accounts (selected l) s) = Some t \<and> b \<le> max_fee_per_gas t" for s
    by (auto simp: head_of_sender_def due Let_def split: option.splits)
  have "s \<in> fst ` fst ` set (pool_txs pool)" if "dict_get (pool_txs pool) (s, n) = Some t" for s n
    using map_of_SomeD [OF that] by force
  then show ?thesis
    by (auto simp: executable_heads_def map_filter_set head is_head_def image_image)
qed

lemma executable_heads_nonempty:
  assumes "loop_inv pool accounts b limit l"
  shows "executable_heads pool (lower_keys accounts) b l = [] \<longleftrightarrow> (\<forall>t. \<not> is_head pool accounts b (selected l) t)"
proof -
  have "xs = [] \<longleftrightarrow> (\<forall>t. t \<notin> set xs)" for xs :: "tx_envelope list"
    by (cases xs) auto
  then show ?thesis
    by (simp only: executable_heads_iff [OF assms])
qed

lemma due_nonce_snoc:
  "due_nonce accounts (txs @ [t]) s = due_nonce accounts txs s + (if lower (sender t) = s then 1 else 0)"
  by (simp add: due_nonce_def sent_by_def)

lemma loop_inv_step:
  assumes "loop_inv pool accounts b limit l" "pool_ok pool"
    and "loop_gas l + intrinsic_gas (pool_config pool) \<le> limit"
    and "executable_heads pool (lower_keys accounts) b l \<noteq> []"
  shows "loop_inv pool accounts b limit (candidate_step pool (lower_keys accounts) b l)"
proof -
  obtain t ts where heads: "executable_heads pool (lower_keys accounts) b l = t # ts"
    using assms(4) by (cases "executable_heads pool (lower_keys accounts) b l") auto
  define best where "best = min_by (candidate_key b) t ts"
  have best: "is_head pool accounts b (selected l) best"
    using min_by_in [of "candidate_key b" t ts] executable_heads_iff [OF assms(1), of best] heads
    by (simp add: best_def)
  have least: "candidate_key b best \<le> candidate_key b u" if "is_head pool accounts b (selected l) u" for u
    using min_by_least [of u t ts "candidate_key b"] executable_heads_iff [OF assms(1), of u] heads that
    by (simp add: best_def)
  have nonce: "tx_nonce best = due_nonce accounts (selected l) (lower (sender best))"
    using best assms(2) by (auto simp: is_head_def pool_ok_def key_of_def dest!: map_of_SomeD)
  define l' where "l' = \<lparr>selected = selected l @ [best],
      next_nonce = dict_set (lower (sender best)) (tx_nonce best + 1) (next_nonce l),
      loop_gas = loop_gas l + intrinsic_gas (pool_config pool)\<rparr>"
  have step: "candidate_step pool (lower_keys accounts) b l = l'"
    by (simp add: candidate_step_def heads best_def Let_def l'_def)
  have "dict_get_default (next_nonce l') s (nonce_of (lower_keys accounts) s) = due_nonce accounts (selected l') s" for s
    using assms(1) nonce by (auto simp: l'_def due_nonce_snoc loop_inv_def dict_get_default_def)
  moreover have "is_head pool accounts b (take i (selected l')) (selected l' ! i) \<and>
      (\<forall>t. is_head pool accounts b (take i (selected l')) t \<longrightarrow> candidate_key b (selected l' ! i) \<le> candidate_key b t)"
    if "i < length (selected l')" for i
  proof (cases "i < length (selected l)")
    case True
    then show ?thesis
      using assms(1) by (simp add: l'_def nth_append loop_inv_def)
  next
    case False
    then have "i = length (selected l)"
      using that by (simp add: l'_def)
    then show ?thesis
      using best least by (simp add: l'_def)
  qed
  ultimately show ?thesis
    using assms(1,3) unfolding step loop_inv_def by (simp add: l'_def algebra_simps)
qed

lemma loop_inv_start:
  assumes "0 < limit"
  shows "loop_inv pool accounts b limit
    \<lparr>selected = [], next_nonce = map (map_prod id nonce) (lower_keys accounts), loop_gas = 0\<rparr>"
proof -
  have "dict_get_default (map (map_prod id nonce) d) s (nonce_of d s) = nonce_of d s" for d :: accounts and s
    by (induction d) (auto simp: dict_get_default_def nonce_of_def)
  then show ?thesis
    using assms by (simp add: loop_inv_def due_nonce_def sent_by_def)
qed

text \<open>The loop ends, because every round uses gas.\<close>

lemma build_candidate_loop:
  assumes "pool_ok pool" "0 < intrinsic_gas (pool_config pool)"
    and "limit = (case g of None \<Rightarrow> block_gas_limit (pool_config pool) | Some g \<Rightarrow> g)"
    and "0 < limit" "limit \<le> block_gas_limit (pool_config pool)"
  obtains l where
    "build_candidate pool accounts b g = Some (Inr
       \<lparr>cand_transactions = selected l, cand_gas_limit = limit, cand_gas_used = loop_gas l,
        candidate_digest = digest0x (encode (json_dumps
          (candidate_json (cfg_chain_id (pool_config pool)) limit (loop_gas l) (selected l))))\<rparr>)"
    "loop_inv pool accounts b limit l"
    "limit < loop_gas l + intrinsic_gas (pool_config pool) \<or> (\<forall>t. \<not> is_head pool accounts b (selected l) t)"
proof -
  let ?I = "intrinsic_gas (pool_config pool)"
  let ?go = "\<lambda>l. loop_gas l + ?I \<le> limit \<and> executable_heads pool (lower_keys accounts) b l \<noteq> []"
  let ?step = "candidate_step pool (lower_keys accounts) b"
  let ?start = "\<lparr>selected = [], next_nonce = map (map_prod id nonce) (lower_keys accounts), loop_gas = 0\<rparr>"
  have gas: "loop_gas (?step l) = loop_gas l + ?I" if "?go l" for l
    using that by (auto simp: candidate_step_def Let_def split: list.splits)
  have "\<exists>l. while_option ?go ?step ?start = Some l"
  proof (rule measure_while_option_Some [where P = "\<lambda>l. loop_inv pool accounts b limit l" and f = "\<lambda>l. nat (limit - loop_gas l)"])
    fix l assume l: "loop_inv pool accounts b limit l" "?go l"
    then show "loop_inv pool accounts b limit (?step l) \<and> nat (limit - loop_gas (?step l)) < nat (limit - loop_gas l)"
      using loop_inv_step [OF l(1) assms(1)] assms(2) gas [OF l(2)] by auto
  qed (rule loop_inv_start [OF assms(4)])
  then obtain l where l: "while_option ?go ?step ?start = Some l" ..
  have inv: "loop_inv pool accounts b limit l"
    by (rule while_option_rule [OF _ l]) (auto intro: loop_inv_step assms(1) loop_inv_start [OF assms(4)])
  have "\<not> ?go l"
    using while_option_stop [OF l] .
  then have "limit < loop_gas l + ?I \<or> (\<forall>t. \<not> is_head pool accounts b (selected l) t)"
    using executable_heads_nonempty [OF inv] by auto
  moreover have "\<not> (limit \<le> 0 \<or> block_gas_limit (pool_config pool) < limit)"
    using assms(4,5) by simp
  ultimately show ?thesis
    using that [of l] inv l assms(3,4,5) by (simp add: build_candidate_def Let_def)
qed

section \<open>What a candidate guarantees\<close>

lemma loop_inv_nonces:
  assumes "\<forall>i < length txs. tx_nonce (txs ! i) = due_nonce accounts (take i txs) (lower (sender (txs ! i)))"
  shows "map tx_nonce (sent_by s txs) =
    map (\<lambda>k. nonce_of (lower_keys accounts) s + int k) [0..<length (sent_by s txs)]"
  using assms
proof (induction txs rule: rev_induct)
  case (snoc t txs)
  have "\<forall>i < length txs. tx_nonce (txs ! i) = due_nonce accounts (take i txs) (lower (sender (txs ! i)))"
  proof (intro allI impI)
    fix i assume "i < length txs"
    with snoc.prems [rule_format, of i] show "tx_nonce (txs ! i) = due_nonce accounts (take i txs) (lower (sender (txs ! i)))"
      by (simp add: nth_append)
  qed
  then have IH: "map tx_nonce (sent_by s txs) =
      map (\<lambda>k. nonce_of (lower_keys accounts) s + int k) [0..<length (sent_by s txs)]"
    by (rule snoc.IH)
  have "tx_nonce t = due_nonce accounts txs (lower (sender t))"
    using snoc.prems [rule_format, of "length txs"] by simp
  with IH show ?case
    by (simp add: sent_by_def due_nonce_def)
qed (simp add: sent_by_def)

lemma distinct_keys_of_nonces:
  "(\<And>s. distinct (map tx_nonce (sent_by s txs))) \<Longrightarrow> distinct (map key_of txs)"
proof (induction txs)
  case (Cons t txs)
  have "distinct (map tx_nonce (sent_by s txs))" for s
    using Cons.prems [of s] by (simp add: sent_by_def split: if_splits)
  moreover have "tx_nonce t \<notin> tx_nonce ` set (sent_by (lower (sender t)) txs)"
    using Cons.prems [of "lower (sender t)"] by (simp add: sent_by_def)
  then have "key_of t \<notin> key_of ` set txs"
    by (auto simp: key_of_def sent_by_def)
  ultimately show ?case
    using Cons.IH by simp
qed simp

lemma is_head_held:
  "is_head pool accounts b txs t \<Longrightarrow> pool_ok pool \<Longrightarrow>
     (key_of t, t) \<in> set (pool_txs pool) \<and> tx_nonce t = due_nonce accounts txs (lower (sender t))"
  by (auto simp: is_head_def pool_ok_def key_of_def dest!: map_of_SomeD)

lemma loop_inv_facts:
  assumes "loop_inv pool accounts b limit l" "pool_ok pool"
  shows "\<forall>t \<in> set (selected l). (key_of t, t) \<in> set (pool_txs pool) \<and> b \<le> max_fee_per_gas t"
    and "map tx_nonce (sent_by s (selected l)) =
           map (\<lambda>k. nonce_of (lower_keys accounts) s + int k) [0..<length (sent_by s (selected l))]"
    and "distinct (map transaction_hash (selected l))"
proof -
  have head: "is_head pool accounts b (take i (selected l)) (selected l ! i)" if "i < length (selected l)" for i
    using assms(1) that by (simp add: loop_inv_def)
  then show held: "\<forall>t \<in> set (selected l). (key_of t, t) \<in> set (pool_txs pool) \<and> b \<le> max_fee_per_gas t"
    using is_head_held [OF _ assms(2)] by (metis in_set_conv_nth is_head_def)
  show nonces: "map tx_nonce (sent_by s (selected l)) =
      map (\<lambda>k. nonce_of (lower_keys accounts) s + int k) [0..<length (sent_by s (selected l))]" for s
    using is_head_held [OF head assms(2)] by (intro loop_inv_nonces) simp
  have "distinct (map key_of (selected l))"
    by (rule distinct_keys_of_nonces) (simp only: nonces, simp add: distinct_map inj_on_def)
  moreover have "inj_on transaction_hash (set (selected l))"
  proof (rule inj_onI)
    fix t u assume tu: "t \<in> set (selected l)" "u \<in> set (selected l)" "transaction_hash t = transaction_hash u"
    have "inj_on hash_of (set (pool_txs pool))"
      using assms(2) by (simp add: pool_ok_def distinct_map)
    then show "t = u"
      using held tu by (auto simp: hash_of_def dest!: inj_onD [where x = "(key_of t, t)" and y = "(key_of u, u)"])
  qed
  ultimately show "distinct (map transaction_hash (selected l))"
    by (simp add: distinct_map)
qed

text \<open>
  C21. Building a candidate ends and succeeds for every gas limit within the protocol's bounds. The
  candidate holds transactions of the pool whose fee caps cover the base fee, no hash twice; each
  sender's transactions carry the successive nonces from its account nonce, as execution requires;
  the gas is the intrinsic gas of each and within the limit.
\<close>

theorem build_candidate_ok:
  assumes "pool_reachable c p pool" "mempool_policy_post_init p = Inr ()"
    and "protocol_config_post_init c = Inr ()"
    and "limit = (case g of None \<Rightarrow> block_gas_limit c | Some g \<Rightarrow> g)" "0 < limit" "limit \<le> block_gas_limit c"
  shows "\<exists>cand. build_candidate pool accounts b g = Some (Inr cand) \<and>
           set (cand_transactions cand) \<subseteq> snd ` set (pool_txs pool) \<and>
           (\<forall>t \<in> set (cand_transactions cand). b \<le> max_fee_per_gas t) \<and>
           distinct (map transaction_hash (cand_transactions cand)) \<and>
           (\<forall>s. map tx_nonce (sent_by s (cand_transactions cand)) =
              map (\<lambda>k. nonce_of (lower_keys accounts) s + int k) [0..<length (sent_by s (cand_transactions cand))]) \<and>
           cand_gas_limit cand = limit \<and>
           cand_gas_used cand = intrinsic_gas c * int (length (cand_transactions cand)) \<and>
           cand_gas_used cand \<le> limit"
proof -
  have pool: "pool_ok pool" "pool_config pool = c"
    using pool_reachable_for [OF assms(1,2)] by (simp_all add: pool_for_def)
  have "0 < intrinsic_gas c"
    using assms(3) by (auto simp: protocol_config_post_init_def split: if_splits)
  with assms pool obtain l where
    l: "build_candidate pool accounts b g = Some (Inr
       \<lparr>cand_transactions = selected l, cand_gas_limit = limit, cand_gas_used = loop_gas l,
        candidate_digest = digest0x (encode (json_dumps
          (candidate_json (cfg_chain_id c) limit (loop_gas l) (selected l))))\<rparr>)"
    and inv: "loop_inv pool accounts b limit l"
    by (metis build_candidate_loop [OF pool(1)])
  have "set (selected l) \<subseteq> snd ` set (pool_txs pool)"
    using loop_inv_facts(1) [OF inv pool(1)] by force
  then show ?thesis
    using l loop_inv_facts [OF inv pool(1)] inv pool(2) by (auto simp: loop_inv_def)
qed

lemma sample_config_ok: "protocol_config_post_init sample_config = Inr ()"
  by (simp add: protocol_config_post_init_def sample_config_def)

lemma build_candidate_ok_witness:
  "\<exists>cand. build_candidate sample_pool [(addr_a, \<lparr>balance = 200, nonce = 3\<rparr>)] 2 None = Some (Inr cand) \<and>
     cand_gas_limit cand = 20 \<and> cand_gas_used cand \<le> 20"
  using build_candidate_ok [OF sample_pool_reachable sample_policy_ok sample_config_ok refl,
      of None "[(addr_a, \<lparr>balance = 200, nonce = 3\<rparr>)]" 2]
  by (auto simp: sample_config_def)

text \<open>
  The choice is greedy and maximal. At every position stands an executable head of the pool, the
  next transaction due for its sender, and no other head then available has a better pair of tip and
  hash; the candidate stops only when the gas is used up or no sender has an executable head left.
\<close>

theorem build_candidate_greedy:
  assumes "pool_reachable c p pool" "mempool_policy_post_init p = Inr ()"
    and "protocol_config_post_init c = Inr ()"
    and "build_candidate pool accounts b g = Some (Inr cand)"
  shows "(\<forall>i < length (cand_transactions cand).
            is_head pool accounts b (take i (cand_transactions cand)) (cand_transactions cand ! i) \<and>
            (\<forall>t. is_head pool accounts b (take i (cand_transactions cand)) t \<longrightarrow>
               candidate_key b (cand_transactions cand ! i) \<le> candidate_key b t)) \<and>
         (cand_gas_limit cand < cand_gas_used cand + intrinsic_gas c \<or>
          (\<forall>t. \<not> is_head pool accounts b (cand_transactions cand) t))"
proof -
  define limit where "limit = (case g of None \<Rightarrow> block_gas_limit c | Some g \<Rightarrow> g)"
  have pool: "pool_ok pool" "pool_config pool = c"
    using pool_reachable_for [OF assms(1,2)] by (simp_all add: pool_for_def)
  have I: "0 < intrinsic_gas (pool_config pool)"
    using assms(3) by (auto simp: pool protocol_config_post_init_def split: if_splits)
  have limit: "0 < limit" "limit \<le> block_gas_limit (pool_config pool)"
    using assms(4) by (cases g; simp add: build_candidate_def limit_def pool Let_def not_le split: if_splits)+
  obtain l where
    l: "build_candidate pool accounts b g = Some (Inr
       \<lparr>cand_transactions = selected l, cand_gas_limit = limit, cand_gas_used = loop_gas l,
        candidate_digest = digest0x (encode (json_dumps
          (candidate_json (cfg_chain_id (pool_config pool)) limit (loop_gas l) (selected l))))\<rparr>)"
    and inv: "loop_inv pool accounts b limit l"
    and stop: "limit < loop_gas l + intrinsic_gas (pool_config pool) \<or> (\<forall>t. \<not> is_head pool accounts b (selected l) t)"
    by (rule build_candidate_loop [OF pool(1) I _ limit, of g accounts b]) (simp add: limit_def pool(2) split: option.split)
  have "cand_transactions cand = selected l" "cand_gas_limit cand = limit" "cand_gas_used cand = loop_gas l"
    using assms(4) l by auto
  then show ?thesis
    using inv stop pool(2) by (simp add: loop_inv_def)
qed

lemma sample_head: "is_head sample_pool [(addr_a, \<lparr>balance = 200, nonce = 3\<rparr>)] 2 [] (sample_tx addr_a addr_b 3)"
proof -
  have "due_nonce [(addr_a, \<lparr>balance = 200, nonce = 3\<rparr>)] [] (lower addr_a) = 3"
    by (simp add: due_nonce_def lower_keys_def sent_by_def nonce_of_def dict_get_default_def)
  moreover have "dict_get (pool_txs sample_pool) (lower addr_a, 3) = Some (sample_tx addr_a addr_b 3)"
    "2 \<le> max_fee_per_gas (sample_tx addr_a addr_b 3)"
    by (simp_all add: sample_pool_def Let_def sample_tx_def)
  ultimately show ?thesis
    unfolding is_head_def by metis
qed

lemma build_candidate_greedy_witness:
  "\<exists>cand. build_candidate sample_pool [(addr_a, \<lparr>balance = 200, nonce = 3\<rparr>)] 2 None = Some (Inr cand) \<and>
     cand_transactions cand \<noteq> []"
proof -
  let ?accounts = "[(addr_a, \<lparr>balance = 200, nonce = 3\<rparr>)]"
  have "pool_ok sample_pool" "0 < intrinsic_gas (pool_config sample_pool)" "0 < block_gas_limit (pool_config sample_pool)"
    "pool_config sample_pool = sample_config"
    using pool_reachable_for [OF sample_pool_reachable sample_policy_ok]
    by (simp_all add: pool_for_def sample_config_def)
  then obtain cand where cand: "build_candidate sample_pool ?accounts 2 None = Some (Inr cand)"
      "cand_gas_limit cand = 20" "cand_gas_used cand = 5 * int (length (cand_transactions cand))"
    by (elim build_candidate_loop [OF _ _ refl, of _ None ?accounts 2])
       (auto simp: sample_config_def loop_inv_def)
  then show ?thesis
    using build_candidate_greedy [OF sample_pool_reachable sample_policy_ok sample_config_ok cand(1)] sample_head
    by (auto simp: sample_config_def)
qed

section \<open>Restart\<close>

lemma tx_hash_lower_addresses [simp]: "transaction_hash (lower_addresses t) = transaction_hash t"
  by (simp add: transaction_hash_def signing_payload_def tx_json_def lower_addresses_def)

lemma key_of_lower_addresses [simp]: "key_of (lower_addresses t) = key_of t"
  by (simp add: key_of_def lower_addresses_def)

lemma record_roundtrip: "transaction_from_record (JObj (transaction_record t)) = Inr (lower_addresses t)"
proof -
  have keys: "json_keys (transaction_record t) = set record_fields"
    by (simp add: json_keys_def transaction_record_def record_fields_def)
  have at: "json_at (transaction_record t) ''data'' = JStr (hex_of (tx_data t))"
    "json_at (transaction_record t) ''signature'' = JStr (hex_of (signature t))"
    "json_at (transaction_record t) ''chain_id'' = JInt (tx_chain_id t)"
    "json_at (transaction_record t) ''sender'' = JStr (lower (sender t))"
    "json_at (transaction_record t) ''recipient'' = JStr (lower (recipient t))"
    "json_at (transaction_record t) ''nonce'' = JInt (tx_nonce t)"
    "json_at (transaction_record t) ''value'' = JInt (tx_value t)"
    "json_at (transaction_record t) ''gas_limit'' = JInt (gas_limit t)"
    "json_at (transaction_record t) ''max_fee_per_gas'' = JInt (max_fee_per_gas t)"
    "json_at (transaction_record t) ''max_priority_fee_per_gas'' = JInt (max_priority_fee_per_gas t)"
    "json_at (transaction_record t) ''transaction_hash'' = JStr (transaction_hash t)"
    by (simp_all add: json_at_def transaction_record_def)
  have same: "\<lparr>tx_chain_id = tx_chain_id t, sender = lower (sender t), recipient = lower (recipient t),
      tx_nonce = tx_nonce t, tx_value = tx_value t, gas_limit = gas_limit t, max_fee_per_gas = max_fee_per_gas t,
      max_priority_fee_per_gas = max_priority_fee_per_gas t, tx_data = tx_data t, signature = signature t\<rparr> =
      lower_addresses t"
    by (simp add: lower_addresses_def)
  show ?thesis
    by (simp add: transaction_from_record_def keys at hex_field_def int_field_def str_field_def same Let_def)
qed

text \<open>The pool that holds the first entries of another one, after a restart.\<close>

definition restored_pool :: "protocol_config \<Rightarrow> mempool_policy \<Rightarrow> (pool_key \<times> tx_envelope) list \<Rightarrow> tx_pool" where
  "restored_pool c p items =
     \<lparr>pool_config = c, pool_policy = p,
      pool_txs = map (map_prod id lower_addresses) items,
      pool_hashes = hash_of ` set items\<rparr>"

definition entries_ok :: "protocol_config \<Rightarrow> mempool_policy \<Rightarrow> (pool_key \<times> tx_envelope) list \<Rightarrow> bool" where
  "entries_ok c p items \<longleftrightarrow>
     dict_ok items \<and> (\<forall>(k, t) \<in> set items. k = key_of t) \<and> distinct (map hash_of items) \<and>
     int (length items) \<le> max_transactions p \<and> (\<forall>s. int (sender_count items s) \<le> max_per_sender p)"

lemma sender_count_simps [simp]:
  "sender_count [] s = 0"
  "sender_count (p # d) s = (if fst (fst p) = s then Suc (sender_count d s) else sender_count d s)"
  "sender_count (d @ e) s = sender_count d s + sender_count e s"
  "sender_count (map (map_prod id f) d) s = sender_count d s"
  by (simp_all add: sender_count_def filter_map comp_def)

lemma admit_restored:
  assumes "entries_ok c p (items @ [(k, t)])"
    and "validate_admission_boundary c p (lower_addresses t) a b v = Inr ()"
  shows "\<exists>r. admit (restored_pool c p items) (lower_addresses t) a b v =
           Inr (r, restored_pool c p (items @ [(k, t)]))"
proof -
  have k: "k = key_of t"
    using assms(1) by (simp add: entries_ok_def)
  then have new: "dict_get (pool_txs (restored_pool c p items)) (key_of t) = None"
    using assms(1) by (simp add: entries_ok_def restored_pool_def map_of_eq_None_iff image_image)
  have hash: "transaction_hash t \<notin> pool_hashes (restored_pool c p items)"
    using assms(1) by (auto simp: entries_ok_def restored_pool_def hash_of_def)
  have "int (sender_count items (lower (sender t))) < max_per_sender p"
    using assms(1) k by (auto simp: entries_ok_def key_of_def dest: spec [of _ "lower (sender t)"])
  moreover have "int (length items) < max_transactions p"
    using assms(1) by (simp add: entries_ok_def)
  moreover have "lower (sender (lower_addresses t)) = lower (sender t)"
    by (simp add: lower_addresses_def)
  moreover have "dict_set (key_of t) (lower_addresses t) (pool_txs (restored_pool c p items)) =
      pool_txs (restored_pool c p (items @ [(k, t)]))"
    using dict_set_new [OF new] k by (simp add: restored_pool_def)
  ultimately show ?thesis
    using new hash assms(2) by (simp add: admit_Inr) (simp add: restored_pool_def hash_of_def)
qed

lemma restore_records:
  assumes "entries_ok c p (done @ items)"
    and "\<forall>(k, t) \<in> set items. validate_admission_boundary c p (lower_addresses t)
           (dict_get_default accounts (lower (sender t)) \<lparr>balance = 0, nonce = 0\<rparr>) b v = Inr ()"
  shows "foldE (restore_record accounts b v) (hashes, restored_pool c p done)
           (map (\<lambda>item. JObj (transaction_record (snd item))) items) =
         Inr (hashes @ map hash_of items, restored_pool c p (done @ items))"
  using assms
proof (induction items arbitrary: "done" hashes)
  case (Cons item items)
  obtain k t where item: "item = (k, t)" by (cases item)
  have "entries_ok c p (done @ [(k, t)])"
    unfolding entries_ok_def
  proof (intro conjI allI)
    fix s
    have "int (sender_count (done @ (k, t) # items) s) \<le> max_per_sender p"
      using Cons.prems(1) unfolding entries_ok_def item by blast
    then show "int (sender_count (done @ [(k, t)]) s) \<le> max_per_sender p"
      by (simp split: if_splits)
  qed (use Cons.prems(1) in \<open>auto simp: entries_ok_def item\<close>)
  moreover have "validate_admission_boundary c p (lower_addresses t)
      (dict_get_default accounts (lower (sender t)) \<lparr>balance = 0, nonce = 0\<rparr>) b v = Inr ()"
    using Cons.prems(2) by (simp add: item)
  ultimately obtain r where "admit (restored_pool c p done) (lower_addresses t)
      (dict_get_default accounts (lower (sender t)) \<lparr>balance = 0, nonce = 0\<rparr>) b v =
      Inr (r, restored_pool c p (done @ [(k, t)]))"
    using admit_restored by metis
  moreover have "lower (sender (lower_addresses t)) = lower (sender t)"
    by (simp add: lower_addresses_def)
  ultimately have "restore_record accounts b v (hashes, restored_pool c p done) (JObj (transaction_record (snd item))) =
      Inr (hashes @ [hash_of item], restored_pool c p (done @ [(k, t)]))"
    by (simp add: restore_record_def record_roundtrip item hash_of_def Let_def)
  then show ?case
    using Cons.IH [of "done @ [(k, t)]" "hashes @ [hash_of item]"] Cons.prems by (simp add: item)
qed simp

lemma entries_ok_sorted:
  assumes "pool_for c p pool"
  shows "entries_ok c p (sort_key fst (pool_txs pool))"
proof -
  have "sender_count (sort_key fst xs) s = sender_count xs s" for xs :: "(pool_key \<times> tx_envelope) list" and s
    unfolding sender_count_def by (metis mset_filter mset_sort size_mset)
  then show ?thesis
    using assms unfolding entries_ok_def pool_for_def pool_ok_def length_sort set_sort distinct_map_sort_key
    by auto
qed

text \<open>
  Restart: the snapshot of any reachable pool is accepted by an empty pool of the same
  configuration and policy, where the accounts still admit its transactions. The restored pool holds
  the same transactions under the same keys, addresses in lower case, with the same hashes, and the
  hashes are reported in the order of the keys.
\<close>

theorem snapshot_roundtrip:
  assumes "pool_reachable c p pool" "mempool_policy_post_init p = Inr ()"
    and "\<forall>(k, t) \<in> set (pool_txs pool). validate_admission_boundary c p (lower_addresses t)
           (dict_get_default (lower_keys accounts) (lower (sender t)) \<lparr>balance = 0, nonce = 0\<rparr>) b v = Inr ()"
  shows "\<exists>pool'. restore_snapshot (mk_pool c (Some p)) (JObj (export_snapshot pool)) accounts b v =
             Inr (map (\<lambda>item. transaction_hash (snd item)) (sort_key fst (pool_txs pool)), pool') \<and>
           pool_txs pool' = map (map_prod id lower_addresses) (sort_key fst (pool_txs pool)) \<and>
           pool_hashes pool' = pool_hashes pool \<and> pool_config pool' = c \<and> pool_policy pool' = p"
proof -
  let ?items = "sort_key fst (pool_txs pool)"
  let ?records = "map (\<lambda>item. JObj (transaction_record (snd item))) ?items"
  define body where "body = [(''schema_version'', JStr ''junca-mempool-snapshot/v1''),
    (''chain_id'', JInt (cfg_chain_id c)), (''policy'', policy_json p), (''transactions'', JArr ?records)]"
  define snap where "snap = body @ [(''snapshot_digest'', JStr (snapshot_digest body))]"
  have pool: "pool_for c p pool"
    by (rule pool_reachable_for [OF assms(1,2)])
  have export: "export_snapshot pool = snap"
    using pool by (simp add: export_snapshot_def snap_def body_def pool_for_def Let_def)
  have keys: "json_keys snap = set snapshot_fields"
    by (simp add: json_keys_def snap_def body_def snapshot_fields_def)
  have at: "json_at snap ''schema_version'' = JStr ''junca-mempool-snapshot/v1''"
    "json_at snap ''chain_id'' = JInt (cfg_chain_id c)"
    "json_at snap ''policy'' = policy_json p"
    "json_at snap ''transactions'' = JArr ?records"
    "json_at snap ''snapshot_digest'' = JStr (snapshot_digest body)"
    by (simp_all add: json_at_def snap_def body_def)
  have without: "json_without ''snapshot_digest'' snap = body"
    by (simp add: json_without_def snap_def body_def)
  have start: "mk_pool c (Some p) = restored_pool c p []" "pool_txs (mk_pool c (Some p)) = []"
    "pool_config (mk_pool c (Some p)) = c" "pool_policy (mk_pool c (Some p)) = p"
    by (simp_all add: mk_pool_def restored_pool_def)
  have "foldE (restore_record (lower_keys accounts) b v) ([], mk_pool c (Some p)) ?records =
      Inr ([] @ map hash_of ?items, restored_pool c p ([] @ ?items))"
    unfolding start(1) using assms(3) entries_ok_sorted [OF pool] by (intro restore_records) auto
  then have "restore_snapshot (mk_pool c (Some p)) (JObj snap) accounts b v =
      Inr (map hash_of ?items, restored_pool c p ?items)"
    by (simp add: restore_snapshot_def keys at without start(2-4)) (simp add: restored_pool_def mk_pool_def)
  then show ?thesis
    using pool by (simp add: export restored_pool_def pool_for_def pool_ok_def hash_of_fun)
qed

lemma snapshot_roundtrip_witness:
  "\<exists>pool'. restore_snapshot (mk_pool sample_config (Some sample_policy)) (JObj (export_snapshot sample_pool))
      [(addr_a, \<lparr>balance = 200, nonce = 3\<rparr>)] 2 (\<lambda>_. True) =
        Inr ([transaction_hash (sample_tx addr_a addr_b 3)], pool') \<and>
      pool_hashes pool' = {transaction_hash (sample_tx addr_a addr_b 3)}"
proof -
  let ?t = "sample_tx addr_a addr_b 3"
  have "\<forall>(k, t) \<in> set (pool_txs sample_pool). validate_admission_boundary sample_config sample_policy (lower_addresses t)
      (dict_get_default (lower_keys [(addr_a, \<lparr>balance = 200, nonce = 3\<rparr>)]) (lower (sender t)) \<lparr>balance = 0, nonce = 0\<rparr>)
      2 (\<lambda>_. True) = Inr ()"
    by (simp add: sample_pool_def Let_def validate_admission_boundary_def lower_keys_def dict_get_default_def
        lower_addresses_def sample_policy_def sample_defs)
  from snapshot_roundtrip [OF sample_pool_reachable sample_policy_ok this] show ?thesis
    by (auto simp: sample_pool_def Let_def)
qed

end
