(* ===== verification/Quorum.thy ===== *)
theory Quorum
  imports Main
begin

text \<open>
  The interface of a body that decides by voting power, as its clients use it: its members, the
  power of each, the total, and the test whether some power is a quorum. The laws are that powers are
  positive, that the total is their sum and that a quorum is strictly more than two thirds of it. The
  lemmas are the quorum arguments of a Byzantine protocol. \<open>Finality\<close> and \<open>SyncFinality\<close> interpret the
  locale with the code's own totals and thresholds.
\<close>

locale voting_body =
  fixes ok :: "'m \<Rightarrow> bool"
    and members :: "'m \<Rightarrow> 'v set"
    and weight :: "'m \<Rightarrow> 'v \<Rightarrow> int"
    and total_weight :: "'m \<Rightarrow> int"
    and quorum :: "'m \<Rightarrow> int \<Rightarrow> bool"
  assumes finite_members: "ok m \<Longrightarrow> finite (members m)"
    and weight_pos: "ok m \<Longrightarrow> i \<in> members m \<Longrightarrow> 0 < weight m i"
    and total_sum: "ok m \<Longrightarrow> total_weight m = sum (weight m) (members m)"
    and quorum_iff: "ok m \<Longrightarrow> quorum m p \<longleftrightarrow> 2 * total_weight m < 3 * p"
begin

lemma weight_mono:
  assumes "ok m" "A \<subseteq> B" "B \<subseteq> members m"
  shows "sum (weight m) A \<le> sum (weight m) B"
  using assms finite_members [OF assms(1)] weight_pos [OF assms(1)]
  by (intro sum_mono2) (auto intro: finite_subset less_imp_le)

lemma weight_union:
  assumes "ok m" "A \<subseteq> members m" "B \<subseteq> members m"
  shows "sum (weight m) A + sum (weight m) B = sum (weight m) (A \<union> B) + sum (weight m) (A \<inter> B)"
  using assms finite_members [OF assms(1)] by (simp add: sum.union_inter finite_subset)

text \<open>Two quorums have more than a third of the power in common.\<close>

lemma quorums_intersect:
  assumes "ok m" "A \<subseteq> members m" "B \<subseteq> members m"
    and "quorum m (sum (weight m) A)" "quorum m (sum (weight m) B)"
  shows "total_weight m < 3 * sum (weight m) (A \<inter> B)"
proof -
  have "sum (weight m) (A \<union> B) \<le> total_weight m"
    using weight_mono [of m "A \<union> B" "members m"] assms by (simp add: total_sum)
  then show ?thesis
    using weight_union [OF assms(1-3)] assms(4,5) by (simp add: quorum_iff [OF assms(1)])
qed

text \<open>So one of them is honest, where the faulty ones hold at most a third.\<close>

lemma honest_in_both:
  assumes "ok m" "A \<subseteq> members m" "B \<subseteq> members m"
    and "quorum m (sum (weight m) A)" "quorum m (sum (weight m) B)"
    and "3 * sum (weight m) (F \<inter> members m) \<le> total_weight m"
  obtains i where "i \<in> A" "i \<in> B" "i \<notin> F"
proof -
  have "sum (weight m) (A \<inter> B) \<le> sum (weight m) (F \<inter> members m)" if "A \<inter> B \<subseteq> F"
    using that assms(1,2) by (intro weight_mono) auto
  then show ?thesis
    using that quorums_intersect [OF assms(1-5)] assms(6) by fastforce
qed

text \<open>The honest members alone are a quorum, where the faulty ones hold less than a third.\<close>

lemma honest_quorum:
  assumes "ok m" "3 * sum (weight m) (F \<inter> members m) < total_weight m"
  shows "quorum m (sum (weight m) (members m - F))"
proof -
  have "members m = (members m - F) \<union> (F \<inter> members m)"
    by auto
  then have "sum (weight m) (members m) = sum (weight m) (members m - F) + sum (weight m) (F \<inter> members m)"
    using finite_members [OF assms(1)] by (metis Diff_disjoint Int_Diff_disjoint Int_commute finite_Diff finite_Int sum.Int_Diff add.commute)
  then show ?thesis
    using assms by (simp add: quorum_iff total_sum)
qed

lemma quorum_not_empty: "ok m \<Longrightarrow> A \<subseteq> members m \<Longrightarrow> quorum m (sum (weight m) A) \<Longrightarrow> A \<noteq> {}"
  using weight_mono [of m "{}" "members m"] by (auto simp: quorum_iff total_sum)

end

end
