(* ===== verification/WriteOnce.thy ===== *)
theory WriteOnce
  imports Main
begin

text \<open>
  The interface of a state whose entries are written once, as the clients of a finalized chain, a
  signing journal or an audit log rely on it: a step may add an entry and never changes or removes
  one. Over any number of steps an entry then has one value. \<open>Finality\<close>, \<open>ConsensusSync\<close>,
  \<open>SigningJournal\<close>, \<open>StateStore\<close>, \<open>BridgeProtocol\<close> and \<open>RelayerJournal\<close> interpret the locale
  with their own steps.
\<close>

locale write_once =
  fixes step :: "'s \<Rightarrow> 's \<Rightarrow> bool" and entry :: "'s \<Rightarrow> 'k \<Rightarrow> 'v option"
  assumes step_keeps: "step s t \<Longrightarrow> entry s k = Some x \<Longrightarrow> entry t k = Some x"
begin

lemma steps_keep: "rtranclp step s t \<Longrightarrow> entry s k = Some x \<Longrightarrow> entry t k = Some x"
  by (induction rule: rtranclp_induct) (auto intro: step_keeps)

lemma written_once: "rtranclp step s t \<Longrightarrow> entry s k = Some x \<Longrightarrow> entry t k = Some y \<Longrightarrow> x = y"
  using steps_keep by fastforce

lemma entries_grow: "rtranclp step s t \<Longrightarrow> dom (entry s) \<subseteq> dom (entry t)"
  using steps_keep by fastforce

end

end
