(* ===== verification/Finality.thy ===== *)
theory Finality
  imports Sha256 Json Quorum WriteOnce
begin

text \<open>
  \<open>finality.py\<close>: the finality state machine. A call of \<open>add_vote\<close> can change the state and raise, so
  it is a function to a result and the machine after it. The vote verifier is the callback of the
  caller: \<open>Some True\<close> where it returns \<open>True\<close>, \<open>Some False\<close> where it returns anything else, \<open>None\<close>
  where it raises. The locale \<open>voting_body\<close> is the interface between the components that count
  voting power and the arguments about quorums.
\<close>

section \<open>Data\<close>

record validator =
  validator_id :: string
  voting_power :: int

definition validator_post_init :: "validator \<Rightarrow> unit result" where
  "validator_post_init v =
     (if validator_id v = [] \<or> 128 < length (encode (validator_id v)) \<or> voting_power v \<le> 0
      then Inl (FinalityError ''validator identity and voting power are required'')
      else Inr ())"

record finality_vote =
  fv_chain_id :: int
  fv_height :: int
  fv_round :: int
  fv_block_hash :: string
  fv_validator_id :: string
  fv_signature :: bytes

definition vote_payload_json :: "string \<Rightarrow> int \<Rightarrow> int \<Rightarrow> int \<Rightarrow> string \<Rightarrow> json" where
  "vote_payload_json block chain h r vid = JObj
     [(''block_hash'', JStr block),
      (''chain_id'', JInt chain),
      (''height'', JInt h),
      (''round'', JInt r),
      (''validator_id'', JStr vid),
      (''vote_type'', JStr ''PRECOMMIT'')]"

definition vote_signing_payload :: "finality_vote \<Rightarrow> bytes" where
  "vote_signing_payload w = encode (json_dumps (vote_payload_json
     (lower (fv_block_hash w)) (fv_chain_id w) (fv_height w) (fv_round w) (fv_validator_id w)))"

definition vote_hash :: "finality_vote \<Rightarrow> string" where
  "vote_hash w = digest0x (vote_signing_payload w @ fv_signature w)"

record finality_certificate =
  fc_chain_id :: int
  fc_height :: int
  fc_round :: int
  fc_block_hash :: string
  fc_signed_power :: int
  fc_total_power :: int
  fc_validator_ids :: "string list"
  fc_vote_hashes :: "string list"
  certificate_hash :: string

definition certificate_as_evidence :: "finality_certificate \<Rightarrow> json" where
  "certificate_as_evidence c = JObj
     [(''schema_version'', JStr ''junca-finality-certificate/v1''),
      (''chain_id'', JInt (fc_chain_id c)),
      (''height'', JInt (fc_height c)),
      (''round'', JInt (fc_round c)),
      (''block_hash'', JStr (fc_block_hash c)),
      (''signed_power'', JInt (fc_signed_power c)),
      (''total_power'', JInt (fc_total_power c)),
      (''validator_ids'', JArr (map JStr (fc_validator_ids c))),
      (''vote_hashes'', JArr (map JStr (fc_vote_hashes c))),
      (''certificate_hash'', JStr (certificate_hash c)),
      (''finality_status'', JStr ''FINALIZED''),
      (''mainnet_changed'', JBool False),
      (''assets_moved'', JBool False),
      (''bridge_activated'', JBool False)]"

type_synonym vote_verifier = "finality_vote \<Rightarrow> bool option"
type_synonym vote_identity = "int \<times> int \<times> string"

record fsm =
  fsm_chain_id :: int
  fsm_validators :: "(string, validator) dict"
  fsm_total_power :: int
  checkpoint_height :: int
  fsm_votes :: "(vote_identity, finality_vote) dict"
  finalized :: "(int, finality_certificate) dict"
  equivocations :: "vote_identity set"

section \<open>The state machine\<close>

definition finality_init :: "int \<Rightarrow> validator list \<Rightarrow> int \<Rightarrow> fsm result" where
  "finality_init chain_id items initial_finalized_height =
     (if chain_id \<le> 0
      then Inl (FinalityError ''chain_id must be a positive integer'')
      else if initial_finalized_height < -1
      then Inl (FinalityError ''initial_finalized_height must be at least -1'')
      else if length items < 3
      then Inl (FinalityError ''at least three validators are required'')
      else
        let by_id = dict_of (map (\<lambda>item. (validator_id item, item)) items) in
        if length by_id \<noteq> length items
        then Inl (FinalityError ''validator identities must be distinct'')
        else Inr \<lparr>fsm_chain_id = chain_id,
                  fsm_validators = sort_key fst by_id,
                  fsm_total_power = sum_list (map voting_power items),
                  checkpoint_height = initial_finalized_height,
                  fsm_votes = [], finalized = [], equivocations = {}\<rparr>)"

definition quorum_power :: "fsm \<Rightarrow> int" where
  "quorum_power m = (fsm_total_power m * 2) div 3 + 1"

definition latest_finalized_height :: "fsm \<Rightarrow> int" where
  "latest_finalized_height m =
     (if finalized m = [] then checkpoint_height m else Max (set (map fst (finalized m))))"

text \<open>The property \<open>equivocations\<close>: the recorded identities in order.\<close>

definition sorted_equivocations :: "fsm \<Rightarrow> vote_identity list" where
  "sorted_equivocations m = sorted_list_of_set (equivocations m)"

definition validate_block_hash :: "string \<Rightarrow> unit result" where
  "validate_block_hash b =
     (if length b \<noteq> 66 \<or> \<not> starts_with ''0x'' b
      then Inl (FinalityError ''block_hash must be a 32-byte hex value'')
      else if \<not> int16_ok (drop 2 b)
      then Inl (FinalityError ''block_hash must be a 32-byte hex value'')
      else Inr ())"

definition validate_vote :: "fsm \<Rightarrow> finality_vote \<Rightarrow> vote_verifier \<Rightarrow> unit result" where
  "validate_vote m w verifier =
     bindE (raise_if (fv_chain_id w \<noteq> fsm_chain_id m) (FinalityError ''vote chain_id mismatch'')) (\<lambda>_.
     bindE (raise_if (fv_height w < 0 \<or> fv_round w < 0)
              (FinalityError ''height and round must be non-negative integers'')) (\<lambda>_.
     bindE (validate_block_hash (fv_block_hash w)) (\<lambda>_.
     if dict_get (fsm_validators m) (fv_validator_id w) = None
     then Inl (FinalityError ''vote is from an unknown validator'')
     else if fv_signature w = [] \<or> 4096 < length (fv_signature w)
     then Inl (FinalityError ''vote signature must be 1 to 4096 bytes'')
     else if verifier w \<noteq> Some True
     then Inl (FinalityError ''vote signature verification failed'')
     else if fv_height w < latest_finalized_height m
     then Inl (FinalityError ''vote height is below finalized head'')
     else if fv_height w > latest_finalized_height m + 1
     then Inl (FinalityError ''vote height is not the next contiguous height'')
     else Inr ())))"

text \<open>
  \<open>self.validators[id].voting_power\<close>. A key that is missing would raise \<open>KeyError\<close>; the invariant
  shows that the votes held are all from known validators.
\<close>

definition power_of :: "(string, validator) dict \<Rightarrow> string \<Rightarrow> int" where
  "power_of vs i = (case dict_get vs i of Some v \<Rightarrow> voting_power v | None \<Rightarrow> 0)"

definition certificate_json ::
  "int \<Rightarrow> int \<Rightarrow> int \<Rightarrow> string \<Rightarrow> int \<Rightarrow> int \<Rightarrow> string list \<Rightarrow> string list \<Rightarrow> json" where
  "certificate_json chain h r block sp tp ids hashes = JObj
     [(''block_hash'', JStr block),
      (''chain_id'', JInt chain),
      (''height'', JInt h),
      (''round'', JInt r),
      (''signed_power'', JInt sp),
      (''total_power'', JInt tp),
      (''validator_ids'', JArr (map JStr ids)),
      (''vote_hashes'', JArr (map JStr hashes))]"

definition certificate_digest ::
  "int \<Rightarrow> int \<Rightarrow> int \<Rightarrow> string \<Rightarrow> int \<Rightarrow> int \<Rightarrow> string list \<Rightarrow> string list \<Rightarrow> string" where
  "certificate_digest chain h r block sp tp ids hashes =
     digest0x (''JUNCA_FINALITY_CERTIFICATE_V1'' @ [CHR 0x00] @
       encode (json_dumps (certificate_json chain h r block sp tp ids hashes)))"

definition build_certificate :: "fsm \<Rightarrow> finality_vote \<Rightarrow> finality_vote list \<Rightarrow> int \<Rightarrow> finality_certificate" where
  "build_certificate m w matching signed_power =
     (let ordered = sort_key fv_validator_id matching;
          ids = map fv_validator_id ordered;
          hashes = map vote_hash ordered
      in \<lparr>fc_chain_id = fsm_chain_id m,
          fc_height = fv_height w,
          fc_round = fv_round w,
          fc_block_hash = lower (fv_block_hash w),
          fc_signed_power = signed_power,
          fc_total_power = fsm_total_power m,
          fc_validator_ids = ids,
          fc_vote_hashes = hashes,
          certificate_hash = certificate_digest (fsm_chain_id m) (fv_height w) (fv_round w)
            (lower (fv_block_hash w)) signed_power (fsm_total_power m) ids hashes\<rparr>)"

definition certificate_if_finalized :: "fsm \<Rightarrow> int \<Rightarrow> string \<Rightarrow> finality_certificate option" where
  "certificate_if_finalized m h block =
     (case dict_get (finalized m) h of
        Some c \<Rightarrow> if fc_block_hash c = lower block then Some c else None
      | None \<Rightarrow> None)"

definition matching_votes :: "(vote_identity, finality_vote) dict \<Rightarrow> finality_vote \<Rightarrow> finality_vote list" where
  "matching_votes votes w =
     filter (\<lambda>item. fv_height item = fv_height w \<and> fv_round item = fv_round w \<and>
                    lower (fv_block_hash item) = lower (fv_block_hash w))
       (map snd votes)"

definition add_vote :: "fsm \<Rightarrow> finality_vote \<Rightarrow> vote_verifier \<Rightarrow> finality_certificate option result \<times> fsm" where
  "add_vote m w verifier =
     (case validate_vote m w verifier of
        Inl e \<Rightarrow> (Inl e, m)
      | Inr _ \<Rightarrow>
        (case dict_get (finalized m) (fv_height w) of
           Some c \<Rightarrow>
             if fc_block_hash c = lower (fv_block_hash w) then (Inr (Some c), m)
             else (Inl (FinalityError ''conflicting vote for finalized height''), m)
         | None \<Rightarrow>
           let identity = (fv_height w, fv_round w, fv_validator_id w) in
           (case dict_get (fsm_votes m) identity of
              Some previous \<Rightarrow>
                if lower (fv_block_hash previous) = lower (fv_block_hash w)
                then (Inr (certificate_if_finalized m (fv_height w) (fv_block_hash w)), m)
                else (Inl (FinalityError ''validator equivocation detected''),
                      m\<lparr>equivocations := insert identity (equivocations m)\<rparr>)
            | None \<Rightarrow>
              let m' = m\<lparr>fsm_votes := dict_set identity w (fsm_votes m)\<rparr>;
                  matching = matching_votes (fsm_votes m') w;
                  signed_power = (\<Sum>item \<leftarrow> matching. power_of (fsm_validators m') (fv_validator_id item)) in
              if signed_power < quorum_power m' then (Inr None, m')
              else
                let certificate = build_certificate m' w matching signed_power;
                    latest = latest_finalized_height m' in
                (case dict_get (finalized m') (fv_height w) of
                   Some existing \<Rightarrow>
                     if certificate_hash existing \<noteq> certificate_hash certificate
                     then (Inl (FinalityError ''height already finalized with a different certificate''), m')
                     else if (latest = -1 \<and> fv_height w \<noteq> 0) \<or>
                             (latest \<ge> 0 \<and> latest \<notin> {fv_height w - 1, fv_height w})
                     then (Inl (FinalityError ''finality height is not contiguous''), m')
                     else (Inr (Some certificate), m'\<lparr>finalized := dict_set (fv_height w) certificate (finalized m')\<rparr>)
                 | None \<Rightarrow>
                     if (latest = -1 \<and> fv_height w \<noteq> 0) \<or>
                        (latest \<ge> 0 \<and> latest \<notin> {fv_height w - 1, fv_height w})
                     then (Inl (FinalityError ''finality height is not contiguous''), m')
                     else (Inr (Some certificate),
                           m'\<lparr>finalized := dict_set (fv_height w) certificate (finalized m')\<rparr>)))))"

definition get_certificate :: "fsm \<Rightarrow> int \<Rightarrow> finality_certificate result" where
  "get_certificate m h =
     (case dict_get (finalized m) h of
        Some c \<Rightarrow> Inr c
      | None \<Rightarrow> Inl (FinalityError ''height is not finalized''))"

section \<open>Voting power\<close>

definition body_ok :: "(string, validator) dict \<Rightarrow> bool" where
  "body_ok vs \<longleftrightarrow> dict_ok vs \<and> (\<forall>(i, v) \<in> set vs. i = validator_id v \<and> 0 < voting_power v)"

definition fsm_body_ok :: "fsm \<Rightarrow> bool" where
  "fsm_body_ok m \<longleftrightarrow> body_ok (fsm_validators m) \<and>
     fsm_total_power m = (\<Sum>p \<leftarrow> fsm_validators m. voting_power (snd p))"

lemma power_of_pos: "body_ok vs \<Longrightarrow> i \<in> fst ` set vs \<Longrightarrow> 0 < power_of vs i"
  by (fastforce simp: body_ok_def power_of_def)

lemma power_of_sum: "dict_ok vs \<Longrightarrow> sum (power_of vs) (fst ` set vs) = (\<Sum>p \<leftarrow> vs. voting_power (snd p))"
proof (induction vs)
  case (Cons p vs)
  have "sum (power_of (p # vs)) (fst ` set vs) = sum (power_of vs) (fst ` set vs)"
    using Cons.prems by (intro sum.cong) (auto simp: power_of_def intro: rev_image_eqI)
  then show ?case
    using Cons by (cases p) (simp add: power_of_def)
qed simp

lemma two_thirds: "t * 2 div 3 + 1 \<le> p \<longleftrightarrow> 2 * t < 3 * (p :: int)"
  by linarith

interpretation machine: voting_body
  fsm_body_ok "\<lambda>m. fst ` set (fsm_validators m)" "\<lambda>m. power_of (fsm_validators m)" fsm_total_power
  "\<lambda>m p. quorum_power m \<le> p"
  by unfold_locales
     (auto simp: fsm_body_ok_def power_of_pos power_of_sum body_ok_def quorum_power_def two_thirds)

section \<open>Certificates backed by votes\<close>

definition certificate_of ::
  "int \<Rightarrow> int \<Rightarrow> int \<Rightarrow> int \<Rightarrow> string \<Rightarrow> int \<Rightarrow> finality_vote list \<Rightarrow> finality_certificate" where
  "certificate_of chain tp h r block sp ws =
     \<lparr>fc_chain_id = chain, fc_height = h, fc_round = r, fc_block_hash = block, fc_signed_power = sp,
      fc_total_power = tp, fc_validator_ids = map fv_validator_id ws, fc_vote_hashes = map vote_hash ws,
      certificate_hash = certificate_digest chain h r block sp tp (map fv_validator_id ws) (map vote_hash ws)\<rparr>"

lemma build_certificate_of:
  "build_certificate m w ws sp = certificate_of (fsm_chain_id m) (fsm_total_power m) (fv_height w) (fv_round w)
     (lower (fv_block_hash w)) sp (sort_key fv_validator_id ws)"
  by (simp add: build_certificate_def certificate_of_def Let_def)

text \<open>A vote that binds this chain, height, round and block, of a known validator and verified.\<close>

definition vote_for ::
  "vote_verifier \<Rightarrow> int \<Rightarrow> (string, validator) dict \<Rightarrow> int \<Rightarrow> int \<Rightarrow> string \<Rightarrow> finality_vote \<Rightarrow> bool" where
  "vote_for v chain vs h r block w \<longleftrightarrow>
     fv_chain_id w = chain \<and> fv_height w = h \<and> fv_round w = r \<and> 0 \<le> h \<and> 0 \<le> r \<and>
     is_hash32 (fv_block_hash w) \<and> lower (fv_block_hash w) = block \<and>
     fv_validator_id w \<in> fst ` set vs \<and> fv_signature w \<noteq> [] \<and> length (fv_signature w) \<le> 4096 \<and>
     v w = Some True"

text \<open>
  What a certificate promises: votes of distinct validators for its block, in the order of their
  identities, whose power is the signed power and more than two thirds of the total.
\<close>

definition backed :: "vote_verifier \<Rightarrow> int \<Rightarrow> (string, validator) dict \<Rightarrow> int \<Rightarrow> finality_certificate \<Rightarrow> bool" where
  "backed v chain vs tp c \<longleftrightarrow>
     (\<exists>ws. sorted (map fv_validator_id ws) \<and> distinct (map fv_validator_id ws) \<and>
        (\<forall>w \<in> set ws. vote_for v chain vs (fc_height c) (fc_round c) (fc_block_hash c) w) \<and>
        2 * tp < 3 * fc_signed_power c \<and>
        fc_signed_power c = (\<Sum>w \<leftarrow> ws. power_of vs (fv_validator_id w)) \<and>
        c = certificate_of chain tp (fc_height c) (fc_round c) (fc_block_hash c) (fc_signed_power c) ws)"

lemma sum_list_distinct_ids:
  "distinct (map f ws) \<Longrightarrow> (\<Sum>w \<leftarrow> ws. g (f w)) = sum (g :: _ \<Rightarrow> int) (f ` set ws)"
  by (simp add: distinct_map sum.reindex sum_list_distinct_conv_sum_set)

lemma backed_ids:
  assumes "backed v chain vs tp c"
  shows "set (fc_validator_ids c) \<subseteq> fst ` set vs" "distinct (fc_validator_ids c)" "sorted (fc_validator_ids c)"
    and "fc_signed_power c = sum (power_of vs) (set (fc_validator_ids c))" "2 * tp < 3 * fc_signed_power c"
    and "\<And>i. i \<in> set (fc_validator_ids c) \<Longrightarrow>
           \<exists>w. vote_for v chain vs (fc_height c) (fc_round c) (fc_block_hash c) w \<and> fv_validator_id w = i"
    and "fc_chain_id c = chain" "fc_total_power c = tp"
proof -
  obtain ws where ws: "sorted (map fv_validator_id ws)" "distinct (map fv_validator_id ws)"
      "\<forall>w \<in> set ws. vote_for v chain vs (fc_height c) (fc_round c) (fc_block_hash c) w"
      "2 * tp < 3 * fc_signed_power c" "fc_signed_power c = (\<Sum>w \<leftarrow> ws. power_of vs (fv_validator_id w))"
    and c: "c = certificate_of chain tp (fc_height c) (fc_round c) (fc_block_hash c) (fc_signed_power c) ws"
    using assms unfolding backed_def by blast
  have ids: "fc_validator_ids c = map fv_validator_id ws"
    by (subst c) (simp add: certificate_of_def)
  show "fc_chain_id c = chain" "fc_total_power c = tp"
    by (subst c, simp add: certificate_of_def)+
  show "2 * tp < 3 * fc_signed_power c"
    by (rule ws)
  show "fc_signed_power c = sum (power_of vs) (set (fc_validator_ids c))"
    using ws(2,5) by (simp add: ids sum_list_distinct_ids)
  show "distinct (fc_validator_ids c)" "sorted (fc_validator_ids c)"
    using ws(1,2) by (simp_all add: ids)
  show "set (fc_validator_ids c) \<subseteq> fst ` set vs"
    using ws(3) by (auto simp: ids vote_for_def)
  show "\<exists>w. vote_for v chain vs (fc_height c) (fc_round c) (fc_block_hash c) w \<and> fv_validator_id w = i"
    if "i \<in> set (fc_validator_ids c)" for i
    using ws(3) that by (auto simp: ids)
qed

section \<open>The invariant of the machine\<close>

definition vote_ok :: "vote_verifier \<Rightarrow> fsm \<Rightarrow> finality_vote \<Rightarrow> bool" where
  "vote_ok v m w \<longleftrightarrow>
     vote_for v (fsm_chain_id m) (fsm_validators m) (fv_height w) (fv_round w) (lower (fv_block_hash w)) w"

definition identity_of :: "finality_vote \<Rightarrow> vote_identity" where
  "identity_of w = (fv_height w, fv_round w, fv_validator_id w)"

definition fsm_ok :: "vote_verifier \<Rightarrow> fsm \<Rightarrow> bool" where
  "fsm_ok v m \<longleftrightarrow>
     fsm_body_ok m \<and> -1 \<le> checkpoint_height m \<and>
     dict_ok (fsm_votes m) \<and> (\<forall>(k, w) \<in> set (fsm_votes m). k = identity_of w \<and> vote_ok v m w) \<and>
     dict_ok (finalized m) \<and>
     (\<forall>(h, c) \<in> set (finalized m). h = fc_height c \<and>
        backed v (fsm_chain_id m) (fsm_validators m) (fsm_total_power m) c) \<and>
     (finalized m \<noteq> [] \<longrightarrow> (\<exists>lo. lo \<in> {checkpoint_height m, checkpoint_height m + 1} \<and> 0 \<le> lo \<and>
        fst ` set (finalized m) = {lo..latest_finalized_height m})) \<and>
     equivocations m \<subseteq> fst ` set (fsm_votes m)"

lemma validate_block_hash_Inr: "validate_block_hash b = Inr u \<longleftrightarrow> is_hash32 b"
  by (auto simp: validate_block_hash_def is_hash32_def)

lemma validate_vote_Inr [result_elims]:
  "validate_vote m w v = Inr u \<longleftrightarrow> vote_ok v m w \<and>
     latest_finalized_height m \<le> fv_height w \<and> fv_height w \<le> latest_finalized_height m + 1"
  by (auto simp: validate_vote_def bindE_Inr_iff raise_if_Inr_iff validate_block_hash_Inr vote_ok_def vote_for_def
      map_of_eq_None_iff)

lemma latest_Max: "finalized m \<noteq> [] \<Longrightarrow> latest_finalized_height m = Max (fst ` set (finalized m))"
  by (simp add: latest_finalized_height_def)

lemma latest_bounds:
  assumes "fsm_ok v m"
  shows "-1 \<le> latest_finalized_height m" "checkpoint_height m \<le> latest_finalized_height m"
    and "\<And>h. h \<in> fst ` set (finalized m) \<Longrightarrow> h \<le> latest_finalized_height m"
    and "latest_finalized_height m \<notin> fst ` set (finalized m) \<Longrightarrow> finalized m = []"
proof -
  have "checkpoint_height m \<le> latest_finalized_height m \<and> latest_finalized_height m \<in> fst ` set (finalized m)"
    if "finalized m \<noteq> []"
  proof -
    have "latest_finalized_height m \<in> fst ` set (finalized m)"
      using that Max_in [of "fst ` set (finalized m)"] by (simp add: latest_Max)
    moreover have "\<exists>lo \<ge> checkpoint_height m. fst ` set (finalized m) = {lo..latest_finalized_height m}"
      using assms that unfolding fsm_ok_def by (metis insert_iff order_refl singletonD zle_add1_eq_le zless_add1_eq)
    ultimately show ?thesis by (metis atLeastAtMost_iff order_trans)
  qed
  moreover have "latest_finalized_height m = checkpoint_height m" if "finalized m = []"
    using that by (simp add: latest_finalized_height_def)
  ultimately show "checkpoint_height m \<le> latest_finalized_height m"
      "latest_finalized_height m \<notin> fst ` set (finalized m) \<Longrightarrow> finalized m = []"
    by force+
  then show "-1 \<le> latest_finalized_height m"
    using assms by (simp add: fsm_ok_def)
  show "h \<le> latest_finalized_height m" if "h \<in> fst ` set (finalized m)" for h
    using that latest_Max [of m] by (cases "finalized m = []") simp_all
qed

section \<open>Every branch of \<open>add_vote\<close>\<close>

definition fresh_vote :: "fsm \<Rightarrow> finality_vote \<Rightarrow> bool" where
  "fresh_vote m w \<longleftrightarrow> dict_get (finalized m) (fv_height w) = None \<and> dict_get (fsm_votes m) (identity_of w) = None"

text \<open>The votes for the vote's block once it is stored, and their power.\<close>

definition supporters :: "fsm \<Rightarrow> finality_vote \<Rightarrow> finality_vote list" where
  "supporters m w = matching_votes (fsm_votes m) w @ [w]"

definition support :: "fsm \<Rightarrow> finality_vote \<Rightarrow> int" where
  "support m w = (\<Sum>item \<leftarrow> supporters m w. power_of (fsm_validators m) (fv_validator_id item))"

definition stored :: "fsm \<Rightarrow> finality_vote \<Rightarrow> fsm" where
  "stored m w = m\<lparr>fsm_votes := fsm_votes m @ [(identity_of w, w)]\<rparr>"

definition new_certificate :: "fsm \<Rightarrow> finality_vote \<Rightarrow> finality_certificate" where
  "new_certificate m w = certificate_of (fsm_chain_id m) (fsm_total_power m) (fv_height w) (fv_round w)
     (lower (fv_block_hash w)) (support m w) (sort_key fv_validator_id (supporters m w))"

lemma add_vote_fresh:
  assumes "fsm_ok v m" "validate_vote m w v = Inr ()" "fresh_vote m w"
  shows "add_vote m w v =
    (if 3 * support m w \<le> 2 * fsm_total_power m then (Inr None, stored m w)
     else (Inr (Some (new_certificate m w)),
           (stored m w)\<lparr>finalized := finalized m @ [(fv_height w, new_certificate m w)]\<rparr>))"
proof -
  have none: "dict_get (finalized m) (fv_height w) = None" "dict_get (fsm_votes m) (identity_of w) = None"
    using assms(3) by (simp_all add: fresh_vote_def)
  have store: "m\<lparr>fsm_votes := dict_set (identity_of w) w (fsm_votes m)\<rparr> = stored m w"
    by (simp add: stored_def dict_set_new [OF none(2)])
  have match: "matching_votes (fsm_votes (stored m w)) w = supporters m w"
    by (simp add: matching_votes_def supporters_def stored_def)
  have same: "fsm_validators (stored m w) = fsm_validators m" "finalized (stored m w) = finalized m"
    "quorum_power (stored m w) = quorum_power m" "latest_finalized_height (stored m w) = latest_finalized_height m"
    by (simp_all add: stored_def quorum_power_def latest_finalized_height_def)
  have cert: "build_certificate (stored m w) w (supporters m w) (support m w) = new_certificate m w"
    by (simp add: build_certificate_of new_certificate_def stored_def)
  have power: "(\<Sum>item \<leftarrow> supporters m w. power_of (fsm_validators m) (fv_validator_id item)) = support m w"
    by (simp add: support_def)
  have quorum: "support m w < quorum_power m \<longleftrightarrow> 3 * support m w \<le> 2 * fsm_total_power m"
    using two_thirds [of "fsm_total_power m" "support m w"] unfolding quorum_power_def by linarith
  have next_height: "\<not> (latest_finalized_height m = -1 \<and> fv_height w \<noteq> 0 \<or>
      0 \<le> latest_finalized_height m \<and> latest_finalized_height m \<notin> {fv_height w - 1, fv_height w})"
    using assms(2) by (auto simp: validate_vote_Inr vote_ok_def vote_for_def)
  show ?thesis
    unfolding add_vote_def assms(2) sum.case none option.case Let_def
    unfolding identity_of_def [symmetric] none option.case store match same power quorum cert
    using next_height dict_set_new [OF none(1)] by auto
qed

lemma add_vote_invalid: "validate_vote m w v = Inl e \<Longrightarrow> add_vote m w v = (Inl e, m)"
  by (simp only: add_vote_def sum.case)

lemma add_vote_final:
  "validate_vote m w v = Inr u \<Longrightarrow> dict_get (finalized m) (fv_height w) = Some c \<Longrightarrow>
     add_vote m w v =
       (if fc_block_hash c = lower (fv_block_hash w) then Inr (Some c)
        else Inl (FinalityError ''conflicting vote for finalized height''), m)"
  unfolding add_vote_def by (simp only: sum.case option.case) simp

lemma add_vote_cases:
  assumes "fsm_ok v m" "add_vote m w v = (r, m')"
  obtains
    (invalid) e where "validate_vote m w v = Inl e" "r = Inl e" "m' = m"
  | (final) c where "validate_vote m w v = Inr ()" "dict_get (finalized m) (fv_height w) = Some c"
      "r = (if fc_block_hash c = lower (fv_block_hash w) then Inr (Some c)
            else Inl (FinalityError ''conflicting vote for finalized height''))" "m' = m"
  | (repeated) w' where "validate_vote m w v = Inr ()" "dict_get (finalized m) (fv_height w) = None"
      "dict_get (fsm_votes m) (identity_of w) = Some w'" "lower (fv_block_hash w') = lower (fv_block_hash w)"
      "r = Inr None" "m' = m"
  | (equivocation) w' where "validate_vote m w v = Inr ()" "dict_get (finalized m) (fv_height w) = None"
      "dict_get (fsm_votes m) (identity_of w) = Some w'" "lower (fv_block_hash w') \<noteq> lower (fv_block_hash w)"
      "r = Inl (FinalityError ''validator equivocation detected'')"
      "m' = m\<lparr>equivocations := insert (identity_of w) (equivocations m)\<rparr>"
  | (pending) "validate_vote m w v = Inr ()" "fresh_vote m w" "3 * support m w \<le> 2 * fsm_total_power m"
      "r = Inr None" "m' = stored m w"
  | (decided) "validate_vote m w v = Inr ()" "fresh_vote m w" "2 * fsm_total_power m < 3 * support m w"
      "r = Inr (Some (new_certificate m w))"
      "m' = (stored m w)\<lparr>finalized := finalized m @ [(fv_height w, new_certificate m w)]\<rparr>"
proof (cases "validate_vote m w v")
  case (Inl e)
  from invalid [OF this] add_vote_invalid [OF Inl] assms(2) show ?thesis by simp
next
  case ok: (Inr u)
  show ?thesis
  proof (cases "dict_get (finalized m) (fv_height w)")
    case (Some c)
    from final [OF _ this] add_vote_final [OF ok Some] ok assms(2) show ?thesis by simp
  next
    case None
    show ?thesis
    proof (cases "dict_get (fsm_votes m) (identity_of w)")
      case (Some w')
      have "certificate_if_finalized m (fv_height w) (fv_block_hash w) = None"
        by (simp add: certificate_if_finalized_def None)
      then have add: "add_vote m w v = (if lower (fv_block_hash w') = lower (fv_block_hash w) then (Inr None, m)
          else (Inl (FinalityError ''validator equivocation detected''),
                m\<lparr>equivocations := insert (identity_of w) (equivocations m)\<rparr>))"
        unfolding add_vote_def ok sum.case None option.case Let_def identity_of_def [symmetric] Some by simp
      show ?thesis
      proof (cases "lower (fv_block_hash w') = lower (fv_block_hash w)")
        case True
        then show ?thesis using repeated [OF _ None Some] ok assms(2) add by simp
      next
        case False
        then show ?thesis using equivocation [OF _ None Some] ok assms(2) add by simp
      qed
    next
      case new: None
      then have "fresh_vote m w"
        using None by (simp add: fresh_vote_def)
      then show ?thesis
        using add_vote_fresh [OF assms(1), of w] ok assms(2) pending decided by (auto split: if_splits)
    qed
  qed
qed

section \<open>Reachable machines\<close>

inductive fsm_reachable :: "vote_verifier \<Rightarrow> fsm \<Rightarrow> bool" for v where
  started: "finality_init chain items h = Inr m \<Longrightarrow> (\<forall>i \<in> set items. validator_post_init i = Inr ()) \<Longrightarrow>
     fsm_reachable v m"
| voted: "fsm_reachable v m \<Longrightarrow> add_vote m w v = (r, m') \<Longrightarrow> fsm_reachable v m'"

lemma dict_of_keys: "set (dict_of d) \<subseteq> set d" "dict_ok (dict_of d)"
proof -
  have "set (foldl (\<lambda>e (k, v). dict_set k v e) e d) \<subseteq> set e \<union> set d \<and>
      dict_ok (foldl (\<lambda>e (k, v). dict_set k v e) e d)" if "dict_ok e" for e
    using that
  proof (induction d arbitrary: e)
    case (Cons p d)
    obtain k v where p: "p = (k, v)" by (cases p)
    show ?case
      using Cons.IH [OF dict_ok_set [OF Cons.prems, of k v]] set_dict_set [OF Cons.prems, of k v] by (auto simp: p)
  qed simp
  from this [of "[]"] show "set (dict_of d) \<subseteq> set d" "dict_ok (dict_of d)"
    by (simp_all add: dict_of_def)
qed

lemma dict_of_same_length:
  assumes "length (dict_of d) = length d"
  shows "mset (dict_of d) = mset d"
proof -
  have "distinct (dict_of d)"
    using dict_of_keys(2) [of d] by (simp add: distinct_map)
  then have "card (set (dict_of d)) = length d"
    using assms by (simp add: distinct_card)
  moreover have "card (set (dict_of d)) \<le> card (set d)"
    by (rule card_mono) (simp_all add: dict_of_keys)
  ultimately have card: "card (set (dict_of d)) = length d" "card (set d) = length d"
    using card_length [of d] by linarith+
  then have "distinct d" "set (dict_of d) = set d"
    by (simp_all add: card_distinct card_subset_eq dict_of_keys)
  then show ?thesis
    using \<open>distinct (dict_of d)\<close> by (simp add: set_eq_iff_mset_eq_distinct)
qed

lemma finality_init_Inr [result_elims]:
  "finality_init chain items h = Inr m \<longleftrightarrow>
     0 < chain \<and> -1 \<le> h \<and> 3 \<le> length items \<and>
     length (dict_of (map (\<lambda>item. (validator_id item, item)) items)) = length items \<and>
     m = \<lparr>fsm_chain_id = chain,
          fsm_validators = sort_key fst (dict_of (map (\<lambda>item. (validator_id item, item)) items)),
          fsm_total_power = sum_list (map voting_power items), checkpoint_height = h,
          fsm_votes = [], finalized = [], equivocations = {}\<rparr>"
  unfolding finality_init_def Let_def if_Inl_Inr_iff by (simp add: not_le not_less) blast

lemma finality_init_ok:
  assumes "finality_init chain items h = Inr m" "\<forall>i \<in> set items. validator_post_init i = Inr ()"
  shows "fsm_ok v m"
proof -
  let ?d = "map (\<lambda>item. (validator_id item, item)) items"
  have m: "fsm_validators m = sort_key fst (dict_of ?d)" "length (dict_of ?d) = length ?d" "-1 \<le> h"
    "fsm_total_power m = sum_list (map voting_power items)" "checkpoint_height m = h" "fsm_votes m = []"
    "finalized m = []" "equivocations m = {}"
    using assms(1) by (simp_all add: finality_init_Inr)
  have same: "mset (dict_of ?d) = mset ?d"
    using m(2) by (rule dict_of_same_length)
  then have "set (dict_of ?d) = set ?d"
    by (rule mset_eq_setD)
  moreover have "dict_ok (dict_of ?d)"
    by (rule dict_of_keys)
  moreover have "0 < voting_power i" if "i \<in> set items" for i
    using assms(2) that by (auto simp: validator_post_init_def split: if_splits)
  moreover have "(\<Sum>p \<leftarrow> sort_key fst (dict_of ?d). voting_power (snd p)) = sum_list (map voting_power items)"
    unfolding sum_list_sort_key sum_list_mset_eq [OF same] by (simp add: comp_def)
  ultimately show ?thesis
    using m by (auto simp: fsm_ok_def fsm_body_ok_def body_ok_def distinct_keys_sort_key)
qed

lemma supporters_facts:
  assumes "fsm_ok v m" "vote_ok v m w" "fresh_vote m w"
  shows "distinct (map fv_validator_id (supporters m w))"
    and "\<And>u. u \<in> set (supporters m w) \<Longrightarrow>
           vote_for v (fsm_chain_id m) (fsm_validators m) (fv_height w) (fv_round w) (lower (fv_block_hash w)) u"
proof -
  have keys: "map fst (fsm_votes m) = map identity_of (map snd (fsm_votes m))"
    using assms(1) by (auto simp: fsm_ok_def)
  have "dict_ok (fsm_votes m)"
    using assms(1) by (simp add: fsm_ok_def)
  then have "distinct (map identity_of (map snd (fsm_votes m)))"
    unfolding keys .
  moreover have "identity_of w \<notin> identity_of ` set (map snd (fsm_votes m))"
    using assms(3) arg_cong [OF keys, of set] by (simp add: fresh_vote_def map_of_eq_None_iff image_image)
  ultimately have "distinct (map identity_of (supporters m w))"
    by (auto simp: supporters_def matching_votes_def distinct_map_filter)
  moreover have "inj_on fv_validator_id (set (supporters m w))"
    if "distinct (map identity_of (supporters m w))"
  proof (rule inj_onI)
    fix u u'
    assume u: "u \<in> set (supporters m w)" "u' \<in> set (supporters m w)" "fv_validator_id u = fv_validator_id u'"
    then have "identity_of u = identity_of u'"
      by (auto simp: supporters_def matching_votes_def identity_of_def)
    then show "u = u'"
      using that u by (simp add: distinct_map inj_on_def)
  qed
  ultimately show "distinct (map fv_validator_id (supporters m w))"
    by (simp add: distinct_map)
  show "vote_for v (fsm_chain_id m) (fsm_validators m) (fv_height w) (fv_round w) (lower (fv_block_hash w)) u"
    if "u \<in> set (supporters m w)" for u
    using that assms(1,2) by (auto simp: supporters_def matching_votes_def fsm_ok_def vote_ok_def vote_for_def)
qed

lemma new_certificate_backed:
  assumes "fsm_ok v m" "vote_ok v m w" "fresh_vote m w" "2 * fsm_total_power m < 3 * support m w"
  shows "backed v (fsm_chain_id m) (fsm_validators m) (fsm_total_power m) (new_certificate m w)"
proof -
  let ?ws = "sort_key fv_validator_id (supporters m w)"
  have "distinct (map fv_validator_id ?ws)"
    using supporters_facts(1) [OF assms(1-3)] by (simp add: distinct_map_sort_key)
  moreover have "support m w = (\<Sum>u \<leftarrow> ?ws. power_of (fsm_validators m) (fv_validator_id u))"
    by (simp add: support_def sum_list_sort_key)
  ultimately show ?thesis
    using assms(4) supporters_facts(2) [OF assms(1-3)]
    unfolding backed_def by (intro exI [of _ ?ws]) (simp add: new_certificate_def certificate_of_def)
qed

lemma latest_snoc:
  assumes "finalized m' = finalized m @ [(h, c)]" "fsm_ok v m" "latest_finalized_height m \<le> h"
  shows "latest_finalized_height m' = h"
proof -
  have "x \<le> h" if "x \<in> fst ` set (finalized m)" for x
    using latest_bounds(3) [OF assms(2) that] assms(3) by simp
  then show ?thesis
    unfolding latest_finalized_height_def assms(1) by (simp add: Max_insert2)
qed

lemma add_vote_ok:
  assumes "fsm_ok v m" "add_vote m w v = (r, m')"
  shows "fsm_ok v m'"
  using assms
proof (cases rule: add_vote_cases)
  case (equivocation w')
  have "identity_of w \<in> fst ` set (fsm_votes m)"
    using map_of_SomeD [OF equivocation(3)] by force
  then show ?thesis
    using assms(1) equivocation(6)
    by (auto simp: fsm_ok_def fsm_body_ok_def vote_ok_def latest_finalized_height_def)
next
  case pending
  then show ?thesis
    using assms(1) unfolding fresh_vote_def map_of_eq_None_iff validate_vote_Inr
    by (auto simp: fsm_ok_def fsm_body_ok_def vote_ok_def latest_finalized_height_def stored_def)
next
  case decided
  have vote: "vote_ok v m w" "latest_finalized_height m \<le> fv_height w" "fv_height w \<le> latest_finalized_height m + 1"
    using decided(1) by (simp_all add: validate_vote_Inr)
  let ?c = "new_certificate m w" and ?l = "latest_finalized_height m"
  have fin: "finalized m' = finalized m @ [(fv_height w, ?c)]"
    by (simp add: decided(5))
  have latest: "latest_finalized_height m' = fv_height w"
    by (rule latest_snoc [OF fin assms(1) vote(2)])
  have new: "fv_height w \<notin> fst ` set (finalized m)"
    using decided(2) by (simp add: fresh_vote_def map_of_eq_None_iff)
  have heights: "\<exists>lo. lo \<in> {checkpoint_height m, checkpoint_height m + 1} \<and> 0 \<le> lo \<and>
      fst ` set (finalized m') = {lo..fv_height w}"
  proof (cases "finalized m = []")
    case True
    then have "?l = checkpoint_height m"
      by (simp add: latest_finalized_height_def)
    then show ?thesis
      using vote True by (intro exI [of _ "fv_height w"]) (auto simp: fin vote_ok_def vote_for_def)
  next
    case False
    then obtain lo where lo: "lo \<in> {checkpoint_height m, checkpoint_height m + 1}" "0 \<le> lo"
        "fst ` set (finalized m) = {lo..?l}"
      using assms(1) by (auto simp: fsm_ok_def)
    have in_l: "?l \<in> fst ` set (finalized m)"
      using latest_bounds(4) [OF assms(1)] False by blast
    then have "fv_height w = ?l + 1"
      using new vote by (metis dual_order.order_iff_strict zle_add1_eq_le order_antisym zless_imp_add1_zle)
    moreover have "lo \<le> ?l"
      using in_l lo(3) by simp
    ultimately show ?thesis
      using lo by (intro exI [of _ lo]) (auto simp: fin)
  qed
  have same: "fsm_validators m' = fsm_validators m" "fsm_chain_id m' = fsm_chain_id m"
    "fsm_total_power m' = fsm_total_power m" "checkpoint_height m' = checkpoint_height m"
    "equivocations m' = equivocations m" "fsm_votes m' = fsm_votes m @ [(identity_of w, w)]"
    by (simp_all add: decided(5) stored_def)
  have "fc_height ?c = fv_height w"
    by (simp add: new_certificate_def certificate_of_def)
  moreover have "identity_of w \<notin> fst ` set (fsm_votes m)"
    using decided(2) by (simp add: fresh_vote_def map_of_eq_None_iff)
  ultimately show ?thesis
    using assms(1) vote new heights new_certificate_backed [OF assms(1) vote(1) decided(2,3)]
    unfolding fsm_ok_def fsm_body_ok_def vote_ok_def same latest fin by auto
qed (use assms(1) in simp_all)

lemma fsm_reachable_ok: "fsm_reachable v m \<Longrightarrow> fsm_ok v m"
  by (induction rule: fsm_reachable.induct) (auto intro: finality_init_ok add_vote_ok)

section \<open>What a certificate proves\<close>

lemma get_certificate_Inr [result_elims]: "get_certificate m h = Inr c \<longleftrightarrow> dict_get (finalized m) h = Some c"
  by (simp add: get_certificate_def split: option.split)

lemma finalized_backed:
  "fsm_ok v m \<Longrightarrow> dict_get (finalized m) h = Some c \<Longrightarrow>
     fc_height c = h \<and> backed v (fsm_chain_id m) (fsm_validators m) (fsm_total_power m) c"
  by (auto simp: fsm_ok_def dest!: map_of_SomeD)

text \<open>
  C2. Every certificate of a reachable machine is earned: it names distinct known validators in
  order, each of which cast a verified vote for exactly this chain, height, round and block; the
  signed power is their power and more than two thirds of the total, which is the power of all
  validators.
\<close>

theorem certificate_earned:
  assumes "fsm_reachable v m" "get_certificate m h = Inr c"
  shows "fc_height c = h \<and> distinct (fc_validator_ids c) \<and> sorted (fc_validator_ids c) \<and>
         set (fc_validator_ids c) \<subseteq> fst ` set (fsm_validators m) \<and>
         (\<forall>i \<in> set (fc_validator_ids c). \<exists>w. v w = Some True \<and> fv_validator_id w = i \<and>
            fv_chain_id w = fsm_chain_id m \<and> fv_height w = h \<and> fv_round w = fc_round c \<and>
            lower (fv_block_hash w) = fc_block_hash c) \<and>
         fc_signed_power c = sum (power_of (fsm_validators m)) (set (fc_validator_ids c)) \<and>
         fsm_total_power m = sum (power_of (fsm_validators m)) (fst ` set (fsm_validators m)) \<and>
         2 * fsm_total_power m < 3 * fc_signed_power c"
proof -
  have ok: "fsm_ok v m"
    by (rule fsm_reachable_ok [OF assms(1)])
  have c: "fc_height c = h" "backed v (fsm_chain_id m) (fsm_validators m) (fsm_total_power m) c"
    using finalized_backed [OF ok] assms(2) by (simp_all add: get_certificate_Inr)
  have "fsm_total_power m = sum (power_of (fsm_validators m)) (fst ` set (fsm_validators m))"
    using ok by (intro machine.total_sum) (simp add: fsm_ok_def)
  moreover have "\<exists>w. v w = Some True \<and> fv_validator_id w = i \<and> fv_chain_id w = fsm_chain_id m \<and>
      fv_height w = h \<and> fv_round w = fc_round c \<and> lower (fv_block_hash w) = fc_block_hash c"
    if "i \<in> set (fc_validator_ids c)" for i
    using backed_ids(6) [OF c(2) that] c(1) by (auto simp: vote_for_def)
  ultimately show ?thesis
    using c(1) backed_ids(1-5) [OF c(2)] by simp
qed

section \<open>Finality is final\<close>

lemma add_vote_keeps:
  assumes "fsm_ok v m" "add_vote m w v = (r, m')" "dict_get (finalized m) h = Some c"
  shows "dict_get (finalized m') h = Some c"
  using assms(1,2) by (cases rule: add_vote_cases) (simp_all add: assms(3) stored_def map_add_def)

interpretation chain_log: write_once "\<lambda>m m'. fsm_reachable v m \<and> (\<exists>w r. add_vote m w v = (r, m'))" "\<lambda>m. dict_get (finalized m)" for v
  by unfold_locales (use fsm_reachable_ok add_vote_keeps in blast)

text \<open>
  Finality is irreversible and contiguous: a vote, accepted or rejected, never changes or removes
  a certificate, and the finalized heights are an interval that starts at the checkpoint or right
  after it.
\<close>

theorem finality_irreversible:
  assumes "fsm_reachable v m" "add_vote m w v = (r, m')"
  shows "(\<forall>h c. get_certificate m h = Inr c \<longrightarrow> get_certificate m' h = Inr c) \<and>
         checkpoint_height m' = checkpoint_height m \<and>
         (finalized m' \<noteq> [] \<longrightarrow>
            (\<exists>lo. lo \<in> {checkpoint_height m', checkpoint_height m' + 1} \<and> 0 \<le> lo \<and>
               fst ` set (finalized m') = {lo..latest_finalized_height m'}))"
proof -
  have ok: "fsm_ok v m"
    by (rule fsm_reachable_ok [OF assms(1)])
  have "checkpoint_height m' = checkpoint_height m"
    using ok assms(2) by (cases rule: add_vote_cases) (simp_all add: stored_def)
  then show ?thesis
    using add_vote_keeps [OF ok assms(2)] add_vote_ok [OF ok assms(2)]
    by (auto simp: get_certificate_Inr fsm_ok_def)
qed

section \<open>Agreement\<close>

text \<open>Validators with two verified votes of one height and round for different blocks.\<close>

definition equivocators :: "vote_verifier \<Rightarrow> int \<Rightarrow> int \<Rightarrow> int \<Rightarrow> string set" where
  "equivocators v chain h r =
     {i. \<exists>w w'. v w = Some True \<and> v w' = Some True \<and> fv_validator_id w = i \<and> fv_validator_id w' = i \<and>
        fv_chain_id w = chain \<and> fv_chain_id w' = chain \<and> fv_height w = h \<and> fv_height w' = h \<and>
        fv_round w = r \<and> fv_round w' = r \<and> lower (fv_block_hash w) \<noteq> lower (fv_block_hash w')}"

lemma backed_conflict:
  assumes "fsm_body_ok m"
    and "backed v (fsm_chain_id m) (fsm_validators m) (fsm_total_power m) c"
    and "backed v (fsm_chain_id m) (fsm_validators m) (fsm_total_power m) c'"
    and "fc_height c' = fc_height c" "fc_round c' = fc_round c" "fc_block_hash c \<noteq> fc_block_hash c'"
  shows "fsm_total_power m < 3 * sum (power_of (fsm_validators m))
    (equivocators v (fsm_chain_id m) (fc_height c) (fc_round c) \<inter> fst ` set (fsm_validators m))"
proof -
  let ?A = "set (fc_validator_ids c)" and ?B = "set (fc_validator_ids c')"
  let ?E = "equivocators v (fsm_chain_id m) (fc_height c) (fc_round c)"
  note c = backed_ids [OF assms(2)] and c' = backed_ids [OF assms(3)]
  have "quorum_power m \<le> sum (power_of (fsm_validators m)) ?A" "quorum_power m \<le> sum (power_of (fsm_validators m)) ?B"
    using c(4,5) c'(4,5) by (simp_all add: quorum_power_def two_thirds)
  then have "fsm_total_power m < 3 * sum (power_of (fsm_validators m)) (?A \<inter> ?B)"
    using machine.quorums_intersect [OF assms(1) c(1) c'(1)] by simp
  moreover have "?A \<inter> ?B \<subseteq> ?E \<inter> fst ` set (fsm_validators m)"
  proof
    fix i assume i: "i \<in> ?A \<inter> ?B"
    obtain w where "vote_for v (fsm_chain_id m) (fsm_validators m) (fc_height c) (fc_round c) (fc_block_hash c) w"
      "fv_validator_id w = i"
      using c(6) [of i] i by auto
    moreover obtain w' where "vote_for v (fsm_chain_id m) (fsm_validators m) (fc_height c) (fc_round c) (fc_block_hash c') w'"
      "fv_validator_id w' = i"
      using c'(6) [of i] i assms(4,5) by auto
    ultimately have "i \<in> ?E"
      using assms(6) unfolding equivocators_def vote_for_def mem_Collect_eq by metis
    then show "i \<in> ?E \<inter> fst ` set (fsm_validators m)"
      using i c(1) by auto
  qed
  then have "sum (power_of (fsm_validators m)) (?A \<inter> ?B) \<le> sum (power_of (fsm_validators m)) (?E \<inter> fst ` set (fsm_validators m))"
    by (intro machine.weight_mono [OF assms(1)]) auto
  ultimately show ?thesis by simp
qed

text \<open>
  C1. Accountable safety: where two machines with the same validators hold certificates of one height
  and round for different blocks, validators with more than a third of the power cast two verified
  votes in that round. With fewer equivocators the blocks are equal.
\<close>

theorem finality_agreement:
  assumes "fsm_reachable v m" "fsm_reachable v m'"
    and "fsm_chain_id m' = fsm_chain_id m" "fsm_validators m' = fsm_validators m"
    and "get_certificate m h = Inr c" "get_certificate m' h = Inr c'" "fc_round c = fc_round c'"
    and "3 * sum (power_of (fsm_validators m))
           (equivocators v (fsm_chain_id m) h (fc_round c) \<inter> fst ` set (fsm_validators m)) \<le> fsm_total_power m"
  shows "fc_block_hash c = fc_block_hash c'"
proof (rule ccontr)
  assume "fc_block_hash c \<noteq> fc_block_hash c'"
  moreover have ok: "fsm_ok v m" "fsm_ok v m'"
    using assms(1,2) by (simp_all add: fsm_reachable_ok)
  moreover have "fsm_total_power m' = fsm_total_power m"
    using ok assms(4) by (simp add: fsm_ok_def fsm_body_ok_def)
  moreover have "fsm_body_ok m"
    using ok by (simp add: fsm_ok_def)
  ultimately show False
    using backed_conflict [of m v c c'] finalized_backed [OF ok(1), of h c] finalized_backed [OF ok(2), of h c'] assms
    by (simp add: get_certificate_Inr)
qed

section \<open>Liveness\<close>

definition receive :: "vote_verifier \<Rightarrow> fsm \<Rightarrow> finality_vote list \<Rightarrow> fsm" where
  "receive v m ws = foldl (\<lambda>m w. snd (add_vote m w v)) m ws"

lemma receive_simps [simp]:
  "receive v m [] = m"
  "receive v m (w # ws) = receive v (snd (add_vote m w v)) ws"
  by (simp_all add: receive_def)

lemma receive_keeps:
  assumes "fsm_ok v m" "dict_get (finalized m) h = Some c"
  shows "dict_get (finalized (receive v m ws)) h = Some c"
  using assms
proof (induction ws arbitrary: m)
  case (Cons w ws)
  obtain r m' where m': "add_vote m w v = (r, m')"
    by (cases "add_vote m w v")
  show ?case
    using Cons.IH [OF add_vote_ok [OF Cons.prems(1) m'] add_vote_keeps [OF Cons.prems(1) m' Cons.prems(2)]] m' by simp
qed simp

text \<open>The machine has not decided the height and has stored the first votes for the block.\<close>

definition undecided :: "vote_verifier \<Rightarrow> fsm \<Rightarrow> int \<Rightarrow> int \<Rightarrow> string \<Rightarrow> finality_vote list \<Rightarrow> finality_vote list \<Rightarrow> bool" where
  "undecided v m h r b earlier ws \<longleftrightarrow>
     fsm_ok v m \<and> dict_get (finalized m) h = None \<and>
     latest_finalized_height m \<le> h \<and> h \<le> latest_finalized_height m + 1 \<and>
     distinct (map fv_validator_id (earlier @ ws)) \<and>
     (\<forall>w \<in> set earlier \<union> set ws. fv_height w = h \<and> fv_round w = r \<and> lower (fv_block_hash w) = b \<and> vote_ok v m w) \<and>
     (\<forall>w \<in> set earlier. (identity_of w, w) \<in> set (fsm_votes m)) \<and>
     (\<forall>w \<in> set ws. dict_get (fsm_votes m) (identity_of w) = None)"

lemma undecided_support:
  assumes "undecided v m h r b earlier (w # ws)"
  shows "(\<Sum>u \<leftarrow> earlier @ [w]. power_of (fsm_validators m) (fv_validator_id u)) \<le> support m w"
proof -
  have w: "fsm_ok v m" "vote_ok v m w" "fresh_vote m w"
    using assms by (simp_all add: undecided_def fresh_vote_def)
  have ids: "distinct (map fv_validator_id (earlier @ [w]))"
    using assms by (simp add: undecided_def)
  have sub: "set (earlier @ [w]) \<subseteq> set (supporters m w)"
  proof
    fix u assume u: "u \<in> set (earlier @ [w])"
    show "u \<in> set (supporters m w)"
    proof (cases "u = w")
      case False
      then have "(identity_of u, u) \<in> set (fsm_votes m)" "fv_height u = fv_height w" "fv_round u = fv_round w"
          "lower (fv_block_hash u) = lower (fv_block_hash w)"
        using u assms by (simp_all add: undecided_def)
      then show ?thesis
        by (auto simp: supporters_def matching_votes_def intro: rev_image_eqI)
    qed (simp add: supporters_def)
  qed
  have mem: "fv_validator_id ` set (supporters m w) \<subseteq> fst ` set (fsm_validators m)"
    using supporters_facts(2) [OF w] by (auto simp: vote_for_def)
  have "sum (power_of (fsm_validators m)) (fv_validator_id ` set (earlier @ [w])) \<le>
      sum (power_of (fsm_validators m)) (fv_validator_id ` set (supporters m w))"
    using w(1) sub mem by (intro machine.weight_mono) (auto simp: fsm_ok_def)
  then show ?thesis
    unfolding support_def sum_list_distinct_ids [OF ids] sum_list_distinct_ids [OF supporters_facts(1) [OF w]] .
qed

lemma undecided_step:
  assumes "undecided v m h r b earlier (w # ws)"
  obtains (decides) c where "dict_get (finalized (snd (add_vote m w v))) h = Some c" "fc_block_hash c = b"
  | (waits) "undecided v (snd (add_vote m w v)) h r b (earlier @ [w]) ws"
      "3 * (\<Sum>u \<leftarrow> earlier @ [w]. power_of (fsm_validators m) (fv_validator_id u)) \<le> 2 * fsm_total_power m"
proof -
  have w: "fsm_ok v m" "validate_vote m w v = Inr ()" "fresh_vote m w" "fv_height w = h" "lower (fv_block_hash w) = b"
    using assms by (simp_all add: undecided_def validate_vote_Inr fresh_vote_def)
  have add: "add_vote m w v =
    (if 3 * support m w \<le> 2 * fsm_total_power m then (Inr None, stored m w)
     else (Inr (Some (new_certificate m w)),
           (stored m w)\<lparr>finalized := finalized m @ [(fv_height w, new_certificate m w)]\<rparr>))"
    by (rule add_vote_fresh [OF w(1-3)])
  show ?thesis
  proof (cases "3 * support m w \<le> 2 * fsm_total_power m")
    case True
    have ok: "fsm_ok v (stored m w)"
      using add_vote_ok [OF w(1), of w "Inr None" "stored m w"] True by (simp add: add)
    have "fv_validator_id w \<notin> fv_validator_id ` set ws"
      using assms by (simp add: undecided_def)
    then have "identity_of u \<noteq> identity_of w" if "u \<in> set ws" for u
      using that by (auto simp: identity_of_def image_iff)
    then have "dict_get (fsm_votes (stored m w)) (identity_of u) = None" if "u \<in> set ws" for u
      using assms that by (auto simp: undecided_def stored_def map_add_def)
    moreover have "latest_finalized_height (stored m w) = latest_finalized_height m"
      by (simp add: latest_finalized_height_def stored_def)
    moreover have "vote_ok v (stored m w) = vote_ok v m"
      by (simp add: vote_ok_def stored_def fun_eq_iff)
    ultimately have "undecided v (stored m w) h r b (earlier @ [w]) ws"
      using assms ok unfolding undecided_def by (auto simp: stored_def)
    then show ?thesis
      using True undecided_support [OF assms] by (intro waits) (simp_all add: add)
  next
    case False
    then show ?thesis
      using w assms by (intro decides [of "new_certificate m w"])
        (simp_all add: add undecided_def map_add_def new_certificate_def certificate_of_def)
  qed
qed

lemma receive_decides:
  assumes "undecided v m h r b earlier ws"
    and "3 * (\<Sum>u \<leftarrow> earlier. power_of (fsm_validators m) (fv_validator_id u)) \<le> 2 * fsm_total_power m"
    and "2 * fsm_total_power m < 3 * (\<Sum>u \<leftarrow> earlier @ ws. power_of (fsm_validators m) (fv_validator_id u))"
  shows "\<exists>c. dict_get (finalized (receive v m ws)) h = Some c \<and> fc_block_hash c = b"
  using assms
proof (induction ws arbitrary: m earlier)
  case (Cons w ws)
  let ?m = "snd (add_vote m w v)"
  have ok: "fsm_ok v m"
    using Cons.prems(1) by (simp add: undecided_def)
  have "fsm_validators ?m = fsm_validators m \<and> fsm_total_power ?m = fsm_total_power m"
    by (rule add_vote_cases [OF ok, of w "fst (add_vote m w v)" ?m]) (simp_all add: stored_def)
  then have same: "fsm_validators ?m = fsm_validators m" "fsm_total_power ?m = fsm_total_power m"
    by simp_all
  have ok': "fsm_ok v ?m"
    using add_vote_ok [OF ok, of w "fst (add_vote m w v)" ?m] by simp
  from Cons.prems(1) show ?case
  proof (cases rule: undecided_step)
    case (decides c)
    then show ?thesis
      using receive_keeps [OF ok'] by auto
  next
    case waits
    then show ?thesis
      using Cons.IH [OF waits(1)] Cons.prems(3) same by simp
  qed
qed simp

text \<open>
  C22. Liveness: let a reachable machine not have decided a height that is next, or the checkpoint's
  own, and hold no vote of the senders in that round. Valid votes for one block, of distinct
  validators with more than two thirds of the power, then decide it for that block, in whatever
  order they arrive.
\<close>

theorem finality_liveness:
  assumes "fsm_reachable v m"
    and "get_certificate m h = Inl (FinalityError ''height is not finalized'')"
    and "\<forall>w \<in> set ws. validate_vote m w v = Inr () \<and> fv_height w = h \<and> fv_round w = r \<and>
           lower (fv_block_hash w) = b \<and> dict_get (fsm_votes m) (identity_of w) = None"
    and "distinct (map fv_validator_id ws)"
    and "2 * fsm_total_power m < 3 * sum (power_of (fsm_validators m)) (fv_validator_id ` set ws)"
  shows "\<exists>c. get_certificate (receive v m ws) h = Inr c \<and> fc_block_hash c = b"
proof -
  have ok: "fsm_ok v m"
    by (rule fsm_reachable_ok [OF assms(1)])
  have "0 \<le> fsm_total_power m"
    using machine.weight_mono [of m "{}" "fst ` set (fsm_validators m)"] machine.total_sum [of m] ok
    by (simp add: fsm_ok_def)
  moreover have "ws \<noteq> []"
    using assms(5) calculation by auto
  then have "latest_finalized_height m \<le> h \<and> h \<le> latest_finalized_height m + 1"
    using assms(3) by (cases ws) (auto simp: validate_vote_Inr)
  moreover have "dict_get (finalized m) h = None"
    using assms(2) by (simp add: get_certificate_def split: option.splits)
  ultimately have "undecided v m h r b [] ws"
    using assms(3,4) ok by (simp add: undecided_def validate_vote_Inr)
  from receive_decides [OF this] show ?thesis
    using \<open>0 \<le> fsm_total_power m\<close> assms(4,5) by (simp add: sum_list_distinct_ids get_certificate_Inr)
qed

text \<open>
  There is no lock across rounds: a started machine decides a block on the votes of one round and,
  started again, another block on the votes of a later round. No validator voted twice in a round,
  so two replicas that receive different votes can finalize different blocks at one height.
\<close>

theorem rounds_are_independent:
  assumes "finality_init chain items h0 = Inr m" "\<forall>i \<in> set items. validator_post_init i = Inr ()"
    and "\<forall>w \<in> set ws. validate_vote m w v = Inr () \<and> fv_height w = h \<and> fv_round w = r \<and> lower (fv_block_hash w) = b"
    and "\<forall>w \<in> set ws'. validate_vote m w v = Inr () \<and> fv_height w = h \<and> fv_round w = r' \<and> lower (fv_block_hash w) = b'"
    and "distinct (map fv_validator_id ws)" "distinct (map fv_validator_id ws')"
    and "2 * fsm_total_power m < 3 * sum (power_of (fsm_validators m)) (fv_validator_id ` set ws)"
    and "2 * fsm_total_power m < 3 * sum (power_of (fsm_validators m)) (fv_validator_id ` set ws')"
  shows "\<exists>c c'. get_certificate (receive v m ws) h = Inr c \<and> get_certificate (receive v m ws') h = Inr c' \<and>
           fc_block_hash c = b \<and> fc_block_hash c' = b'"
proof -
  have ok: "fsm_ok v m"
    by (rule finality_init_ok [OF assms(1,2)])
  have m: "finalized m = []" "fsm_votes m = []"
    using assms(1) by (simp_all add: finality_init_Inr)
  have pos: "0 \<le> fsm_total_power m"
    using machine.weight_mono [of m "{}" "fst ` set (fsm_validators m)"] machine.total_sum [of m] ok
    by (simp add: fsm_ok_def)
  have decides: "\<exists>c. dict_get (finalized (receive v m us)) h = Some c \<and> fc_block_hash c = d"
    if us: "\<forall>w \<in> set us. validate_vote m w v = Inr () \<and> fv_height w = h \<and> fv_round w = q \<and> lower (fv_block_hash w) = d"
      "distinct (map fv_validator_id us)" "2 * fsm_total_power m < 3 * sum (power_of (fsm_validators m)) (fv_validator_id ` set us)"
    for us q d
  proof -
    have "us \<noteq> []"
      using us(3) pos by auto
    then have "latest_finalized_height m \<le> h \<and> h \<le> latest_finalized_height m + 1"
      using us(1) by (cases us) (auto simp: validate_vote_Inr)
    then have "undecided v m h q d [] us"
      using us(1,2) ok by (simp add: undecided_def validate_vote_Inr m)
    from receive_decides [OF this] show ?thesis
      using pos us(2,3) by (simp add: sum_list_distinct_ids)
  qed
  from decides [OF assms(3,5,7)] decides [OF assms(4,6,8)] show ?thesis
    by (auto simp: get_certificate_Inr)
qed

section \<open>Every vote\<close>

text \<open>
  What a valid vote does, in every case. For a decided height it returns the certificate or is
  rejected; a repeated vote changes nothing; a second block of the same validator in the same round
  is recorded as an equivocation and rejected, the first vote stays; any other vote is stored, and
  it decides the height exactly when the votes for its block exceed two thirds of the power. The
  errors for a height that is not contiguous and for a second certificate cannot occur.
\<close>

theorem add_vote_effect:
  assumes "fsm_reachable v m" "validate_vote m w v = Inr ()"
  shows "add_vote m w v =
    (case dict_get (finalized m) (fv_height w) of
       Some c \<Rightarrow> (if fc_block_hash c = lower (fv_block_hash w) then Inr (Some c)
                   else Inl (FinalityError ''conflicting vote for finalized height''), m)
     | None \<Rightarrow>
       (case dict_get (fsm_votes m) (fv_height w, fv_round w, fv_validator_id w) of
          Some first \<Rightarrow>
            if lower (fv_block_hash first) = lower (fv_block_hash w) then (Inr None, m)
            else (Inl (FinalityError ''validator equivocation detected''),
                  m\<lparr>equivocations := insert (fv_height w, fv_round w, fv_validator_id w) (equivocations m)\<rparr>)
        | None \<Rightarrow>
            let m' = m\<lparr>fsm_votes := fsm_votes m @ [((fv_height w, fv_round w, fv_validator_id w), w)]\<rparr> in
            if 2 * fsm_total_power m < 3 * support m w
            then (Inr (Some (new_certificate m w)),
                  m'\<lparr>finalized := finalized m @ [(fv_height w, new_certificate m w)]\<rparr>)
            else (Inr None, m')))"
proof -
  have ok: "fsm_ok v m"
    by (rule fsm_reachable_ok [OF assms(1)])
  obtain r m' where add: "add_vote m w v = (r, m')"
    by (cases "add_vote m w v")
  from ok add show ?thesis
  proof (cases rule: add_vote_cases)
    case pending
    then show ?thesis
      by (simp add: add fresh_vote_def identity_of_def stored_def)
  next
    case decided
    then show ?thesis
      by (simp add: add fresh_vote_def identity_of_def stored_def)
  qed (simp_all add: add assms(2) identity_of_def)
qed

section \<open>Sample inputs\<close>

definition sample_validators :: "validator list" where
  "sample_validators =
     [\<lparr>validator_id = ''a'', voting_power = 1\<rparr>, \<lparr>validator_id = ''b'', voting_power = 1\<rparr>,
      \<lparr>validator_id = ''c'', voting_power = 1\<rparr>]"

definition block_x :: string where "block_x = ''0x'' @ replicate 64 (CHR ''1'')"
definition block_y :: string where "block_y = ''0x'' @ replicate 64 (CHR ''2'')"

definition sample_fsm :: fsm where
  "sample_fsm =
     \<lparr>fsm_chain_id = 7,
      fsm_validators = map (\<lambda>i. (validator_id i, i)) sample_validators,
      fsm_total_power = 3, checkpoint_height = -1, fsm_votes = [], finalized = [], equivocations = {}\<rparr>"

definition sample_vote :: "string \<Rightarrow> int \<Rightarrow> string \<Rightarrow> finality_vote" where
  "sample_vote b r i =
     \<lparr>fv_chain_id = 7, fv_height = 0, fv_round = r, fv_block_hash = b, fv_validator_id = i, fv_signature = ''s''\<rparr>"

definition sample_votes :: "string \<Rightarrow> int \<Rightarrow> finality_vote list" where
  "sample_votes b r = map (sample_vote b r) [''a'', ''b'', ''c'']"

lemma sample_init: "finality_init 7 sample_validators (-1) = Inr sample_fsm"
  by (simp add: finality_init_def sample_fsm_def sample_validators_def dict_of_def less_eq_char_def less_char_def)

lemma sample_validators_ok: "\<forall>i \<in> set sample_validators. validator_post_init i = Inr ()"
  by (simp add: sample_validators_def validator_post_init_def encode_def encode_char_def)

lemma sample_blocks: "is_hash32 block_x" "is_hash32 block_y" "lower block_x = block_x" "lower block_y = block_y"
  "block_x \<noteq> block_y"
proof -
  have "list_all is_lower_hex (replicate 64 (CHR ''1''))" "list_all is_lower_hex (replicate 64 (CHR ''2''))"
    by (simp_all add: list_all_iff is_lower_hex_def)
  then show "is_hash32 block_x" "is_hash32 block_y" "lower block_x = block_x" "lower block_y = block_y"
    by (simp_all add: is_hash32_def block_x_def block_y_def int16_ok_lower_hex lower_of_lower_hex)
       (simp_all add: lower_def lower_char_def)
  show "block_x \<noteq> block_y"
    by (simp add: block_x_def block_y_def)
qed

lemma sample_vote_valid:
  assumes "is_hash32 b" "lower b = b" "0 \<le> r" "i \<in> {''a'', ''b'', ''c''}" "v (sample_vote b r i) = Some True"
  shows "validate_vote sample_fsm (sample_vote b r i) v = Inr ()"
  using assms by (auto simp: validate_vote_Inr vote_ok_def vote_for_def sample_fsm_def sample_vote_def
      sample_validators_def latest_finalized_height_def)

lemma sample_votes_valid:
  assumes "is_hash32 b" "lower b = b" "0 \<le> r" "\<forall>w \<in> set (sample_votes b r). v w = Some True"
  shows "\<forall>w \<in> set (sample_votes b r). validate_vote sample_fsm w v = Inr () \<and> fv_height w = 0 \<and> fv_round w = r \<and>
    lower (fv_block_hash w) = b \<and> dict_get (fsm_votes sample_fsm) (identity_of w) = None"
  using assms sample_vote_valid [OF assms(1-3)]
  by (auto simp: sample_votes_def) (simp_all add: sample_vote_def sample_fsm_def)

lemma sample_power:
  "distinct (map fv_validator_id (sample_votes b r))"
  "2 * fsm_total_power sample_fsm < 3 * sum (power_of (fsm_validators sample_fsm)) (fv_validator_id ` set (sample_votes b r))"
  by (simp_all add: sample_votes_def sample_vote_def sample_fsm_def sample_validators_def power_of_def)

lemma receive_reachable: "fsm_reachable v m \<Longrightarrow> fsm_reachable v (receive v m ws)"
proof (induction ws arbitrary: m)
  case (Cons w ws)
  have "fsm_reachable v (snd (add_vote m w v))"
    by (rule fsm_reachable.voted [OF Cons.prems, of w "fst (add_vote m w v)"]) simp
  then show ?case
    using Cons.IH by simp
qed simp

lemma sample_reachable: "fsm_reachable v sample_fsm"
  by (rule fsm_reachable.started [OF sample_init sample_validators_ok])

lemma finality_liveness_witness:
  "\<exists>c. get_certificate (receive (\<lambda>_. Some True) sample_fsm (sample_votes block_x 0)) 0 = Inr c \<and>
     fc_block_hash c = block_x"
  by (rule finality_liveness [OF sample_reachable _ sample_votes_valid sample_power])
     (simp_all add: sample_blocks get_certificate_def sample_fsm_def)

lemma receive_constant:
  assumes "fsm_ok v m"
  shows "fsm_validators (receive v m ws) = fsm_validators m \<and> fsm_chain_id (receive v m ws) = fsm_chain_id m \<and>
         fsm_total_power (receive v m ws) = fsm_total_power m"
  using assms
proof (induction ws arbitrary: m)
  case (Cons w ws)
  have "fsm_validators (snd (add_vote m w v)) = fsm_validators m \<and> fsm_chain_id (snd (add_vote m w v)) = fsm_chain_id m \<and>
      fsm_total_power (snd (add_vote m w v)) = fsm_total_power m"
    by (rule add_vote_cases [OF Cons.prems, of w "fst (add_vote m w v)" "snd (add_vote m w v)"])
       (simp_all add: stored_def)
  then show ?case
    using Cons.IH [OF add_vote_ok [OF Cons.prems, of w "fst (add_vote m w v)"]] by simp
qed simp

definition trusting :: vote_verifier where "trusting w = Some (fv_block_hash w = block_x \<and> fv_round w = 0)"

lemma sample_decided:
  assumes "set ws = set (sample_votes block_x 0)" "distinct (map fv_validator_id ws)"
  obtains c where "get_certificate (receive trusting sample_fsm ws) 0 = Inr c" "fc_block_hash c = block_x" "fc_round c = 0"
proof -
  have v: "\<forall>w \<in> set (sample_votes block_x 0). trusting w = Some True"
    by (simp add: sample_votes_def sample_vote_def trusting_def)
  have "undecided trusting sample_fsm 0 0 block_x [] ws"
    using sample_votes_valid [OF sample_blocks(1,3) order_refl v] assms fsm_reachable_ok [OF sample_reachable]
    by (auto simp: undecided_def validate_vote_Inr sample_fsm_def latest_finalized_height_def)
  from receive_decides [OF this] obtain c
    where c: "dict_get (finalized (receive trusting sample_fsm ws)) 0 = Some c" "fc_block_hash c = block_x"
    using sample_power(2) [of block_x 0] assms by (auto simp: sum_list_distinct_ids sample_fsm_def)
  have ok: "fsm_ok trusting (receive trusting sample_fsm ws)"
    by (rule fsm_reachable_ok [OF receive_reachable [OF sample_reachable]])
  have backed: "backed trusting (fsm_chain_id (receive trusting sample_fsm ws))
      (fsm_validators (receive trusting sample_fsm ws)) (fsm_total_power (receive trusting sample_fsm ws)) c"
    using finalized_backed [OF ok c(1)] by simp
  have "fsm_total_power (receive trusting sample_fsm ws) = 3"
    using receive_constant [OF fsm_reachable_ok [OF sample_reachable], of trusting] by (simp add: sample_fsm_def)
  then have "fc_validator_ids c \<noteq> []"
    using backed_ids(4,5) [OF backed] by auto
  then obtain i where "i \<in> set (fc_validator_ids c)"
    by (cases "fc_validator_ids c") auto
  from backed_ids(6) [OF backed this] have "fc_round c = 0"
    by (auto simp: vote_for_def trusting_def)
  then show ?thesis
    using that c by (auto simp: get_certificate_Inr)
qed

lemma certificate_earned_witness:
  "\<exists>c. get_certificate (receive trusting sample_fsm (sample_votes block_x 0)) 0 = Inr c \<and>
     fc_height c = 0 \<and> 2 < fc_signed_power c"
proof -
  obtain c where c: "get_certificate (receive trusting sample_fsm (sample_votes block_x 0)) 0 = Inr c"
    by (rule sample_decided [OF refl sample_power(1)])
  have "fsm_total_power (receive trusting sample_fsm (sample_votes block_x 0)) = 3"
    using receive_constant [OF fsm_reachable_ok [OF sample_reachable], of trusting] by (simp add: sample_fsm_def)
  then show ?thesis
    using certificate_earned [OF receive_reachable [OF sample_reachable] c] c by auto
qed

lemma finality_irreversible_witness:
  "checkpoint_height (snd (add_vote sample_fsm (sample_vote block_x 0 ''a'') (\<lambda>_. Some True))) = -1"
proof -
  obtain r m' where add: "add_vote sample_fsm (sample_vote block_x 0 ''a'') (\<lambda>_. Some True) = (r, m')"
    by (cases "add_vote sample_fsm (sample_vote block_x 0 ''a'') (\<lambda>_. Some True)")
  show ?thesis
    using finality_irreversible [OF sample_reachable add] by (simp add: add) (simp add: sample_fsm_def)
qed

lemma finality_agreement_witness:
  "\<exists>c c'. get_certificate (receive trusting sample_fsm (sample_votes block_x 0)) 0 = Inr c \<and>
     get_certificate (receive trusting sample_fsm (rev (sample_votes block_x 0))) 0 = Inr c' \<and>
     fc_block_hash c = fc_block_hash c'"
proof -
  let ?m = "receive trusting sample_fsm (sample_votes block_x 0)"
  let ?m' = "receive trusting sample_fsm (rev (sample_votes block_x 0))"
  have distinct: "distinct (map fv_validator_id (rev (sample_votes block_x 0)))"
    by (simp add: sample_votes_def sample_vote_def)
  obtain c where c: "get_certificate ?m 0 = Inr c" "fc_round c = 0"
    by (rule sample_decided [OF refl sample_power(1)])
  obtain c' where c': "get_certificate ?m' 0 = Inr c'" "fc_round c' = 0"
    by (rule sample_decided [OF set_rev distinct])
  have reach: "fsm_reachable trusting ?m" "fsm_reachable trusting ?m'"
    by (rule receive_reachable [OF sample_reachable])+
  have same: "fsm_chain_id ?m' = fsm_chain_id ?m" "fsm_validators ?m' = fsm_validators ?m" "fsm_total_power ?m = 3"
    using receive_constant [OF fsm_reachable_ok [OF sample_reachable], of trusting] by (simp_all add: sample_fsm_def)
  have "equivocators trusting chain h r = {}" for chain h r
    by (auto simp: equivocators_def trusting_def)
  then show ?thesis
    using finality_agreement [OF reach same(1,2) c(1) c'(1)] c c' same(3) by simp
qed

lemma rounds_are_independent_witness:
  "\<exists>c c'. get_certificate (receive (\<lambda>_. Some True) sample_fsm (sample_votes block_x 0)) 0 = Inr c \<and>
     get_certificate (receive (\<lambda>_. Some True) sample_fsm (sample_votes block_y 1)) 0 = Inr c' \<and>
     fc_block_hash c \<noteq> fc_block_hash c'"
proof -
  have x: "\<forall>w \<in> set (sample_votes block_x 0). validate_vote sample_fsm w (\<lambda>_. Some True) = Inr () \<and> fv_height w = 0 \<and>
      fv_round w = 0 \<and> lower (fv_block_hash w) = block_x"
    using sample_votes_valid [OF sample_blocks(1,3), of 0 "\<lambda>_. Some True"] by simp
  have y: "\<forall>w \<in> set (sample_votes block_y 1). validate_vote sample_fsm w (\<lambda>_. Some True) = Inr () \<and> fv_height w = 0 \<and>
      fv_round w = 1 \<and> lower (fv_block_hash w) = block_y"
    using sample_votes_valid [OF sample_blocks(2,4), of 1 "\<lambda>_. Some True"] by simp
  show ?thesis
    using rounds_are_independent [OF sample_init sample_validators_ok x y sample_power(1) sample_power(1)
        sample_power(2) sample_power(2)] sample_blocks(5)
    by auto
qed

lemma add_vote_effect_witness:
  "fst (add_vote sample_fsm (sample_vote block_x 0 ''a'') (\<lambda>_. Some True)) = Inr None"
proof -
  have "validate_vote sample_fsm (sample_vote block_x 0 ''a'') (\<lambda>_. Some True) = Inr ()"
    by (rule sample_vote_valid) (simp_all add: sample_blocks)
  from add_vote_effect [OF sample_reachable this] show ?thesis
    by (simp add: sample_fsm_def support_def supporters_def matching_votes_def sample_vote_def sample_validators_def
        power_of_def)
qed

end
