(* ===== verification/Codec.thy ===== *)
theory Codec
  imports Json Sha256
begin

text \<open>
  The interface of an encoding, as the components that store or send a value rely on it: decoding
  what was encoded gives the value back. It follows that the encoding is injective and that encodings
  compose. The interpretations are the two encodings everything else is built from, hexadecimal text
  and canonical JSON; the components add their own.
\<close>

locale codec =
  fixes valid :: "'a \<Rightarrow> bool" and enc :: "'a \<Rightarrow> 'b" and dec :: "'b \<Rightarrow> 'a option"
  assumes dec_enc: "valid x \<Longrightarrow> dec (enc x) = Some x"
begin

lemma enc_inject: "valid x \<Longrightarrow> valid y \<Longrightarrow> enc x = enc y \<longleftrightarrow> x = y"
proof
  assume ok: "valid x" "valid y" and "enc x = enc y"
  then have "dec (enc x) = dec (enc y)"
    by simp
  then show "x = y"
    using ok by (simp add: dec_enc)
qed simp

lemma enc_inj_on: "inj_on enc {x. valid x}"
  by (auto simp: inj_on_def enc_inject)

lemma dec_lists: "(\<And>x. x \<in> set xs \<Longrightarrow> valid x) \<Longrightarrow> map (dec \<circ> enc) xs = map Some xs"
  by (induction xs) (simp_all add: dec_enc)

end

text \<open>Two encodings in a row.\<close>

locale codec_pair = first: codec valid1 enc1 dec1 + second: codec valid2 enc2 dec2
  for valid1 :: "'a \<Rightarrow> bool" and enc1 :: "'a \<Rightarrow> 'b" and dec1 and valid2 :: "'b \<Rightarrow> bool" and enc2 :: "'b \<Rightarrow> 'c" and dec2 +
  assumes enc1_valid2: "valid1 x \<Longrightarrow> valid2 (enc1 x)"

sublocale codec_pair \<subseteq> both: codec valid1 "\<lambda>x. enc2 (enc1 x)" "\<lambda>y. Option.bind (dec2 y) dec1"
  by unfold_locales (simp add: enc1_valid2 first.dec_enc second.dec_enc)

interpretation hex: codec "\<lambda>_. True" hex_of from_hex
  by unfold_locales simp

text \<open>A document whose members are in order is its own canonical form.\<close>

definition canonical :: "json \<Rightarrow> bool" where
  "canonical v \<longleftrightarrow> json_ok v \<and> json_canon v = v"

interpretation canon_text: codec canonical json_dumps json_loads
  by unfold_locales (simp add: canonical_def json_loads_dumps)

end
