(* ===== verification/SyncFinality.thy ===== *)
theory SyncFinality
  imports Finality Codec
begin

text \<open>
  \<open>sync_finality.py\<close>: validator sets with their activation schedule, and the verification of a
  finality proof, a list of signed votes, under the set active at its height. A proof from a peer is
  a JSON document; \<open>proof_from_payload\<close> reads it.
\<close>

section \<open>Validator sets\<close>

record validator_set =
  epoch :: int
  activation_height :: int
  vs_validators :: "validator list"

definition validator_set_post_init :: "validator_set \<Rightarrow> unit result" where
  "validator_set_post_init s =
     (if epoch s < 0 \<or> activation_height s < 0 \<or> length (vs_validators s) < 3 \<or> 10000 < length (vs_validators s)
      then Inl (SyncFinalityError ''validator set identity is invalid'')
      else if card (set (map validator_id (vs_validators s))) \<noteq> length (vs_validators s)
      then Inl (SyncFinalityError ''validator set identities must be distinct'')
      else if sort (map validator_id (vs_validators s)) \<noteq> map validator_id (vs_validators s)
      then Inl (SyncFinalityError ''validator set must be canonically ordered'')
      else Inr ())"

definition vs_total_power :: "validator_set \<Rightarrow> int" where
  "vs_total_power s = (\<Sum>item \<leftarrow> vs_validators s. voting_power item)"

definition vs_quorum_power :: "validator_set \<Rightarrow> int" where
  "vs_quorum_power s = (vs_total_power s * 2) div 3 + 1"

definition validator_set_json :: "validator_set \<Rightarrow> json" where
  "validator_set_json s = JObj
     [(''activation_height'', JInt (activation_height s)),
      (''epoch'', JInt (epoch s)),
      (''validators'', JArr (map (\<lambda>item. JObj
         [(''validator_id'', JStr (validator_id item)), (''voting_power'', JInt (voting_power item))])
         (vs_validators s)))]"

definition set_hash :: "validator_set \<Rightarrow> string" where
  "set_hash s = digest0x (''JUNCA_VALIDATOR_SET_V1'' @ [CHR 0x00] @ encode (json_dumps (validator_set_json s)))"

text \<open>A schedule is the list \<open>_sets\<close>, which is never empty.\<close>

type_synonym schedule = "validator_set list"

definition schedule_init :: "validator_set \<Rightarrow> schedule result" where
  "schedule_init initial =
     (if epoch initial \<noteq> 0 \<or> activation_height initial \<noteq> 0
      then Inl (SyncFinalityError ''initial validator set must activate at genesis'')
      else Inr [initial])"

definition register :: "schedule \<Rightarrow> validator_set \<Rightarrow> schedule result" where
  "register sets item =
     (let previous = last sets in
      if epoch item \<noteq> epoch previous + 1
      then Inl (SyncFinalityError ''validator set epoch must be contiguous'')
      else if activation_height item \<le> activation_height previous
      then Inl (SyncFinalityError ''validator set activation must advance'')
      else Inr (sets @ [item]))"

fun active_from :: "validator_set \<Rightarrow> validator_set list \<Rightarrow> int \<Rightarrow> validator_set" where
  "active_from active [] h = active"
| "active_from active (item # rest) h =
     (if activation_height item > h then active else active_from item rest h)"

definition at_height :: "schedule \<Rightarrow> int \<Rightarrow> validator_set result" where
  "at_height sets h =
     (if h < 0 then Inl (SyncFinalityError ''finality height must be non-negative'')
      else Inr (active_from (hd sets) (tl sets) h))"

definition schedule_evidence :: "schedule \<Rightarrow> json" where
  "schedule_evidence sets = JObj
     [(''schema_version'', JStr ''junca-validator-set-schedule/v1''),
      (''epochs'', JInt (int (length sets))),
      (''latest_epoch'', JInt (epoch (last sets))),
      (''latest_set_hash'', JStr (set_hash (last sets))),
      (''mainnet_changed'', JBool False),
      (''assets_moved'', JBool False),
      (''bridge_activated'', JBool False)]"

section \<open>Proofs\<close>

record finality_proof =
  fp_chain_id :: int
  fp_height :: int
  fp_round :: int
  fp_block_hash :: string
  fp_validator_set_hash :: string
  fp_votes :: "finality_vote list"
  fp_certificate_hash :: string

definition sync_hash :: "string \<Rightarrow> string \<Rightarrow> unit result" where
  "sync_hash v field =
     (if length v \<noteq> 66 \<or> \<not> starts_with ''0x'' v
      then Inl (SyncFinalityError (field @ '' must be a 32-byte hex value''))
      else if \<not> int16_ok (drop 2 v)
      then Inl (SyncFinalityError (field @ '' must be a 32-byte hex value''))
      else Inr ())"

text \<open>The body of the loop over the votes: the sets \<open>seen\<close> and \<open>accepted\<close>.\<close>

definition accept_vote ::
  "finality_proof \<Rightarrow> (string, validator) dict \<Rightarrow> vote_verifier \<Rightarrow> string set \<times> finality_vote list \<Rightarrow> finality_vote
     \<Rightarrow> (string set \<times> finality_vote list) result" where
  "accept_vote p by_id verifier acc w =
     (let (seen, accepted) = acc in
      if fv_signature w = [] \<or> 4096 < length (fv_signature w)
      then Inl (SyncFinalityError ''finality vote boundary is invalid'')
      else
        bindE (sync_hash (fv_block_hash w) ''vote block_hash'') (\<lambda>_.
        if fv_validator_id w \<in> seen
        then Inl (SyncFinalityError ''finality proof contains a duplicate validator'')
        else if dict_get by_id (fv_validator_id w) = None
        then Inl (SyncFinalityError ''finality proof contains an unknown validator'')
        else if fv_chain_id w \<noteq> fp_chain_id p \<or> fv_height w \<noteq> fp_height p \<or> fv_round w \<noteq> fp_round p \<or>
                lower (fv_block_hash w) \<noteq> lower (fp_block_hash p)
        then Inl (SyncFinalityError ''finality vote does not bind the proof'')
        else if verifier w \<noteq> Some True
        then Inl (SyncFinalityError ''finality vote signature verification failed'')
        else Inr (insert (fv_validator_id w) seen, accepted @ [w])))"

definition verify_proof :: "int \<Rightarrow> schedule \<Rightarrow> vote_verifier \<Rightarrow> finality_proof \<Rightarrow> finality_certificate result" where
  "verify_proof chain sets verifier p =
     bindE (raise_if (fp_chain_id p \<noteq> chain \<or> fp_height p < 0 \<or> fp_round p < 0 \<or> fp_votes p = [])
              (SyncFinalityError ''finality proof identity mismatch'')) (\<lambda>_.
     bindE (sync_hash (fp_block_hash p) ''block_hash'') (\<lambda>_.
     bindE (sync_hash (fp_validator_set_hash p) ''validator_set_hash'') (\<lambda>_.
     bindE (sync_hash (fp_certificate_hash p) ''certificate_hash'') (\<lambda>_.
     bindE (at_height sets (fp_height p)) (\<lambda>active.
     if lower (fp_validator_set_hash p) \<noteq> set_hash active
     then Inl (SyncFinalityError ''finality proof uses the wrong validator set'')
     else if length (fp_votes p) > length (vs_validators active)
     then Inl (SyncFinalityError ''finality proof contains too many votes'')
     else
       let by_id = dict_of (map (\<lambda>item. (validator_id item, item)) (vs_validators active)) in
       bindE (foldE (accept_vote p by_id verifier) ({}, []) (fp_votes p)) (\<lambda>(_, accepted).
       let signed_power = (\<Sum>item \<leftarrow> accepted. power_of by_id (fv_validator_id item)) in
       if signed_power < vs_quorum_power active
       then Inl (SyncFinalityError ''finality proof lacks strict two-thirds quorum'')
       else
         let ordered = sort_key fv_validator_id accepted;
             ids = map fv_validator_id ordered;
             hashes = map vote_hash ordered;
             digest = certificate_digest chain (fp_height p) (fp_round p) (lower (fp_block_hash p)) signed_power
               (vs_total_power active) ids hashes in
         if digest \<noteq> lower (fp_certificate_hash p)
         then Inl (SyncFinalityError ''finality certificate hash mismatch'')
         else Inr \<lparr>fc_chain_id = chain,
                   fc_height = fp_height p,
                   fc_round = fp_round p,
                   fc_block_hash = lower (fp_block_hash p),
                   fc_signed_power = signed_power,
                   fc_total_power = vs_total_power active,
                   fc_validator_ids = ids,
                   fc_vote_hashes = hashes,
                   certificate_hash = digest\<rparr>))))))"

section \<open>Payloads\<close>

definition proof_fields :: "string list" where
  "proof_fields =
     [''chain_id'', ''height'', ''round'', ''block_hash'', ''validator_set_hash'', ''votes'', ''certificate_hash'']"

definition vote_fields :: "string list" where
  "vote_fields = [''chain_id'', ''height'', ''round'', ''block_hash'', ''validator_id'', ''signature'']"

definition vote_signature :: "json \<Rightarrow> bytes result" where
  "vote_signature v =
     (case v of
        JStr s \<Rightarrow>
          if length s < 2 \<or> 8192 < length s \<or> length s mod 2 \<noteq> 0 \<or> s = [] \<or> \<not> list_all is_lower_hex s
          then Inl (SyncFinalityError ''finality vote signature encoding is invalid'')
          else (case from_hex s of
                  Some b \<Rightarrow> Inr b
                | None \<Rightarrow> Inl (SyncFinalityError ''finality vote signature encoding is invalid''))
      | _ \<Rightarrow> Inl (SyncFinalityError ''finality vote signature encoding is invalid''))"

definition vote_from_payload :: "json \<Rightarrow> finality_vote result" where
  "vote_from_payload raw =
     (case raw of
        JObj ms \<Rightarrow>
          if json_keys ms \<noteq> set vote_fields
          then Inl (SyncFinalityError ''finality vote fields are invalid'')
          else
            bindE (vote_signature (json_at ms ''signature'')) (\<lambda>sig.
            bindE (int_field (json_at ms ''chain_id'')) (\<lambda>ch.
            bindE (int_field (json_at ms ''height'')) (\<lambda>h.
            bindE (int_field (json_at ms ''round'')) (\<lambda>r.
            bindE (str_field (json_at ms ''block_hash'')) (\<lambda>b.
            bindE (str_field (json_at ms ''validator_id'')) (\<lambda>i.
            Inr \<lparr>fv_chain_id = ch, fv_height = h, fv_round = r, fv_block_hash = b,
                 fv_validator_id = i, fv_signature = sig\<rparr>))))))
      | _ \<Rightarrow> Inl (SyncFinalityError ''finality vote fields are invalid''))"

definition proof_from_payload :: "json \<Rightarrow> finality_proof result" where
  "proof_from_payload payload =
     (case payload of
        JObj ms \<Rightarrow>
          if json_keys ms \<noteq> set proof_fields
          then Inl (SyncFinalityError ''finality proof fields are invalid'')
          else
            (case json_at ms ''votes'' of
               JArr raw_votes \<Rightarrow>
                 if raw_votes = []
                 then Inl (SyncFinalityError ''finality proof votes are invalid'')
                 else
                   bindE (mapE vote_from_payload raw_votes) (\<lambda>votes.
                   bindE (int_field (json_at ms ''chain_id'')) (\<lambda>ch.
                   bindE (int_field (json_at ms ''height'')) (\<lambda>h.
                   bindE (int_field (json_at ms ''round'')) (\<lambda>r.
                   bindE (str_field (json_at ms ''block_hash'')) (\<lambda>b.
                   bindE (str_field (json_at ms ''validator_set_hash'')) (\<lambda>s.
                   bindE (str_field (json_at ms ''certificate_hash'')) (\<lambda>c.
                   Inr \<lparr>fp_chain_id = ch, fp_height = h, fp_round = r, fp_block_hash = b,
                        fp_validator_set_hash = s, fp_votes = votes, fp_certificate_hash = c\<rparr>)))))))
             | _ \<Rightarrow> Inl (SyncFinalityError ''finality proof votes are invalid''))
      | _ \<Rightarrow> Inl (SyncFinalityError ''finality proof fields are invalid''))"

definition vote_to_payload :: "finality_vote \<Rightarrow> json" where
  "vote_to_payload w = JObj
     [(''chain_id'', JInt (fv_chain_id w)),
      (''height'', JInt (fv_height w)),
      (''round'', JInt (fv_round w)),
      (''block_hash'', JStr (fv_block_hash w)),
      (''validator_id'', JStr (fv_validator_id w)),
      (''signature'', JStr (hex_of (fv_signature w)))]"

definition proof_to_payload :: "finality_proof \<Rightarrow> json" where
  "proof_to_payload p = JObj
     [(''chain_id'', JInt (fp_chain_id p)),
      (''height'', JInt (fp_height p)),
      (''round'', JInt (fp_round p)),
      (''block_hash'', JStr (fp_block_hash p)),
      (''validator_set_hash'', JStr (fp_validator_set_hash p)),
      (''votes'', JArr (map vote_to_payload (fp_votes p))),
      (''certificate_hash'', JStr (fp_certificate_hash p))]"

section \<open>The voting power of a set\<close>

definition set_pairs :: "validator_set \<Rightarrow> (string, validator) dict" where
  "set_pairs s = map (\<lambda>item. (validator_id item, item)) (vs_validators s)"

definition set_ok :: "validator_set \<Rightarrow> bool" where
  "set_ok s \<longleftrightarrow> validator_set_post_init s = Inr () \<and> (\<forall>i \<in> set (vs_validators s). validator_post_init i = Inr ())"

lemma set_ok_facts:
  assumes "set_ok s"
  shows "body_ok (set_pairs s)" "sorted (map fst (set_pairs s))" "dict_of (set_pairs s) = set_pairs s"
    "0 \<le> activation_height s"
proof -
  have "distinct (map validator_id (vs_validators s))" "sorted (map validator_id (vs_validators s))"
      "0 \<le> activation_height s"
    using assms by (auto simp: set_ok_def validator_set_post_init_def card_distinct if_Inl_Inr_iff)
      (metis sorted_sort)
  moreover have "0 < voting_power i" if "i \<in> set (vs_validators s)" for i
    using assms that by (auto simp: set_ok_def validator_post_init_def if_Inl_Inr_iff)
  ultimately show "body_ok (set_pairs s)" "sorted (map fst (set_pairs s))" "0 \<le> activation_height s"
    by (auto simp: body_ok_def set_pairs_def comp_def)
  then show "dict_of (set_pairs s) = set_pairs s"
    by (simp add: dict_of_distinct body_ok_def)
qed

interpretation vset: voting_body
  set_ok "\<lambda>s. fst ` set (set_pairs s)" "\<lambda>s. power_of (set_pairs s)" vs_total_power "\<lambda>s p. vs_quorum_power s \<le> p"
proof
  fix s assume "set_ok s"
  then have "sum (power_of (set_pairs s)) (fst ` set (set_pairs s)) = (\<Sum>p \<leftarrow> set_pairs s. voting_power (snd p))"
    using set_ok_facts(1) by (simp add: power_of_sum body_ok_def)
  then show "vs_total_power s = sum (power_of (set_pairs s)) (fst ` set (set_pairs s))"
    by (simp add: vs_total_power_def set_pairs_def comp_def)
next
  show "set_ok s \<Longrightarrow> i \<in> fst ` set (set_pairs s) \<Longrightarrow> 0 < power_of (set_pairs s) i" for s i
    using set_ok_facts(1) by (simp add: power_of_pos)
qed (simp_all add: vs_quorum_power_def two_thirds)

section \<open>The schedule\<close>

inductive scheduled :: "schedule \<Rightarrow> bool" where
  genesis: "schedule_init s = Inr sets \<Longrightarrow> set_ok s \<Longrightarrow> scheduled sets"
| registered: "scheduled sets \<Longrightarrow> register sets s = Inr sets' \<Longrightarrow> set_ok s \<Longrightarrow> scheduled sets'"

lemma schedule_init_Inr [result_elims]:
  "schedule_init s = Inr sets \<longleftrightarrow> epoch s = 0 \<and> activation_height s = 0 \<and> sets = [s]"
  by (auto simp: schedule_init_def)

lemma register_Inr [result_elims]:
  "register sets s = Inr sets' \<longleftrightarrow>
     epoch s = epoch (last sets) + 1 \<and> activation_height (last sets) < activation_height s \<and> sets' = sets @ [s]"
  by (auto simp: register_def Let_def)

lemma sorted_wrt_last:
  "sorted_wrt (<) (map f xs) \<Longrightarrow> x \<in> set xs \<Longrightarrow> f x \<le> (f (last xs) :: int)"
  by (induction xs rule: rev_induct) (auto simp: sorted_wrt_append less_imp_le)

lemma scheduled_ok:
  assumes "scheduled sets"
  shows "sets \<noteq> []" "activation_height (hd sets) = 0" "sorted_wrt (<) (map activation_height sets)"
    "\<forall>s \<in> set sets. set_ok s" "map epoch sets = map int [0..<length sets]"
proof -
  have "sets \<noteq> [] \<and> activation_height (hd sets) = 0 \<and> sorted_wrt (<) (map activation_height sets) \<and>
      (\<forall>s \<in> set sets. set_ok s) \<and> map epoch sets = map int [0..<length sets]"
    using assms
  proof induction
    case (registered sets s sets')
    have "activation_height t < activation_height s" if "t \<in> set sets" for t
      using sorted_wrt_last [of activation_height sets t] registered that by (simp add: register_Inr)
    moreover have "epoch s = int (length sets)"
    proof -
      have "epoch (last sets) = last (map epoch sets)"
        using conjunct1 [OF registered.IH] by (simp add: last_map)
      also have "\<dots> = last (map int [0..<length sets])"
        using registered.IH by (simp only:)
      also have "\<dots> = int (length sets) - 1"
        using conjunct1 [OF registered.IH] by (simp add: last_map Suc_le_eq of_nat_diff)
      finally show ?thesis
        using registered.hyps by (simp add: register_Inr)
    qed
    ultimately show ?case
      using registered by (simp add: register_Inr sorted_wrt_append)
  qed (auto simp: schedule_init_Inr)
  then show "sets \<noteq> []" "activation_height (hd sets) = 0" "sorted_wrt (<) (map activation_height sets)"
    "\<forall>s \<in> set sets. set_ok s" "map epoch sets = map int [0..<length sets]"
    by simp_all
qed

lemma active_from_nth:
  assumes "activation_height s \<le> h"
  shows "\<exists>i < length (s # sets). active_from s sets h = (s # sets) ! i \<and> activation_height ((s # sets) ! i) \<le> h \<and>
    (Suc i < length (s # sets) \<longrightarrow> h < activation_height ((s # sets) ! Suc i))"
  using assms
proof (induction sets arbitrary: s)
  case (Cons t sets)
  show ?case
  proof (cases "activation_height t \<le> h")
    case True
    with Cons.IH obtain i where "i < length (t # sets)" "active_from t sets h = (t # sets) ! i"
        "activation_height ((t # sets) ! i) \<le> h"
        "Suc i < length (t # sets) \<longrightarrow> h < activation_height ((t # sets) ! Suc i)"
      by blast
    then show ?thesis
      using True by (intro exI [of _ "Suc i"]) simp
  next
    case False
    then show ?thesis
      using Cons.prems by (intro exI [of _ 0]) simp
  qed
qed simp

lemma active_from_in: "active_from s sets h \<in> set (s # sets)"
  by (induction sets arbitrary: s) auto

lemma active_from_snoc: "h < activation_height t \<Longrightarrow> active_from s (sets @ [t]) h = active_from s sets h"
  by (induction sets arbitrary: s) auto

text \<open>
  The validator set of a height is the one active there: the schedule's last set whose
  activation is not after the height, under the epoch of its position. Registering another set
  leaves the answer for every lower height unchanged.
\<close>

theorem at_height_active:
  assumes "scheduled sets" "0 \<le> h"
  shows "\<exists>i < length sets. at_height sets h = Inr (sets ! i) \<and> epoch (sets ! i) = int i \<and>
           activation_height (sets ! i) \<le> h \<and>
           (Suc i < length sets \<longrightarrow> h < activation_height (sets ! Suc i)) \<and>
           (\<forall>t sets'. register sets t = Inr sets' \<and> h < activation_height t \<longrightarrow> at_height sets' h = Inr (sets ! i))"
proof -
  note sets = scheduled_ok [OF assms(1)]
  obtain s rest where s: "sets = s # rest"
    using sets(1) by (cases sets) auto
  obtain i where i: "i < length sets" "active_from s rest h = sets ! i" "activation_height (sets ! i) \<le> h"
      "Suc i < length sets \<longrightarrow> h < activation_height (sets ! Suc i)"
    using active_from_nth [of s h rest] sets(2) assms(2) by (auto simp: s)
  have "epoch (sets ! i) = int i"
    using sets(5) i(1) by (metis add_0 diff_zero length_upt nth_map nth_upt)
  then show ?thesis
    using i assms(2) by (intro exI [of _ i]) (auto simp: at_height_def s register_Inr active_from_snoc)
qed

section \<open>Verified proofs\<close>

lemma sync_hash_Inr: "sync_hash v f = Inr u \<longleftrightarrow> is_hash32 v"
  by (simp add: sync_hash_def is_hash32_def if_Inl_Inr_iff)

lemma accept_vote_Inr [result_elims]:
  assumes "0 \<le> fp_height p" "0 \<le> fp_round p"
  shows "accept_vote p vs v (seen, acc) w = Inr acc' \<longleftrightarrow>
     vote_for v (fp_chain_id p) vs (fp_height p) (fp_round p) (lower (fp_block_hash p)) w \<and>
     fv_validator_id w \<notin> seen \<and> acc' = (insert (fv_validator_id w) seen, acc @ [w])"
  using assms
  by (auto simp: accept_vote_def vote_for_def if_Inl_Inr_iff bindE_Inr_iff sync_hash_Inr map_of_eq_None_iff not_less)

lemma accept_votes_Inr:
  assumes "0 \<le> fp_height p" "0 \<le> fp_round p"
  shows "foldE (accept_vote p vs v) (seen, acc) ws = Inr acc' \<longleftrightarrow>
     (\<forall>w \<in> set ws. vote_for v (fp_chain_id p) vs (fp_height p) (fp_round p) (lower (fp_block_hash p)) w) \<and>
     distinct (map fv_validator_id ws) \<and> fv_validator_id ` set ws \<inter> seen = {} \<and>
     acc' = (fv_validator_id ` set ws \<union> seen, acc @ ws)"
proof (induction ws arbitrary: seen acc)
  case (Cons w ws)
  show ?case
    by (auto simp: bindE_Inr_iff accept_vote_Inr [OF assms] Cons.IH)
qed auto

lemma verify_proof_Inr:
  assumes "scheduled sets"
  shows "verify_proof chain sets v p = Inr c \<longleftrightarrow>
    (\<exists>s. at_height sets (fp_height p) = Inr s \<and> 0 \<le> fp_height p \<and> 0 \<le> fp_round p \<and> fp_votes p \<noteq> [] \<and>
       fp_chain_id p = chain \<and>
       is_hash32 (fp_block_hash p) \<and> is_hash32 (fp_validator_set_hash p) \<and> is_hash32 (fp_certificate_hash p) \<and>
       lower (fp_validator_set_hash p) = set_hash s \<and> length (fp_votes p) \<le> length (vs_validators s) \<and>
       (\<forall>w \<in> set (fp_votes p). vote_for v chain (set_pairs s) (fp_height p) (fp_round p) (lower (fp_block_hash p)) w) \<and>
       distinct (map fv_validator_id (fp_votes p)) \<and>
       2 * vs_total_power s < 3 * (\<Sum>w \<leftarrow> fp_votes p. power_of (set_pairs s) (fv_validator_id w)) \<and>
       c = certificate_of chain (vs_total_power s) (fp_height p) (fp_round p) (lower (fp_block_hash p))
             (\<Sum>w \<leftarrow> fp_votes p. power_of (set_pairs s) (fv_validator_id w)) (sort_key fv_validator_id (fp_votes p)) \<and>
       certificate_hash c = lower (fp_certificate_hash p))"
proof -
  have pairs: "dict_of (map (\<lambda>item. (validator_id item, item)) (vs_validators s)) = set_pairs s"
    if "at_height sets h = Inr s" "0 \<le> h" for s h
  proof -
    have "s \<in> set sets"
      using active_from_in [of "hd sets" "tl sets" h] scheduled_ok(1) [OF assms] that
      by (cases sets) (auto simp: at_height_def)
    then show ?thesis
      using set_ok_facts(3) [of s] scheduled_ok(4) [OF assms] by (simp add: set_pairs_def)
  qed
  show ?thesis
    unfolding verify_proof_def bindE_Inr_iff raise_if_Inr_iff sync_hash_Inr if_Inl_Inr_iff Let_def
    by (auto simp: pairs accept_votes_Inr not_less not_le vs_quorum_power_def two_thirds [unfolded not_less [symmetric]]
        bindE_Inr_iff if_Inl_Inr_iff certificate_of_def)
qed

lemma at_height_ok:
  assumes "scheduled sets" "at_height sets h = Inr s"
  shows "set_ok s" "s \<in> set sets" "0 \<le> h"
proof -
  have "s \<in> set sets" "0 \<le> h"
    using active_from_in [of "hd sets" "tl sets" h] scheduled_ok(1) [OF assms(1)] assms(2)
    by (cases sets; auto simp: at_height_def if_Inl_Inr_iff)+
  then show "set_ok s" "s \<in> set sets" "0 \<le> h"
    using scheduled_ok(4) [OF assms(1)] by auto
qed

lemma verify_backed:
  assumes "scheduled sets" "verify_proof chain sets v p = Inr c" "at_height sets (fp_height p) = Inr s"
  shows "backed v chain (set_pairs s) (vs_total_power s) c" "fc_height c = fp_height p" "fc_round c = fp_round p"
    "fc_block_hash c = lower (fp_block_hash p)"
proof -
  let ?sp = "\<Sum>w \<leftarrow> fp_votes p. power_of (set_pairs s) (fv_validator_id w)"
  have p: "\<forall>w \<in> set (fp_votes p). vote_for v chain (set_pairs s) (fp_height p) (fp_round p) (lower (fp_block_hash p)) w"
    "distinct (map fv_validator_id (fp_votes p))" "2 * vs_total_power s < 3 * ?sp"
    and c: "c = certificate_of chain (vs_total_power s) (fp_height p) (fp_round p) (lower (fp_block_hash p)) ?sp
      (sort_key fv_validator_id (fp_votes p))"
    using assms(2,3) unfolding verify_proof_Inr [OF assms(1)] by auto
  then show "fc_height c = fp_height p" "fc_round c = fp_round p" "fc_block_hash c = lower (fp_block_hash p)"
    by (simp_all add: certificate_of_def)
  show "backed v chain (set_pairs s) (vs_total_power s) c"
    unfolding backed_def using p
    by (intro exI [of _ "sort_key fv_validator_id (fp_votes p)"])
       (simp add: c certificate_of_def distinct_map_sort_key sum_list_sort_key)
qed

text \<open>
  C19. A proof is accepted only under the validator set of its height, with verified votes of
  distinct members for exactly its chain, height, round and block that hold more than two thirds of
  that set's power, and only if its hash is that of the certificate rebuilt from the votes.
\<close>

theorem verify_proof_sound:
  assumes "scheduled sets" "verify_proof chain sets v p = Inr c"
  shows "\<exists>s. at_height sets (fp_height p) = Inr s \<and> lower (fp_validator_set_hash p) = set_hash s \<and>
           fc_height c = fp_height p \<and> fc_round c = fp_round p \<and> fc_block_hash c = lower (fp_block_hash p) \<and>
           certificate_hash c = lower (fp_certificate_hash p) \<and>
           (\<forall>w \<in> set (fp_votes p). v w = Some True \<and> fv_chain_id w = chain \<and> fv_height w = fp_height p \<and>
              fv_round w = fp_round p \<and> lower (fv_block_hash w) = lower (fp_block_hash p)) \<and>
           fc_validator_ids c = sort (map fv_validator_id (fp_votes p)) \<and> distinct (fc_validator_ids c) \<and>
           set (fc_validator_ids c) \<subseteq> validator_id ` set (vs_validators s) \<and>
           fc_signed_power c = sum (power_of (set_pairs s)) (set (fc_validator_ids c)) \<and>
           2 * vs_total_power s < 3 * fc_signed_power c"
proof -
  obtain s where s: "at_height sets (fp_height p) = Inr s" "lower (fp_validator_set_hash p) = set_hash s"
      "certificate_hash c = lower (fp_certificate_hash p)"
      "\<forall>w \<in> set (fp_votes p). vote_for v chain (set_pairs s) (fp_height p) (fp_round p) (lower (fp_block_hash p)) w"
    and c: "c = certificate_of chain (vs_total_power s) (fp_height p) (fp_round p) (lower (fp_block_hash p))
      (\<Sum>w \<leftarrow> fp_votes p. power_of (set_pairs s) (fv_validator_id w)) (sort_key fv_validator_id (fp_votes p))"
    using assms(2) unfolding verify_proof_Inr [OF assms(1)] by auto
  note backed = verify_backed [OF assms s(1)]
  have "map f (sort_key f xs) = sort (map f xs)" for f :: "finality_vote \<Rightarrow> string" and xs
    by (rule properties_for_sort [symmetric]) simp_all
  then have "fc_validator_ids c = sort (map fv_validator_id (fp_votes p))"
    by (simp add: c certificate_of_def)
  moreover have "fst ` set (set_pairs s) = validator_id ` set (vs_validators s)"
    by (simp add: set_pairs_def image_image)
  ultimately show ?thesis
    using s(1-4) backed(2-4) backed_ids [OF backed(1)] by (auto simp: vote_for_def)
qed

text \<open>
  Synchronization agrees with consensus: where a node accepts a proof for a height and round at
  which some machine with the same validators holds a certificate, the blocks are equal, unless
  validators with more than a third of the power equivocated.
\<close>

theorem verify_proof_agrees:
  assumes "scheduled sets" "verify_proof (fsm_chain_id m) sets v p = Inr c"
    and "at_height sets (fp_height p) = Inr s" "fsm_reachable v m" "fsm_validators m = set_pairs s"
    and "get_certificate m (fp_height p) = Inr c'" "fc_round c' = fp_round p"
    and "3 * sum (power_of (fsm_validators m))
           (equivocators v (fsm_chain_id m) (fp_height p) (fp_round p) \<inter> fst ` set (fsm_validators m)) \<le> fsm_total_power m"
  shows "fc_block_hash c' = lower (fp_block_hash p)"
proof (rule ccontr)
  assume diff: "fc_block_hash c' \<noteq> lower (fp_block_hash p)"
  note backed = verify_backed [OF assms(1-3)]
  have ok: "fsm_ok v m"
    by (rule fsm_reachable_ok [OF assms(4)])
  then have body: "fsm_body_ok m"
    by (simp add: fsm_ok_def)
  have "fsm_total_power m = vs_total_power s"
    using body assms(5) by (simp add: fsm_body_ok_def vs_total_power_def set_pairs_def comp_def)
  then have "backed v (fsm_chain_id m) (fsm_validators m) (fsm_total_power m) c"
    using backed(1) assms(5) by simp
  moreover have "fc_height c' = fp_height p" "backed v (fsm_chain_id m) (fsm_validators m) (fsm_total_power m) c'"
    using finalized_backed [OF ok] assms(6) by (simp_all add: get_certificate_Inr)
  ultimately show False
    using backed_conflict [OF body, of v c' c] assms(7,8) backed(2-4) diff by simp
qed

text \<open>
  The verifier accepts what the state machine decides: every certificate of a reachable machine
  has votes that form a proof, and under the same validator set the verifier returns exactly that
  certificate.
\<close>

theorem verify_proof_complete:
  assumes "scheduled sets" "at_height sets h = Inr s"
    and "fsm_reachable v m" "fsm_validators m = set_pairs s" "get_certificate m h = Inr c"
  shows "\<exists>ws. verify_proof (fsm_chain_id m) sets v
           \<lparr>fp_chain_id = fsm_chain_id m, fp_height = h, fp_round = fc_round c, fp_block_hash = fc_block_hash c,
            fp_validator_set_hash = set_hash s, fp_votes = ws, fp_certificate_hash = certificate_hash c\<rparr> = Inr c"
proof -
  have ok: "fsm_ok v m"
    by (rule fsm_reachable_ok [OF assms(3)])
  then have tp: "fsm_total_power m = vs_total_power s"
    using assms(4) by (simp add: fsm_ok_def fsm_body_ok_def vs_total_power_def set_pairs_def comp_def)
  have c: "fc_height c = h" "backed v (fsm_chain_id m) (set_pairs s) (vs_total_power s) c"
    using finalized_backed [OF ok] assms(4,5) tp by (simp_all add: get_certificate_Inr)
  then obtain ws where ws: "sorted (map fv_validator_id ws)" "distinct (map fv_validator_id ws)"
      "\<forall>w \<in> set ws. vote_for v (fsm_chain_id m) (set_pairs s) h (fc_round c) (fc_block_hash c) w"
      "2 * vs_total_power s < 3 * fc_signed_power c"
      "fc_signed_power c = (\<Sum>w \<leftarrow> ws. power_of (set_pairs s) (fv_validator_id w))"
    and cert: "c = certificate_of (fsm_chain_id m) (vs_total_power s) h (fc_round c) (fc_block_hash c) (fc_signed_power c) ws"
    unfolding backed_def by auto
  have "0 \<le> vs_total_power s"
    using vset.weight_mono [of s "{}" "fst ` set (set_pairs s)"] vset.total_sum [of s] at_height_ok [OF assms(1,2)] by simp
  then have "ws \<noteq> []"
    using ws(4,5) by auto
  then obtain w where w: "w \<in> set ws"
    by (cases ws) auto
  have "0 \<le> h" "0 \<le> fc_round c" "is_hash32 (fc_block_hash c)" "lower (fc_block_hash c) = fc_block_hash c"
    using bspec [OF ws(3) w] is_hash32_lower lower_idem unfolding vote_for_def by metis+
  moreover have "length ws \<le> length (vs_validators s)"
  proof -
    have "length ws = card (fv_validator_id ` set ws)"
      using ws(2) by (metis distinct_card length_map set_map)
    also have "\<dots> \<le> card (fst ` set (set_pairs s))"
      using ws(3) by (intro card_mono) (auto simp: vote_for_def)
    also have "\<dots> \<le> length (vs_validators s)"
      using card_length [of "map fst (set_pairs s)"] by (simp add: set_pairs_def image_image)
    finally show ?thesis .
  qed
  moreover have "certificate_hash c = certificate_digest (fsm_chain_id m) h (fc_round c) (fc_block_hash c)
      (fc_signed_power c) (vs_total_power s) (map fv_validator_id ws) (map vote_hash ws)"
    by (subst cert) (simp add: certificate_of_def)
  then have "is_hash32 (certificate_hash c)" "lower (certificate_hash c) = certificate_hash c"
    by (simp_all add: certificate_digest_def)
  moreover have "is_hash32 (set_hash s)" "lower (set_hash s) = set_hash s"
    by (simp_all add: set_hash_def)
  moreover have "sort_key fv_validator_id ws = ws"
    using ws(1) by (simp add: sort_key_id_if_sorted)
  ultimately show ?thesis
    using ws assms(2) \<open>ws \<noteq> []\<close> cert by (intro exI [of _ ws]) (simp add: verify_proof_Inr [OF assms(1)])
qed

section \<open>Payloads and samples\<close>

definition payload_ok :: "finality_proof \<Rightarrow> bool" where
  "payload_ok p \<longleftrightarrow> fp_votes p \<noteq> [] \<and>
     (\<forall>w \<in> set (fp_votes p). fv_signature w \<noteq> [] \<and> length (fv_signature w) \<le> 4096)"

lemma vote_signature_hex:
  "sig \<noteq> [] \<Longrightarrow> length sig \<le> 4096 \<Longrightarrow> vote_signature (JStr (hex_of sig)) = Inr sig"
  by (cases sig) (simp_all add: vote_signature_def hex_of_lower_hex)

lemma vote_payload_roundtrip:
  assumes "fv_signature w \<noteq> []" "length (fv_signature w) \<le> 4096"
  shows "vote_from_payload (json_canon (vote_to_payload w)) = Inr w"
proof -
  define ms where "ms = [(''chain_id'', JInt (fv_chain_id w)), (''height'', JInt (fv_height w)),
    (''round'', JInt (fv_round w)), (''block_hash'', JStr (fv_block_hash w)),
    (''validator_id'', JStr (fv_validator_id w)), (''signature'', JStr (hex_of (fv_signature w)))]"
  have payload: "vote_to_payload w = JObj ms"
    by (simp add: vote_to_payload_def ms_def)
  obtain ms' where ms': "json_canon (JObj ms) = JObj ms'"
    by simp
  have keys: "json_keys ms' = set vote_fields"
    unfolding json_keys_canon [OF ms'] by (simp add: json_keys_def ms_def vote_fields_def)
  have "dict_ok ms"
    by (simp add: ms_def)
  note at = json_at_canon [OF ms' this]
  have "json_at ms' ''chain_id'' = JInt (fv_chain_id w)" "json_at ms' ''height'' = JInt (fv_height w)"
    "json_at ms' ''round'' = JInt (fv_round w)" "json_at ms' ''block_hash'' = JStr (fv_block_hash w)"
    "json_at ms' ''validator_id'' = JStr (fv_validator_id w)"
    "json_at ms' ''signature'' = JStr (hex_of (fv_signature w))"
    by (subst at; simp add: json_keys_def json_at_def ms_def)+
  then show ?thesis
    using assms by (simp add: payload ms' vote_from_payload_def keys vote_signature_hex del: json_canon.simps)
qed

lemma proof_payload_roundtrip:
  assumes "payload_ok p"
  shows "proof_from_payload (json_canon (proof_to_payload p)) = Inr p"
proof -
  define ms where "ms = [(''chain_id'', JInt (fp_chain_id p)), (''height'', JInt (fp_height p)),
    (''round'', JInt (fp_round p)), (''block_hash'', JStr (fp_block_hash p)),
    (''validator_set_hash'', JStr (fp_validator_set_hash p)), (''votes'', JArr (map vote_to_payload (fp_votes p))),
    (''certificate_hash'', JStr (fp_certificate_hash p))]"
  have payload: "proof_to_payload p = JObj ms"
    by (simp add: proof_to_payload_def ms_def)
  obtain ms' where ms': "json_canon (JObj ms) = JObj ms'"
    by simp
  have keys: "json_keys ms' = set proof_fields"
    unfolding json_keys_canon [OF ms'] by (simp add: json_keys_def ms_def proof_fields_def)
  have "dict_ok ms"
    by (simp add: ms_def)
  note at = json_at_canon [OF ms' this]
  have at': "json_at ms' ''chain_id'' = JInt (fp_chain_id p)" "json_at ms' ''height'' = JInt (fp_height p)"
    "json_at ms' ''round'' = JInt (fp_round p)" "json_at ms' ''block_hash'' = JStr (fp_block_hash p)"
    "json_at ms' ''validator_set_hash'' = JStr (fp_validator_set_hash p)"
    "json_at ms' ''votes'' = JArr (map (json_canon \<circ> vote_to_payload) (fp_votes p))"
    "json_at ms' ''certificate_hash'' = JStr (fp_certificate_hash p)"
    by (subst at; simp add: json_keys_def json_at_def ms_def)+
  have "mapE vote_from_payload (map (json_canon \<circ> vote_to_payload) (fp_votes p)) = Inr (fp_votes p)"
    using assms by (intro mapE_map_inverse) (simp add: payload_ok_def vote_payload_roundtrip)
  then show ?thesis
    using assms by (simp add: payload ms' proof_from_payload_def keys at' payload_ok_def del: json_canon.simps)
qed

text \<open>A proof as the text a peer sends, and back.\<close>

definition proof_text :: "finality_proof \<Rightarrow> string" where
  "proof_text p = json_dumps (proof_to_payload p)"

definition proof_of_text :: "string \<Rightarrow> finality_proof option" where
  "proof_of_text s =
     (case json_loads s of
        None \<Rightarrow> None
      | Some v \<Rightarrow> (case proof_from_payload v of Inr p \<Rightarrow> Some p | Inl _ \<Rightarrow> None))"

lemma vote_to_payload_ok [simp]: "json_ok (vote_to_payload w)"
  by (simp add: vote_to_payload_def)

lemma proof_to_payload_ok [simp]: "json_ok (proof_to_payload p)"
  by (simp add: proof_to_payload_def list_all_iff)

interpretation wire_proof: codec payload_ok proof_text proof_of_text
  by unfold_locales (simp add: proof_of_text_def proof_text_def json_loads_dumps proof_payload_roundtrip)

text \<open>
  A finality proof survives the wire: its payload, written as canonical JSON text and read back,
  is the same proof, so different proofs have different texts. The proof needs a vote, and every
  signature one to 4096 bytes.
\<close>

theorem proof_roundtrip:
  assumes "payload_ok p"
  shows "proof_of_text (proof_text p) = Some p \<and>
         proof_from_payload (json_canon (proof_to_payload p)) = Inr p \<and>
         (\<forall>q. payload_ok q \<and> proof_text q = proof_text p \<longrightarrow> q = p)"
  using assms wire_proof.dec_enc [OF assms] wire_proof.enc_inject [OF _ assms] proof_payload_roundtrip by blast

definition sample_set :: validator_set where
  "sample_set = \<lparr>epoch = 0, activation_height = 0, vs_validators = sample_validators\<rparr>"

lemma sample_scheduled: "scheduled [sample_set]"
proof (rule scheduled.genesis)
  show "schedule_init sample_set = Inr [sample_set]"
    by (simp add: schedule_init_Inr sample_set_def)
  show "set_ok sample_set"
    using sample_validators_ok
    by (simp add: set_ok_def validator_set_post_init_def sample_set_def)
       (simp add: sample_validators_def less_eq_char_def less_char_def)
qed

lemma at_height_active_witness:
  "\<exists>i < length [sample_set]. at_height [sample_set] 5 = Inr ([sample_set] ! i)"
proof -
  have "(0::int) \<le> 5" by simp
  from at_height_active [OF sample_scheduled this] show ?thesis by blast
qed

definition sample_proof :: "finality_proof" where
  "sample_proof =
     \<lparr>fp_chain_id = 7, fp_height = 0, fp_round = 0, fp_block_hash = block_x, fp_validator_set_hash = set_hash sample_set,
      fp_votes = sample_votes block_x 0,
      fp_certificate_hash = certificate_digest 7 0 0 block_x 3 3 [''a'', ''b'', ''c''] (map vote_hash (sample_votes block_x 0))\<rparr>"

lemma proof_roundtrip_witness: "payload_ok sample_proof \<and> proof_of_text (proof_text sample_proof) = Some sample_proof"
proof -
  have ok: "payload_ok sample_proof"
    by (simp add: payload_ok_def sample_proof_def sample_votes_def sample_vote_def)
  from proof_roundtrip [OF ok] ok show ?thesis by blast
qed

lemma sample_at_height: "at_height [sample_set] 0 = Inr sample_set"
  by (simp add: at_height_def)

lemma sample_fsm_validators: "fsm_validators (receive v sample_fsm ws) = set_pairs sample_set"
  using receive_constant [OF fsm_reachable_ok [OF sample_reachable]]
  by (simp add: sample_fsm_def set_pairs_def sample_set_def)

lemma sample_fsm_chain: "fsm_chain_id (receive v sample_fsm ws) = 7"
  using receive_constant [OF fsm_reachable_ok [OF sample_reachable]] by (simp add: sample_fsm_def)

lemma verify_proof_complete_witness:
  "\<exists>c ws. get_certificate (receive trusting sample_fsm (sample_votes block_x 0)) 0 = Inr c \<and>
     verify_proof 7 [sample_set] trusting
       \<lparr>fp_chain_id = 7, fp_height = 0, fp_round = fc_round c, fp_block_hash = fc_block_hash c,
        fp_validator_set_hash = set_hash sample_set, fp_votes = ws, fp_certificate_hash = certificate_hash c\<rparr> = Inr c"
proof -
  obtain c where c: "get_certificate (receive trusting sample_fsm (sample_votes block_x 0)) 0 = Inr c"
    by (rule sample_decided [OF refl sample_power(1)])
  with verify_proof_complete [OF sample_scheduled sample_at_height receive_reachable [OF sample_reachable]
      sample_fsm_validators c] show ?thesis
    by (auto simp: sample_fsm_chain)
qed

lemma sample_proof_verified: "\<exists>c. verify_proof 7 [sample_set] trusting sample_proof = Inr c"
proof -
  have power: "(\<Sum>w \<leftarrow> sample_votes block_x 0. power_of (set_pairs sample_set) (fv_validator_id w)) = 3"
    "vs_total_power sample_set = 3" "length (vs_validators sample_set) = 3"
    by (simp_all add: sample_votes_def sample_vote_def set_pairs_def sample_set_def sample_validators_def power_of_def
        vs_total_power_def)
  have sorted: "sort_key fv_validator_id (sample_votes block_x 0) = sample_votes block_x 0"
    by (rule sort_key_id_if_sorted) (simp add: sample_votes_def sample_vote_def less_eq_char_def less_char_def)
  have votes: "vote_for trusting 7 (set_pairs sample_set) 0 0 block_x w" if "w \<in> set (sample_votes block_x 0)" for w
    using that sample_blocks
    by (auto simp: vote_for_def sample_votes_def sample_vote_def trusting_def set_pairs_def sample_set_def sample_validators_def)
  have ids: "map fv_validator_id (sample_votes block_x 0) = [''a'', ''b'', ''c'']"
    by (simp add: sample_votes_def sample_vote_def)
  show ?thesis
    unfolding verify_proof_Inr [OF sample_scheduled]
    using sample_at_height sample_blocks votes
    by (simp add: sample_proof_def power sorted certificate_of_def ids set_hash_def certificate_digest_def)
       (simp add: sample_votes_def)
qed

lemma verify_proof_sound_witness:
  "\<exists>c. verify_proof 7 [sample_set] trusting sample_proof = Inr c \<and> fc_height c = 0 \<and> distinct (fc_validator_ids c)"
proof -
  obtain c where c: "verify_proof 7 [sample_set] trusting sample_proof = Inr c"
    using sample_proof_verified by blast
  from verify_proof_sound [OF sample_scheduled c] c show ?thesis
    by (auto simp: sample_proof_def)
qed

lemma verify_proof_agrees_witness:
  "\<exists>c. get_certificate (receive trusting sample_fsm (sample_votes block_x 0)) 0 = Inr c \<and>
     fc_block_hash c = lower (fp_block_hash sample_proof)"
proof -
  let ?m = "receive trusting sample_fsm (sample_votes block_x 0)"
  obtain c where c: "get_certificate ?m 0 = Inr c" "fc_round c = 0"
    by (rule sample_decided [OF refl sample_power(1)])
  obtain c' where c': "verify_proof 7 [sample_set] trusting sample_proof = Inr c'"
    using sample_proof_verified by blast
  have "equivocators trusting chain h r = {}" for chain h r
    by (auto simp: equivocators_def trusting_def)
  moreover have "fsm_total_power ?m = 3"
    using receive_constant [OF fsm_reachable_ok [OF sample_reachable], of trusting] by (simp add: sample_fsm_def)
  moreover have "fp_height sample_proof = 0" "fp_round sample_proof = 0"
    by (simp_all add: sample_proof_def)
  ultimately have "fc_block_hash c = lower (fp_block_hash sample_proof)"
    using c c' sample_at_height
    by (intro verify_proof_agrees [OF sample_scheduled, of ?m trusting sample_proof c' sample_set])
       (simp_all add: sample_fsm_chain sample_fsm_validators receive_reachable sample_reachable)
  with c show ?thesis by blast
qed

end
