(* ===== verification/ConsensusSync.thy ===== *)
theory ConsensusSync
  imports Json Sha256 WriteOnce
begin

text \<open>
  \<open>consensus_sync.py\<close>: the fork choice over finalized claims of peers, with fault counts, quarantine
  and a permanent halt on conflicting finality, and the verification of snapshots. \<open>observe\<close> can
  change the state and raise, so it is a function to a result and the state after it. The resolver of
  the validator power is a parameter: \<open>None\<close> where it returns something that is not an integer.
\<close>

section \<open>Data\<close>

definition cs_hash :: "string \<Rightarrow> string \<Rightarrow> unit result" where
  "cs_hash v field =
     (if length v \<noteq> 66 \<or> \<not> starts_with ''0x'' v
      then Inl (ConsensusSyncError (field @ '' must be a 32-byte hex value''))
      else if \<not> int16_ok (drop 2 v)
      then Inl (ConsensusSyncError (field @ '' must be a 32-byte hex value''))
      else Inr ())"

record finalized_claim =
  peer_id :: string
  cl_chain_id :: int
  cl_genesis_hash :: string
  cl_height :: int
  cl_block_hash :: string
  cl_parent_hash :: string
  cl_state_root :: string
  cl_signed_power :: int
  cl_total_power :: int

definition claim_post_init :: "finalized_claim \<Rightarrow> unit result" where
  "claim_post_init c =
     (if peer_id c = [] \<or> cl_chain_id c \<le> 0 \<or> cl_height c < 0
      then Inl (ConsensusSyncError ''finalized claim identity is invalid'')
      else
        bindE (cs_hash (cl_genesis_hash c) ''genesis_hash'') (\<lambda>_.
        bindE (cs_hash (cl_block_hash c) ''block_hash'') (\<lambda>_.
        bindE (cs_hash (cl_parent_hash c) ''parent_hash'') (\<lambda>_.
        bindE (cs_hash (cl_state_root c) ''state_root'') (\<lambda>_.
        if cl_signed_power c \<le> 0 \<or> cl_total_power c \<le> 0 \<or> cl_signed_power c > cl_total_power c \<or>
           cl_signed_power c * 3 \<le> cl_total_power c * 2
        then Inl (ConsensusSyncError ''finalized claim lacks strict two-thirds quorum'')
        else Inr ())))))"

record peer_discipline =
  faults :: int
  quarantined :: bool

record fork_choice =
  fk_chain_id :: int
  fk_genesis_hash :: string
  fk_expected_power :: int
  power_resolver :: "int \<Rightarrow> int option"
  quarantine_threshold :: int
  claims :: "(string, finalized_claim) dict"
  canonical_claims :: "(int, finalized_claim) dict"
  disciplines :: "(string, peer_discipline) dict"
  safety_halt :: "(int \<times> string \<times> string) option"

section \<open>Fork choice\<close>

definition fork_choice_init ::
  "int \<Rightarrow> string \<Rightarrow> int \<Rightarrow> int \<Rightarrow> (int \<Rightarrow> int option) option \<Rightarrow> fork_choice result" where
  "fork_choice_init chain genesis expected threshold resolver =
     (if chain \<le> 0 \<or> expected \<le> 0 \<or> threshold \<le> 0
      then Inl (ConsensusSyncError ''fork-choice policy values must be positive'')
      else
        bindE (cs_hash genesis ''genesis_hash'') (\<lambda>_.
        Inr \<lparr>fk_chain_id = chain, fk_genesis_hash = lower genesis, fk_expected_power = expected,
             power_resolver = (case resolver of Some f \<Rightarrow> f | None \<Rightarrow> (\<lambda>_. Some expected)),
             quarantine_threshold = threshold, claims = [], canonical_claims = [], disciplines = [],
             safety_halt = None\<rparr>))"

definition safety_halted :: "fork_choice \<Rightarrow> bool" where
  "safety_halted f = (safety_halt f \<noteq> None)"

definition fork_head :: "fork_choice \<Rightarrow> finalized_claim option" where
  "fork_head f =
     (if canonical_claims f = [] then None
      else dict_get (canonical_claims f) (Max (set (map fst (canonical_claims f)))))"

definition observed_peer_count :: "fork_choice \<Rightarrow> int" where
  "observed_peer_count f = int (length (claims f))"

definition discipline :: "fork_choice \<Rightarrow> string \<Rightarrow> peer_discipline" where
  "discipline f peer = dict_get_default (disciplines f) peer \<lparr>faults = 0, quarantined = False\<rparr>"

definition record_protocol_fault :: "fork_choice \<Rightarrow> string \<Rightarrow> peer_discipline \<times> fork_choice" where
  "record_protocol_fault f peer =
     (let current = discipline f peer;
          n = faults current + 1;
          updated = \<lparr>faults = n, quarantined = (n \<ge> quarantine_threshold f)\<rparr>
      in (updated, f\<lparr>disciplines := dict_set peer updated (disciplines f)\<rparr>))"

definition fault :: "fork_choice \<Rightarrow> string \<Rightarrow> string \<Rightarrow> 'a result \<times> fork_choice" where
  "fault f peer message = (Inl (ConsensusSyncError message), snd (record_protocol_fault f peer))"

definition observe :: "fork_choice \<Rightarrow> finalized_claim \<Rightarrow> finalized_claim option result \<times> fork_choice" where
  "observe f c =
     (if safety_halted f then (Inl (ConsensusSyncError ''fork choice is safety halted''), f)
      else if cl_chain_id c \<noteq> fk_chain_id f then fault f (peer_id c) ''claim chain_id mismatch''
      else if lower (cl_genesis_hash c) \<noteq> fk_genesis_hash f then fault f (peer_id c) ''claim genesis mismatch''
      else
        (case power_resolver f (cl_height c) of
           None \<Rightarrow> (Inl (ConsensusSyncError ''validator power resolver returned an invalid value''), f)
         | Some expected_power \<Rightarrow>
             if expected_power \<le> 0
             then (Inl (ConsensusSyncError ''validator power resolver returned an invalid value''), f)
             else if cl_total_power c \<noteq> expected_power then fault f (peer_id c) ''claim validator power mismatch''
             else if quarantined (discipline f (peer_id c))
             then (Inl (ConsensusSyncError ''peer is quarantined''), f)
             else if (case dict_get (claims f) (peer_id c) of Some previous \<Rightarrow> cl_height c < cl_height previous | None \<Rightarrow> False)
             then fault f (peer_id c) ''peer finalized height regressed''
             else
               let existing = dict_get (canonical_claims f) (cl_height c);
                   store = (\<lambda>f'.
                     if (case dict_get (canonical_claims f) (cl_height c - 1) of
                           Some p \<Rightarrow> lower (cl_parent_hash c) \<noteq> lower (cl_block_hash p)
                         | None \<Rightarrow> False)
                     then fault f (peer_id c) ''finalized parent linkage mismatch''
                     else (Inr (fork_head f'), f'));
                   noted = f\<lparr>claims := dict_set (peer_id c) c (claims f)\<rparr> in
               (case existing of
                  Some e \<Rightarrow>
                    if lower (cl_block_hash e) \<noteq> lower (cl_block_hash c)
                    then (Inl (ConsensusSyncError ''conflicting valid finality certificates detected''),
                          f\<lparr>safety_halt := Some (cl_height c, lower (cl_block_hash e), lower (cl_block_hash c))\<rparr>)
                    else store noted
                | None \<Rightarrow> store (noted\<lparr>canonical_claims := dict_set (cl_height c) c (canonical_claims f)\<rparr>))))"

definition quarantined_peer_count :: "fork_choice \<Rightarrow> int" where
  "quarantined_peer_count f = int (length (filter (quarantined \<circ> snd) (disciplines f)))"

definition fork_evidence :: "fork_choice \<Rightarrow> json" where
  "fork_evidence f = JObj
     [(''schema_version'', JStr ''junca-finalized-fork-choice/v1''),
      (''chain_id'', JInt (fk_chain_id f)),
      (''head_height'', case fork_head f of None \<Rightarrow> JNull | Some c \<Rightarrow> JInt (cl_height c)),
      (''head_hash'', case fork_head f of None \<Rightarrow> JNull | Some c \<Rightarrow> JStr (cl_block_hash c)),
      (''observed_peer_count'', JInt (observed_peer_count f)),
      (''quarantined_peer_count'', JInt (quarantined_peer_count f)),
      (''safety_halted'', JBool (safety_halted f)),
      (''mainnet_changed'', JBool False),
      (''assets_moved'', JBool False),
      (''bridge_activated'', JBool False)]"

section \<open>Snapshots\<close>

record snapshot_descriptor =
  sd_chain_id :: int
  sd_height :: int
  sd_block_hash :: string
  sd_state_root :: string
  sd_checkpoint_digest :: string
  chunk_hashes :: "string list"

definition descriptor_post_init :: "snapshot_descriptor \<Rightarrow> unit result" where
  "descriptor_post_init d =
     (if sd_chain_id d \<le> 0 \<or> sd_height d < 0 \<or> chunk_hashes d = []
      then Inl (ConsensusSyncError ''snapshot descriptor identity is invalid'')
      else
        bindE (cs_hash (sd_block_hash d) ''block_hash'') (\<lambda>_.
        bindE (cs_hash (sd_state_root d) ''state_root'') (\<lambda>_.
        bindE (cs_hash (sd_checkpoint_digest d) ''checkpoint_digest'') (\<lambda>_.
        all_ok (\<lambda>v. cs_hash v ''chunk_hash'') (chunk_hashes d)))))"

record catchup_result =
  cu_mode :: string
  target_height :: int
  verified_bytes :: int
  cu_status :: string

record snapshot_catchup =
  sc_chain_id :: int
  sc_threshold :: int

definition snapshot_catchup_init :: "int \<Rightarrow> int \<Rightarrow> snapshot_catchup result" where
  "snapshot_catchup_init chain threshold =
     (if chain \<le> 0 \<or> threshold \<le> 0 then Inl (ConsensusSyncError ''snapshot catch-up policy is invalid'')
      else Inr \<lparr>sc_chain_id = chain, sc_threshold = threshold\<rparr>)"

definition choose_mode :: "snapshot_catchup \<Rightarrow> int \<Rightarrow> int \<Rightarrow> string result" where
  "choose_mode s local_height remote_height =
     (if local_height < 0 \<or> remote_height < local_height
      then Inl (ConsensusSyncError ''catch-up heights are invalid'')
      else Inr (if remote_height - local_height \<ge> sc_threshold s then ''SNAPSHOT'' else ''BLOCK_RANGE''))"

text \<open>\<open>str.encode("ascii")\<close>.\<close>

definition encode_ascii_strict :: "string \<Rightarrow> bytes result" where
  "encode_ascii_strict s = (if is_ascii s then Inr s else Inl UnicodeEncodeError)"

definition checkpoint_body :: "snapshot_descriptor \<Rightarrow> string" where
  "checkpoint_body d =
     int_str (sd_chain_id d) @ '':'' @ int_str (sd_height d) @ '':'' @ lower (sd_block_hash d) @ '':'' @
     lower (sd_state_root d) @ '':'' @ join '':'' (chunk_hashes d)"

definition checkpoint_digest :: "snapshot_descriptor \<Rightarrow> bytes list \<Rightarrow> string result" where
  "checkpoint_digest d chunks =
     bindE (encode_ascii_strict (checkpoint_body d)) (\<lambda>body.
     Inr (digest0x (''JUNCA_SNAPSHOT_CHECKPOINT_V1'' @ [CHR 0x00] @ body @ concat chunks)))"

definition verify_chunk :: "int \<Rightarrow> string \<times> bytes \<Rightarrow> int result" where
  "verify_chunk n item =
     (let (expected, chunk) = item in
      if length chunk > 2 * 1024 * 1024
      then Inl (ConsensusSyncError ''snapshot chunk is invalid or oversized'')
      else if digest0x chunk \<noteq> lower expected
      then Inl (ConsensusSyncError ''snapshot chunk digest mismatch'')
      else Inr (n + int (length chunk)))"

definition verify_snapshot ::
  "snapshot_catchup \<Rightarrow> snapshot_descriptor \<Rightarrow> bytes list \<Rightarrow> finalized_claim \<Rightarrow> catchup_result result" where
  "verify_snapshot s d chunks c =
     (if sd_chain_id d \<noteq> sc_chain_id s \<or> cl_chain_id c \<noteq> sc_chain_id s
      then Inl (ConsensusSyncError ''snapshot chain_id mismatch'')
      else if sd_height d \<noteq> cl_height c \<or> lower (sd_block_hash d) \<noteq> lower (cl_block_hash c) \<or>
              lower (sd_state_root d) \<noteq> lower (cl_state_root c)
      then Inl (ConsensusSyncError ''snapshot does not bind the finalized claim'')
      else if length chunks \<noteq> length (chunk_hashes d)
      then Inl (ConsensusSyncError ''snapshot chunk count mismatch'')
      else
        bindE (foldE verify_chunk 0 (zip (chunk_hashes d) chunks)) (\<lambda>n.
        bindE (checkpoint_digest d chunks) (\<lambda>checkpoint.
        if checkpoint \<noteq> lower (sd_checkpoint_digest d)
        then Inl (ConsensusSyncError ''snapshot checkpoint digest mismatch'')
        else Inr \<lparr>cu_mode = ''SNAPSHOT'', target_height = sd_height d, verified_bytes = n, cu_status = ''VERIFIED''\<rparr>)))"

definition build_snapshot_descriptor ::
  "int \<Rightarrow> int \<Rightarrow> string \<Rightarrow> string \<Rightarrow> bytes list \<Rightarrow> snapshot_descriptor result" where
  "build_snapshot_descriptor chain h block root chunks =
     (let provisional =
        \<lparr>sd_chain_id = chain, sd_height = h, sd_block_hash = block, sd_state_root = root,
         sd_checkpoint_digest = ''0x'' @ replicate 64 (CHR ''0''), chunk_hashes = map digest0x chunks\<rparr> in
      bindE (descriptor_post_init provisional) (\<lambda>_.
      bindE (checkpoint_digest provisional chunks) (\<lambda>checkpoint.
      let d = provisional\<lparr>sd_checkpoint_digest := checkpoint\<rparr> in
      bindE (descriptor_post_init d) (\<lambda>_. Inr d))))"

section \<open>Acceptance\<close>

definition acceptance_gates :: "fork_choice \<Rightarrow> int \<Rightarrow> int \<Rightarrow> int \<Rightarrow> bool \<Rightarrow> bool \<Rightarrow> (string \<times> bool) list" where
  "acceptance_gates f local_height minimum_peers maximum_lag restart snapshot =
     [(''finalized_head_present'', fork_head f \<noteq> None),
      (''peer_quorum'', observed_peer_count f \<ge> minimum_peers),
      (''within_finalized_lag'',
         case fork_head f of None \<Rightarrow> False | Some c \<Rightarrow> cl_height c - local_height \<le> maximum_lag),
      (''no_safety_halt'', \<not> safety_halted f),
      (''restart_recovery'', restart),
      (''snapshot_integrity'', snapshot)]"

definition evaluate_sync_acceptance ::
  "fork_choice \<Rightarrow> int \<Rightarrow> int \<Rightarrow> int \<Rightarrow> bool \<Rightarrow> bool \<Rightarrow> json result" where
  "evaluate_sync_acceptance f local_height minimum_peers maximum_lag restart snapshot =
     (if minimum_peers < 2 \<or> maximum_lag < 0 \<or> local_height < 0
      then Inl (ConsensusSyncError ''sync acceptance policy is invalid'')
      else
        let gates = acceptance_gates f local_height minimum_peers maximum_lag restart snapshot;
            failed = map fst (filter (Not \<circ> snd) gates)
        in Inr (JObj
          [(''schema_version'', JStr ''junca-sync-acceptance/v1''),
           (''state'', JStr (if failed = [] then ''ACCEPTED'' else ''BLOCKED'')),
           (''gates'', JObj (map (map_prod id JBool) gates)),
           (''failed_gates'', JArr (map JStr failed)),
           (''mainnet_changed'', JBool False),
           (''assets_moved'', JBool False),
           (''bridge_activated'', JBool False)]))"

section \<open>Every branch of \<open>observe\<close>\<close>

lemma cs_hash_Inr: "cs_hash v f = Inr u \<longleftrightarrow> is_hash32 v"
  by (simp add: cs_hash_def is_hash32_def if_Inl_Inr_iff)

text \<open>A claim that passes the checks that do not look at other claims.\<close>

definition eligible :: "fork_choice \<Rightarrow> finalized_claim \<Rightarrow> bool" where
  "eligible f c \<longleftrightarrow>
     \<not> safety_halted f \<and> cl_chain_id c = fk_chain_id f \<and> lower (cl_genesis_hash c) = fk_genesis_hash f \<and>
     power_resolver f (cl_height c) = Some (cl_total_power c) \<and> 0 < cl_total_power c \<and>
     \<not> quarantined (discipline f (peer_id c)) \<and>
     (\<forall>p. dict_get (claims f) (peer_id c) = Some p \<longrightarrow> cl_height p \<le> cl_height c)"

definition conflicts :: "fork_choice \<Rightarrow> finalized_claim \<Rightarrow> bool" where
  "conflicts f c \<longleftrightarrow>
     (\<exists>e. dict_get (canonical_claims f) (cl_height c) = Some e \<and> lower (cl_block_hash e) \<noteq> lower (cl_block_hash c))"

definition linked_below :: "fork_choice \<Rightarrow> finalized_claim \<Rightarrow> bool" where
  "linked_below f c \<longleftrightarrow>
     (\<forall>p. dict_get (canonical_claims f) (cl_height c - 1) = Some p \<longrightarrow> lower (cl_parent_hash c) = lower (cl_block_hash p))"

definition noted :: "fork_choice \<Rightarrow> finalized_claim \<Rightarrow> fork_choice" where
  "noted f c = f\<lparr>claims := dict_set (peer_id c) c (claims f),
     canonical_claims := (if dict_get (canonical_claims f) (cl_height c) = None
                          then dict_set (cl_height c) c (canonical_claims f) else canonical_claims f)\<rparr>"

lemma observe_cases:
  obtains
    (rejected) e where "observe f c = (Inl (ConsensusSyncError e), f)" "\<not> eligible f c"
  | (faulted) e where "observe f c = (Inl (ConsensusSyncError e), snd (record_protocol_fault f (peer_id c)))"
      "\<not> safety_halted f" "\<not> eligible f c \<or> \<not> conflicts f c \<and> \<not> linked_below f c"
  | (halted) e where "observe f c = (Inl (ConsensusSyncError ''conflicting valid finality certificates detected''),
        f\<lparr>safety_halt := Some (cl_height c, lower (cl_block_hash e), lower (cl_block_hash c))\<rparr>)"
      "eligible f c" "dict_get (canonical_claims f) (cl_height c) = Some e" "lower (cl_block_hash e) \<noteq> lower (cl_block_hash c)"
  | (accepted) "observe f c = (Inr (fork_head (noted f c)), noted f c)"
      "eligible f c" "\<not> conflicts f c" "linked_below f c"
proof (cases "eligible f c")
  case False
  have "(\<exists>e. observe f c = (Inl (ConsensusSyncError e), f)) \<or>
      ((\<exists>e. observe f c = (Inl (ConsensusSyncError e), snd (record_protocol_fault f (peer_id c)))) \<and> \<not> safety_halted f)"
    using False
    by (auto simp: observe_def fault_def eligible_def Let_def split: option.split)
  then show ?thesis
    using rejected faulted False by blast
next
  case True
  let ?store = "\<lambda>f'.
    if (case dict_get (canonical_claims f) (cl_height c - 1) of
          Some p \<Rightarrow> lower (cl_parent_hash c) \<noteq> lower (cl_block_hash p) | None \<Rightarrow> False)
    then fault f (peer_id c) ''finalized parent linkage mismatch'' else (Inr (fork_head f'), f')"
  let ?noted = "f\<lparr>claims := dict_set (peer_id c) c (claims f)\<rparr>"
  have observe: "observe f c =
    (case dict_get (canonical_claims f) (cl_height c) of
       Some e \<Rightarrow>
         if lower (cl_block_hash e) \<noteq> lower (cl_block_hash c)
         then (Inl (ConsensusSyncError ''conflicting valid finality certificates detected''),
               f\<lparr>safety_halt := Some (cl_height c, lower (cl_block_hash e), lower (cl_block_hash c))\<rparr>)
         else ?store ?noted
     | None \<Rightarrow> ?store (?noted\<lparr>canonical_claims := dict_set (cl_height c) c (canonical_claims f)\<rparr>))"
    using True unfolding observe_def eligible_def Let_def
    by (auto simp: not_less split: option.split)
  have store: "?store f' = (if linked_below f c then (Inr (fork_head f'), f')
      else (Inl (ConsensusSyncError ''finalized parent linkage mismatch''), snd (record_protocol_fault f (peer_id c))))" for f'
    by (simp add: linked_below_def fault_def split: option.split)
  show ?thesis
  proof (cases "conflicts f c")
    case True
    then obtain e where "dict_get (canonical_claims f) (cl_height c) = Some e" "lower (cl_block_hash e) \<noteq> lower (cl_block_hash c)"
      by (auto simp: conflicts_def)
    then show ?thesis
      using halted [of e] \<open>eligible f c\<close> observe by simp
  next
    case False
    then have "observe f c = ?store (noted f c)"
      unfolding observe noted_def conflicts_def by (cases "dict_get (canonical_claims f) (cl_height c)") auto
    then show ?thesis
      using False \<open>eligible f c\<close> accepted faulted unfolding store by (cases "linked_below f c") (auto simp: eligible_def)
  qed
qed

section \<open>The invariant of the fork choice\<close>

definition fork_ok :: "fork_choice \<Rightarrow> bool" where
  "fork_ok f \<longleftrightarrow>
     dict_ok (claims f) \<and> dict_ok (canonical_claims f) \<and> dict_ok (disciplines f) \<and>
     (\<forall>(h, c) \<in> set (canonical_claims f). cl_height c = h \<and> cl_chain_id c = fk_chain_id f \<and>
        lower (cl_genesis_hash c) = fk_genesis_hash f \<and> power_resolver f h = Some (cl_total_power c)) \<and>
     (\<forall>(p, c) \<in> set (claims f). peer_id c = p \<and>
        (\<exists>e. dict_get (canonical_claims f) (cl_height c) = Some e \<and> lower (cl_block_hash e) = lower (cl_block_hash c))) \<and>
     (\<forall>(p, d) \<in> set (disciplines f). 0 < faults d \<and> (quarantined d \<longleftrightarrow> quarantine_threshold f \<le> faults d)) \<and>
     (\<forall>h a b. safety_halt f = Some (h, a, b) \<longrightarrow>
        a \<noteq> b \<and> (\<exists>e. dict_get (canonical_claims f) h = Some e \<and> lower (cl_block_hash e) = a)) \<and>
     0 < quarantine_threshold f"

inductive fork_reachable :: "fork_choice \<Rightarrow> bool" where
  started: "fork_choice_init chain genesis expected threshold resolver = Inr f \<Longrightarrow> fork_reachable f"
| observed: "fork_reachable f \<Longrightarrow> claim_post_init c = Inr () \<Longrightarrow> observe f c = (r, f') \<Longrightarrow> fork_reachable f'"
| reported: "fork_reachable f \<Longrightarrow> record_protocol_fault f peer = (d, f') \<Longrightarrow> fork_reachable f'"

lemma fork_init_ok: "fork_choice_init chain genesis expected threshold resolver = Inr f \<Longrightarrow> fork_ok f"
  by (auto simp: fork_choice_init_def fork_ok_def bindE_Inr_iff if_Inl_Inr_iff)

lemma discipline_ok:
  assumes "fork_ok f"
  shows "0 \<le> faults (discipline f p) \<and>
    (quarantined (discipline f p) \<longleftrightarrow> quarantine_threshold f \<le> faults (discipline f p))"
proof (cases "dict_get (disciplines f) p")
  case None
  then show ?thesis
    using assms by (simp add: discipline_def dict_get_default_def fork_ok_def)
next
  case (Some d)
  from map_of_SomeD [OF this] have "0 < faults d \<and> (quarantined d \<longleftrightarrow> quarantine_threshold f \<le> faults d)"
    using assms unfolding fork_ok_def by blast
  then show ?thesis
    using Some by (simp add: discipline_def dict_get_default_def)
qed

lemma record_fault_ok:
  assumes "fork_ok f"
  shows "fork_ok (snd (record_protocol_fault f p))"
proof -
  define d where "d = fst (record_protocol_fault f p)"
  have update: "snd (record_protocol_fault f p) = f\<lparr>disciplines := dict_set p d (disciplines f)\<rparr>"
    by (simp add: record_protocol_fault_def d_def Let_def)
  have "0 \<le> faults (discipline f p)"
    using discipline_ok [OF assms] by blast
  then have d: "0 < faults d" "quarantined d \<longleftrightarrow> quarantine_threshold f \<le> faults d"
    by (simp_all add: d_def record_protocol_fault_def Let_def)
  have disc: "dict_ok (disciplines f)"
    "\<forall>(q, e) \<in> set (disciplines f). 0 < faults e \<and> (quarantined e \<longleftrightarrow> quarantine_threshold f \<le> faults e)"
    using assms by (simp_all add: fork_ok_def)
  then have "\<forall>(q, e) \<in> set (dict_set p d (disciplines f)).
      0 < faults e \<and> (quarantined e \<longleftrightarrow> quarantine_threshold f \<le> faults e)"
    using d by (auto simp: set_dict_set)
  then show ?thesis
    using assms disc(1) unfolding update fork_ok_def by (simp del: map_of_eq_Some_iff)
qed

lemma noted_ok:
  assumes "fork_ok f" "eligible f c" "\<not> conflicts f c"
  shows "fork_ok (noted f c)"
proof -
  have keep: "dict_get (canonical_claims (noted f c)) h = Some e" if "dict_get (canonical_claims f) h = Some e" for h e
    using that by (auto simp: noted_def)
  have "\<exists>e. dict_get (canonical_claims (noted f c)) (cl_height c) = Some e \<and> lower (cl_block_hash e) = lower (cl_block_hash c)"
    using assms(3) by (auto simp: noted_def conflicts_def)
  moreover have "\<exists>e. dict_get (canonical_claims (noted f c)) (cl_height d) = Some e \<and> lower (cl_block_hash e) = lower (cl_block_hash d)"
    if "(p, d) \<in> set (claims f)" for p d
    using assms(1) that keep unfolding fork_ok_def by blast
  ultimately have "\<forall>(p, d) \<in> set (claims (noted f c)). peer_id d = p \<and>
      (\<exists>e. dict_get (canonical_claims (noted f c)) (cl_height d) = Some e \<and> lower (cl_block_hash e) = lower (cl_block_hash d))"
    using assms(1) by (auto simp: noted_def set_dict_set fork_ok_def)
  moreover have "\<forall>(h, d) \<in> set (canonical_claims (noted f c)). cl_height d = h \<and> cl_chain_id d = fk_chain_id f \<and>
      lower (cl_genesis_hash d) = fk_genesis_hash f \<and> power_resolver f h = Some (cl_total_power d)"
    using assms(1,2) by (auto simp: noted_def set_dict_set fork_ok_def eligible_def)
  moreover have "safety_halt f = None"
    using assms(2) unfolding eligible_def safety_halted_def by blast
  ultimately show ?thesis
    using assms(1) unfolding fork_ok_def by (simp add: noted_def)
qed

lemma observe_ok: "fork_ok f \<Longrightarrow> observe f c = (r, f') \<Longrightarrow> fork_ok f'"
proof (cases rule: observe_cases [of f c])
  case (halted e)
  assume "fork_ok f" "observe f c = (r, f')"
  then show ?thesis
    using halted unfolding fork_ok_def by auto
qed (auto simp: record_fault_ok noted_ok)

lemma fork_reachable_ok: "fork_reachable f \<Longrightarrow> fork_ok f"
proof (induction rule: fork_reachable.induct)
  case (reported f peer d f')
  then show ?case using record_fault_ok [of f peer] by simp
qed (auto intro: fork_init_ok observe_ok)


lemma observe_keeps:
  assumes "observe f c = (r, f')" "dict_get (canonical_claims f) h = Some e"
  shows "dict_get (canonical_claims f') h = Some e"
proof (cases rule: observe_cases [of f c])
  case (faulted e')
  then show ?thesis
    using assms by (auto simp: record_protocol_fault_def Let_def simp del: map_of_eq_Some_iff)
next
  case accepted
  then show ?thesis
    using assms by (auto simp: noted_def simp del: map_of_eq_Some_iff)
qed (use assms in \<open>auto simp del: map_of_eq_Some_iff\<close>)

interpretation canon_log: write_once "\<lambda>f f'. \<exists>c r. observe f c = (r, f')" "\<lambda>f. dict_get (canonical_claims f)"
  by unfold_locales (use observe_keeps in blast)

text \<open>
  Observing a claim never replaces a canonical claim, and a halt is permanent. The fork choice
  halts exactly on an eligible claim whose block differs from the canonical one at its height;
  every other claim is accepted with the head as result, or rejected with an error; only an
  ineligible or unlinked claim can add a fault, and only to the peer that sent it.
\<close>

theorem observe_safe:
  assumes "observe f c = (r, f')"
  shows "(\<forall>h e. dict_get (canonical_claims f) h = Some e \<longrightarrow> dict_get (canonical_claims f') h = Some e) \<and>
         (safety_halted f \<longrightarrow> f' = f \<and> r = Inl (ConsensusSyncError ''fork choice is safety halted'')) \<and>
         (safety_halted f' \<longleftrightarrow> safety_halted f \<or> (eligible f c \<and> conflicts f c)) \<and>
         ((\<exists>x. r = Inr x) \<longleftrightarrow> eligible f c \<and> \<not> conflicts f c \<and> linked_below f c) \<and>
         (\<forall>x. r = Inr x \<longrightarrow> x = fork_head f' \<and> dict_get (claims f') (peer_id c) = Some c \<and>
            (\<exists>e. dict_get (canonical_claims f') (cl_height c) = Some e \<and> lower (cl_block_hash e) = lower (cl_block_hash c))) \<and>
         (disciplines f' \<noteq> disciplines f \<longrightarrow> \<not> (eligible f c \<and> linked_below f c)) \<and>
         (\<forall>p. p \<noteq> peer_id c \<longrightarrow> discipline f' p = discipline f p)"
proof -
  have halt: "r = Inl (ConsensusSyncError ''fork choice is safety halted'') \<and> f' = f" if "safety_halted f"
    using assms that by (simp add: observe_def)
  have eligible: "\<not> safety_halted f" if "eligible f c"
    using that by (simp add: eligible_def)
  show ?thesis
  proof (cases rule: observe_cases [of f c])
    case (rejected e)
    then show ?thesis using assms halt by auto
  next
    case (faulted e)
    then show ?thesis
      using assms
      by (auto simp: record_protocol_fault_def Let_def discipline_def dict_get_default_def safety_halted_def
          dest: arg_cong [of _ _ disciplines])
  next
    case (halted e)
    then show ?thesis
      using assms eligible by (auto simp: safety_halted_def conflicts_def discipline_def)
  next
    case accepted
    have f': "r = Inr (fork_head (noted f c))" "f' = noted f c"
      using assms accepted(1) by auto
    have "\<exists>e. dict_get (canonical_claims f') (cl_height c) = Some e \<and> lower (cl_block_hash e) = lower (cl_block_hash c)"
      using accepted(3) by (auto simp: f' noted_def conflicts_def)
    then show ?thesis
      using f' accepted eligible by (auto simp: noted_def safety_halted_def discipline_def)
  qed
qed

section \<open>Parent links\<close>

definition sample_claim :: "string \<Rightarrow> int \<Rightarrow> string \<Rightarrow> string \<Rightarrow> finalized_claim" where
  "sample_claim peer h block parent =
     \<lparr>peer_id = peer, cl_chain_id = 7, cl_genesis_hash = digest0x [], cl_height = h, cl_block_hash = block,
      cl_parent_hash = parent, cl_state_root = digest0x [], cl_signed_power = 3, cl_total_power = 3\<rparr>"

definition sample_fork :: fork_choice where
  "sample_fork =
     \<lparr>fk_chain_id = 7, fk_genesis_hash = digest0x [], fk_expected_power = 3, power_resolver = (\<lambda>_. Some 3),
      quarantine_threshold = 3, claims = [], canonical_claims = [], disciplines = [], safety_halt = None\<rparr>"

lemma sample_fork_init: "fork_choice_init 7 (digest0x []) 3 3 None = Inr sample_fork"
  by (simp add: fork_choice_init_def sample_fork_def cs_hash_def is_hash32_digest0x [unfolded is_hash32_def, simplified])

lemma sample_fork_reachable: "fork_reachable sample_fork"
  by (rule fork_reachable.started [OF sample_fork_init])

lemma sample_claim_ok:
  "peer \<noteq> [] \<Longrightarrow> 0 \<le> h \<Longrightarrow> is_hash32 block \<Longrightarrow> is_hash32 parent \<Longrightarrow> claim_post_init (sample_claim peer h block parent) = Inr ()"
  by (simp add: claim_post_init_def sample_claim_def bindE_Inr_iff cs_hash_Inr)

text \<open>
  The parent link is checked in one direction only. Two honest-looking claims of different peers,
  the higher one first, make the fork choice hold two adjacent canonical blocks of which the upper
  does not name the lower as its parent, for any blocks, and it neither faults a peer nor halts.
\<close>

theorem unlinked_canonical_blocks:
  assumes "is_hash32 a" "is_hash32 b" "is_hash32 p" "lower p \<noteq> lower a" "0 \<le> h"
  shows "\<exists>f. fork_reachable f \<and> disciplines f = [] \<and> \<not> safety_halted f \<and>
           (\<exists>x y. dict_get (canonical_claims f) h = Some x \<and> dict_get (canonical_claims f) (h + 1) = Some y \<and>
              cl_block_hash x = a \<and> cl_block_hash y = b \<and> lower (cl_parent_hash y) \<noteq> lower (cl_block_hash x))"
proof -
  define y where "y = sample_claim ''p'' (h + 1) b p"
  define x where "x = sample_claim ''q'' h a (digest0x [])"
  define f where "f = noted sample_fork y"
  have y: "eligible sample_fork y" "\<not> conflicts sample_fork y" "linked_below sample_fork y"
    by (simp_all add: eligible_def conflicts_def linked_below_def sample_fork_def y_def sample_claim_def
        safety_halted_def discipline_def dict_get_default_def)
  have x: "eligible f x" "\<not> conflicts f x" "linked_below f x"
    by (simp_all add: eligible_def conflicts_def linked_below_def sample_fork_def y_def x_def f_def sample_claim_def
        safety_halted_def discipline_def dict_get_default_def noted_def)
  have accepts: "observe g c = (Inr (fork_head (noted g c)), noted g c)"
    if "eligible g c" "\<not> conflicts g c" "linked_below g c" for g c
    using that by (cases rule: observe_cases [of g c]) (auto simp: conflicts_def)
  have "fork_reachable f"
    unfolding f_def by (rule fork_reachable.observed [OF sample_fork_reachable _ accepts [OF y]])
      (use assms in \<open>simp add: y_def sample_claim_ok\<close>)
  then have "fork_reachable (noted f x)"
    by (rule fork_reachable.observed [OF _ _ accepts [OF x]]) (use assms in \<open>simp add: x_def sample_claim_ok\<close>)
  moreover have "disciplines (noted f x) = []" "\<not> safety_halted (noted f x)"
    by (simp_all add: f_def noted_def sample_fork_def safety_halted_def)
  moreover have "dict_get (canonical_claims (noted f x)) h = Some x" "dict_get (canonical_claims (noted f x)) (h + 1) = Some y"
    by (simp_all add: f_def noted_def sample_fork_def x_def y_def sample_claim_def)
  moreover have "cl_block_hash x = a" "cl_block_hash y = b" "lower (cl_parent_hash y) \<noteq> lower (cl_block_hash x)"
    using assms(4) by (simp_all add: x_def y_def sample_claim_def)
  ultimately show ?thesis by blast
qed

definition zero_hash :: string where "zero_hash = ''0x'' @ replicate 64 (CHR ''0'')"
definition one_hash :: string where "one_hash = ''0x'' @ replicate 64 (CHR ''1'')"

lemma sample_hashes: "is_hash32 zero_hash" "is_hash32 one_hash" "lower zero_hash = zero_hash" "lower one_hash = one_hash"
  "zero_hash \<noteq> one_hash"
proof -
  have "list_all is_lower_hex (replicate 64 (CHR ''0''))" "list_all is_lower_hex (replicate 64 (CHR ''1''))"
    by (simp_all add: list_all_iff is_lower_hex_def)
  then show "is_hash32 zero_hash" "is_hash32 one_hash" "lower zero_hash = zero_hash" "lower one_hash = one_hash"
    by (simp_all add: is_hash32_def zero_hash_def one_hash_def int16_ok_lower_hex lower_of_lower_hex)
       (simp_all add: lower_def lower_char_def)
  show "zero_hash \<noteq> one_hash"
    by (simp add: zero_hash_def one_hash_def)
qed

lemma unlinked_canonical_blocks_witness:
  "\<exists>f. fork_reachable f \<and> (\<exists>x y. dict_get (canonical_claims f) 4 = Some x \<and> dict_get (canonical_claims f) 5 = Some y \<and>
     lower (cl_parent_hash y) \<noteq> lower (cl_block_hash x))"
proof -
  have "lower one_hash \<noteq> lower zero_hash" "(0::int) \<le> 4"
    using sample_hashes by simp_all
  from unlinked_canonical_blocks [OF sample_hashes(1,2,2) this] show ?thesis by force
qed


lemma observe_safe_witness:
  "\<exists>r f'. observe sample_fork (sample_claim ''p'' 4 zero_hash one_hash) = (r, f') \<and> \<not> safety_halted f' \<and> (\<exists>x. r = Inr x)"
proof -
  let ?c = "sample_claim ''p'' 4 zero_hash one_hash"
  obtain r f' where o: "observe sample_fork ?c = (r, f')" by (cases "observe sample_fork ?c")
  have "eligible sample_fork ?c" "\<not> conflicts sample_fork ?c" "linked_below sample_fork ?c" "\<not> safety_halted sample_fork"
    by (simp_all add: eligible_def conflicts_def linked_below_def sample_fork_def sample_claim_def
        safety_halted_def discipline_def dict_get_default_def)
  then show ?thesis
    using observe_safe [OF o] o by auto
qed

section \<open>Snapshots\<close>

lemma verify_chunks_Inr:
  "length hs = length cs \<Longrightarrow> foldE verify_chunk k (zip hs cs) = Inr n \<longleftrightarrow>
     (\<forall>c \<in> set cs. length c \<le> 2097152) \<and> map digest0x cs = map lower hs \<and> n = k + int (sum_list (map length cs))"
proof (induction hs cs arbitrary: k rule: list_induct2)
  case (Cons h hs c cs)
  then show ?case
    by (auto simp: verify_chunk_def bindE_Inr_iff if_Inl_Inr_iff)
qed auto

lemma verify_snapshot_Inr [result_elims]:
  "verify_snapshot s d chunks c = Inr r \<longleftrightarrow>
     sd_chain_id d = sc_chain_id s \<and> cl_chain_id c = sc_chain_id s \<and> sd_height d = cl_height c \<and>
     lower (sd_block_hash d) = lower (cl_block_hash c) \<and> lower (sd_state_root d) = lower (cl_state_root c) \<and>
     map digest0x chunks = map lower (chunk_hashes d) \<and> (\<forall>c \<in> set chunks. length c \<le> 2097152) \<and>
     checkpoint_digest d chunks = Inr (lower (sd_checkpoint_digest d)) \<and>
     r = \<lparr>cu_mode = ''SNAPSHOT'', target_height = sd_height d, verified_bytes = int (sum_list (map length chunks)),
          cu_status = ''VERIFIED''\<rparr>"
proof (cases "length chunks = length (chunk_hashes d)")
  case True
  then show ?thesis
    using verify_chunks_Inr [of "chunk_hashes d" chunks 0]
    by (auto simp: verify_snapshot_def bindE_Inr_iff if_Inl_Inr_iff)
next
  case False
  then have "map digest0x chunks \<noteq> map lower (chunk_hashes d)"
    by (metis length_map)
  with False show ?thesis
    by (simp add: verify_snapshot_def if_Inl_Inr_iff)
qed

text \<open>
  A snapshot proves its content: two lists of chunks that verify against the same descriptor and
  claim are equal, or two different chunks at the same position are a collision of SHA-256.
\<close>

lemma snapshot_commits:
  assumes "verify_snapshot s d chunks c = Inr r" "verify_snapshot s d chunks' c = Inr r'"
  shows "chunks = chunks' \<or>
    (\<exists>i < length chunks. chunks ! i \<noteq> chunks' ! i \<and> sha256 (chunks ! i) = sha256 (chunks' ! i))"
proof -
  have eq: "map digest0x chunks = map digest0x chunks'"
    using assms by (simp add: verify_snapshot_Inr)
  then have length: "length chunks = length chunks'"
    by (metis length_map)
  show ?thesis
  proof (cases "chunks = chunks'")
    case False
    then obtain i where i: "i < length chunks" "chunks ! i \<noteq> chunks' ! i"
      using length by (auto simp: list_eq_iff_nth_eq)
    moreover have "sha256 (chunks ! i) = sha256 (chunks' ! i)"
      using arg_cong [OF eq, of "\<lambda>xs. xs ! i"] i(1) length by (simp add: digest0x_inject)
    ultimately show ?thesis by blast
  qed simp
qed

text \<open>
  A descriptor that was built for some chunks verifies them: the catch-up at the claim of the same
  height, block and state root succeeds and counts every byte, provided no chunk exceeds two
  mebibytes.
\<close>

theorem snapshot_build_verify:
  assumes "build_snapshot_descriptor (sc_chain_id s) h block root chunks = Inr d"
    and "\<forall>k \<in> set chunks. length k \<le> 2 * 1024 * 1024"
    and "cl_chain_id c = sc_chain_id s" "cl_height c = h" "cl_block_hash c = block" "cl_state_root c = root"
  shows "verify_snapshot s d chunks c = Inr \<lparr>cu_mode = ''SNAPSHOT'', target_height = h,
           verified_bytes = int (sum_list (map length chunks)), cu_status = ''VERIFIED''\<rparr>"
proof -
  define p where "p = \<lparr>sd_chain_id = sc_chain_id s, sd_height = h, sd_block_hash = block, sd_state_root = root,
    sd_checkpoint_digest = ''0x'' @ replicate 64 (CHR ''0''), chunk_hashes = map digest0x chunks\<rparr>"
  obtain digest where digest: "checkpoint_digest p chunks = Inr digest" "d = p\<lparr>sd_checkpoint_digest := digest\<rparr>"
    using assms(1) by (auto simp: build_snapshot_descriptor_def bindE_Inr_iff Let_def p_def)
  have "checkpoint_digest d chunks = Inr digest"
    using digest by (simp add: checkpoint_digest_def checkpoint_body_def)
  moreover have "lower digest = digest"
    using digest(1) by (auto simp: checkpoint_digest_def bindE_Inr_iff)
  ultimately show ?thesis
    using assms(2-6) digest(2) by (simp add: verify_snapshot_Inr p_def comp_def)
qed

lemma is_ascii_lower_hex: "list_all is_lower_hex s \<Longrightarrow> is_ascii s"
  by (induction s) (auto simp: is_lower_hex_def Let_def)

lemma is_ascii_digest0x [simp]: "is_ascii (digest0x m)"
  using is_ascii_lower_hex [OF sha256_hex_lower_hex] by (simp add: digest0x_def)

lemma sample_descriptor: "\<exists>d. build_snapshot_descriptor 7 4 zero_hash one_hash [''abc''] = Inr d"
proof -
  have "is_ascii zero_hash" "is_ascii one_hash" "is_hash32 (''0x'' @ replicate 64 (CHR ''0''))"
    using sample_hashes(1) by (simp_all add: is_ascii_def list_all_iff zero_hash_def one_hash_def)
  then show ?thesis
    using sample_hashes
    by (simp add: build_snapshot_descriptor_def descriptor_post_init_def bindE_Inr_iff cs_hash_Inr checkpoint_digest_def
        encode_ascii_strict_def checkpoint_body_def Let_def)
qed

definition sample_catchup :: snapshot_catchup where
  "sample_catchup = \<lparr>sc_chain_id = 7, sc_threshold = 10\<rparr>"

lemma snapshot_build_verify_witness:
  "\<exists>d r. build_snapshot_descriptor 7 4 zero_hash one_hash [''abc''] = Inr d \<and>
     verify_snapshot sample_catchup d [''abc''] ((sample_claim ''p'' 4 zero_hash one_hash)\<lparr>cl_state_root := one_hash\<rparr>) = Inr r \<and>
     verified_bytes r = 3"
proof -
  obtain d where d: "build_snapshot_descriptor (sc_chain_id sample_catchup) 4 zero_hash one_hash [''abc''] = Inr d"
    using sample_descriptor by (auto simp: sample_catchup_def)
  show ?thesis
    using snapshot_build_verify [OF d, of "(sample_claim ''p'' 4 zero_hash one_hash)\<lparr>cl_state_root := one_hash\<rparr>"] d
    by (auto simp: sample_claim_def sample_catchup_def)
qed

end
