(* ===== verification/SigningJournal.thy ===== *)
theory SigningJournal
  imports Finality WriteOnce
begin

text \<open>
  \<open>consensus_signing_journal.py\<close>: the persistent journal that keeps a validator from signing two
  blocks for one height and round. The database is a record of its tables, each a dictionary from
  primary key to row. A transaction that raises is rolled back, so \<open>get_or_sign\<close> gives a journal only
  where it returns. Opening a database commits in steps, so it gives the database in both cases. The
  result of \<open>PRAGMA quick_check\<close> is a parameter; the signer and the signature verifier are callbacks:
  \<open>None\<close> where they raise. Integers the database cannot hold raise \<open>OverflowError\<close>.
\<close>

section \<open>Tables\<close>

type_synonym sign_key = "string \<times> int \<times> int"

record signature_row =
  sr_block_hash :: string
  sr_payload_digest :: string
  sr_signature :: bytes

record journal_db =
  meta_chain_id :: "string option"
  signatures :: "(sign_key, signature_row) dict"
  watermarks :: "(string, int \<times> int) dict"

definition empty_journal_db :: journal_db where
  "empty_journal_db = \<lparr>meta_chain_id = None, signatures = [], watermarks = []\<rparr>"

record journal =
  sj_chain_id :: int
  sj_db :: journal_db

section \<open>Signing\<close>

definition canonical_payload :: "int \<Rightarrow> string \<Rightarrow> int \<Rightarrow> int \<Rightarrow> string \<Rightarrow> bytes" where
  "canonical_payload chain vid h r block = encode (json_dumps (vote_payload_json block chain h r vid))"

definition validate_signing_payload :: "journal \<Rightarrow> string \<Rightarrow> int \<Rightarrow> int \<Rightarrow> string \<Rightarrow> bytes \<Rightarrow> unit result" where
  "validate_signing_payload j vid h r block payload =
     (if payload \<noteq> canonical_payload (sj_chain_id j) vid h r block
      then Inl (ConsensusSigningJournalError ''signing_payload does not match canonical consensus vote'')
      else Inr ())"

definition call_signer :: "bytes option \<Rightarrow> bytes result" where
  "call_signer signer =
     (case signer of
        Some s \<Rightarrow> Inr s
      | None \<Rightarrow> Inl (ConsensusSigningJournalError ''consensus signer provider call failed''))"

definition verify_signature :: "bytes \<Rightarrow> (bytes \<Rightarrow> bool option) \<Rightarrow> unit result" where
  "verify_signature s verifier =
     (if verifier s \<noteq> Some True
      then Inl (ConsensusSigningJournalError ''consensus signature verification failed'')
      else Inr ())"

text \<open>\<open>(height, round)\<close> in the order the SQL conditions spell out.\<close>

definition later :: "int \<times> int \<Rightarrow> int \<times> int \<Rightarrow> bool" where
  "later a b = (fst a > fst b \<or> (fst a = fst b \<and> snd a > snd b))"

text \<open>The upsert of a watermark; the checks of the table are made on the inserted row.\<close>

definition upsert_watermark :: "(string, int \<times> int) dict \<Rightarrow> string \<times> int \<times> int \<Rightarrow> (string, int \<times> int) dict result" where
  "upsert_watermark wm row =
     (let vid = fst row; at = snd row in
      if fst at \<le> 0 \<or> snd at < 0 then Inl SQLiteIntegrityError
      else (case dict_get wm vid of
              None \<Rightarrow> Inr (dict_set vid at wm)
            | Some old \<Rightarrow> if later at old then Inr (dict_set vid at wm) else Inr wm))"

definition is_lower_hash :: "string \<Rightarrow> bool" where
  "is_lower_hash b = (length b = 66 \<and> starts_with ''0x'' b \<and> list_all is_lower_hex (drop 2 b))"

definition get_or_sign ::
  "journal \<Rightarrow> string \<Rightarrow> int \<Rightarrow> int \<Rightarrow> string \<Rightarrow> bytes \<Rightarrow> bytes option \<Rightarrow> (bytes \<Rightarrow> bool option) \<Rightarrow> (bytes \<times> journal) result" where
  "get_or_sign j vid h r block payload signer verifier =
     (if vid = [] \<or> list_ex is_space vid
      then Inl (ConsensusSigningJournalError ''validator_id is invalid'')
      else if h \<le> 0
      then Inl (ConsensusSigningJournalError ''height must be a positive integer'')
      else if r < 0
      then Inl (ConsensusSigningJournalError ''round must be a non-negative integer'')
      else if \<not> is_lower_hash block
      then Inl (ConsensusSigningJournalError ''block_hash must be a canonical lowercase SHA-256'')
      else if payload = []
      then Inl (ConsensusSigningJournalError ''signing_payload must be non-empty bytes'')
      else
        bindE (validate_signing_payload j vid h r block payload) (\<lambda>_.
        let payload_digest = sha256_hex payload; db = sj_db j in
        if \<not> sqlite_int h \<or> \<not> sqlite_int r then Inl OverflowError
        else
          (case dict_get (signatures db) (vid, h, r) of
             Some row \<Rightarrow>
               if sr_block_hash row \<noteq> block \<or> sr_payload_digest row \<noteq> payload_digest
               then Inl (ConsensusSigningJournalError ''conflicting consensus vote would double-sign'')
               else bindE (verify_signature (sr_signature row) verifier) (\<lambda>_. Inr (sr_signature row, j))
           | None \<Rightarrow>
               if (case dict_get (watermarks db) vid of
                     Some w \<Rightarrow> h < fst w \<or> (h = fst w \<and> r < snd w)
                   | None \<Rightarrow> False)
               then Inl (ConsensusSigningJournalError ''consensus vote is below the persistent signing watermark'')
               else
                 bindE (call_signer signer) (\<lambda>s.
                 if length s \<notin> {64, 65}
                 then Inl (ConsensusSigningJournalError ''signer returned an invalid consensus signature'')
                 else
                   bindE (verify_signature s verifier) (\<lambda>_.
                   bindE (upsert_watermark (watermarks db) (vid, h, r)) (\<lambda>wm.
                   Inr (s, j\<lparr>sj_db := db\<lparr>
                     signatures := dict_set (vid, h, r)
                       \<lparr>sr_block_hash = block, sr_payload_digest = payload_digest, sr_signature = s\<rparr> (signatures db),
                     watermarks := wm\<rparr>\<rparr>)))))))"

section \<open>Opening\<close>

definition bind_chain :: "int \<Rightarrow> journal_db \<Rightarrow> unit result \<times> journal_db" where
  "bind_chain chain db =
     (case meta_chain_id db of
        None \<Rightarrow> (Inr (), db\<lparr>meta_chain_id := Some (int_str chain)\<rparr>)
      | Some v \<Rightarrow>
          if v \<noteq> int_str chain
          then (Inl (ConsensusSigningJournalError ''signing journal is bound to a different chain_id''), db)
          else (Inr (), db))"

text \<open>The rows that no newer row of the same validator follows.\<close>

definition newest_keys :: "(sign_key, signature_row) dict \<Rightarrow> (string \<times> int \<times> int) list" where
  "newest_keys rows =
     filter (\<lambda>k. \<not> list_ex (\<lambda>n. fst n = fst k \<and> later (snd n) (snd k)) (map fst rows)) (map fst rows)"

definition restore_watermarks :: "journal_db \<Rightarrow> journal_db result" where
  "restore_watermarks db =
     bindE (foldE upsert_watermark (watermarks db) (newest_keys (signatures db))) (\<lambda>wm. Inr (db\<lparr>watermarks := wm\<rparr>))"

definition row_valid :: "int \<Rightarrow> sign_key \<times> signature_row \<Rightarrow> bool" where
  "row_valid chain item =
     (let (key, row) = item; (vid, h, r) = key in
      vid \<noteq> [] \<and> \<not> list_ex is_space vid \<and> h > 0 \<and> r \<ge> 0 \<and> is_lower_hash (sr_block_hash row) \<and>
      length (sr_payload_digest row) = 64 \<and> list_all is_lower_hex (sr_payload_digest row) \<and>
      length (sr_signature row) \<in> {64, 65} \<and>
      sha256_hex (canonical_payload chain vid h r (sr_block_hash row)) = sr_payload_digest row)"

definition note_latest :: "int \<Rightarrow> (string, int \<times> int) dict \<Rightarrow> sign_key \<times> signature_row \<Rightarrow> (string, int \<times> int) dict result" where
  "note_latest chain latest item =
     (if \<not> row_valid chain item
      then Inl (ConsensusSigningJournalError ''signing journal semantic integrity check failed'')
      else
        let (vid, at) = fst item in
        Inr (case dict_get latest vid of
               None \<Rightarrow> dict_set vid at latest
             | Some current \<Rightarrow> if current < at then dict_set vid at latest else latest))"

definition validate_persisted_state :: "int \<Rightarrow> journal_db \<Rightarrow> unit result" where
  "validate_persisted_state chain db =
     bindE (foldE (note_latest chain) [] (signatures db)) (\<lambda>latest.
     if \<not> dict_eq (watermarks db) latest
     then Inl (ConsensusSigningJournalError ''signing journal semantic integrity check failed'')
     else Inr ())"

definition open_journal :: "int \<Rightarrow> bool \<Rightarrow> journal_db \<Rightarrow> journal result \<times> journal_db" where
  "open_journal chain quick_check_ok db =
     (if chain \<le> 0 then (Inl (ConsensusSigningJournalError ''chain_id must be a positive integer''), db)
      else if \<not> quick_check_ok
      then (Inl (ConsensusSigningJournalError ''signing journal integrity check failed''), db)
      else
        (case bind_chain chain db of
           (Inl e, db1) \<Rightarrow> (Inl e, db1)
         | (Inr _, db1) \<Rightarrow>
             (case restore_watermarks db1 of
                Inl e \<Rightarrow> (Inl e, db1)
              | Inr db2 \<Rightarrow>
                  (case validate_persisted_state chain db2 of
                     Inl e \<Rightarrow> (Inl e, db2)
                   | Inr _ \<Rightarrow> (Inr \<lparr>sj_chain_id = chain, sj_db = db2\<rparr>, db2)))))"

definition max_height :: "int list \<Rightarrow> json" where
  "max_height hs = (if hs = [] then JNull else JInt (Max (set hs)))"

definition journal_evidence :: "journal \<Rightarrow> json" where
  "journal_evidence j = JObj
     [(''schema_version'', JStr ''junca-consensus-signing-journal/v6''),
      (''chain_id'', JInt (sj_chain_id j)),
      (''signature_count'', JInt (int (length (signatures (sj_db j))))),
      (''latest_height'', max_height (map (\<lambda>row. fst (snd (fst row))) (signatures (sj_db j)))),
      (''watermark_validator_count'', JInt (int (length (watermarks (sj_db j))))),
      (''watermark_latest_height'', max_height (map (\<lambda>row. fst (snd row)) (watermarks (sj_db j)))),
      (''rollback_signing_protected'', JBool True),
      (''signature_verified_before_persist'', JBool True),
      (''stored_signature_verified_before_replay'', JBool True),
      (''canonical_payload_binding_enforced'', JBool True),
      (''signer_provider_errors_sanitized'', JBool True),
      (''startup_integrity_check'', JStr ''PASS''),
      (''startup_semantic_integrity_check'', JStr ''PASS''),
      (''private_key_material_stored'', JBool False),
      (''key_resource_stored'', JBool False),
      (''mainnet_changed'', JBool False),
      (''assets_moved'', JBool False),
      (''bridge_activated'', JBool False)]"

section \<open>Watermarks\<close>

text \<open>
  The order of the SQL conditions is the lexicographic order of height and round. A table of marks
  holds the latest key of every validator of a set of keys.
\<close>

lemma later_iff [simp]: "later a b \<longleftrightarrow> b < a"
  by (cases a; cases b) (auto simp: later_def)

definition is_latest :: "('i \<times> 'a::linorder) set \<Rightarrow> 'i \<Rightarrow> 'a \<Rightarrow> bool" where
  "is_latest K vid at \<longleftrightarrow> (vid, at) \<in> K \<and> (\<forall>b. (vid, b) \<in> K \<longrightarrow> b \<le> at)"

definition marks :: "('i \<times> 'a::linorder) set \<Rightarrow> ('i, 'a) dict \<Rightarrow> bool" where
  "marks K wm \<longleftrightarrow> dict_ok wm \<and> (\<forall>vid at. dict_get wm vid = Some at \<longleftrightarrow> is_latest K vid at)"

definition raise_mark :: "'i \<times> 'a::linorder \<Rightarrow> ('i, 'a) dict \<Rightarrow> ('i, 'a) dict" where
  "raise_mark k wm =
     (case dict_get wm (fst k) of
        None \<Rightarrow> dict_set (fst k) (snd k) wm
      | Some old \<Rightarrow> if old < snd k then dict_set (fst k) (snd k) wm else wm)"

lemma latest_exists:
  assumes "finite K" "(vid, at) \<in> K"
  shows "\<exists>m. is_latest K vid m"
proof -
  let ?S = "snd ` {k \<in> K. fst k = vid}"
  have "finite ?S" "?S \<noteq> {}"
    using assms by auto
  then have "Max ?S \<in> ?S" "\<forall>b \<in> ?S. b \<le> Max ?S"
    by auto
  then have "is_latest K vid (Max ?S)"
    by (auto simp: is_latest_def)
  then show ?thesis ..
qed

lemma latest_unique: "is_latest K vid a \<Longrightarrow> is_latest K vid b \<Longrightarrow> a = b"
  unfolding is_latest_def by (blast intro: order.antisym)

lemma marks_none: "finite K \<Longrightarrow> marks K wm \<Longrightarrow> dict_get wm vid = None \<Longrightarrow> (vid, b) \<notin> K"
  using latest_exists [of K vid b] by (auto simp: marks_def)

lemma marks_raise:
  assumes "finite K" "marks K wm"
  shows "marks (insert k K) (raise_mark k wm)"
proof -
  obtain vid at where Pair: "k = (vid, at)"
    by fastforce
  have ok: "dict_ok wm"
    using assms by (simp add: marks_def)
  have other: "is_latest (insert k K) w b \<longleftrightarrow> is_latest K w b" if "w \<noteq> vid" for w b
    using that Pair by (auto simp: is_latest_def)
  show ?thesis
  proof (cases "dict_get wm vid")
    case None
    then have "\<And>b. (vid, b) \<notin> K"
      using marks_none [OF assms] by blast
    then have "is_latest (insert k K) vid b \<longleftrightarrow> b = at" for b
      using Pair by (auto simp: is_latest_def)
    then show ?thesis
      using None Pair other assms ok by (auto simp: marks_def raise_mark_def)
  next
    case (Some old)
    then have old: "is_latest K vid old"
      using assms by (simp add: marks_def)
    then have "is_latest (insert k K) vid (if old < at then at else old)"
      using Pair by (auto simp: is_latest_def intro: order.trans less_imp_le)
    then have "is_latest (insert k K) vid b \<longleftrightarrow> b = (if old < at then at else old)" for b
      using latest_unique by metis
    moreover have "dict_get (raise_mark k wm) w = Some b \<longleftrightarrow>
        (if w = vid then b = (if old < at then at else old) else dict_get wm w = Some b)" for w b
      using Some Pair ok by (auto simp: raise_mark_def simp del: map_of_eq_Some_iff)
    moreover have "dict_ok (raise_mark k wm)"
      using Some Pair ok by (simp add: raise_mark_def del: map_of_eq_Some_iff)
    ultimately show ?thesis
      using other assms(2) by (auto simp: marks_def simp del: map_of_eq_Some_iff)
  qed
qed

lemma marks_fold: "finite K \<Longrightarrow> marks K wm \<Longrightarrow> marks (set ks \<union> K) (fold raise_mark ks wm)"
proof (induction ks arbitrary: K wm)
  case (Cons k ks)
  then have "marks (set ks \<union> insert k K) (fold raise_mark ks (raise_mark k wm))"
    using marks_raise by blast
  then show ?case
    by simp
qed simp

lemma marks_own:
  assumes "dict_ok wm"
  shows "marks (set wm) wm"
proof -
  have "is_latest (set wm) vid at \<longleftrightarrow> (vid, at) \<in> set wm" for vid at
    using assms eq_key_imp_eq_value by (fastforce simp: is_latest_def)
  then show ?thesis
    using assms by (simp add: marks_def)
qed

lemma map_eq_iff_Some: "m = n \<longleftrightarrow> (\<forall>k v. m k = Some v \<longleftrightarrow> n k = Some v)"
  by (metis ext not_None_eq)

lemma marks_dict_eq: "marks K wm \<Longrightarrow> dict_ok d \<Longrightarrow> dict_eq d wm \<longleftrightarrow> marks K d"
  by (simp add: dict_eq_iff marks_def map_eq_iff_Some)


section \<open>The invariant of the journal\<close>

text \<open>
  The rows are what the semantic check of the start accepts, and the watermark of every validator
  is its latest row.
\<close>

definition rows_ok :: "int \<Rightarrow> (sign_key, signature_row) dict \<Rightarrow> bool" where
  "rows_ok chain rows \<longleftrightarrow> dict_ok rows \<and> (\<forall>item \<in> set rows. row_valid chain item)"

definition journal_ok :: "int \<Rightarrow> journal \<Rightarrow> bool" where
  "journal_ok chain j \<longleftrightarrow>
     0 < chain \<and> sj_chain_id j = chain \<and> meta_chain_id (sj_db j) = Some (int_str chain) \<and>
     rows_ok chain (signatures (sj_db j)) \<and>
     marks (fst ` set (signatures (sj_db j))) (watermarks (sj_db j))"

lemma upsert_watermark_Inr [result_elims]:
  "upsert_watermark wm k = Inr wm' \<longleftrightarrow> 0 < fst (snd k) \<and> 0 \<le> snd (snd k) \<and> wm' = raise_mark k wm"
  by (auto simp: upsert_watermark_def raise_mark_def Let_def split: option.splits)

lemma upsert_watermarks:
  "foldE upsert_watermark wm ks = Inr (fold raise_mark ks wm)"
  if "\<forall>k \<in> set ks. 0 < fst (snd k) \<and> 0 \<le> snd (snd k)"
  using that
proof (induction ks arbitrary: wm)
  case (Cons k ks)
  then have "upsert_watermark wm k = Inr (raise_mark k wm)"
    by (simp add: upsert_watermark_Inr)
  then show ?case
    using Cons by simp
qed simp

lemma note_latest_Inr: "note_latest chain m item = (if row_valid chain item then Inr (raise_mark (fst item) m)
    else Inl (ConsensusSigningJournalError ''signing journal semantic integrity check failed''))"
  by (cases "fst item") (auto simp: note_latest_def raise_mark_def split: option.splits)

lemma note_all_latest:
  "foldE (note_latest chain) m items = Inr m' \<longleftrightarrow>
     (\<forall>item \<in> set items. row_valid chain item) \<and> m' = fold raise_mark (map fst items) m"
  by (induction items arbitrary: m) (auto simp: note_latest_Inr)

lemma marks_empty: "marks {} []"
  by (simp add: marks_def is_latest_def)

lemma validate_persisted_state_Inr [result_elims]:
  assumes "dict_ok (signatures db)" "dict_ok (watermarks db)"
  shows "validate_persisted_state chain db = Inr u \<longleftrightarrow>
     rows_ok chain (signatures db) \<and> marks (fst ` set (signatures db)) (watermarks db)"
proof -
  have "marks (fst ` set (signatures db)) (fold raise_mark (map fst (signatures db)) [])"
    using marks_fold [OF finite.emptyI marks_empty, of "map fst (signatures db)"] by simp
  then have "dict_eq (watermarks db) (fold raise_mark (map fst (signatures db)) []) \<longleftrightarrow>
      marks (fst ` set (signatures db)) (watermarks db)"
    using marks_dict_eq assms(2) by blast
  then show ?thesis
    using assms(1) unfolding validate_persisted_state_def
    by (auto simp: bindE_Inr_iff note_all_latest rows_ok_def if_Inl_Inr_iff)
qed

section \<open>Opening and signing keep the invariant\<close>

lemma row_valid_key: "row_valid chain item \<Longrightarrow> 0 < fst (snd (fst item)) \<and> 0 \<le> snd (snd (fst item))"
  by (cases "fst item") (auto simp: row_valid_def split_beta)

lemma foldE_upsert_dict_ok: "foldE upsert_watermark wm ks = Inr wm' \<Longrightarrow> dict_ok wm \<Longrightarrow> dict_ok wm'"
  by (erule foldE_invariant) (auto simp: upsert_watermark_Inr raise_mark_def split: option.splits)

lemma bind_chain_Inr:
  "bind_chain chain db = (Inr u, db') \<longleftrightarrow>
     db' = db\<lparr>meta_chain_id := Some (int_str chain)\<rparr> \<and> meta_chain_id db \<in> {None, Some (int_str chain)}"
  by (auto simp: bind_chain_def split: option.splits)

lemma open_journal_Inr:
  "open_journal chain q db = (Inr j, db') \<longleftrightarrow>
     0 < chain \<and> q \<and> meta_chain_id db \<in> {None, Some (int_str chain)} \<and>
     restore_watermarks (db\<lparr>meta_chain_id := Some (int_str chain)\<rparr>) = Inr db' \<and>
     validate_persisted_state chain db' = Inr () \<and> j = \<lparr>sj_chain_id = chain, sj_db = db'\<rparr>"
proof (cases "bind_chain chain db")
  case (Pair b db1)
  show ?thesis
    using Pair bind_chain_Inr [of chain db "()" db1]
    by (cases b) (auto simp: open_journal_def bind_chain_def split: sum.splits option.splits if_splits)
qed

theorem open_journal_ok:
  assumes "dict_ok (signatures db)" "dict_ok (watermarks db)" "open_journal chain q db = (Inr j, db')"
  shows "journal_ok chain j \<and> sj_db j = db' \<and> signatures db' = signatures db"
proof -
  have "restore_watermarks (db\<lparr>meta_chain_id := Some (int_str chain)\<rparr>) = Inr db'"
      and valid: "validate_persisted_state chain db' = Inr ()" and j: "0 < chain" "j = \<lparr>sj_chain_id = chain, sj_db = db'\<rparr>"
    using assms(3) by (simp_all add: open_journal_Inr)
  then obtain wm where "foldE upsert_watermark (watermarks db) (newest_keys (signatures db)) = Inr wm"
      and db': "db' = db\<lparr>meta_chain_id := Some (int_str chain), watermarks := wm\<rparr>"
    by (auto simp: restore_watermarks_def bindE_Inr_iff)
  then have "dict_ok wm"
    using foldE_upsert_dict_ok assms(2) by blast
  then show ?thesis
    using assms(1) valid j db' by (simp add: validate_persisted_state_Inr journal_ok_def)
qed

lemma filter_latest:
  "(v, a) \<in> set (filter (\<lambda>k. \<not> list_ex (\<lambda>n. fst n = fst k \<and> snd k < snd n) ks) ks) \<longleftrightarrow> is_latest (set ks) v a"
  by (fastforce simp: is_latest_def list_ex_iff not_less)

lemma newest_keys_latest:
  "(vid, at) \<in> set (newest_keys rows) \<longleftrightarrow> is_latest (fst ` set rows) vid at"
  using filter_latest [of vid at "map fst rows"] by (simp only: newest_keys_def later_iff set_map)

lemma newest_keys_subset: "set (newest_keys rows) \<subseteq> fst ` set rows"
  by (auto simp: newest_keys_def)

lemma restore_watermarks_valid:
  assumes "rows_ok chain (signatures db)"
  shows "restore_watermarks db = Inr (db\<lparr>watermarks := fold raise_mark (newest_keys (signatures db)) (watermarks db)\<rparr>)"
proof -
  have "0 < fst (snd k) \<and> 0 \<le> snd (snd k)" if "k \<in> set (newest_keys (signatures db))" for k
    using that newest_keys_subset [of "signatures db"] row_valid_key assms
    unfolding rows_ok_def by blast
  then show ?thesis
    using upsert_watermarks [of "newest_keys (signatures db)" "watermarks db"]
    unfolding restore_watermarks_def by simp
qed

lemma latest_backfill:
  assumes "finite K" "\<And>v a. (v, a) \<in> N \<longleftrightarrow> is_latest K v a"
    and "\<And>v a. (v, a) \<in> W \<Longrightarrow> \<exists>b. (v, b) \<in> K \<and> a \<le> b"
  shows "is_latest (N \<union> W) v a \<longleftrightarrow> is_latest K v a"
proof -
  have top: "(v, b) \<in> N \<union> W \<Longrightarrow> is_latest K v m \<Longrightarrow> b \<le> m" for b m
    using assms(2,3) latest_unique unfolding is_latest_def by (metis Un_iff order.trans)
  have new: "is_latest K v m \<Longrightarrow> is_latest (N \<union> W) v m" for m
    using top assms(2) unfolding is_latest_def [of "N \<union> W"] by blast
  have "\<exists>b. (v, b) \<in> K" if "is_latest (N \<union> W) v a"
    using that assms(2,3) unfolding is_latest_def by (metis Un_iff)
  then show ?thesis
    using new latest_unique latest_exists [OF assms(1)] by metis
qed

lemma marks_get: "marks K wm \<Longrightarrow> dict_get wm v = Some a \<longleftrightarrow> is_latest K v a"
  unfolding marks_def by blast

lemma marks_dict_ok: "marks K wm \<Longrightarrow> dict_ok wm"
  unfolding marks_def by blast

theorem open_journal_backfills:
  assumes "0 < chain" "meta_chain_id db \<in> {None, Some (int_str chain)}"
    and rows: "rows_ok chain (signatures db)" and wm: "dict_ok (watermarks db)"
    and stale: "\<And>vid at. dict_get (watermarks db) vid = Some at \<Longrightarrow> \<exists>b. (vid, b) \<in> fst ` set (signatures db) \<and> at \<le> b"
  shows "\<exists>j db'. open_journal chain True db = (Inr j, db') \<and> signatures (sj_db j) = signatures db"
proof -
  let ?wm = "fold raise_mark (newest_keys (signatures db)) (watermarks db)"
  let ?K = "fst ` set (signatures db)"
  have "marks (set (newest_keys (signatures db)) \<union> set (watermarks db)) ?wm"
    by (rule marks_fold) (use wm marks_own in auto)
  moreover have "is_latest (set (newest_keys (signatures db)) \<union> set (watermarks db)) v a \<longleftrightarrow> is_latest ?K v a" for v a
    using newest_keys_latest stale wm by (intro latest_backfill) (auto simp del: split_paired_Ex)
  ultimately have "marks ?K ?wm"
    by (simp add: marks_def del: map_of_eq_Some_iff)
  then have "validate_persisted_state chain (db\<lparr>meta_chain_id := Some (int_str chain), watermarks := ?wm\<rparr>) = Inr ()"
    using rows by (simp add: validate_persisted_state_Inr marks_dict_ok rows_ok_def)
  then show ?thesis
    using assms(1,2) rows by (auto simp: open_journal_Inr restore_watermarks_valid)
qed

lemma raise_marks_same:
  assumes "\<And>k. k \<in> set ks \<Longrightarrow> dict_get wm (fst k) = Some (snd k)"
  shows "fold raise_mark ks wm = wm"
  using assms by (induction ks) (simp_all add: raise_mark_def del: map_of_eq_Some_iff)

theorem reopen_exact:
  assumes "journal_ok chain j"
  shows "open_journal chain True (sj_db j) = (Inr j, sj_db j)"
proof -
  let ?db = "sj_db j"
  have marks: "marks (fst ` set (signatures ?db)) (watermarks ?db)" and rows: "rows_ok chain (signatures ?db)"
    using assms by (simp_all add: journal_ok_def)
  have "fold raise_mark (newest_keys (signatures ?db)) (watermarks ?db) = watermarks ?db"
  proof (rule raise_marks_same)
    fix k assume "k \<in> set (newest_keys (signatures ?db))"
    then have "is_latest (fst ` set (signatures ?db)) (fst k) (snd k)"
      by (simp flip: newest_keys_latest)
    then show "dict_get (watermarks ?db) (fst k) = Some (snd k)"
      by (simp only: marks_get [OF marks])
  qed
  then have "restore_watermarks (?db\<lparr>meta_chain_id := Some (int_str chain)\<rparr>) = Inr ?db"
    using rows assms by (simp add: restore_watermarks_valid journal_ok_def)
  moreover have "validate_persisted_state chain ?db = Inr ()"
    using marks rows by (simp add: validate_persisted_state_Inr rows_ok_def marks_dict_ok)
  ultimately show ?thesis
    using assms by (simp add: open_journal_Inr journal_ok_def)
qed

section \<open>Signing\<close>

definition signable :: "journal \<Rightarrow> string \<Rightarrow> int \<Rightarrow> int \<Rightarrow> string \<Rightarrow> bytes \<Rightarrow> bool" where
  "signable j vid h r block payload \<longleftrightarrow>
     vid \<noteq> [] \<and> \<not> list_ex is_space vid \<and> 0 < h \<and> 0 \<le> r \<and> is_lower_hash block \<and>
     payload = canonical_payload (sj_chain_id j) vid h r block \<and> payload \<noteq> [] \<and> sqlite_int h \<and> sqlite_int r"

definition with_signature :: "journal \<Rightarrow> sign_key \<Rightarrow> signature_row \<Rightarrow> journal" where
  "with_signature j k row = j\<lparr>sj_db := (sj_db j)\<lparr>signatures := dict_set k row (signatures (sj_db j)),
     watermarks := raise_mark k (watermarks (sj_db j))\<rparr>\<rparr>"

lemma not_signable:
  "\<not> signable j vid h r block payload \<Longrightarrow> \<exists>e. get_or_sign j vid h r block payload signer verifier = Inl e"
  by (auto simp: get_or_sign_def signable_def validate_signing_payload_def Let_def)

lemma get_or_sign_stored:
  assumes "signable j vid h r block payload" "dict_get (signatures (sj_db j)) (vid, h, r) = Some row"
  shows "get_or_sign j vid h r block payload signer verifier =
    (if sr_block_hash row \<noteq> block \<or> sr_payload_digest row \<noteq> sha256_hex payload
     then Inl (ConsensusSigningJournalError ''conflicting consensus vote would double-sign'')
     else if verifier (sr_signature row) \<noteq> Some True
     then Inl (ConsensusSigningJournalError ''consensus signature verification failed'')
     else Inr (sr_signature row, j))"
  using assms unfolding signable_def
  by (elim conjE) (simp add: get_or_sign_def validate_signing_payload_def verify_signature_def Let_def del: map_of_eq_Some_iff)

lemma get_or_sign_below:
  assumes "signable j vid h r block payload" "dict_get (signatures (sj_db j)) (vid, h, r) = None"
    and "dict_get (watermarks (sj_db j)) vid = Some w" "(h, r) < w"
  shows "get_or_sign j vid h r block payload signer verifier =
    Inl (ConsensusSigningJournalError ''consensus vote is below the persistent signing watermark'')"
proof -
  have "h < fst w \<or> h = fst w \<and> r < snd w"
    using assms(4) by (cases w) auto
  then show ?thesis
    using assms(1-3) unfolding signable_def
    by (elim conjE) (simp add: get_or_sign_def validate_signing_payload_def Let_def del: map_of_eq_Some_iff)
qed

lemma get_or_sign_new:
  assumes "signable j vid h r block payload" "dict_get (signatures (sj_db j)) (vid, h, r) = None"
    and "\<And>w. dict_get (watermarks (sj_db j)) vid = Some w \<Longrightarrow> w \<le> (h, r)"
  shows "get_or_sign j vid h r block payload signer verifier =
    (case signer of
       None \<Rightarrow> Inl (ConsensusSigningJournalError ''consensus signer provider call failed'')
     | Some s \<Rightarrow>
         if length s \<notin> {64, 65}
         then Inl (ConsensusSigningJournalError ''signer returned an invalid consensus signature'')
         else if verifier s \<noteq> Some True
         then Inl (ConsensusSigningJournalError ''consensus signature verification failed'')
         else Inr (s, with_signature j (vid, h, r)
                \<lparr>sr_block_hash = block, sr_payload_digest = sha256_hex payload, sr_signature = s\<rparr>))"
proof -
  have above: "\<not> (case dict_get (watermarks (sj_db j)) vid of Some w \<Rightarrow> h < fst w \<or> (h = fst w \<and> r < snd w) | None \<Rightarrow> False)"
  proof (cases "dict_get (watermarks (sj_db j)) vid")
    case (Some w)
    then show ?thesis
      using assms(3) by (cases w) (fastforce simp del: map_of_eq_Some_iff)
  qed simp
  moreover have "upsert_watermark (watermarks (sj_db j)) (vid, h, r) = Inr (raise_mark (vid, h, r) (watermarks (sj_db j)))"
    using assms(1) by (simp add: upsert_watermark_Inr signable_def)
  ultimately show ?thesis
    using assms(1,2) unfolding signable_def
    by (elim conjE, cases signer) (simp_all add: get_or_sign_def validate_signing_payload_def verify_signature_def call_signer_def
        with_signature_def Let_def del: map_of_eq_Some_iff)
qed

lemma get_or_sign_Inr:
  assumes "get_or_sign j vid h r block payload signer verifier = Inr (s, j')"
  obtains (replayed) row where "signable j vid h r block payload"
      "dict_get (signatures (sj_db j)) (vid, h, r) = Some row" "sr_block_hash row = block"
      "sr_payload_digest row = sha256_hex payload" "s = sr_signature row" "j' = j"
  | (fresh) "signable j vid h r block payload" "dict_get (signatures (sj_db j)) (vid, h, r) = None"
      "\<And>w. dict_get (watermarks (sj_db j)) vid = Some w \<Longrightarrow> w \<le> (h, r)"
      "length s \<in> {64, 65}" "verifier s = Some True" "signer = Some s"
      "j' = with_signature j (vid, h, r) \<lparr>sr_block_hash = block, sr_payload_digest = sha256_hex payload, sr_signature = s\<rparr>"
proof (cases "signable j vid h r block payload")
  case False
  then show ?thesis
    using not_signable [OF False, of signer verifier] assms by auto
next
  case able: True
  show ?thesis
  proof (cases "dict_get (signatures (sj_db j)) (vid, h, r)")
    case (Some row)
    then show ?thesis
      using get_or_sign_stored [OF able Some, of signer verifier] assms able
      by (intro replayed) (simp_all del: map_of_eq_Some_iff split: if_splits)
  next
    case None
    show ?thesis
    proof (cases "\<exists>w. dict_get (watermarks (sj_db j)) vid = Some w \<and> (h, r) < w")
      case True
      then show ?thesis
        using get_or_sign_below [OF able None] assms by auto
    next
      case False
      then have above: "\<And>w. dict_get (watermarks (sj_db j)) vid = Some w \<Longrightarrow> w \<le> (h, r)"
        using linorder_not_less by blast
      show ?thesis
        using get_or_sign_new [OF able None above, of signer verifier] assms able None above
        by (cases signer) (auto simp: if_Inl_Inr_iff simp del: map_of_eq_Some_iff intro: fresh)
    qed
  qed
qed


lemma signed_row_valid:
  assumes "signable j vid h r block payload" "length s \<in> {64, 65}"
  shows "row_valid (sj_chain_id j)
    ((vid, h, r), \<lparr>sr_block_hash = block, sr_payload_digest = sha256_hex payload, sr_signature = s\<rparr>)"
  using assms by (simp add: signable_def row_valid_def sha256_hex_lower_hex)

lemma with_signature_ok:
  assumes "journal_ok chain j" "row_valid chain (k, row)" "dict_get (signatures (sj_db j)) k = None"
  shows "journal_ok chain (with_signature j k row)"
proof -
  let ?rows = "signatures (sj_db j)"
  have new: "dict_set k row ?rows = ?rows @ [(k, row)]"
    using assms(3) by (rule dict_set_new)
  have "marks (insert k (fst ` set ?rows)) (raise_mark k (watermarks (sj_db j)))"
    using assms(1) by (intro marks_raise) (simp_all add: journal_ok_def)
  moreover have "rows_ok chain (dict_set k row ?rows)"
    using assms unfolding rows_ok_def journal_ok_def by (simp add: new map_of_eq_None_iff)
  ultimately show ?thesis
    using assms(1) by (simp add: journal_ok_def with_signature_def)
qed

text \<open>
  What can happen to a journal: it is opened on a database with any rows, it signs, and the process
  restarts and opens the database again.
\<close>

inductive journal_step :: "journal \<Rightarrow> journal \<Rightarrow> bool" where
  signed: "get_or_sign j vid h r block payload signer verifier = Inr (s, j') \<Longrightarrow> journal_step j j'"
| restarted: "open_journal chain q (sj_db j) = (Inr j', db) \<Longrightarrow> journal_step j j'"

inductive_cases journal_stepE: "journal_step j j'"

inductive journal_reachable :: "int \<Rightarrow> journal \<Rightarrow> bool" for chain where
  opened: "dict_ok (signatures db) \<Longrightarrow> dict_ok (watermarks db) \<Longrightarrow>
    open_journal chain q db = (Inr j, db') \<Longrightarrow> journal_reachable chain j"
| later_signed: "journal_reachable chain j \<Longrightarrow>
    get_or_sign j vid h r block payload signer verifier = Inr (s, j') \<Longrightarrow> journal_reachable chain j'"

lemma get_or_sign_ok:
  assumes "journal_ok chain j" "get_or_sign j vid h r block payload signer verifier = Inr (s, j')"
  shows "journal_ok chain j'"
  using assms(2)
proof (cases rule: get_or_sign_Inr)
  case replayed
  then show ?thesis
    using assms(1) by simp
next
  case fresh
  have "sj_chain_id j = chain"
    using assms(1) by (simp add: journal_ok_def)
  then show ?thesis
    using with_signature_ok [OF assms(1)] signed_row_valid [OF fresh(1,4)] fresh(2,7) by simp
qed

lemma journal_reachable_ok: "journal_reachable chain j \<Longrightarrow> journal_ok chain j"
  by (induction rule: journal_reachable.induct) (use open_journal_ok get_or_sign_ok in blast)+

lemma journal_step_keeps:
  assumes "journal_step j j'" "dict_get (signatures (sj_db j)) k = Some row"
  shows "dict_get (signatures (sj_db j')) k = Some row"
  using assms(1)
proof (cases rule: journal_step.cases)
  case (signed vid h r block payload signer verifier s)
  then show ?thesis
    using assms(2) by (cases rule: get_or_sign_Inr) (auto simp: with_signature_def simp del: map_of_eq_Some_iff)
next
  case (restarted chain q db)
  then have "signatures (sj_db j') = signatures (sj_db j)"
    by (auto simp: open_journal_Inr restore_watermarks_def bindE_Inr_iff)
  then show ?thesis
    using assms(2) by simp
qed

interpretation journal_log: write_once journal_step "\<lambda>j. dict_get (signatures (sj_db j))"
  by unfold_locales (rule journal_step_keeps)

section \<open>Signatures and watermarks\<close>

lemma signed_row_kept:
  assumes "get_or_sign j vid h r block payload signer verifier = Inr (s, j')"
  obtains row where "dict_get (signatures (sj_db j')) (vid, h, r) = Some row" "sr_block_hash row = block" "sr_signature row = s"
  using assms
proof (cases rule: get_or_sign_Inr)
  case (replayed row)
  then show thesis
    using that by simp
next
  case fresh
  then show thesis
    using that by (simp add: with_signature_def del: map_of_eq_Some_iff)
qed

lemma marked_above:
  assumes "journal_ok chain j" "\<And>w. dict_get (watermarks (sj_db j)) vid = Some w \<Longrightarrow> w \<le> m"
    and "(vid, at) \<in> fst ` set (signatures (sj_db j))"
  shows "at \<le> m"
proof -
  have marks: "marks (fst ` set (signatures (sj_db j))) (watermarks (sj_db j))"
    using assms(1) by (simp add: journal_ok_def)
  obtain w where w: "is_latest (fst ` set (signatures (sj_db j))) vid w"
    using latest_exists [OF _ assms(3)] by auto
  then have "dict_get (watermarks (sj_db j)) vid = Some w"
    by (simp only: marks_get [OF marks])
  then have "w \<le> m"
    by (rule assms(2))
  moreover have "at \<le> w"
    using w assms(3) unfolding is_latest_def by blast
  ultimately show ?thesis
    by (rule order.trans [rotated])
qed

lemma below_refused:
  assumes "journal_ok chain j" "(vid, b) \<in> fst ` set (signatures (sj_db j))" "(h, r) < b"
    and "dict_get (signatures (sj_db j)) (vid, h, r) = None"
  shows "\<exists>e. get_or_sign j vid h r block payload signer verifier = Inl e"
proof (cases "get_or_sign j vid h r block payload signer verifier")
  case (Inr res)
  then have "get_or_sign j vid h r block payload signer verifier = Inr (fst res, snd res)"
    by simp
  then show ?thesis
  proof (cases rule: get_or_sign_Inr)
    case fresh
    then have "b \<le> (h, r)"
      using marked_above [OF assms(1) _ assms(2)] by blast
    then show ?thesis
      using assms(3) by (simp only: linorder_not_less)
  qed (use assms(4) in simp)
qed simp

section \<open>The properties of the journal\<close>

text \<open>
  C14. A validator never signs twice for one height and round, across any number of further signatures
  and restarts: if the journal has returned a signature, a later request that it answers is for the
  same block and gets the same signature, without another call of the signer or a change of the
  journal; a request for another block is refused as a double signature.
\<close>

theorem no_double_sign:
  assumes "get_or_sign j vid h r block payload signer verifier = Inr (s, j1)" and "journal_step\<^sup>*\<^sup>* j1 j2"
  shows "(get_or_sign j2 vid h r block' payload' signer' verifier' = Inr (s', j3) \<longrightarrow>
      block' = block \<and> s' = s \<and> j3 = j2) \<and>
    (signable j2 vid h r block' payload' \<and> block' \<noteq> block \<longrightarrow>
      get_or_sign j2 vid h r block' payload' signer' verifier' =
        Inl (ConsensusSigningJournalError ''conflicting consensus vote would double-sign''))"
proof -
  obtain row where "dict_get (signatures (sj_db j1)) (vid, h, r) = Some row"
      and row: "sr_block_hash row = block" "sr_signature row = s"
    using assms(1) by (rule signed_row_kept)
  then have kept: "dict_get (signatures (sj_db j2)) (vid, h, r) = Some row"
    using journal_log.steps_keep [OF assms(2)] by blast
  have "block' = block \<and> s' = s \<and> j3 = j2" if "get_or_sign j2 vid h r block' payload' signer' verifier' = Inr (s', j3)"
    using that by (cases rule: get_or_sign_Inr) (use kept row in \<open>simp_all del: map_of_eq_Some_iff\<close>)
  moreover have "get_or_sign j2 vid h r block' payload' signer' verifier' =
      Inl (ConsensusSigningJournalError ''conflicting consensus vote would double-sign'')"
    if "signable j2 vid h r block' payload'" "block' \<noteq> block"
    using get_or_sign_stored [OF that(1) kept] that(2) row by simp
  ultimately show ?thesis
    by blast
qed

text \<open>
  A new signature of a validator is for a later height and round than all it signed before, and
  becomes its watermark; the journal of a reachable state refuses a vote at or below an earlier one
  that it has not stored.
\<close>

theorem fresh_signature_newest:
  assumes "journal_reachable chain j"
    and "get_or_sign j vid h r block payload signer verifier = Inr (s, j')" "j' \<noteq> j"
  shows "(\<forall>at. (vid, at) \<in> fst ` set (signatures (sj_db j)) \<longrightarrow> at < (h, r)) \<and>
    dict_get (watermarks (sj_db j')) vid = Some (h, r) \<and>
    signatures (sj_db j') = signatures (sj_db j) @
      [((vid, h, r), \<lparr>sr_block_hash = block, sr_payload_digest = sha256_hex payload, sr_signature = s\<rparr>)]"
  using assms(2)
proof (cases rule: get_or_sign_Inr)
  case replayed
  then show ?thesis
    using assms(3) by simp
next
  case fresh
  let ?K = "fst ` set (signatures (sj_db j))"
  have marks: "marks ?K (watermarks (sj_db j))"
    using journal_reachable_ok [OF assms(1)] by (simp add: journal_ok_def)
  have free: "(vid, h, r) \<notin> ?K"
    using fresh(2) by (simp add: map_of_eq_None_iff)
  have below: "at < (h, r)" if key: "(vid, at) \<in> ?K" for at
    using marked_above [OF journal_reachable_ok [OF assms(1)] fresh(3) key] free key order_le_less by metis
  have "is_latest (insert (vid, h, r) ?K) vid (h, r)"
    using below unfolding is_latest_def by (blast intro: less_imp_le)
  moreover have "marks (insert (vid, h, r) ?K) (raise_mark (vid, h, r) (watermarks (sj_db j)))"
    using marks by (intro marks_raise) simp_all
  ultimately have "dict_get (raise_mark (vid, h, r) (watermarks (sj_db j))) vid = Some (h, r)"
    using marks_get by fast
  then show ?thesis
    using below fresh(2,7) dict_set_new [OF fresh(2)] by (simp add: with_signature_def del: map_of_eq_Some_iff)
qed

text \<open>
  A restart recovers: the start accepts the database of every reachable journal, gives the same
  journal back and leaves the database as it is.
\<close>

theorem restart_recovers:
  assumes "journal_reachable chain j"
  shows "open_journal chain True (sj_db j) = (Inr j, sj_db j)"
  using reopen_exact journal_reachable_ok assms by blast

text \<open>
  Databases of the first schema have no watermark table: the start accepts every database whose
  rows are valid and whose watermarks are not ahead of them, fills the watermarks in, and the validator
  then signs no vote below its rows.
\<close>

theorem legacy_journal_protected:
  assumes "0 < chain" "meta_chain_id db \<in> {None, Some (int_str chain)}" "rows_ok chain (signatures db)"
    and "dict_ok (watermarks db)"
    and "\<forall>vid at. dict_get (watermarks db) vid = Some at \<longrightarrow> (\<exists>b. (vid, b) \<in> fst ` set (signatures db) \<and> at \<le> b)"
  shows "\<exists>j db'. open_journal chain True db = (Inr j, db') \<and> signatures db' = signatures db \<and>
    (\<forall>vid h r b block payload signer verifier. (vid, b) \<in> fst ` set (signatures db) \<and> (h, r) < b \<and>
       dict_get (signatures db) (vid, h, r) = None \<longrightarrow>
       (\<exists>e. get_or_sign j vid h r block payload signer verifier = Inl e))"
proof -
  obtain j db' where opened: "open_journal chain True db = (Inr j, db')" "signatures (sj_db j) = signatures db"
    using open_journal_backfills [of chain db] assms by blast
  then have ok: "journal_ok chain j" "sj_db j = db'"
    using open_journal_ok [of db chain True j db'] assms(3,4) by (auto simp: rows_ok_def)
  then have "\<exists>e. get_or_sign j vid h r block payload signer verifier = Inl e"
    if "(vid, b) \<in> fst ` set (signatures db)" "(h, r) < b" "dict_get (signatures db) (vid, h, r) = None"
    for vid h r b block payload signer verifier
    using below_refused [OF ok(1)] that opened(2) by metis
  then show ?thesis
    using opened ok by fastforce
qed

section \<open>A sample journal\<close>

definition sample_journal :: journal where
  "sample_journal = \<lparr>sj_chain_id = 7, sj_db = \<lparr>meta_chain_id = Some ''7'', signatures = [], watermarks = []\<rparr>\<rparr>"

definition sample_signature :: bytes where "sample_signature = replicate 64 (CHR ''s'')"

definition sample_payload :: "string \<Rightarrow> bytes" where "sample_payload block = canonical_payload 7 ''v1'' 1 0 block"

definition sample_signed :: journal where
  "sample_signed = with_signature sample_journal (''v1'', 1, 0)
     \<lparr>sr_block_hash = block_x, sr_payload_digest = sha256_hex (sample_payload block_x), sr_signature = sample_signature\<rparr>"

lemma sample_journal_opened: "open_journal 7 True empty_journal_db = (Inr sample_journal, sj_db sample_journal)"
  by code_simp

lemma sample_journal_reachable: "journal_reachable 7 sample_journal"
  using sample_journal_opened by (rule journal_reachable.opened [rotated 2]) (simp_all add: empty_journal_db_def)

lemma sample_signable:
  "signable sample_journal ''v1'' 1 0 block_x (sample_payload block_x)"
  "signable sample_journal ''v1'' 1 0 block_y (sample_payload block_y)"
  by code_simp+

lemma sample_signing:
  "get_or_sign sample_journal ''v1'' 1 0 block_x (sample_payload block_x) (Some sample_signature) (\<lambda>_. Some True) =
     Inr (sample_signature, sample_signed)"
  by (subst get_or_sign_new [OF sample_signable(1)])
    (simp_all add: sample_journal_def sample_signature_def sample_signed_def)

lemma sample_signed_reachable: "journal_reachable 7 sample_signed"
  using sample_journal_reachable sample_signing by (rule journal_reachable.later_signed)

lemma sample_signed_signable: "signable sample_signed ''v1'' 1 0 block_y (sample_payload block_y)"
proof -
  have same: "sj_chain_id sample_signed = sj_chain_id sample_journal"
    by (simp add: sample_signed_def with_signature_def)
  show ?thesis
    using sample_signable(2) unfolding signable_def same .
qed

lemma no_double_sign_witness:
  "get_or_sign sample_signed ''v1'' 1 0 block_y (sample_payload block_y) (Some sample_signature) (\<lambda>_. Some True) =
     Inl (ConsensusSigningJournalError ''conflicting consensus vote would double-sign'')"
  using no_double_sign [OF sample_signing rtranclp.rtrancl_refl] sample_signed_signable sample_blocks(5) [symmetric] by blast

lemma fresh_signature_newest_witness:
  "dict_get (watermarks (sj_db sample_signed)) ''v1'' = Some (1, 0)"
  using fresh_signature_newest [OF sample_journal_reachable sample_signing]
  by (simp add: sample_signed_def sample_journal_def with_signature_def)

lemma restart_recovers_witness:
  "open_journal 7 True (sj_db sample_signed) = (Inr sample_signed, sj_db sample_signed)"
  by (rule restart_recovers [OF sample_signed_reachable])

definition legacy_db :: journal_db where
  "legacy_db = \<lparr>meta_chain_id = None, signatures = signatures (sj_db sample_signed), watermarks = []\<rparr>"

lemma legacy_journal_protected_witness:
  "\<exists>j db'. open_journal 7 True legacy_db = (Inr j, db') \<and>
    (\<exists>e. get_or_sign j ''v1'' 0 5 block_y [] None (\<lambda>_. None) = Inl e)"
proof -
  have "rows_ok 7 (signatures legacy_db)"
    using journal_reachable_ok [OF sample_signed_reachable] by (simp add: journal_ok_def legacy_db_def)
  moreover have key: "(''v1'', 1, 0) \<in> fst ` set (signatures legacy_db)" "dict_get (signatures legacy_db) (''v1'', 0, 5) = None"
    by (simp_all add: legacy_db_def sample_signed_def with_signature_def sample_journal_def)
  moreover have "meta_chain_id legacy_db \<in> {None, Some (int_str 7)}" "watermarks legacy_db = []"
    by (simp_all add: legacy_db_def)
  ultimately obtain j db' where opened: "open_journal 7 True legacy_db = (Inr j, db')"
      and low: "\<forall>vid h r b block payload signer verifier. (vid, b) \<in> fst ` set (signatures legacy_db) \<and> (h, r) < b \<and>
       dict_get (signatures legacy_db) (vid, h, r) = None \<longrightarrow>
       (\<exists>e. get_or_sign j vid h r block payload signer verifier = Inl e)"
    using legacy_journal_protected [of 7 legacy_db] by auto
  have "(0, 5) < (1 :: int, 0 :: int)"
    by simp
  then show ?thesis
    using opened low key by blast
qed

end
