(* ===== verification/StateStore.thy ===== *)
theory StateStore
  imports ProtocolKernel Finality Codec
begin

text \<open>
  \<open>state_store.py\<close>: the SQLite store of finalized blocks with full account snapshots, and checkpoints
  as JSON documents. The database is a record of its tables, each a dictionary from primary key to row.
  A transaction that raises is rolled back, so the writing operations give a database only where they
  return. They read the database before they lock it: \<open>db\<close> is what they read, \<open>locked\<close> what they find
  under the lock, which other connections may have extended; a process alone passes the same twice.
\<close>

section \<open>Tables\<close>

record block_row =
  br_block_hash :: string
  br_parent_hash :: string
  br_state_root :: string
  br_base_fee :: int
  br_gas_used :: int
  br_finalized :: bool
  br_certificate_hash :: "string option"
  accounts_text :: string
  receipts_text :: string

record store_db =
  metadata :: "(string, string) dict"
  blocks :: "(int, block_row) dict"
  certificate_texts :: "(int, string) dict"
  timestamps :: "(int, int) dict"

definition empty_store_db :: store_db where
  "empty_store_db = \<lparr>metadata = [], blocks = [], certificate_texts = [], timestamps = []\<rparr>"

record stored_block =
  sb_height :: int
  sb_block_hash :: string
  sb_parent_hash :: string
  sb_state_root :: string
  sb_base_fee :: int
  sb_gas_used :: int
  sb_finalized :: bool
  sb_certificate_hash :: "string option"

definition mk_stored_block :: "int \<times> block_row \<Rightarrow> stored_block" where
  "mk_stored_block item =
     (let row = snd item in
      \<lparr>sb_height = fst item, sb_block_hash = br_block_hash row, sb_parent_hash = br_parent_hash row,
       sb_state_root = br_state_root row, sb_base_fee = br_base_fee row, sb_gas_used = br_gas_used row,
       sb_finalized = br_finalized row, sb_certificate_hash = br_certificate_hash row\<rparr>)"

text \<open>The inserts with the constraints of their tables.\<close>

definition insert_block :: "int \<Rightarrow> block_row \<Rightarrow> store_db \<Rightarrow> store_db result" where
  "insert_block h row db =
     (if \<not> sqlite_int h \<or> \<not> sqlite_int (br_base_fee row) \<or> \<not> sqlite_int (br_gas_used row) then Inl OverflowError
      else if dict_get (blocks db) h \<noteq> None \<or> list_ex (\<lambda>item. br_block_hash (snd item) = br_block_hash row) (blocks db)
      then Inl SQLiteIntegrityError
      else Inr (db\<lparr>blocks := dict_set h row (blocks db)\<rparr>))"

definition insert_timestamp :: "int \<Rightarrow> int \<Rightarrow> store_db \<Rightarrow> store_db result" where
  "insert_timestamp h t db =
     (if \<not> sqlite_int h \<or> \<not> sqlite_int t then Inl OverflowError
      else if dict_get (timestamps db) h \<noteq> None \<or> t \<le> 0 \<or> dict_get (blocks db) h = None then Inl SQLiteIntegrityError
      else Inr (db\<lparr>timestamps := dict_set h t (timestamps db)\<rparr>))"

definition insert_certificate :: "int \<Rightarrow> string \<Rightarrow> store_db \<Rightarrow> store_db result" where
  "insert_certificate h document db =
     (if \<not> sqlite_int h then Inl OverflowError
      else if dict_get (certificate_texts db) h \<noteq> None \<or> dict_get (blocks db) h = None then Inl SQLiteIntegrityError
      else Inr (db\<lparr>certificate_texts := dict_set h document (certificate_texts db)\<rparr>))"

section \<open>Helpers\<close>

definition zero_hash32 :: string where
  "zero_hash32 = ''0x'' @ replicate 64 (CHR ''0'')"

definition store_hash :: "json \<Rightarrow> string \<Rightarrow> string result" where
  "store_hash v field =
     (case v of
        JStr s \<Rightarrow>
          if length s \<noteq> 66 \<or> \<not> starts_with ''0x'' s
          then Inl (StateStoreError (field @ '' must be a 32-byte hex value''))
          else if \<not> int16_ok (drop 2 s)
          then Inl (StateStoreError (field @ '' must be a 32-byte hex value''))
          else Inr s
      | _ \<Rightarrow> Inl (StateStoreError (field @ '' must be a 32-byte hex value'')))"

definition store_normalize_account :: "accounts \<Rightarrow> string \<times> account_state \<Rightarrow> accounts result" where
  "store_normalize_account normalized item =
     (let key = lower (fst item) in
      if length key \<noteq> 42 \<or> \<not> starts_with ''0x'' key
      then Inl (StateStoreError ''account address must be a 20-byte hex value'')
      else if \<not> int16_ok (drop 2 key)
      then Inl (StateStoreError ''account address must be a 20-byte hex value'')
      else if dict_get normalized key \<noteq> None
      then Inl (StateStoreError ''account snapshot is invalid'')
      else Inr (dict_set key (snd item) normalized))"

definition store_normalize :: "accounts \<Rightarrow> accounts result" where
  "store_normalize accounts =
     bindE (foldE store_normalize_account [] accounts) (\<lambda>normalized. Inr (sort_key fst normalized))"

definition snapshot_json :: "accounts \<Rightarrow> json" where
  "snapshot_json accounts = JObj (map (\<lambda>(address, account).
     (address, JObj [(''balance'', JInt (balance account)), (''nonce'', JInt (nonce account))]))
     (sort_key fst accounts))"

definition accounts_json :: "accounts \<Rightarrow> string" where
  "accounts_json accounts = json_dumps (snapshot_json accounts)"

text \<open>\<open>AccountState(balance=..., nonce=...)\<close> on values of a document.\<close>

definition account_of_json :: "json \<Rightarrow> json \<Rightarrow> account_state result" where
  "account_of_json b n =
     (case (b, n) of
        (JInt i, JInt k) \<Rightarrow> mk_account i k
      | _ \<Rightarrow> Inl (ProtocolTransitionError ''account balance and nonce must be non-negative integers''))"

definition decode_account :: "string \<times> json \<Rightarrow> (string \<times> account_state) result" where
  "decode_account item =
     (case snd item of
        JObj ms \<Rightarrow>
          if json_keys ms \<noteq> {''balance'', ''nonce''}
          then Inl (StateStoreError ''account snapshot fields are invalid'')
          else
            (case account_of_json (json_at ms ''balance'') (json_at ms ''nonce'') of
               Inl _ \<Rightarrow> Inl (StateStoreError ''account snapshot is invalid'')
             | Inr account \<Rightarrow> Inr (fst item, account))
      | _ \<Rightarrow> Inl (StateStoreError ''account snapshot is invalid''))"

definition decode_accounts :: "(string \<times> json) list \<Rightarrow> accounts result" where
  "decode_accounts raw = bindE (mapE decode_account raw) store_normalize"

definition decode_accounts_json :: "string \<Rightarrow> accounts result" where
  "decode_accounts_json payload =
     (case json_loads payload of
        Some (JObj raw) \<Rightarrow>
          bindE (decode_accounts raw) (\<lambda>accounts.
          if accounts_json accounts \<noteq> payload
          then Inl (StateStoreError ''stored account snapshot is not canonical'')
          else Inr accounts)
      | _ \<Rightarrow> Inl (StateStoreError ''stored account snapshot is invalid''))"

text \<open>\<open>_validate_stored_block_identity\<close>, whose loop runs over the three fields.\<close>

definition validate_field :: "string \<times> string \<Rightarrow> unit result" where
  "validate_field item =
     bindE (store_hash (JStr (snd item)) (''stored '' @ fst item)) (\<lambda>_.
     if snd item \<noteq> lower (snd item)
     then Inl (StateStoreError (''stored '' @ fst item @ '' is not canonical''))
     else Inr ())"

definition validate_stored_block_identity :: "int \<times> block_row \<Rightarrow> unit result" where
  "validate_stored_block_identity item =
     (let row = snd item in
      bindE (all_ok validate_field [(''block_hash'', br_block_hash row), (''parent_hash'', br_parent_hash row),
        (''state_root'', br_state_root row)]) (\<lambda>_.
      bindE (if fst item = 0 then
               (if br_parent_hash row \<noteq> zero_hash32
                then Inl (StateStoreError ''stored genesis parent_hash is invalid'')
                else if br_certificate_hash row \<noteq> None
                then Inl (StateStoreError ''stored genesis cannot contain a certificate'')
                else Inr ())
             else if \<not> br_finalized row \<or> br_certificate_hash row \<in> {None, Some []}
             then Inl (StateStoreError ''non-genesis block lacks finality evidence'')
             else Inr ()) (\<lambda>_.
      case br_certificate_hash row of
        None \<Rightarrow> Inr ()
      | Some c \<Rightarrow>
          bindE (store_hash (JStr c) ''stored certificate_hash'') (\<lambda>_.
          if c \<noteq> lower c then Inl (StateStoreError ''stored certificate_hash is not canonical'') else Inr ()))))"

definition checkpoint_digest_of :: "(string \<times> json) list \<Rightarrow> string" where
  "checkpoint_digest_of body =
     digest0x (''JUNCA_STATE_CHECKPOINT_V1'' @ [CHR 0x00] @ encode (json_dumps (JObj body)))"

section \<open>Opening and reading\<close>

definition bind_chain_id :: "int \<Rightarrow> store_db \<Rightarrow> store_db result" where
  "bind_chain_id chain db =
     (case dict_get (metadata db) ''chain_id'' of
        None \<Rightarrow> Inr (db\<lparr>metadata := dict_set ''chain_id'' (int_str chain) (metadata db)\<rparr>)
      | Some v \<Rightarrow>
          if v \<noteq> int_str chain then Inl (StateStoreError ''database is bound to a different chain_id'')
          else Inr db)"

definition open_store :: "int \<Rightarrow> store_db \<Rightarrow> store_db result" where
  "open_store chain db =
     (if chain \<le> 0 then Inl (StateStoreError ''chain_id must be a positive integer'')
      else bind_chain_id chain db)"

definition head_height :: "store_db \<Rightarrow> int" where
  "head_height db = (if blocks db = [] then -1 else Max (set (map fst (blocks db))))"

text \<open>The rows in the order of their heights, and the last of them.\<close>

definition rows_by_height :: "store_db \<Rightarrow> (int \<times> block_row) list" where
  "rows_by_height db = sort_key fst (blocks db)"

definition top_row :: "store_db \<Rightarrow> (int \<times> block_row) option" where
  "top_row db = (if blocks db = [] then None else Some (last (rows_by_height db)))"

definition store_head :: "store_db \<Rightarrow> stored_block result" where
  "store_head db =
     (case top_row db of
        None \<Rightarrow> Inl (StateStoreError ''state store is not initialized'')
      | Some item \<Rightarrow> Inr (mk_stored_block item))"

definition get_block :: "store_db \<Rightarrow> int \<Rightarrow> stored_block result" where
  "get_block db h =
     (case dict_get (blocks db) h of
        None \<Rightarrow> Inl (StateStoreError ''unknown block height'')
      | Some row \<Rightarrow> Inr (mk_stored_block (h, row)))"

definition block_timestamp :: "store_db \<Rightarrow> int \<Rightarrow> int option" where
  "block_timestamp db h = dict_get (timestamps db) h"

definition target_height :: "store_db \<Rightarrow> int option \<Rightarrow> int" where
  "target_height db h = (case h of None \<Rightarrow> head_height db | Some k \<Rightarrow> k)"

definition accounts_at :: "store_db \<Rightarrow> int option \<Rightarrow> accounts result" where
  "accounts_at db h =
     (case dict_get (blocks db) (target_height db h) of
        None \<Rightarrow> Inl (StateStoreError ''unknown block height'')
      | Some row \<Rightarrow> decode_accounts_json (accounts_text row))"

definition rollback_to :: "store_db \<Rightarrow> int \<Rightarrow> unit result" where
  "rollback_to db h =
     (if h \<noteq> head_height db then Inl (StateStoreError ''finalized block rollback is prohibited'') else Inr ())"

section \<open>Certificates\<close>

definition certificate_fields :: "string list" where
  "certificate_fields = [''schema_version'', ''chain_id'', ''height'', ''round'', ''block_hash'', ''signed_power'',
     ''total_power'', ''validator_ids'', ''vote_hashes'', ''certificate_hash'', ''finality_status'',
     ''mainnet_changed'', ''assets_moved'', ''bridge_activated'']"

text \<open>
  \<open>validators != sorted(set(validators))\<close>, which raises where an item cannot be hashed or two items of
  different types are compared.
\<close>

definition json_kind :: "json \<Rightarrow> nat" where
  "json_kind v = (case v of JNull \<Rightarrow> 0 | JBool _ \<Rightarrow> 1 | JInt _ \<Rightarrow> 1 | JStr _ \<Rightarrow> 2 | JArr _ \<Rightarrow> 3 | JObj _ \<Rightarrow> 3)"

definition sort_raises :: "json list \<Rightarrow> bool" where
  "sort_raises vs =
     (list_ex (\<lambda>v. json_kind v = 3) vs \<or> list_ex (\<lambda>v. list_ex (\<lambda>w. json_kind v \<noteq> json_kind w) vs) vs)"

definition invalid_certificate :: "'a result" where
  "invalid_certificate = Inl (StateStoreError ''stored finality certificate is invalid'')"

definition decode_id :: "json \<Rightarrow> string result" where
  "decode_id v = (case v of JStr s \<Rightarrow> if s = [] then invalid_certificate else Inr s | _ \<Rightarrow> invalid_certificate)"

definition decode_ids :: "json \<Rightarrow> string list result" where
  "decode_ids v =
     (case v of
        JArr items \<Rightarrow>
          if items = [] then invalid_certificate
          else if sort_raises items then Inl TypeError
          else bindE (mapE decode_id items) (\<lambda>ids.
            if ids \<noteq> sorted_list_of_set (set ids) then invalid_certificate else Inr ids)
      | _ \<Rightarrow> invalid_certificate)"

definition decode_certificate_int :: "(string \<times> json) list \<Rightarrow> string \<Rightarrow> int result" where
  "decode_certificate_int raw field = (case json_at raw field of JInt i \<Rightarrow> Inr i | _ \<Rightarrow> invalid_certificate)"

definition decode_finality_certificate :: "string \<Rightarrow> finality_certificate result" where
  "decode_finality_certificate payload =
     (case json_loads payload of
        Some (JObj raw) \<Rightarrow>
          if json_keys raw \<noteq> set certificate_fields \<or>
             json_at raw ''schema_version'' \<noteq> JStr ''junca-finality-certificate/v1'' \<or>
             json_at raw ''finality_status'' \<noteq> JStr ''FINALIZED'' \<or>
             json_at raw ''mainnet_changed'' \<noteq> JBool False \<or>
             json_at raw ''assets_moved'' \<noteq> JBool False \<or>
             json_at raw ''bridge_activated'' \<noteq> JBool False
          then invalid_certificate
          else
            bindE (decode_certificate_int raw ''chain_id'') (\<lambda>chain.
            bindE (decode_certificate_int raw ''height'') (\<lambda>h.
            bindE (decode_certificate_int raw ''round'') (\<lambda>r.
            bindE (decode_certificate_int raw ''signed_power'') (\<lambda>sp.
            bindE (decode_certificate_int raw ''total_power'') (\<lambda>tp.
            if chain \<le> 0 \<or> h \<le> 0 \<or> r < 0 \<or> sp \<le> 0 \<or> tp \<le> 0 \<or> sp > tp \<or> sp * 3 \<le> tp * 2
            then invalid_certificate
            else
              bindE (decode_ids (json_at raw ''validator_ids'')) (\<lambda>ids.
              case json_at raw ''vote_hashes'' of
                JArr items \<Rightarrow>
                  if length items \<noteq> length ids then invalid_certificate
                  else
                    bindE (store_hash (json_at raw ''block_hash'') ''stored certificate block_hash'') (\<lambda>block.
                    bindE (store_hash (json_at raw ''certificate_hash'') ''stored certificate_hash'') (\<lambda>digest.
                    bindE (mapE (\<lambda>item. store_hash item ''stored certificate vote_hash'') items) (\<lambda>hashes.
                    if digest \<noteq> certificate_digest chain h r block sp tp ids hashes
                    then Inl (StateStoreError ''stored finality certificate hash mismatch'')
                    else Inr \<lparr>fc_chain_id = chain, fc_height = h, fc_round = r, fc_block_hash = block,
                           fc_signed_power = sp, fc_total_power = tp, fc_validator_ids = ids,
                           fc_vote_hashes = hashes, certificate_hash = digest\<rparr>)))
              | _ \<Rightarrow> invalid_certificate))))))
      | Some _ \<Rightarrow> invalid_certificate
      | None \<Rightarrow> invalid_certificate)"

definition latest_finality_certificate :: "int \<Rightarrow> store_db \<Rightarrow> finality_certificate option result" where
  "latest_finality_certificate chain db =
     (case top_row db of
        None \<Rightarrow> Inr None
      | Some (h, row) \<Rightarrow>
          if h = 0 then Inr None
          else
            (case dict_get (certificate_texts db) h of
               None \<Rightarrow> Inr None
             | Some payload \<Rightarrow>
                 bindE (decode_finality_certificate payload) (\<lambda>c.
                 if fc_chain_id c \<noteq> chain \<or> fc_height c \<noteq> h \<or> fc_block_hash c \<noteq> br_block_hash row \<or>
                    Some (certificate_hash c) \<noteq> br_certificate_hash row
                 then Inl (StateStoreError ''stored finality certificate does not bind head'')
                 else Inr (Some c))))"

section \<open>Writing\<close>

definition initialize_genesis :: "store_db \<Rightarrow> store_db \<Rightarrow> string \<Rightarrow> accounts \<Rightarrow> int \<Rightarrow> (stored_block \<times> store_db) result" where
  "initialize_genesis db locked block_hash accounts base_fee =
     bindE (store_hash (JStr block_hash) ''genesis block_hash'') (\<lambda>_.
     if base_fee \<le> 0 then Inl (StateStoreError ''genesis base fee must be a positive integer'')
     else
       bindE (store_normalize accounts) (\<lambda>normalized.
       let root = compute_state_root normalized in
       (case dict_get (blocks db) 0 of
          Some row \<Rightarrow>
            if br_block_hash row \<noteq> lower block_hash \<or> br_state_root row \<noteq> root
            then Inl (StateStoreError ''genesis already initialized with different identity'')
            else Inr (mk_stored_block (0, row), db)
        | None \<Rightarrow>
            bindE (insert_block 0
              \<lparr>br_block_hash = lower block_hash, br_parent_hash = zero_hash32, br_state_root = root,
               br_base_fee = base_fee, br_gas_used = 0, br_finalized = True, br_certificate_hash = None,
               accounts_text = accounts_json normalized, receipts_text = ''[]''\<rparr> locked) (\<lambda>db1.
            let db2 = db1\<lparr>metadata := dict_set ''base_height'' ''0'' (metadata db1)\<rparr> in
            bindE (store_head db2) (\<lambda>head. Inr (head, db2))))))"

definition receipt_json :: "tx_receipt \<Rightarrow> json" where
  "receipt_json r = JObj
     [(''transaction_hash'', JStr (rc_transaction_hash r)),
      (''transaction_index'', JInt (transaction_index r)),
      (''sender'', JStr (rc_sender r)),
      (''recipient'', JStr (rc_recipient r)),
      (''gas_used'', JInt (rc_gas_used r)),
      (''effective_gas_price'', JInt (effective_gas_price r)),
      (''base_fee_burned'', JInt (base_fee_burned r)),
      (''validator_tip'', JInt (validator_tip r)),
      (''status'', JStr (status r))]"

text \<open>The checks of \<open>commit_finalized_block\<close> before the lock, and the transaction under it.\<close>

definition check_commit ::
  "int \<Rightarrow> store_db \<Rightarrow> int \<Rightarrow> string \<Rightarrow> string \<Rightarrow> block_transition \<Rightarrow> finality_certificate \<Rightarrow> int option \<Rightarrow> accounts result" where
  "check_commit chain db h block_hash parent_hash t c timestamp =
     (if head_height db < 0 then Inl (StateStoreError ''genesis must be initialized before block commit'')
      else if h \<noteq> head_height db + 1 then Inl (StateStoreError ''block height must extend the current head'')
      else
        bindE (store_hash (JStr block_hash) ''block_hash'') (\<lambda>_.
        bindE (store_hash (JStr parent_hash) ''parent_hash'') (\<lambda>_.
        bindE (store_head db) (\<lambda>current.
        if lower parent_hash \<noteq> sb_block_hash current
        then Inl (StateStoreError ''parent_hash does not match current head'')
        else if bt_chain_id t \<noteq> chain \<or> fc_chain_id c \<noteq> chain
        then Inl (StateStoreError ''chain_id mismatch'')
        else if fc_height c \<noteq> h \<or> fc_block_hash c \<noteq> lower block_hash
        then Inl (StateStoreError ''finality certificate does not bind the committed block'')
        else if (case timestamp of None \<Rightarrow> False | Some ts \<Rightarrow> ts \<le> 0)
        then Inl (StateStoreError ''block timestamp must be a positive integer'')
        else if fc_signed_power c * 3 \<le> fc_total_power c * 2
        then Inl (StateStoreError ''finality certificate is below strict two-thirds quorum'')
        else
          bindE (store_normalize (bt_accounts t)) (\<lambda>normalized.
          if state_root t \<noteq> compute_state_root normalized
          then Inl (StateStoreError ''transition state_root does not match account state'')
          else Inr normalized)))))"

definition committed_row :: "string \<Rightarrow> string \<Rightarrow> block_transition \<Rightarrow> finality_certificate \<Rightarrow> accounts \<Rightarrow> block_row" where
  "committed_row block_hash parent_hash t c normalized =
     \<lparr>br_block_hash = lower block_hash, br_parent_hash = lower parent_hash, br_state_root = state_root t,
      br_base_fee = base_fee_per_gas t, br_gas_used = gas_used t, br_finalized = True,
      br_certificate_hash = Some (certificate_hash c), accounts_text = accounts_json normalized,
      receipts_text = json_dumps (JArr (map receipt_json (receipts t)))\<rparr>"

definition commit_finalized_block ::
  "int \<Rightarrow> store_db \<Rightarrow> store_db \<Rightarrow> int \<Rightarrow> string \<Rightarrow> string \<Rightarrow> block_transition \<Rightarrow> finality_certificate \<Rightarrow> int option
     \<Rightarrow> (stored_block \<times> store_db) result" where
  "commit_finalized_block chain db locked h block_hash parent_hash t c timestamp =
     bindE (check_commit chain db h block_hash parent_hash t c timestamp) (\<lambda>normalized.
     if (case top_row locked of
           None \<Rightarrow> True
         | Some (height, row) \<Rightarrow> height \<noteq> h - 1 \<or> br_block_hash row \<noteq> lower parent_hash)
     then Inl (StateStoreError ''block no longer extends the locked head'')
     else
       bindE (insert_block h (committed_row block_hash parent_hash t c normalized) locked) (\<lambda>db1.
       bindE (case timestamp of None \<Rightarrow> Inr db1 | Some ts \<Rightarrow> insert_timestamp h ts db1) (\<lambda>db2.
       bindE (insert_certificate h (json_dumps (certificate_as_evidence c)) db2) (\<lambda>db3.
       bindE (store_head db3) (\<lambda>head. Inr (head, db3))))))"

section \<open>Checkpoints\<close>

definition checkpoint_fields :: "string list" where
  "checkpoint_fields = [''schema_version'', ''chain_id'', ''height'', ''block_hash'', ''parent_hash'', ''state_root'',
     ''base_fee_per_gas'', ''gas_used'', ''finalized'', ''certificate_hash'', ''accounts'', ''checkpoint_digest'']"

definition opt_str_json :: "string option \<Rightarrow> json" where
  "opt_str_json s = (case s of None \<Rightarrow> JNull | Some t \<Rightarrow> JStr t)"

definition checkpoint_body_json :: "int \<Rightarrow> int \<times> block_row \<Rightarrow> json \<Rightarrow> (string \<times> json) list" where
  "checkpoint_body_json chain item accounts =
     (let row = snd item in
      [(''schema_version'', JStr ''junca-state-checkpoint/v1''),
       (''chain_id'', JInt chain),
       (''height'', JInt (fst item)),
       (''block_hash'', JStr (br_block_hash row)),
       (''parent_hash'', JStr (br_parent_hash row)),
       (''state_root'', JStr (br_state_root row)),
       (''base_fee_per_gas'', JInt (br_base_fee row)),
       (''gas_used'', JInt (br_gas_used row)),
       (''finalized'', JBool (br_finalized row)),
       (''certificate_hash'', opt_str_json (br_certificate_hash row)),
       (''accounts'', accounts)])"

definition export_checkpoint :: "int \<Rightarrow> store_db \<Rightarrow> int option \<Rightarrow> (string \<times> json) list result" where
  "export_checkpoint chain db h =
     (case dict_get (blocks db) (target_height db h) of
        None \<Rightarrow> Inl (StateStoreError ''unknown checkpoint height'')
      | Some row \<Rightarrow>
          bindE (decode_accounts_json (accounts_text row)) (\<lambda>accounts.
          if compute_state_root accounts \<noteq> br_state_root row
          then Inl (StateStoreError ''stored state_root integrity failure'')
          else
            bindE (validate_stored_block_identity (target_height db h, row)) (\<lambda>_.
            case json_loads (accounts_json accounts) of
              None \<Rightarrow> Inl JSONDecodeError
            | Some document \<Rightarrow>
                let body = checkpoint_body_json chain (target_height db h, row) document in
                Inr (body @ [(''checkpoint_digest'', JStr (checkpoint_digest_of body))]))))"

definition falsy :: "json \<Rightarrow> bool" where
  "falsy v = (v \<in> {JNull, JBool False, JInt 0, JStr [], JArr [], JObj []})"

definition check_field_hash :: "(string \<times> json) list \<Rightarrow> string \<Rightarrow> unit result" where
  "check_field_hash checkpoint field =
     bindE (store_hash (json_at checkpoint field) (''checkpoint '' @ field)) (\<lambda>_. Inr ())"

text \<open>\<open>checkpoint[field] != checkpoint[field].lower()\<close>, for a field that is known to be text.\<close>

definition check_field_lower :: "(string \<times> json) list \<Rightarrow> string \<Rightarrow> unit result" where
  "check_field_lower checkpoint field =
     bindE (str_field (json_at checkpoint field)) (\<lambda>s.
     if s \<noteq> lower s then Inl (StateStoreError (''checkpoint '' @ field @ '' is not canonical'')) else Inr ())"

definition checkpoint_accounts :: "(string \<times> json) list \<Rightarrow> accounts result" where
  "checkpoint_accounts checkpoint =
     (case json_at checkpoint ''accounts'' of
        JObj raw \<Rightarrow>
          (case decode_accounts raw of
             Inl _ \<Rightarrow> Inl (StateStoreError ''checkpoint accounts are invalid'')
           | Inr accounts \<Rightarrow>
               bindE (store_normalize accounts) (\<lambda>normalized.
               case json_loads (accounts_json normalized) of
                 None \<Rightarrow> Inl JSONDecodeError
               | Some document \<Rightarrow>
                   if \<not> py_eq (JObj raw) document
                   then Inl (StateStoreError ''checkpoint accounts are not canonical'')
                   else Inr normalized))
      | _ \<Rightarrow> Inl (StateStoreError ''checkpoint accounts are invalid''))"

definition verification_evidence :: "json \<Rightarrow> json \<Rightarrow> json \<Rightarrow> json" where
  "verification_evidence chain h digest = JObj
     [(''schema_version'', JStr ''junca-state-checkpoint-verification/v1''),
      (''chain_id'', chain),
      (''height'', h),
      (''checkpoint_digest'', digest),
      (''verification_status'', JStr ''VERIFIED''),
      (''mainnet_changed'', JBool False),
      (''assets_moved'', JBool False),
      (''bridge_activated'', JBool False)]"

definition checkpoint_int :: "(string \<times> json) list \<Rightarrow> string \<Rightarrow> int \<Rightarrow> int result" where
  "checkpoint_int checkpoint field least =
     (case json_at checkpoint field of
        JInt i \<Rightarrow> if i < least then Inl (StateStoreError (''checkpoint '' @ field @ '' is invalid'')) else Inr i
      | _ \<Rightarrow> Inl (StateStoreError (''checkpoint '' @ field @ '' is invalid'')))"

definition check_certificate_field :: "(string \<times> json) list \<Rightarrow> int \<Rightarrow> unit result" where
  "check_certificate_field checkpoint h =
     (let c = json_at checkpoint ''certificate_hash'' in
      bindE (if h = 0 then
               (if json_at checkpoint ''parent_hash'' \<noteq> JStr zero_hash32
                then Inl (StateStoreError ''genesis checkpoint parent_hash is invalid'')
                else if c \<noteq> JNull
                then Inl (StateStoreError ''genesis checkpoint cannot contain a certificate'')
                else Inr ())
             else if falsy c then Inl (StateStoreError ''checkpoint lacks finality evidence'')
             else Inr ()) (\<lambda>_.
      if c = JNull then Inr ()
      else bindE (check_field_hash checkpoint ''certificate_hash'') (\<lambda>_. check_field_lower checkpoint ''certificate_hash'')))"

definition verify_checkpoint :: "(string \<times> json) list \<Rightarrow> json result" where
  "verify_checkpoint checkpoint =
     (if json_keys checkpoint \<noteq> set checkpoint_fields then Inl (StateStoreError ''checkpoint fields are invalid'')
      else if json_at checkpoint ''schema_version'' \<noteq> JStr ''junca-state-checkpoint/v1''
      then Inl (StateStoreError ''checkpoint schema is unsupported'')
      else
        bindE (store_hash (json_at checkpoint ''checkpoint_digest'') ''checkpoint_digest'') (\<lambda>supplied.
        if supplied \<noteq> lower supplied then Inl (StateStoreError ''checkpoint_digest is not canonical'')
        else if supplied \<noteq> checkpoint_digest_of (json_without ''checkpoint_digest'' checkpoint)
        then Inl (StateStoreError ''checkpoint digest mismatch'')
        else
          bindE (checkpoint_int checkpoint ''chain_id'' 1) (\<lambda>chain.
          bindE (checkpoint_int checkpoint ''height'' 0) (\<lambda>h.
          bindE (checkpoint_int checkpoint ''base_fee_per_gas'' 1) (\<lambda>_.
          bindE (checkpoint_int checkpoint ''gas_used'' 0) (\<lambda>_.
          if json_at checkpoint ''finalized'' \<noteq> JBool True
          then Inl (StateStoreError ''checkpoint is not finalized'')
          else
            bindE (checkpoint_accounts checkpoint) (\<lambda>normalized.
            if json_at checkpoint ''state_root'' \<noteq> JStr (compute_state_root normalized)
            then Inl (StateStoreError ''checkpoint state_root integrity failure'')
            else
              bindE (all_ok (check_field_hash checkpoint) [''block_hash'', ''parent_hash'', ''state_root'']) (\<lambda>_.
              bindE (all_ok (check_field_lower checkpoint) [''block_hash'', ''parent_hash'', ''state_root'']) (\<lambda>_.
              bindE (check_certificate_field checkpoint h) (\<lambda>_.
              Inr (verification_evidence (JInt chain) (JInt h) (JStr supplied))))))))))))"

text \<open>The accounts of a checkpoint, read again without the checks that \<open>verify_checkpoint\<close> made.\<close>

definition restored_account :: "string \<times> json \<Rightarrow> (string \<times> account_state) result" where
  "restored_account item =
     (case snd item of
        JObj ms \<Rightarrow>
          bindE (account_of_json (json_at ms ''balance'') (json_at ms ''nonce'')) (\<lambda>account. Inr (fst item, account))
      | _ \<Rightarrow> Inl TypeError)"

definition restored_accounts :: "(string \<times> json) list \<Rightarrow> accounts result" where
  "restored_accounts checkpoint =
     (case json_at checkpoint ''accounts'' of
        JObj raw \<Rightarrow> mapE restored_account raw
      | _ \<Rightarrow> Inl UndeclaredType)"

text \<open>The row of a checkpoint; every field is read as the checks have found it.\<close>

definition restored_row :: "(string \<times> json) list \<Rightarrow> accounts \<Rightarrow> block_row result" where
  "restored_row checkpoint normalized =
     bindE (str_field (json_at checkpoint ''block_hash'')) (\<lambda>block.
     bindE (str_field (json_at checkpoint ''parent_hash'')) (\<lambda>parent.
     bindE (str_field (json_at checkpoint ''state_root'')) (\<lambda>root.
     bindE (int_field (json_at checkpoint ''base_fee_per_gas'')) (\<lambda>base_fee.
     bindE (int_field (json_at checkpoint ''gas_used'')) (\<lambda>gas.
     bindE (case json_at checkpoint ''certificate_hash'' of
              JNull \<Rightarrow> Inr None
            | v \<Rightarrow> bindE (str_field v) (\<lambda>c. Inr (Some c))) (\<lambda>c.
     Inr \<lparr>br_block_hash = block, br_parent_hash = parent, br_state_root = root, br_base_fee = base_fee,
          br_gas_used = gas, br_finalized = True, br_certificate_hash = c,
          accounts_text = accounts_json normalized, receipts_text = ''[]''\<rparr>))))))"

definition restore_checkpoint ::
  "int \<Rightarrow> store_db \<Rightarrow> store_db \<Rightarrow> (string \<times> json) list \<Rightarrow> string \<Rightarrow> string \<Rightarrow> (stored_block \<times> store_db) result" where
  "restore_checkpoint chain db locked checkpoint trusted_digest trusted_block =
     (if head_height db \<ge> 0 then Inl (StateStoreError ''checkpoint restore requires an empty state store'')
      else
        bindE (verify_checkpoint checkpoint) (\<lambda>_.
        if json_at checkpoint ''chain_id'' \<noteq> JInt chain then Inl (StateStoreError ''checkpoint chain_id mismatch'')
        else
          bindE (store_hash (JStr trusted_digest) ''trusted checkpoint_digest'') (\<lambda>_.
          bindE (store_hash (JStr trusted_block) ''trusted block_hash'') (\<lambda>_.
          if json_at checkpoint ''checkpoint_digest'' \<noteq> JStr (lower trusted_digest)
          then Inl (StateStoreError ''checkpoint does not match trusted digest'')
          else if json_at checkpoint ''block_hash'' \<noteq> JStr (lower trusted_block)
          then Inl (StateStoreError ''checkpoint does not match trusted block hash'')
          else
            bindE (int_field (json_at checkpoint ''height'')) (\<lambda>h.
            if h = 0 \<and> json_at checkpoint ''parent_hash'' \<noteq> JStr zero_hash32
            then Inl (StateStoreError ''genesis checkpoint parent_hash is invalid'')
            else
              bindE (restored_accounts checkpoint) (\<lambda>accounts.
              bindE (store_normalize accounts) (\<lambda>normalized.
              bindE (restored_row checkpoint normalized) (\<lambda>row.
              if blocks locked \<noteq> [] then Inl (StateStoreError ''state store changed during checkpoint restore'')
              else
                bindE (insert_block h row locked) (\<lambda>db1.
                let db2 = db1\<lparr>metadata := dict_set ''base_height'' (int_str h) (metadata db1)\<rparr> in
                bindE (store_head db2) (\<lambda>head. Inr (head, db2)))))))))))"

section \<open>The integrity check\<close>

definition str_isdigit :: "string \<Rightarrow> bool" where
  "str_isdigit s = (s \<noteq> [] \<and> list_all (\<lambda>c. is_digit c \<or> of_char c \<in> {178, 179, 185 :: nat}) s)"

definition int_of_digits :: "string \<Rightarrow> int result" where
  "int_of_digits s = (if list_all is_digit s then Inr (int (digits_val s)) else Inl ValueError)"

definition check_base_height :: "store_db \<Rightarrow> int \<Rightarrow> unit result" where
  "check_base_height db base =
     (case dict_get (metadata db) ''base_height'' of
        None \<Rightarrow> Inl (StateStoreError ''stored base_height metadata is invalid'')
      | Some v \<Rightarrow>
          if \<not> str_isdigit v then Inl (StateStoreError ''stored base_height metadata is invalid'')
          else bindE (int_of_digits v) (\<lambda>i.
            if i \<noteq> base then Inl (StateStoreError ''stored base_height metadata is invalid'') else Inr ()))"

text \<open>One round of the loop: the expected height and the hash the row has to name as its parent.\<close>

definition check_row :: "int \<times> string \<Rightarrow> int \<times> block_row \<Rightarrow> (int \<times> string) result" where
  "check_row expected item =
     (let (h, row) = item in
      if h \<noteq> fst expected then Inl (StateStoreError ''block heights are not contiguous'')
      else
        bindE (validate_stored_block_identity item) (\<lambda>_.
        if br_parent_hash row \<noteq> snd expected then Inl (StateStoreError ''stored parent_hash chain is invalid'')
        else if br_base_fee row \<le> 0 \<or> br_gas_used row < 0
        then Inl (StateStoreError ''stored execution values are invalid'')
        else
          bindE (decode_accounts_json (accounts_text row)) (\<lambda>normalized.
          case json_loads (receipts_text row) of
            Some (JArr items) \<Rightarrow>
              if accounts_json normalized \<noteq> accounts_text row
              then Inl (StateStoreError ''stored account snapshot is not canonical'')
              else if json_dumps (JArr items) \<noteq> receipts_text row
              then Inl (StateStoreError ''stored receipts are not canonical'')
              else if compute_state_root normalized \<noteq> br_state_root row
              then Inl (StateStoreError ''stored state_root integrity failure'')
              else if h > 0 \<and> (\<not> br_finalized row \<or> br_certificate_hash row \<in> {None, Some []})
              then Inl (StateStoreError ''non-genesis block lacks finality evidence'')
              else
                bindE (case br_certificate_hash row of
                         None \<Rightarrow> Inr ()
                       | Some c \<Rightarrow> bindE (store_hash (JStr c) ''stored certificate_hash'') (\<lambda>_. Inr ())) (\<lambda>_.
                Inr (h + 1, br_block_hash row))
          | _ \<Rightarrow> Inl (StateStoreError ''stored state payload is invalid''))))"

definition integrity_check :: "int \<Rightarrow> store_db \<Rightarrow> json result" where
  "integrity_check chain db =
     (case rows_by_height db of
        [] \<Rightarrow> Inl (StateStoreError ''state store is not initialized'')
      | (base, row) # rest \<Rightarrow>
          bindE (check_base_height db base) (\<lambda>_.
          bindE (store_hash (JStr (br_parent_hash row)) ''base parent_hash'') (\<lambda>_.
          bindE (foldE check_row (base, br_parent_hash row) ((base, row) # rest)) (\<lambda>_.
          let head = last ((base, row) # rest) in
          Inr (JObj
            [(''schema_version'', JStr ''junca-persistent-state-integrity/v1''),
             (''chain_id'', JInt chain),
             (''base_height'', JInt base),
             (''head_height'', JInt (fst head)),
             (''head_hash'', JStr (br_block_hash (snd head))),
             (''state_root'', JStr (br_state_root (snd head))),
             (''block_count'', JInt (int (length (blocks db)))),
             (''integrity_status'', JStr ''VERIFIED''),
             (''mainnet_changed'', JBool False),
             (''assets_moved'', JBool False),
             (''bridge_activated'', JBool False)])))))"

section \<open>Account snapshots\<close>


lemma store_hash_Inr [result_elims]: "store_hash v f = Inr s \<longleftrightarrow> v = JStr s \<and> is_hash32 s"
  by (auto simp: store_hash_def is_hash32_def split: json.splits)

text \<open>What a stored snapshot is: normal accounts in the order of their addresses.\<close>

definition snapshot_ok :: "accounts \<Rightarrow> bool" where
  "snapshot_ok a \<longleftrightarrow> accounts_ok a \<and> sorted (map fst a)"

lemma store_normalize_account_Inr [result_elims]:
  "store_normalize_account d item = Inr e \<longleftrightarrow>
     canonical_address (lower (fst item)) \<and> dict_get d (lower (fst item)) = None \<and> e = dict_set (lower (fst item)) (snd item) d"
  by (auto simp: store_normalize_account_def canonical_address_iff Let_def)

lemma store_normalize_ok:
  assumes "store_normalize a = Inr n" "\<forall>item \<in> set a. account_ok (snd item)"
  shows "snapshot_ok n"
proof -
  obtain m where m: "foldE store_normalize_account [] a = Inr m" "n = sort_key fst m"
    using assms(1) by (auto simp: store_normalize_def bindE_Inr_iff)
  have "accounts_ok m"
    using m(1) by (rule foldE_invariant) (use assms(2) in \<open>auto simp: store_normalize_account_Inr intro: accounts_ok_set\<close>)
  then show ?thesis
    by (simp add: m(2) snapshot_ok_def)
qed

lemma store_normalize_fold:
  assumes "accounts_ok (d @ a)"
  shows "foldE store_normalize_account d a = Inr (d @ a)"
  using assms
proof (induction a arbitrary: d)
  case (Cons item a)
  obtain k x where item: "item = (k, x)"
    by fastforce
  have "canonical_address k" "dict_get d k = None"
    using Cons.prems by (auto simp: item accounts_ok_def map_of_eq_None_iff)
  then have "store_normalize_account d item = Inr (d @ [item])"
    by (simp add: store_normalize_account_Inr item canonical_address_iff dict_set_new)
  then show ?case
    using Cons by simp
qed simp

lemma store_normalize_id: "snapshot_ok a \<Longrightarrow> store_normalize a = Inr a"
  using store_normalize_fold [of "[]" a]
  by (simp add: store_normalize_def snapshot_ok_def sort_key_id_if_sorted)

definition account_doc :: "account_state \<Rightarrow> json" where
  "account_doc x = JObj [(''balance'', JInt (balance x)), (''nonce'', JInt (nonce x))]"

lemma snapshot_json_map: "sorted (map fst a) \<Longrightarrow> snapshot_json a = JObj (map (map_prod id account_doc) a)"
  by (simp add: snapshot_json_def account_doc_def sort_key_id_if_sorted map_prod_def case_prod_unfold)

lemma account_doc_canon: "json_canon (account_doc x) = account_doc x"
  by (simp add: account_doc_def insort_key_left_comm)

lemma snapshot_canonical:
  assumes "snapshot_ok a"
  shows "canonical (snapshot_json a)"
proof -
  have a: "sorted (map fst a)" "dict_ok a"
    using assms by (simp_all add: snapshot_ok_def accounts_ok_def)
  have "json_ok (account_doc x)" for x
    by (simp add: account_doc_def)
  then have "json_ok (snapshot_json a)"
    using a by (auto simp: snapshot_json_map list_all_iff comp_def)
  moreover have "json_canon (snapshot_json a) = snapshot_json a"
    using a by (simp add: snapshot_json_map account_doc_canon sort_key_map_snd sort_key_id_if_sorted map_prod_def comp_def case_prod_unfold)
  ultimately show ?thesis
    by (simp add: canonical_def)
qed

lemma decode_account_doc: "account_ok (snd item) \<Longrightarrow> decode_account (map_prod id account_doc item) = Inr item"
  by (cases item) (auto simp: decode_account_def account_doc_def json_keys_def json_at_def account_of_json_def mk_account_def account_ok_def)

lemma decode_account_Inr:
  "decode_account item = Inr p \<longleftrightarrow> fst p = fst item \<and>
     (\<exists>ms. snd item = JObj ms \<and> json_keys ms = {''balance'', ''nonce''} \<and>
        account_of_json (json_at ms ''balance'') (json_at ms ''nonce'') = Inr (snd p))"
  by (cases p) (auto simp: decode_account_def split: json.splits sum.splits)

lemma account_of_json_ok: "account_of_json b n = Inr x \<Longrightarrow> account_ok x"
  by (auto simp: account_of_json_def mk_account_Inr account_ok_def split: json.splits)

lemma account_of_decode: "decode_account item = Inr p \<Longrightarrow> account_ok (snd p)"
  unfolding decode_account_Inr by (elim conjE exE) (rule account_of_json_ok)

lemma decode_accounts_ok: "decode_accounts raw = Inr a \<Longrightarrow> snapshot_ok a"
proof -
  assume "decode_accounts raw = Inr a"
  then obtain b where b: "mapE decode_account raw = Inr b" "store_normalize b = Inr a"
    by (auto simp: decode_accounts_def bindE_Inr_iff)
  have "account_ok (snd p)" if mem: "p \<in> set b" for p
  proof -
    obtain item where "decode_account item = Inr p"
      using mapE_mem [OF b(1) mem] by blast
    then show ?thesis
      by (elim account_of_decode)
  qed
  then show ?thesis
    using store_normalize_ok [OF b(2)] by blast
qed

lemma decode_accounts_docs: "snapshot_ok a \<Longrightarrow> decode_accounts (map (map_prod id account_doc) a) = Inr a"
proof -
  assume ok: "snapshot_ok a"
  then have "mapE decode_account (map (map_prod id account_doc) a) = Inr a"
    by (intro mapE_map_inverse decode_account_doc) (auto simp: snapshot_ok_def accounts_ok_def)
  then show ?thesis
    using store_normalize_id [OF ok] by (simp add: decode_accounts_def)
qed

lemma loads_accounts_json: "snapshot_ok a \<Longrightarrow> json_loads (accounts_json a) = Some (JObj (map (map_prod id account_doc) a))"
  using canon_text.dec_enc [OF snapshot_canonical, of a] by (simp add: accounts_json_def snapshot_json_map snapshot_ok_def)

lemma decode_accounts_json_Inr [result_elims]:
  "decode_accounts_json payload = Inr a \<longleftrightarrow> snapshot_ok a \<and> payload = accounts_json a"
proof
  assume "decode_accounts_json payload = Inr a"
  then show "snapshot_ok a \<and> payload = accounts_json a"
    by (auto simp: decode_accounts_json_def bindE_Inr_iff if_Inl_Inr_iff split: option.splits json.splits dest: decode_accounts_ok)
next
  assume a: "snapshot_ok a \<and> payload = accounts_json a"
  then show "decode_accounts_json payload = Inr a"
    by (simp add: decode_accounts_json_def loads_accounts_json decode_accounts_docs)
qed

interpretation snapshot_text: codec snapshot_ok accounts_json "\<lambda>s. case decode_accounts_json s of Inl _ \<Rightarrow> None | Inr a \<Rightarrow> Some a"
proof
  fix a assume "snapshot_ok a"
  then have "decode_accounts_json (accounts_json a) = Inr a"
    by (simp add: decode_accounts_json_Inr)
  then show "(case decode_accounts_json (accounts_json a) of Inl _ \<Rightarrow> None | Inr a \<Rightarrow> Some a) = Some a"
    by simp
qed

section \<open>The chain of rows\<close>

definition lower_hash :: "string \<Rightarrow> bool" where
  "lower_hash s \<longleftrightarrow> is_hash32 s \<and> lower s = s"

text \<open>What the integrity check demands of a row on its own, and of the rows together.\<close>

definition evidence_ok :: "int \<Rightarrow> block_row \<Rightarrow> bool" where
  "evidence_ok h row \<longleftrightarrow>
     (case br_certificate_hash row of
        None \<Rightarrow> h = 0
      | Some c \<Rightarrow> h \<noteq> 0 \<and> br_finalized row \<and> lower_hash c) \<and>
     (h = 0 \<longrightarrow> br_parent_hash row = zero_hash32)"

definition row_ok :: "int \<times> block_row \<Rightarrow> bool" where
  "row_ok item \<longleftrightarrow>
     (let row = snd item in
      lower_hash (br_block_hash row) \<and> lower_hash (br_parent_hash row) \<and> lower_hash (br_state_root row) \<and>
      evidence_ok (fst item) row \<and> 0 < br_base_fee row \<and> 0 \<le> br_gas_used row \<and>
      (\<exists>a. snapshot_ok a \<and> accounts_text row = accounts_json a \<and> br_state_root row = compute_state_root a) \<and>
      (\<exists>items. json_loads (receipts_text row) = Some (JArr items) \<and> json_dumps (JArr items) = receipts_text row))"

fun linked :: "int \<Rightarrow> string \<Rightarrow> (int \<times> block_row) list \<Rightarrow> bool" where
  "linked h parent [] \<longleftrightarrow> True"
| "linked h parent (item # items) \<longleftrightarrow>
     fst item = h \<and> br_parent_hash (snd item) = parent \<and> row_ok item \<and> linked (h + 1) (br_block_hash (snd item)) items"

lemma validate_field_Inr [result_elims]: "validate_field (f, s) = Inr u \<longleftrightarrow> lower_hash s"
  by (auto simp: validate_field_def bindE_Inr_iff store_hash_Inr lower_hash_def)

lemma validate_identity_Inr [result_elims]:
  "validate_stored_block_identity item = Inr u \<longleftrightarrow>
     lower_hash (br_block_hash (snd item)) \<and> lower_hash (br_parent_hash (snd item)) \<and>
     lower_hash (br_state_root (snd item)) \<and> evidence_ok (fst item) (snd item)"
proof (cases "br_certificate_hash (snd item)")
  case None
  then show ?thesis
    by (auto simp: validate_stored_block_identity_def bindE_Inr_iff validate_field_Inr evidence_ok_def Let_def split: if_splits)
next
  case (Some c)
  have "c = [] \<Longrightarrow> \<not> lower_hash c"
    by (simp add: lower_hash_def is_hash32_def)
  then show ?thesis
    using Some
    by (auto simp: validate_stored_block_identity_def bindE_Inr_iff validate_field_Inr evidence_ok_def store_hash_Inr
        lower_hash_def Let_def split: if_splits)
qed

lemma evidence_ok_pos: "evidence_ok h row \<Longrightarrow> 0 < h \<Longrightarrow> br_finalized row \<and> br_certificate_hash row \<notin> {None, Some []}"
  by (auto simp: evidence_ok_def lower_hash_def is_hash32_def split: option.splits)

lemma evidence_ok_hash: "evidence_ok h row \<Longrightarrow> br_certificate_hash row = Some c \<Longrightarrow> is_hash32 c"
  by (simp add: evidence_ok_def lower_hash_def)

lemma case_arr_Inr:
  "(case v of Some (JArr items) \<Rightarrow> f items | _ \<Rightarrow> Inl e) = Inr r \<longleftrightarrow> (\<exists>items. v = Some (JArr items) \<and> f items = Inr r)"
  by (auto split: option.splits json.splits)

lemma check_row_Inr [result_elims]:
  "check_row e item = Inr r \<longleftrightarrow>
     fst item = fst e \<and> br_parent_hash (snd item) = snd e \<and> row_ok item \<and> r = (fst item + 1, br_block_hash (snd item))"
proof -
  obtain h row where item: "item = (h, row)"
    by fastforce
  have checked: "(case br_certificate_hash row of None \<Rightarrow> Inr ()
      | Some c \<Rightarrow> bindE (store_hash (JStr c) ''stored certificate_hash'') (\<lambda>_. Inr ())) = Inr ()"
    if "evidence_ok h row"
    using that evidence_ok_hash [OF that] by (auto simp: bindE_Inr_iff store_hash_Inr split: option.split)
  show ?thesis
  proof (cases "evidence_ok h row")
    case True
    have final: "\<not> (h > 0 \<and> (\<not> br_finalized row \<or> br_certificate_hash row \<in> {None, Some []}))"
      using evidence_ok_pos [OF True] by blast
    show ?thesis
      using True unfolding check_row_def item Let_def prod.case checked [OF True] if_not_P [OF final]
      by (auto simp: bindE_Inr_iff if_Inl_Inr_iff case_arr_Inr validate_identity_Inr decode_accounts_json_Inr row_ok_def)
  next
    case False
    then show ?thesis
      by (auto simp: check_row_def item bindE_Inr_iff validate_identity_Inr row_ok_def)
  qed
qed

lemma check_rows_Inr:
  "(\<exists>r. foldE check_row (h, parent) items = Inr r) \<longleftrightarrow> linked h parent items"
proof (induction items arbitrary: h parent)
  case (Cons item items)
  show ?case
    using Cons [of "h + 1" "br_block_hash (snd item)"] by (auto simp: bindE_Inr_iff check_row_Inr)
qed simp

text \<open>The invariant of a store that has blocks.\<close>

definition chain_ok :: "store_db \<Rightarrow> bool" where
  "chain_ok db \<longleftrightarrow>
     (case rows_by_height db of
        [] \<Rightarrow> True
      | item # items \<Rightarrow>
          0 \<le> fst item \<and> dict_get (metadata db) ''base_height'' = Some (int_str (fst item)) \<and>
          linked (fst item) (br_parent_hash (snd item)) (item # items))"

lemma base_height_checked:
  assumes "0 \<le> h" "dict_get (metadata db) ''base_height'' = Some (int_str h)"
  shows "check_base_height db h = Inr ()"
proof -
  have "list_all is_digit (int_str h)" "int_str h \<noteq> []" "digits_val (int_str h) = nat h"
    using assms(1) nat_str_digits [of "nat h"] digits_val_nat_str [of "nat h"] by (simp_all add: int_str_def)
  then show ?thesis
    using assms by (simp add: check_base_height_def str_isdigit_def int_of_digits_def list_all_iff del: map_of_eq_Some_iff)
qed

lemma integrity_of_chain:
  assumes "chain_ok db" "blocks db \<noteq> []"
  shows "\<exists>evidence. integrity_check chain db = Inr evidence"
proof (cases "rows_by_height db")
  case Nil
  then show ?thesis
    using assms(2) by (simp add: rows_by_height_def flip: length_0_conv)
next
  case (Cons item items)
  obtain h row where item: "item = (h, row)"
    by fastforce
  have ok: "0 \<le> h" "dict_get (metadata db) ''base_height'' = Some (int_str h)"
      "linked h (br_parent_hash row) ((h, row) # items)"
    using assms(1) by (simp_all add: chain_ok_def Cons item del: map_of_eq_Some_iff)
  then obtain r where r: "foldE check_row (h, br_parent_hash row) ((h, row) # items) = Inr r"
    using check_rows_Inr by blast
  have "store_hash (JStr (br_parent_hash row)) ''base parent_hash'' = Inr (br_parent_hash row)"
    using ok(3) by (simp add: row_ok_def lower_hash_def store_hash_Inr Let_def)
  then show ?thesis
    using base_height_checked [OF ok(1,2)] r
    by (simp add: integrity_check_def Cons item Let_def del: foldE.simps)
qed

section \<open>What the writing operations do\<close>

lemma insert_block_Inr [result_elims]:
  "insert_block h row db = Inr db' \<longleftrightarrow>
     sqlite_int h \<and> sqlite_int (br_base_fee row) \<and> sqlite_int (br_gas_used row) \<and> dict_get (blocks db) h = None \<and>
     (\<forall>item \<in> set (blocks db). br_block_hash (snd item) \<noteq> br_block_hash row) \<and> db' = db\<lparr>blocks := blocks db @ [(h, row)]\<rparr>"
proof (cases "dict_get (blocks db) h")
  case None
  then show ?thesis
    using dict_set_new [OF None] by (auto simp: insert_block_def list_ex_iff)
qed (simp add: insert_block_def del: map_of_eq_Some_iff)

lemma insert_timestamp_Inr [result_elims]:
  "insert_timestamp h t db = Inr db' \<longleftrightarrow>
     sqlite_int h \<and> sqlite_int t \<and> dict_get (timestamps db) h = None \<and> 0 < t \<and> dict_get (blocks db) h \<noteq> None \<and>
     db' = db\<lparr>timestamps := timestamps db @ [(h, t)]\<rparr>"
proof (cases "dict_get (timestamps db) h")
  case None
  then show ?thesis
    using dict_set_new [OF None] by (auto simp: insert_timestamp_def)
qed (simp add: insert_timestamp_def del: map_of_eq_Some_iff)

lemma insert_certificate_Inr [result_elims]:
  "insert_certificate h s db = Inr db' \<longleftrightarrow>
     sqlite_int h \<and> dict_get (certificate_texts db) h = None \<and> dict_get (blocks db) h \<noteq> None \<and>
     db' = db\<lparr>certificate_texts := certificate_texts db @ [(h, s)]\<rparr>"
proof (cases "dict_get (certificate_texts db) h")
  case None
  then show ?thesis
    using dict_set_new [OF None] by (auto simp: insert_certificate_def)
qed (simp add: insert_certificate_def del: map_of_eq_Some_iff)

lemma sort_key_snoc:
  assumes "\<And>y. y \<in> set xs \<Longrightarrow> f y \<le> f x"
  shows "sort_key f (xs @ [x]) = sort_key f xs @ [x]"
proof -
  have step: "insort_key f a (ys @ [x]) = insort_key f a ys @ [x]" if "f a \<le> f x" for a ys
    using that by (induction ys) auto
  show ?thesis
    using assms by (induction xs) (simp_all add: step)
qed

lemma rows_empty [simp]: "rows_by_height db = [] \<longleftrightarrow> blocks db = []"
  by (simp add: rows_by_height_def flip: length_0_conv)

lemma set_rows [simp]: "set (rows_by_height db) = set (blocks db)"
  by (simp add: rows_by_height_def)

lemma top_row_Some: "top_row db = Some item \<longleftrightarrow> blocks db \<noteq> [] \<and> item = last (rows_by_height db)"
  by (auto simp: top_row_def)

lemma sorted_last_max: "sorted (map f xs) \<Longrightarrow> x \<in> set xs \<Longrightarrow> f x \<le> f (last xs)"
  by (induction xs) auto

lemma top_row_greatest:
  assumes "top_row db = Some item"
  shows "item \<in> set (blocks db)" "\<And>x. x \<in> set (blocks db) \<Longrightarrow> fst x \<le> fst item" "head_height db = fst item"
proof -
  have ne: "rows_by_height db \<noteq> []" and item: "item = last (rows_by_height db)"
    using assms by (auto simp: top_row_Some)
  then show mem: "item \<in> set (blocks db)"
    using last_in_set [OF ne] by simp
  have "sorted (map fst (rows_by_height db))"
    by (simp add: rows_by_height_def)
  then have below: "fst x \<le> fst item" if "x \<in> set (rows_by_height db)" for x
    using sorted_last_max [OF _ that, of fst] unfolding item by simp
  then show "\<And>x. x \<in> set (blocks db) \<Longrightarrow> fst x \<le> fst item"
    by simp
  have "Max (fst ` set (blocks db)) = fst item"
    using mem below by (intro Max_eqI) auto
  then show "head_height db = fst item"
    using mem by (auto simp: head_height_def)
qed

lemma rows_snoc:
  assumes "blocks db = [] \<or> head_height db < h" "blocks db' = blocks db @ [(h, row)]"
  shows "rows_by_height db' = rows_by_height db @ [(h, row)]" "top_row db' = Some (h, row)"
    "store_head db' = Inr (mk_stored_block (h, row))" "head_height db' = h"
proof -
  have "fst x \<le> h" if mem: "x \<in> set (blocks db)" for x
  proof (cases "top_row db")
    case (Some item)
    have "head_height db < h"
      using assms(1) mem by auto
    then show ?thesis
      using top_row_greatest(2) [OF Some mem] top_row_greatest(3) [OF Some] by simp
  qed (use mem in \<open>simp add: top_row_def split: if_splits\<close>)
  then show rows: "rows_by_height db' = rows_by_height db @ [(h, row)]"
    using sort_key_snoc [of "blocks db" fst "(h, row)"] assms(2) by (simp add: rows_by_height_def)
  then show top: "top_row db' = Some (h, row)"
    using assms(2) by (simp add: top_row_Some)
  then show "store_head db' = Inr (mk_stored_block (h, row))" "head_height db' = h"
    using top_row_greatest(3) by (auto simp: store_head_def)
qed

lemma check_commit_Inr:
  assumes "check_commit chain db h bh ph t c ts = Inr n"
  shows "0 < h" "is_hash32 bh" "is_hash32 ph" "fc_height c = h" "fc_block_hash c = lower bh" "bt_chain_id t = chain"
    "fc_chain_id c = chain" "2 * fc_total_power c < 3 * fc_signed_power c" "store_normalize (bt_accounts t) = Inr n"
    "state_root t = compute_state_root n" "h = head_height db + 1" "\<And>s. ts = Some s \<Longrightarrow> 0 < s"
  using assms unfolding check_commit_def
  by (auto simp: bindE_Inr_iff if_Inl_Inr_iff store_hash_Inr split: option.splits)

text \<open>What a commit leaves behind: one more row, its certificate and its timestamp.\<close>

definition committed :: "store_db \<Rightarrow> int \<Rightarrow> block_row \<Rightarrow> finality_certificate \<Rightarrow> int option \<Rightarrow> store_db" where
  "committed db h row c ts = db\<lparr>blocks := blocks db @ [(h, row)],
     timestamps := timestamps db @ (case ts of None \<Rightarrow> [] | Some s \<Rightarrow> [(h, s)]),
     certificate_texts := certificate_texts db @ [(h, json_dumps (certificate_as_evidence c))]\<rparr>"

lemma commit_Inr:
  assumes "commit_finalized_block chain db locked h bh ph t c ts = Inr (b, db')"
  obtains n parent_row where "check_commit chain db h bh ph t c ts = Inr n"
    "top_row locked = Some (h - 1, parent_row)" "br_block_hash parent_row = lower ph"
    "db' = committed locked h (committed_row bh ph t c n) c ts"
    "b = mk_stored_block (h, committed_row bh ph t c n)"
proof -
  obtain n db1 db2 where check: "check_commit chain db h bh ph t c ts = Inr n"
      and lock: "\<not> (case top_row locked of None \<Rightarrow> True
        | Some (height, row) \<Rightarrow> height \<noteq> h - 1 \<or> br_block_hash row \<noteq> lower ph)"
      and db1: "insert_block h (committed_row bh ph t c n) locked = Inr db1"
      and db2: "(case ts of None \<Rightarrow> Inr db1 | Some s \<Rightarrow> insert_timestamp h s db1) = Inr db2"
      and db': "insert_certificate h (json_dumps (certificate_as_evidence c)) db2 = Inr db'" "store_head db' = Inr b"
    using assms unfolding commit_finalized_block_def by (auto simp: bindE_Inr_iff if_Inl_Inr_iff)
  obtain row where top: "top_row locked = Some (h - 1, row)" "br_block_hash row = lower ph"
    using lock by (cases "top_row locked") auto
  have "db2 = db1\<lparr>timestamps := timestamps db1 @ (case ts of None \<Rightarrow> [] | Some s \<Rightarrow> [(h, s)])\<rparr>"
    using db2 by (cases ts) (simp_all add: insert_timestamp_Inr)
  then have "db' = committed locked h (committed_row bh ph t c n) c ts"
    using db1 db'(1) by (simp add: insert_block_Inr insert_certificate_Inr committed_def)
  moreover have "head_height locked < h"
    using top_row_greatest(3) [OF top(1)] by simp
  then have "b = mk_stored_block (h, committed_row bh ph t c n)"
    using rows_snoc(3) [of locked h db'] db'(2) calculation by (simp add: committed_def)
  ultimately show thesis
    using that check top by blast
qed

section \<open>The writing operations keep the chain\<close>

lemma linked_snoc:
  "linked h p (xs @ [x]) \<longleftrightarrow> linked h p xs \<and> fst x = h + int (length xs) \<and>
     br_parent_hash (snd x) = (if xs = [] then p else br_block_hash (snd (last xs))) \<and> row_ok x"
  by (induction xs arbitrary: h p) auto

lemma linked_last: "linked h p xs \<Longrightarrow> xs \<noteq> [] \<Longrightarrow> fst (last xs) = h + int (length xs) - 1"
  by (induction xs arbitrary: h p) auto

lemma chain_ok_extend:
  assumes "chain_ok db" "top_row db = Some (h - 1, parent)" "row_ok (h, row)" "br_parent_hash row = br_block_hash parent"
    and "blocks db' = blocks db @ [(h, row)]" "metadata db' = metadata db"
  shows "chain_ok db'"
proof -
  have "rows_by_height db' = rows_by_height db @ [(h, row)]"
    using rows_snoc(1) [of db h db' row] top_row_greatest(3) [OF assms(2)] assms(5) by simp
  moreover obtain item items where rows: "rows_by_height db = item # items"
    using assms(2) by (cases "rows_by_height db") (auto simp: top_row_Some)
  moreover have "last (item # items) = (h - 1, parent)"
    using assms(2) by (simp add: top_row_Some flip: rows)
  moreover have "linked (fst item) (br_parent_hash (snd item)) (item # items)"
    using assms(1) by (simp add: chain_ok_def rows)
  ultimately have "linked (fst item) (br_parent_hash (snd item)) ((item # items) @ [(h, row)])"
    unfolding linked_snoc using linked_last [of "fst item" "br_parent_hash (snd item)" "item # items"] assms(3,4) by simp
  then show ?thesis
    using assms(1,6) \<open>rows_by_height db' = _\<close> by (simp add: chain_ok_def rows del: map_of_eq_Some_iff)
qed

lemma chain_ok_single:
  assumes "blocks db = [(h, row)]" "0 \<le> h" "row_ok (h, row)" "dict_get (metadata db) ''base_height'' = Some (int_str h)"
  shows "chain_ok db"
  using assms by (simp add: chain_ok_def rows_by_height_def del: map_of_eq_Some_iff)

lemma chain_ok_empty: "blocks db = [] \<Longrightarrow> chain_ok db"
  by (simp add: chain_ok_def rows_by_height_def)

lemma state_root_lower_hash [simp]: "lower_hash (compute_state_root a)"
  by (simp add: lower_hash_def compute_state_root_def)

lemma lower_hash_lower: "is_hash32 s \<Longrightarrow> lower_hash (lower s)"
  by (simp add: lower_hash_def is_hash32_lower)

text \<open>
  What a block that comes from the execution and the finality of this program satisfies, and no check
  of the store demands: positive base fee, gas that is not negative, accounts of the type
  \<open>AccountState\<close> and a certificate hash in canonical form.
\<close>

definition executed :: "block_transition \<Rightarrow> finality_certificate \<Rightarrow> bool" where
  "executed t c \<longleftrightarrow> 0 < base_fee_per_gas t \<and> 0 \<le> gas_used t \<and> (\<forall>item \<in> set (bt_accounts t). account_ok (snd item)) \<and>
     lower_hash (certificate_hash c)"

lemma receipts_text_ok:
  "\<exists>items. json_loads (json_dumps (JArr (map receipt_json rs))) = Some (JArr items) \<and>
     json_dumps (JArr items) = json_dumps (JArr (map receipt_json rs))"
proof -
  have "json_ok (JArr (map receipt_json rs))"
    by (auto simp: receipt_json_def list_all_iff)
  then have "json_loads (json_dumps (JArr (map receipt_json rs))) = Some (json_canon (JArr (map receipt_json rs)))"
    by (rule json_loads_dumps)
  moreover have "json_dumps (json_canon v) = json_dumps v" for v
    by (simp add: json_dumps_def)
  ultimately show ?thesis
    by (metis json_canon.simps(5))
qed

lemma committed_row_ok:
  assumes "check_commit chain db h bh ph t c ts = Inr n" "executed t c"
  shows "row_ok (h, committed_row bh ph t c n)"
proof -
  note ok = check_commit_Inr [OF assms(1)]
  have "snapshot_ok n"
    using store_normalize_ok [OF ok(9)] assms(2) by (simp add: executed_def)
  moreover have "evidence_ok h (committed_row bh ph t c n)"
    using ok(1) assms(2) by (simp add: evidence_ok_def committed_row_def executed_def)
  moreover have "0 < base_fee_per_gas t" "0 \<le> gas_used t"
    using assms(2) by (simp_all add: executed_def)
  ultimately show ?thesis
    using ok(2,3,10) receipts_text_ok [of "receipts t"] unfolding row_ok_def
    by (auto simp: committed_row_def lower_hash_lower)
qed

lemma commit_chain_ok:
  assumes "commit_finalized_block chain db locked h bh ph t c ts = Inr (b, db')" "chain_ok locked" "executed t c"
  shows "chain_ok db'"
  using assms(1)
proof (rule commit_Inr)
  fix n parent_row
  assume n: "check_commit chain db h bh ph t c ts = Inr n" "top_row locked = Some (h - 1, parent_row)"
    "br_block_hash parent_row = lower ph" "db' = committed locked h (committed_row bh ph t c n) c ts"
  show ?thesis
    using assms(2) n(2) committed_row_ok [OF n(1) assms(3)]
    by (rule chain_ok_extend) (simp_all add: n(3,4) committed_def committed_row_def)
qed

lemma initialize_genesis_Inr:
  assumes "initialize_genesis db locked bh accounts fee = Inr (b, db')"
  obtains (existing) row where "dict_get (blocks db) 0 = Some row" "db' = db" "b = mk_stored_block (0, row)"
      "br_block_hash row = lower bh"
  | (inserted) n row where "dict_get (blocks db) 0 = None" "dict_get (blocks locked) 0 = None"
      "store_normalize accounts = Inr n" "is_hash32 bh" "0 < fee"
      "row = \<lparr>br_block_hash = lower bh, br_parent_hash = zero_hash32, br_state_root = compute_state_root n,
               br_base_fee = fee, br_gas_used = 0, br_finalized = True, br_certificate_hash = None,
               accounts_text = accounts_json n, receipts_text = ''[]''\<rparr>"
      "db' = locked\<lparr>blocks := blocks locked @ [(0, row)], metadata := dict_set ''base_height'' ''0'' (metadata locked)\<rparr>"
proof (cases "dict_get (blocks db) 0")
  case (Some row)
  then show thesis
    using assms existing unfolding initialize_genesis_def
    by (auto simp: bindE_Inr_iff if_Inl_Inr_iff store_hash_Inr Let_def simp del: map_of_eq_Some_iff)
next
  case None
  then show thesis
    using assms inserted unfolding initialize_genesis_def
    by (auto simp: bindE_Inr_iff if_Inl_Inr_iff store_hash_Inr insert_block_Inr Let_def)
qed

lemma empty_array_text: "json_loads ''[]'' = Some (JArr [])" "json_dumps (JArr []) = ''[]''"
  by code_simp+

lemma zero_hash32_lower [simp]: "lower_hash zero_hash32"
  by code_simp

lemma int_str_0: "int_str 0 = ''0''"
  by code_simp

lemma genesis_chain_ok:
  assumes "initialize_genesis db locked bh accounts fee = Inr (b, db')" "chain_ok db" "blocks locked = []"
    and "\<forall>item \<in> set accounts. account_ok (snd item)"
  shows "chain_ok db'"
  using assms(1)
proof (cases rule: initialize_genesis_Inr)
  case (inserted n row)
  have "row_ok (0, row)"
    using inserted(3-5) store_normalize_ok [OF inserted(3) assms(4)] empty_array_text
    by (auto simp: row_ok_def inserted(6) evidence_ok_def lower_hash_lower)
  then show ?thesis
    by (intro chain_ok_single [of _ 0 row]) (simp_all add: inserted(7) assms(3) int_str_0)
qed (use assms(2) in simp)

section \<open>Checkpoints\<close>

text \<open>The checkpoint document describes this row of a store of this chain.\<close>

definition describes :: "(string \<times> json) list \<Rightarrow> int \<Rightarrow> int \<Rightarrow> block_row \<Rightarrow> bool" where
  "describes ms chain h row \<longleftrightarrow>
     json_at ms ''chain_id'' = JInt chain \<and> json_at ms ''height'' = JInt h \<and>
     json_at ms ''block_hash'' = JStr (br_block_hash row) \<and> json_at ms ''parent_hash'' = JStr (br_parent_hash row) \<and>
     json_at ms ''state_root'' = JStr (br_state_root row) \<and> json_at ms ''base_fee_per_gas'' = JInt (br_base_fee row) \<and>
     json_at ms ''gas_used'' = JInt (br_gas_used row) \<and>
     json_at ms ''certificate_hash'' = opt_str_json (br_certificate_hash row)"

lemma checkpoint_int_Inr [result_elims]: "checkpoint_int ms f least = Inr i \<longleftrightarrow> json_at ms f = JInt i \<and> least \<le> i"
  by (auto simp: checkpoint_int_def split: json.splits)

lemma check_field_hash_Inr [result_elims]: "check_field_hash ms f = Inr u \<longleftrightarrow> (\<exists>s. json_at ms f = JStr s \<and> is_hash32 s)"
  by (auto simp: check_field_hash_def bindE_Inr_iff store_hash_Inr)

lemma check_field_lower_Inr [result_elims]: "check_field_lower ms f = Inr u \<longleftrightarrow> (\<exists>s. json_at ms f = JStr s \<and> lower s = s)"
  by (auto simp: check_field_lower_def str_field_def split: json.splits)

lemma check_certificate_field_Inr:
  assumes "json_at ms ''parent_hash'' = JStr p"
  shows "check_certificate_field ms h = Inr u \<longleftrightarrow>
    (if h = 0 then p = zero_hash32 \<and> json_at ms ''certificate_hash'' = JNull
     else (\<exists>c. json_at ms ''certificate_hash'' = JStr c \<and> lower_hash c))"
proof -
  have "\<not> falsy (JStr c)" if "lower_hash c" for c
    using that by (auto simp: falsy_def lower_hash_def is_hash32_def)
  moreover have "falsy JNull"
    by (simp add: falsy_def)
  ultimately show ?thesis
    using assms unfolding check_certificate_field_def Let_def
    by (auto simp: bindE_Inr_iff check_field_hash_Inr check_field_lower_Inr lower_hash_def)
qed

lemma checkpoint_accounts_Inr:
  assumes "checkpoint_accounts ms = Inr a"
  shows "\<exists>raw. json_at ms ''accounts'' = JObj raw \<and> decode_accounts raw = Inr a \<and> snapshot_ok a"
proof (cases "json_at ms ''accounts''")
  case (JObj raw)
  then obtain b where b: "decode_accounts raw = Inr b" "store_normalize b = Inr a"
    using assms by (auto simp: checkpoint_accounts_def bindE_Inr_iff split: sum.splits option.splits if_splits)
  then show ?thesis
    using JObj decode_accounts_ok [OF b(1)] store_normalize_id by fastforce
qed (use assms in \<open>simp_all add: checkpoint_accounts_def\<close>)

lemma mapE_mono: "(\<And>x y. f x = Inr y \<Longrightarrow> g x = Inr y) \<Longrightarrow> mapE f xs = Inr ys \<Longrightarrow> mapE g xs = Inr ys"
  by (induction xs arbitrary: ys) (auto simp: bindE_Inr_iff)

lemma restored_accounts_Inr:
  assumes "json_at ms ''accounts'' = JObj raw" "decode_accounts raw = Inr a"
  shows "bindE (restored_accounts ms) store_normalize = Inr a"
proof -
  obtain b where b: "mapE decode_account raw = Inr b" "store_normalize b = Inr a"
    using assms(2) by (auto simp: decode_accounts_def bindE_Inr_iff)
  have "restored_account item = Inr p" if "decode_account item = Inr p" for item p
    using that unfolding decode_account_Inr restored_account_def
    by (elim conjE exE) (simp add: prod_eq_iff)
  from mapE_mono [OF this b(1)] have "mapE restored_account raw = Inr b" .
  then show ?thesis
    using assms(1) b(2) by (simp add: restored_accounts_def)
qed

lemma verify_checkpoint_Inr:
  assumes "verify_checkpoint ms = Inr evidence"
  obtains chain h row a where "describes ms chain h row" "0 < chain" "0 \<le> h" "row_ok (h, row)" "br_finalized row"
    "receipts_text row = ''[]''" "accounts_text row = accounts_json a" "checkpoint_accounts ms = Inr a" "snapshot_ok a"
    "json_keys ms = set checkpoint_fields" "json_at ms ''schema_version'' = JStr ''junca-state-checkpoint/v1''"
    "json_at ms ''finalized'' = JBool True"
    "json_at ms ''checkpoint_digest'' = JStr (checkpoint_digest_of (json_without ''checkpoint_digest'' ms))"
    "evidence = verification_evidence (JInt chain) (JInt h)
       (JStr (checkpoint_digest_of (json_without ''checkpoint_digest'' ms)))"
proof -
  obtain supplied chain h fee gas a u1 u2 u3 where shape: "json_keys ms = set checkpoint_fields"
      "json_at ms ''schema_version'' = JStr ''junca-state-checkpoint/v1''"
      "json_at ms ''checkpoint_digest'' = JStr supplied"
      "supplied = checkpoint_digest_of (json_without ''checkpoint_digest'' ms)"
    and ints: "json_at ms ''chain_id'' = JInt chain" "1 \<le> chain" "json_at ms ''height'' = JInt h" "0 \<le> h"
      "json_at ms ''base_fee_per_gas'' = JInt fee" "1 \<le> fee" "json_at ms ''gas_used'' = JInt gas" "0 \<le> gas"
    and final: "json_at ms ''finalized'' = JBool True"
    and accounts: "checkpoint_accounts ms = Inr a" "json_at ms ''state_root'' = JStr (compute_state_root a)"
    and hashes: "all_ok (check_field_hash ms) [''block_hash'', ''parent_hash'', ''state_root''] = Inr u1"
      "all_ok (check_field_lower ms) [''block_hash'', ''parent_hash'', ''state_root''] = Inr u2"
    and certificate: "check_certificate_field ms h = Inr u3"
    and evidence: "evidence = verification_evidence (JInt chain) (JInt h) (JStr supplied)"
    using assms unfolding verify_checkpoint_def
    by (clarsimp simp only: bindE_Inr_iff if_Inl_Inr_iff store_hash_Inr checkpoint_int_Inr not_not sum.inject)
  obtain block parent where fields: "json_at ms ''block_hash'' = JStr block" "lower_hash block"
      "json_at ms ''parent_hash'' = JStr parent" "lower_hash parent"
    using hashes by (auto simp: bindE_Inr_iff check_field_hash_Inr check_field_lower_Inr lower_hash_def)
  have a: "snapshot_ok a"
    using checkpoint_accounts_Inr [OF accounts(1)] by blast
  obtain c where c: "json_at ms ''certificate_hash'' = opt_str_json c"
      "case c of None \<Rightarrow> h = 0 | Some s \<Rightarrow> h \<noteq> 0 \<and> lower_hash s" "h = 0 \<longrightarrow> parent = zero_hash32"
  proof (cases "h = 0")
    case True
    then show thesis
      using certificate fields(3) that [of None] by (simp add: check_certificate_field_Inr opt_str_json_def)
  next
    case False
    then obtain s where "json_at ms ''certificate_hash'' = JStr s" "lower_hash s"
      using certificate fields(3) by (auto simp: check_certificate_field_Inr)
    then show thesis
      using False that [of "Some s"] by (simp add: opt_str_json_def)
  qed
  let ?row = "\<lparr>br_block_hash = block, br_parent_hash = parent, br_state_root = compute_state_root a, br_base_fee = fee,
      br_gas_used = gas, br_finalized = True, br_certificate_hash = c, accounts_text = accounts_json a,
      receipts_text = ''[]''\<rparr>"
  have "row_ok (h, ?row)"
    using a c fields ints empty_array_text by (auto simp: row_ok_def evidence_ok_def split: option.splits)
  moreover have "describes ms chain h ?row"
    using fields ints c accounts by (simp add: describes_def)
  ultimately show thesis
    using that [of chain h ?row a] ints a accounts shape final evidence by simp
qed

section \<open>Restoring and exporting\<close>

lemma restored_row_describes:
  assumes "describes ms chain h row" "br_finalized row" "receipts_text row = ''[]''" "accounts_text row = accounts_json a"
  shows "restored_row ms a = Inr row"
proof -
  have "(case json_at ms ''certificate_hash'' of JNull \<Rightarrow> Inr None | v \<Rightarrow> bindE (str_field v) (\<lambda>c. Inr (Some c))) =
      Inr (br_certificate_hash row)"
    using assms(1) by (auto simp: describes_def opt_str_json_def split: option.split)
  then show ?thesis
    using assms unfolding restored_row_def by (simp add: describes_def)
qed

definition restored :: "store_db \<Rightarrow> int \<Rightarrow> block_row \<Rightarrow> store_db" where
  "restored db h row = db\<lparr>blocks := [(h, row)], metadata := dict_set ''base_height'' (int_str h) (metadata db)\<rparr>"

lemma describes_unique_height: "describes ms chain h row \<Longrightarrow> int_field (json_at ms ''height'') = Inr h"
  by (simp add: describes_def)

lemma restore_checkpoint_eq:
  assumes "verify_checkpoint ms = Inr evidence" "describes ms chain h row" "row_ok (h, row)" "br_finalized row"
    "receipts_text row = ''[]''" "accounts_text row = accounts_json a" "checkpoint_accounts ms = Inr a"
    and "blocks db = []" "blocks locked = []"
  shows "restore_checkpoint chain db locked ms td tb =
    (if \<not> is_hash32 td then Inl (StateStoreError ''trusted checkpoint_digest must be a 32-byte hex value'')
     else if \<not> is_hash32 tb then Inl (StateStoreError ''trusted block_hash must be a 32-byte hex value'')
     else if json_at ms ''checkpoint_digest'' \<noteq> JStr (lower td)
     then Inl (StateStoreError ''checkpoint does not match trusted digest'')
     else if json_at ms ''block_hash'' \<noteq> JStr (lower tb)
     then Inl (StateStoreError ''checkpoint does not match trusted block hash'')
     else if sqlite_int h \<and> sqlite_int (br_base_fee row) \<and> sqlite_int (br_gas_used row)
     then Inr (mk_stored_block (h, row), restored locked h row)
     else Inl OverflowError)"
proof -
  obtain raw where raw: "json_at ms ''accounts'' = JObj raw" "decode_accounts raw = Inr a" "snapshot_ok a"
    using checkpoint_accounts_Inr [OF assms(7)] by blast
  obtain b where b: "restored_accounts ms = Inr b" "store_normalize b = Inr a"
    using restored_accounts_Inr [OF raw(1,2)] by (auto simp: bindE_Inr_iff)
  have parent: "\<not> (h = 0 \<and> json_at ms ''parent_hash'' \<noteq> JStr zero_hash32)"
    using assms(2,3) by (auto simp: describes_def row_ok_def evidence_ok_def Let_def)
  have head: "\<not> 0 \<le> head_height db"
    using assms(8) by (simp add: head_height_def)
  have hash: "store_hash (JStr s) f = (if is_hash32 s then Inr s else Inl (StateStoreError (f @ '' must be a 32-byte hex value'')))" for s f
    by (auto simp: store_hash_def is_hash32_def)
  have chain: "json_at ms ''chain_id'' = JInt chain"
    using assms(2) by (simp add: describes_def)
  have insert: "insert_block h row locked =
      (if sqlite_int h \<and> sqlite_int (br_base_fee row) \<and> sqlite_int (br_gas_used row)
       then Inr (locked\<lparr>blocks := [(h, row)]\<rparr>) else Inl OverflowError)"
    using assms(9) by (simp add: insert_block_def)
  have "store_head (restored locked h row) = Inr (mk_stored_block (h, row))"
    by (simp add: store_head_def top_row_def rows_by_height_def restored_def)
  then have store: "store_head (locked\<lparr>blocks := [(h, row)], metadata := dict_set ''base_height'' (int_str h) (metadata locked)\<rparr>) =
      Inr (mk_stored_block (h, row))"
    by (simp add: restored_def)
  show ?thesis
    using restored_row_describes [OF assms(2,4,5,6)] describes_unique_height [OF assms(2)] parent head assms(1,9) b store
    unfolding restore_checkpoint_def
    by (auto simp: hash chain insert restored_def)
qed

lemma restore_checkpoint_Inr:
  assumes "restore_checkpoint chain db locked ms td tb = Inr (b, db')"
  obtains h row a where "describes ms chain h row" "0 \<le> h" "row_ok (h, row)" "br_finalized row"
    "accounts_text row = accounts_json a" "snapshot_ok a" "blocks locked = []" "db' = restored locked h row"
    "b = mk_stored_block (h, row)" "sqlite_int h \<and> sqlite_int (br_base_fee row) \<and> sqlite_int (br_gas_used row)"
    "json_at ms ''checkpoint_digest'' = JStr (lower td)" "br_block_hash row = lower tb"
    "json_at ms ''checkpoint_digest'' = JStr (checkpoint_digest_of (json_without ''checkpoint_digest'' ms))"
proof -
  have empty: "head_height db < 0"
    using assms by (simp add: restore_checkpoint_def if_Inl_Inr_iff not_le)
  obtain evidence where verified: "verify_checkpoint ms = Inr evidence"
    using assms by (auto simp: restore_checkpoint_def bindE_Inr_iff if_Inl_Inr_iff)
  have chain: "json_at ms ''chain_id'' = JInt chain" and locked: "blocks locked = []"
    using assms by (auto simp: restore_checkpoint_def bindE_Inr_iff if_Inl_Inr_iff)
  obtain chain' h row a where row: "describes ms chain' h row" "0 \<le> h" "row_ok (h, row)" "br_finalized row"
      "receipts_text row = ''[]''" "accounts_text row = accounts_json a" "checkpoint_accounts ms = Inr a" "snapshot_ok a"
      "json_at ms ''checkpoint_digest'' = JStr (checkpoint_digest_of (json_without ''checkpoint_digest'' ms))"
    using verified by (rule verify_checkpoint_Inr)
  have "chain' = chain"
    using chain row(1) by (simp add: describes_def)
  moreover have "restore_checkpoint chain db locked ms td tb = restore_checkpoint chain empty_store_db locked ms td tb"
    using empty by (simp add: restore_checkpoint_def head_height_def empty_store_db_def)
  ultimately have "(b, db') = (mk_stored_block (h, row), restored locked h row)"
      and facts: "sqlite_int h \<and> sqlite_int (br_base_fee row) \<and> sqlite_int (br_gas_used row)"
      "json_at ms ''checkpoint_digest'' = JStr (lower td)" "json_at ms ''block_hash'' = JStr (lower tb)"
    using assms restore_checkpoint_eq [OF verified _ row(3-7) _ locked, of chain empty_store_db td tb] row(1)
    by (auto simp: empty_store_db_def if_Inl_Inr_iff split: if_splits)
  moreover have "br_block_hash row = lower tb"
    using facts(3) row(1) by (simp add: describes_def)
  ultimately show thesis
    using that [of h row a] row \<open>chain' = chain\<close> locked by simp
qed

section \<open>The invariant of the store\<close>

definition store_ok :: "int \<Rightarrow> store_db \<Rightarrow> bool" where
  "store_ok chain db \<longleftrightarrow>
     0 < chain \<and> dict_get (metadata db) ''chain_id'' = Some (int_str chain) \<and> chain_ok db \<and> dict_ok (blocks db) \<and>
     (\<forall>item \<in> set (blocks db). br_finalized (snd item) \<and>
        sqlite_int (fst item) \<and> sqlite_int (br_base_fee (snd item)) \<and> sqlite_int (br_gas_used (snd item))) \<and>
     fst ` set (certificate_texts db) \<subseteq> fst ` set (blocks db) \<and> fst ` set (timestamps db) \<subseteq> fst ` set (blocks db)"

text \<open>
  The histories of a store: it is created, opened again, and written, and the writing operations may
  have read any earlier database. Genesis is initialized only where the locked store is empty or has
  a genesis block; the theorem \<open>genesis_after_restore\<close> shows why this is asked.
\<close>

inductive store_reachable :: "int \<Rightarrow> store_db \<Rightarrow> bool" for chain where
  created: "open_store chain empty_store_db = Inr db \<Longrightarrow> store_reachable chain db"
| reopened: "store_reachable chain db \<Longrightarrow> open_store chain db = Inr db' \<Longrightarrow> store_reachable chain db'"
| genesis: "store_reachable chain db \<Longrightarrow> store_reachable chain locked \<Longrightarrow>
    initialize_genesis db locked bh accounts fee = Inr (b, db') \<Longrightarrow> \<forall>item \<in> set accounts. account_ok (snd item) \<Longrightarrow>
    blocks locked = [] \<or> dict_get (blocks locked) 0 \<noteq> None \<Longrightarrow> store_reachable chain db'"
| committed: "store_reachable chain locked \<Longrightarrow>
    commit_finalized_block chain db locked h bh ph t c ts = Inr (b, db') \<Longrightarrow> executed t c \<Longrightarrow> store_reachable chain db'"
| restored: "store_reachable chain locked \<Longrightarrow>
    restore_checkpoint chain db locked ms td tb = Inr (b, db') \<Longrightarrow> store_reachable chain db'"

lemma commit_store_ok:
  assumes "commit_finalized_block chain db locked h bh ph t c ts = Inr (b, db')" "store_ok chain locked" "executed t c"
  shows "store_ok chain db'"
  using assms(1)
proof (rule commit_Inr)
  fix n parent_row
  assume n: "check_commit chain db h bh ph t c ts = Inr n" "db' = committed locked h (committed_row bh ph t c n) c ts"
    "top_row locked = Some (h - 1, parent_row)"
  have "chain_ok db'"
    using commit_chain_ok [OF assms(1) _ assms(3)] assms(2) by (simp add: store_ok_def)
  moreover obtain db1 where "insert_block h (committed_row bh ph t c n) locked = Inr db1"
    using assms(1) n(1) unfolding commit_finalized_block_def by (auto simp: bindE_Inr_iff if_Inl_Inr_iff)
  then have "sqlite_int h" "sqlite_int (base_fee_per_gas t)" "sqlite_int (gas_used t)" "dict_get (blocks locked) h = None"
    by (simp_all add: insert_block_Inr committed_row_def)
  ultimately show ?thesis
    using assms(2) n(2) by (auto simp: store_ok_def committed_def committed_row_def map_of_eq_None_iff)
qed

lemma genesis_store_ok:
  assumes "initialize_genesis db locked bh accounts fee = Inr (b, db')" "store_ok chain db" "store_ok chain locked"
    and "\<forall>item \<in> set accounts. account_ok (snd item)" "blocks locked = [] \<or> dict_get (blocks locked) 0 \<noteq> None"
  shows "store_ok chain db'"
  using assms(1)
proof (cases rule: initialize_genesis_Inr)
  case (inserted n row)
  have empty: "blocks locked = []"
    using inserted(2) assms(5) by blast
  have "chain_ok db'"
    using genesis_chain_ok [OF assms(1) _ empty assms(4)] assms(2) by (simp add: store_ok_def)
  moreover have "sqlite_int 0" "sqlite_int fee"
    using assms(1) inserted(1,3-5) empty unfolding initialize_genesis_def
    by (auto simp: bindE_Inr_iff if_Inl_Inr_iff store_hash_Inr insert_block_Inr Let_def)
  ultimately show ?thesis
    using assms(3) inserted(7) empty by (auto simp: store_ok_def inserted(6) simp del: map_of_eq_Some_iff)
qed (use assms(2) in simp)

lemma restore_store_ok:
  assumes "restore_checkpoint chain db locked ms td tb = Inr (b, db')" "store_ok chain locked"
  shows "store_ok chain db'"
  using assms(1)
proof (rule restore_checkpoint_Inr)
  fix h row
  assume row: "0 \<le> h" "row_ok (h, row)" "br_finalized row" "blocks locked = []" "db' = restored locked h row"
    "sqlite_int h \<and> sqlite_int (br_base_fee row) \<and> sqlite_int (br_gas_used row)"
  have "chain_ok db'"
    using row(1,2) by (intro chain_ok_single [of _ h row]) (simp_all add: row(5) restored_def)
  then show ?thesis
    using assms(2) row by (simp add: store_ok_def restored_def del: map_of_eq_Some_iff)
qed

lemma created_store_ok: "open_store chain empty_store_db = Inr db \<Longrightarrow> store_ok chain db"
  by (auto simp: open_store_def bind_chain_id_def empty_store_db_def store_ok_def if_Inl_Inr_iff chain_ok_empty)

lemma reopened_same: "store_ok chain db \<Longrightarrow> open_store chain db = Inr db' \<Longrightarrow> db' = db"
  by (auto simp: open_store_def bind_chain_id_def store_ok_def if_Inl_Inr_iff simp del: map_of_eq_Some_iff)

lemma store_reachable_ok: "store_reachable chain db \<Longrightarrow> store_ok chain db"
proof (induction rule: store_reachable.induct)
  case (reopened db db')
  then show ?case
    using reopened_same by blast
next
  case (committed locked db h bh ph t c ts b db')
  show ?case
    by (rule commit_store_ok [OF committed(2) committed.IH committed(3)])
next
  case (restored locked db ms td tb b db')
  show ?case
    by (rule restore_store_ok [OF restored(2) restored.IH])
qed (use created_store_ok genesis_store_ok in blast)+

text \<open>Blocks are written once, by every operation.\<close>

inductive store_step :: "int \<Rightarrow> store_db \<Rightarrow> store_db \<Rightarrow> bool" for chain where
  genesis_step: "initialize_genesis locked locked bh accounts fee = Inr (b, db') \<Longrightarrow> store_step chain locked db'"
| commit_step: "commit_finalized_block chain db locked h bh ph t c ts = Inr (b, db') \<Longrightarrow> store_step chain locked db'"
| restore_step: "restore_checkpoint chain db locked ms td tb = Inr (b, db') \<Longrightarrow> store_step chain locked db'"
| rollback_step: "rollback_to db h = Inr () \<Longrightarrow> store_step chain db db"
| reopen_step: "open_store chain db = Inr db' \<Longrightarrow> store_step chain db db'"

lemma dict_get_snoc: "dict_get d k = Some v \<Longrightarrow> dict_get (d @ [p]) k = Some v"
  by simp

lemma dict_get_append: "dict_get d k = Some v \<Longrightarrow> dict_get (d @ e) k = Some v"
  by (simp add: map_add_def)

lemma store_step_keeps:
  assumes "store_step chain db db'" "dict_get (blocks db) h = Some row"
  shows "dict_get (blocks db') h = Some row"
  using assms(1)
proof (cases rule: store_step.cases)
  case (genesis_step bh accounts fee b)
  then show ?thesis
    using assms(2) dict_get_append by (cases rule: initialize_genesis_Inr) (fastforce simp del: map_of_eq_Some_iff map_of_append)+
next
  case (commit_step d h' bh ph t c ts b)
  then show ?thesis
    using assms(2) dict_get_append by (cases rule: commit_Inr) (fastforce simp: committed_def simp del: map_of_eq_Some_iff map_of_append)
next
  case (restore_step d ms td tb b)
  then show ?thesis
    using assms(2) by (cases rule: restore_checkpoint_Inr) simp
next
  case rollback_step
  then show ?thesis
    using assms(2) by simp
next
  case reopen_step
  then have "blocks db' = blocks db"
    by (auto simp: open_store_def bind_chain_id_def if_Inl_Inr_iff split: option.splits)
  then show ?thesis
    using assms(2) by simp
qed

interpretation block_log: write_once "store_step chain" "\<lambda>db. dict_get (blocks db)" for chain
  by unfold_locales (rule store_step_keeps)

section \<open>Contiguous heights\<close>

lemma linked_heights: "linked h p xs \<Longrightarrow> xs \<noteq> [] \<Longrightarrow> fst ` set xs = {h..h + int (length xs) - 1}"
proof (induction xs arbitrary: h p)
  case (Cons x xs)
  have "fst ` set xs = {h + 1..h + int (length xs)}"
    using Cons.IH [of "h + 1" "br_block_hash (snd x)"] Cons.prems(1) by (cases "xs = []") auto
  then show ?case
    using Cons.prems(1) by auto
qed simp

lemma linked_rows: "linked h p xs \<Longrightarrow> x \<in> set xs \<Longrightarrow> row_ok x \<and> h \<le> fst x"
  by (induction xs arbitrary: h p) force+

lemma store_row_ok:
  assumes "store_ok chain db" "dict_get (blocks db) k = Some row"
  shows "row_ok (k, row)" "0 \<le> k" "br_finalized row" "sqlite_int k" "sqlite_int (br_base_fee row)" "sqlite_int (br_gas_used row)"
proof -
  have mem: "(k, row) \<in> set (blocks db)"
    using assms(2) by (rule map_of_SomeD)
  then obtain item items where rows: "rows_by_height db = item # items"
    by (cases "rows_by_height db") auto
  have "(k, row) \<in> set (item # items)"
    using mem by (simp flip: rows)
  moreover have "linked (fst item) (br_parent_hash (snd item)) (item # items)" "0 \<le> fst item"
    using assms(1) rows by (simp_all add: store_ok_def chain_ok_def)
  ultimately show "row_ok (k, row)" "0 \<le> k"
    using linked_rows [of "fst item" _ "item # items" "(k, row)"] by auto
  show "br_finalized row" "sqlite_int k" "sqlite_int (br_base_fee row)" "sqlite_int (br_gas_used row)"
    using assms(1) mem unfolding store_ok_def by force+
qed

section \<open>The exported checkpoint\<close>

definition checkpoint_doc :: "int \<Rightarrow> int \<times> block_row \<Rightarrow> accounts \<Rightarrow> (string \<times> json) list" where
  "checkpoint_doc chain item a =
     (let body = checkpoint_body_json chain item (JObj (map (map_prod id account_doc) a))
      in body @ [(''checkpoint_digest'', JStr (checkpoint_digest_of body))])"

lemma export_checkpoint_eq:
  assumes "dict_get (blocks db) k = Some row" "row_ok (k, row)" "snapshot_ok a" "accounts_text row = accounts_json a"
  shows "export_checkpoint chain db (Some k) = Inr (checkpoint_doc chain (k, row) a)"
proof -
  have "validate_stored_block_identity (k, row) = Inr ()"
    using assms(2) by (simp add: validate_identity_Inr row_ok_def Let_def)
  moreover have "decode_accounts_json (accounts_text row) = Inr a"
    using assms(3,4) by (simp add: decode_accounts_json_Inr)
  moreover have "compute_state_root a = br_state_root row"
    using assms(2-4) snapshot_text.enc_inject by (auto simp: row_ok_def Let_def)
  ultimately show ?thesis
    using assms(1) loads_accounts_json [OF assms(3)]
    by (simp add: export_checkpoint_def target_height_def checkpoint_doc_def assms(4) Let_def del: map_of_eq_Some_iff)
qed

lemma checkpoint_doc_fields:
  "json_keys (checkpoint_doc chain item a) = set checkpoint_fields"
  "json_without ''checkpoint_digest'' (checkpoint_doc chain item a) =
     checkpoint_body_json chain item (JObj (map (map_prod id account_doc) a))"
  "json_at (checkpoint_doc chain item a) ''schema_version'' = JStr ''junca-state-checkpoint/v1''"
  "json_at (checkpoint_doc chain item a) ''checkpoint_digest'' =
     JStr (checkpoint_digest_of (checkpoint_body_json chain item (JObj (map (map_prod id account_doc) a))))"
  "json_at (checkpoint_doc chain item a) ''finalized'' = JBool (br_finalized (snd item))"
  "json_at (checkpoint_doc chain item a) ''accounts'' = JObj (map (map_prod id account_doc) a)"
  "describes (checkpoint_doc chain (h, row) a) chain h row"
  by (auto simp: checkpoint_doc_def checkpoint_body_json_def json_keys_def checkpoint_fields_def json_without_def
      json_at_def describes_def Let_def)

lemma checkpoint_doc_accounts: "snapshot_ok a \<Longrightarrow> checkpoint_accounts (checkpoint_doc chain item a) = Inr a"
  by (simp add: checkpoint_accounts_def checkpoint_doc_fields decode_accounts_docs store_normalize_id loads_accounts_json)

lemma verify_checkpoint_doc:
  assumes "0 < chain" "0 \<le> h" "row_ok (h, row)" "br_finalized row" "snapshot_ok a" "accounts_text row = accounts_json a"
  shows "\<exists>evidence. verify_checkpoint (checkpoint_doc chain (h, row) a) = Inr evidence"
proof -
  let ?ms = "checkpoint_doc chain (h, row) a"
  have row: "lower_hash (br_block_hash row)" "lower_hash (br_parent_hash row)" "lower_hash (br_state_root row)"
      "evidence_ok h row" "0 < br_base_fee row" "0 \<le> br_gas_used row"
    using assms(3) by (simp_all add: row_ok_def Let_def)
  have root: "br_state_root row = compute_state_root a"
    using assms(3,5,6) snapshot_text.enc_inject by (auto simp: row_ok_def Let_def)
  have fields: "json_at ?ms ''chain_id'' = JInt chain" "json_at ?ms ''height'' = JInt h"
      "json_at ?ms ''block_hash'' = JStr (br_block_hash row)" "json_at ?ms ''parent_hash'' = JStr (br_parent_hash row)"
      "json_at ?ms ''state_root'' = JStr (br_state_root row)" "json_at ?ms ''base_fee_per_gas'' = JInt (br_base_fee row)"
      "json_at ?ms ''gas_used'' = JInt (br_gas_used row)"
      "json_at ?ms ''certificate_hash'' = opt_str_json (br_certificate_hash row)"
    using checkpoint_doc_fields(7) unfolding describes_def by blast+
  have ints: "checkpoint_int ?ms ''chain_id'' 1 = Inr chain" "checkpoint_int ?ms ''height'' 0 = Inr h"
      "checkpoint_int ?ms ''base_fee_per_gas'' 1 = Inr (br_base_fee row)" "checkpoint_int ?ms ''gas_used'' 0 = Inr (br_gas_used row)"
    using assms(1,2) row fields by (simp_all add: checkpoint_int_Inr)
  have hashes: "all_ok (check_field_hash ?ms) [''block_hash'', ''parent_hash'', ''state_root''] = Inr ()"
      "all_ok (check_field_lower ?ms) [''block_hash'', ''parent_hash'', ''state_root''] = Inr ()"
    using row(1-3) fields by (simp_all add: all_ok_Inr_iff check_field_hash_Inr check_field_lower_Inr lower_hash_def del: all_ok_simps)
  have certificate: "check_certificate_field ?ms h = Inr ()"
    using row(4) check_certificate_field_Inr [OF fields(4)] fields(8)
    by (auto simp: evidence_ok_def opt_str_json_def split: option.splits)
  have digest: "store_hash (JStr (checkpoint_digest_of b)) f = Inr (checkpoint_digest_of b)" "lower (checkpoint_digest_of b) = checkpoint_digest_of b"
    for b f
    by (simp_all add: store_hash_Inr checkpoint_digest_of_def)
  show ?thesis
    using assms(4) ints hashes certificate checkpoint_doc_accounts [OF assms(5)] fields(5) root
    unfolding verify_checkpoint_def checkpoint_doc_fields
    by (simp add: digest del: all_ok_simps)
qed

section \<open>Stored certificates\<close>

definition certificate_wf :: "finality_certificate \<Rightarrow> bool" where
  "certificate_wf c \<longleftrightarrow>
     0 < fc_chain_id c \<and> 0 < fc_height c \<and> 0 \<le> fc_round c \<and> 0 < fc_total_power c \<and>
     fc_signed_power c \<le> fc_total_power c \<and> 2 * fc_total_power c < 3 * fc_signed_power c \<and> is_hash32 (fc_block_hash c) \<and>
     fc_validator_ids c \<noteq> [] \<and> [] \<notin> set (fc_validator_ids c) \<and> sorted (fc_validator_ids c) \<and> distinct (fc_validator_ids c) \<and>
     length (fc_vote_hashes c) = length (fc_validator_ids c) \<and> (\<forall>v \<in> set (fc_vote_hashes c). is_hash32 v) \<and>
     certificate_hash c = certificate_digest (fc_chain_id c) (fc_height c) (fc_round c) (fc_block_hash c)
       (fc_signed_power c) (fc_total_power c) (fc_validator_ids c) (fc_vote_hashes c)"

lemma decode_ids_strings:
  assumes "ids \<noteq> []" "[] \<notin> set ids" "sorted ids" "distinct ids"
  shows "decode_ids (JArr (map JStr ids)) = Inr ids"
proof -
  have "\<not> sort_raises (map JStr ids)"
    by (auto simp: sort_raises_def list_ex_iff json_kind_def)
  moreover have "mapE decode_id (map JStr ids) = Inr ids"
    using assms(2) by (intro mapE_map_inverse) (auto simp: decode_id_def)
  moreover have "sorted_list_of_set (set ids) = ids"
    using assms(3,4) by (simp add: sorted_list_of_set.idem_if_sorted_distinct)
  ultimately show ?thesis
    using assms(1) by (simp add: decode_ids_def)
qed

lemma certificate_members:
  obtains ms where "certificate_as_evidence c = JObj ms" "dict_ok ms" "json_keys ms = set certificate_fields" "json_ok (JObj ms)"
    "json_at ms ''schema_version'' = JStr ''junca-finality-certificate/v1''" "json_at ms ''finality_status'' = JStr ''FINALIZED''"
    "json_at ms ''mainnet_changed'' = JBool False" "json_at ms ''assets_moved'' = JBool False"
    "json_at ms ''bridge_activated'' = JBool False" "json_at ms ''chain_id'' = JInt (fc_chain_id c)"
    "json_at ms ''height'' = JInt (fc_height c)" "json_at ms ''round'' = JInt (fc_round c)"
    "json_at ms ''signed_power'' = JInt (fc_signed_power c)" "json_at ms ''total_power'' = JInt (fc_total_power c)"
    "json_at ms ''validator_ids'' = JArr (map JStr (fc_validator_ids c))"
    "json_at ms ''vote_hashes'' = JArr (map JStr (fc_vote_hashes c))"
    "json_at ms ''block_hash'' = JStr (fc_block_hash c)" "json_at ms ''certificate_hash'' = JStr (certificate_hash c)"
proof (rule that)
  show "certificate_as_evidence c = JObj (case certificate_as_evidence c of JObj ms \<Rightarrow> ms | _ \<Rightarrow> [])"
    by (simp add: certificate_as_evidence_def)
  show "json_keys (case certificate_as_evidence c of JObj ms \<Rightarrow> ms | _ \<Rightarrow> []) = set certificate_fields"
    unfolding certificate_as_evidence_def json_keys_def certificate_fields_def by (simp add: insert_commute)
  have "distinct certificate_fields"
    by code_simp
  then show "dict_ok (case certificate_as_evidence c of JObj ms \<Rightarrow> ms | _ \<Rightarrow> [])"
    by (simp only: certificate_as_evidence_def json.case list.map fst_conv certificate_fields_def)
qed (simp_all add: certificate_as_evidence_def json_at_def list_all_iff)

lemma decode_certificate:
  assumes "certificate_wf c"
  shows "decode_finality_certificate (json_dumps (certificate_as_evidence c)) = Inr c"
proof -
  obtain ms where ms: "certificate_as_evidence c = JObj ms" "dict_ok ms" "json_keys ms = set certificate_fields" "json_ok (JObj ms)"
    "json_at ms ''schema_version'' = JStr ''junca-finality-certificate/v1''" "json_at ms ''finality_status'' = JStr ''FINALIZED''"
    "json_at ms ''mainnet_changed'' = JBool False" "json_at ms ''assets_moved'' = JBool False"
    "json_at ms ''bridge_activated'' = JBool False" "json_at ms ''chain_id'' = JInt (fc_chain_id c)"
    "json_at ms ''height'' = JInt (fc_height c)" "json_at ms ''round'' = JInt (fc_round c)"
    "json_at ms ''signed_power'' = JInt (fc_signed_power c)" "json_at ms ''total_power'' = JInt (fc_total_power c)"
    "json_at ms ''validator_ids'' = JArr (map JStr (fc_validator_ids c))"
    "json_at ms ''vote_hashes'' = JArr (map JStr (fc_vote_hashes c))"
    "json_at ms ''block_hash'' = JStr (fc_block_hash c)" "json_at ms ''certificate_hash'' = JStr (certificate_hash c)"
    by (rule certificate_members)
  obtain ms' where ms': "json_canon (JObj ms) = JObj ms'"
    by simp
  have keys: "json_keys ms' = set certificate_fields"
    using json_keys_canon [OF ms'] ms(3) by simp
  have at: "json_at ms' k = json_canon (json_at ms k)" if "k \<in> set certificate_fields" for k
    using json_at_canon [OF ms' ms(2)] ms(3) that by simp
  note fields = at [simplified certificate_fields_def]
  have loads: "json_loads (json_dumps (JObj ms)) = Some (JObj ms')"
    using json_loads_dumps [OF ms(4)] ms' by simp
  have hashes: "mapE (\<lambda>item. store_hash item ''stored certificate vote_hash'') (map JStr (fc_vote_hashes c)) = Inr (fc_vote_hashes c)"
    using assms by (intro mapE_map_inverse) (simp add: store_hash_Inr certificate_wf_def)
  have block: "store_hash (JStr (fc_block_hash c)) ''stored certificate block_hash'' = Inr (fc_block_hash c)"
    using assms by (simp add: store_hash_Inr certificate_wf_def)
  have digest: "store_hash (JStr (certificate_digest ch h r b sp tp is vs)) f = Inr (certificate_digest ch h r b sp tp is vs)"
    for ch h r b sp tp "is" vs f
    by (simp add: store_hash_Inr certificate_digest_def)
  have same: "certificate_digest (fc_chain_id c) (fc_height c) (fc_round c) (fc_block_hash c) (fc_signed_power c)
      (fc_total_power c) (fc_validator_ids c) (fc_vote_hashes c) = certificate_hash c"
    using assms by (simp add: certificate_wf_def)
  have whole: "\<lparr>fc_chain_id = fc_chain_id c, fc_height = fc_height c, fc_round = fc_round c, fc_block_hash = fc_block_hash c,
      fc_signed_power = fc_signed_power c, fc_total_power = fc_total_power c, fc_validator_ids = fc_validator_ids c,
      fc_vote_hashes = fc_vote_hashes c, certificate_hash = certificate_digest (fc_chain_id c) (fc_height c) (fc_round c)
        (fc_block_hash c) (fc_signed_power c) (fc_total_power c) (fc_validator_ids c) (fc_vote_hashes c)\<rparr> = c"
    by (simp add: same)
  have ids: "decode_ids (JArr (map JStr (fc_validator_ids c))) = Inr (fc_validator_ids c)"
    using assms by (intro decode_ids_strings) (auto simp: certificate_wf_def)
  have canon: "json_canon (JArr (map JStr ss)) = JArr (map JStr ss)" for ss
    by simp
  have signed: "0 < fc_signed_power c"
    using assms by (simp add: certificate_wf_def)
  show ?thesis
    using assms signed
    unfolding decode_finality_certificate_def ms(1) loads
    by (simp add: keys fields ms(5-18) canon ids block digest hashes whole decode_certificate_int_def certificate_wf_def
        del: json_canon.simps(5))
qed

section \<open>The properties of the store\<close>

lemma linked_first: "linked h p xs \<Longrightarrow> (h, row) \<in> set xs \<Longrightarrow> br_parent_hash row = p"
  by (cases xs) (auto dest: linked_rows)

lemma linked_parents:
  "linked h p xs \<Longrightarrow> (k, row) \<in> set xs \<Longrightarrow> (k - 1, parent) \<in> set xs \<Longrightarrow> br_parent_hash row = br_block_hash parent"
proof (induction xs arbitrary: h p)
  case (Cons x xs)
  then have tail: "linked (h + 1) (br_block_hash (snd x)) xs" "fst x = h"
    by simp_all
  consider "x = (k - 1, parent)" "(k, row) \<in> set xs" | "x = (k, row)" "(k - 1, parent) \<in> set xs"
    | "(k, row) \<in> set xs" "(k - 1, parent) \<in> set xs"
    using Cons.prems(2,3) by auto
  then show ?case
  proof cases
    case 1
    then show ?thesis
      using linked_first [of k _ xs row] tail by auto
  next
    case 2
    then show ?thesis
      using linked_rows [OF tail(1)] tail(2) by fastforce
  next
    case 3
    then show ?thesis
      using Cons.IH [OF tail(1)] by blast
  qed
qed simp

lemma commit_timestamp:
  assumes "commit_finalized_block chain db locked h bh ph t c (Some s) = Inr (b, db')"
  shows "block_timestamp db' h = Some s"
  using assms unfolding commit_finalized_block_def
  by (auto simp: bindE_Inr_iff if_Inl_Inr_iff insert_timestamp_Inr insert_certificate_Inr block_timestamp_def map_add_def
      simp del: map_of_eq_Some_iff)


text \<open>
  C34. A commit adds exactly one block, at the height after the locked head and with the locked head as
  its parent, together with a certificate for exactly this block with more than two thirds of the
  voting power, and keeps every other row; the new head and its accounts are those of the transition.
\<close>

theorem commit_extends:
  assumes "commit_finalized_block chain db locked h bh ph t c ts = Inr (b, db')"
    and "\<forall>item \<in> set (bt_accounts t). account_ok (snd item)"
  shows "\<exists>row n. blocks db' = blocks locked @ [(h, row)] \<and> metadata db' = metadata locked \<and>
      h = head_height locked + 1 \<and> head_height db' = h \<and> store_head db' = Inr b \<and> b = mk_stored_block (h, row) \<and>
      br_block_hash row = lower bh \<and> br_parent_hash row = lower ph \<and>
      (\<exists>parent. store_head locked = Inr parent \<and> sb_block_hash parent = br_parent_hash row) \<and>
      br_certificate_hash row = Some (certificate_hash c) \<and> fc_chain_id c = chain \<and> fc_height c = h \<and>
      fc_block_hash c = lower bh \<and> 2 * fc_total_power c < 3 * fc_signed_power c \<and>
      store_normalize (bt_accounts t) = Inr n \<and> br_state_root row = compute_state_root n \<and> accounts_at db' None = Inr n \<and>
      (\<forall>s. ts = Some s \<longrightarrow> block_timestamp db' h = Some s)"
  using assms(1)
proof (rule commit_Inr)
  fix n parent_row
  let ?row = "committed_row bh ph t c n"
  assume n: "check_commit chain db h bh ph t c ts = Inr n" "top_row locked = Some (h - 1, parent_row)"
    "br_block_hash parent_row = lower ph" "db' = committed locked h ?row c ts" "b = mk_stored_block (h, ?row)"
  note checked = check_commit_Inr [OF n(1)]
  have blocks: "blocks db' = blocks locked @ [(h, ?row)]" and rest: "metadata db' = metadata locked"
    by (simp_all add: n(4) committed_def)
  have above: "head_height locked < h" "head_height locked = h - 1"
    using top_row_greatest(3) [OF n(2)] by simp_all
  then have new: "head_height db' = h" "store_head db' = Inr b"
    using rows_snoc(3,4) [of locked h db' ?row] blocks n(5) by simp_all
  have "(h, row) \<notin> set (blocks locked)" for row
    using top_row_greatest(2) [OF n(2)] by fastforce
  then have "dict_get (blocks locked) h = None"
    by (force simp: map_of_eq_None_iff)
  then have "dict_get (blocks db') h = Some ?row"
    by (simp add: blocks map_add_def del: map_of_eq_Some_iff)
  then have "accounts_at db' None = Inr n"
    using new(1) store_normalize_ok [OF checked(9) assms(2)]
    by (simp add: accounts_at_def target_height_def committed_row_def decode_accounts_json_Inr del: map_of_eq_Some_iff)
  moreover have "block_timestamp db' h = Some s" if "ts = Some s" for s
    using assms(1) unfolding that by (rule commit_timestamp)
  moreover have "store_head locked = Inr (mk_stored_block (h - 1, parent_row))"
    by (simp add: store_head_def n(2))
  ultimately show ?thesis
    using blocks rest above new n(3,5) checked
    by (intro exI [of _ ?row] exI [of _ n]) (auto simp: committed_row_def mk_stored_block_def)
qed

section \<open>Permanence and checkpoints\<close>

text \<open>
  C12. A finalized block is permanent: over any history of commits, checkpoint restores, genesis
  initialisations, reopenings and accepted rollbacks, every stored height keeps its block, and every
  request to roll back below the head is refused.
\<close>

theorem finalized_blocks_permanent:
  assumes "(store_step chain)\<^sup>*\<^sup>* db db'" "get_block db h = Inr b"
  shows "get_block db' h = Inr b \<and> h \<le> head_height db' \<and>
    (h < head_height db' \<longrightarrow> rollback_to db' h = Inl (StateStoreError ''finalized block rollback is prohibited''))"
proof -
  obtain row where row: "dict_get (blocks db) h = Some row" "b = mk_stored_block (h, row)"
    using assms(2) by (cases "dict_get (blocks db) h") (simp_all add: get_block_def)
  have kept: "dict_get (blocks db') h = Some row"
    using assms(1) row(1) by (rule block_log.steps_keep)
  then have mem: "(h, row) \<in> set (blocks db')"
    by (rule map_of_SomeD)
  then obtain item where top: "top_row db' = Some item"
    by (cases "top_row db'") (auto simp: top_row_def split: if_splits)
  have "h \<le> head_height db'"
    using top_row_greatest(2) [OF top mem] top_row_greatest(3) [OF top] by simp
  moreover have "get_block db' h = Inr b"
    using kept row(2) by (simp add: get_block_def)
  ultimately show ?thesis
    by (simp add: rollback_to_def)
qed

lemma row_snapshot:
  assumes "row_ok (h, row)"
  obtains a where "snapshot_ok a" "accounts_text row = accounts_json a" "br_state_root row = compute_state_root a"
  using assms by (auto simp: row_ok_def Let_def)

lemma row_ok_without_receipts: "row_ok (h, row) \<Longrightarrow> row_ok (h, row\<lparr>receipts_text := ''[]''\<rparr>)"
  using empty_array_text by (auto simp: row_ok_def evidence_ok_def Let_def split: option.splits)

lemma restore_checkpoint_doc:
  assumes "0 < chain" "0 \<le> h" "row_ok (h, row)" "br_finalized row" "snapshot_ok a" "accounts_text row = accounts_json a"
    and "sqlite_int h" "sqlite_int (br_base_fee row)" "sqlite_int (br_gas_used row)" "blocks db0 = []"
  shows "restore_checkpoint chain db0 db0 (checkpoint_doc chain (h, row) a)
      (checkpoint_digest_of (checkpoint_body_json chain (h, row) (JObj (map (map_prod id account_doc) a)))) (br_block_hash row) =
    Inr (mk_stored_block (h, row), restored db0 h (row\<lparr>receipts_text := ''[]''\<rparr>))"
proof -
  let ?ms = "checkpoint_doc chain (h, row) a"
  let ?row = "row\<lparr>receipts_text := ''[]''\<rparr>"
  let ?digest = "checkpoint_digest_of (checkpoint_body_json chain (h, row) (JObj (map (map_prod id account_doc) a)))"
  obtain evidence where verified: "verify_checkpoint ?ms = Inr evidence"
    using verify_checkpoint_doc [OF assms(1-6)] by blast
  have fields: "describes ?ms chain h ?row"
    using checkpoint_doc_fields(7) [of chain h row a] by (simp add: describes_def)
  have hash: "is_hash32 (br_block_hash row)" "lower (br_block_hash row) = br_block_hash row"
    using assms(3) by (simp_all add: row_ok_def lower_hash_def Let_def)
  have digest: "json_at ?ms ''checkpoint_digest'' = JStr ?digest" "is_hash32 ?digest" "lower ?digest = ?digest"
    by (simp_all add: checkpoint_doc_fields checkpoint_digest_of_def)
  have block: "json_at ?ms ''block_hash'' = JStr (br_block_hash row)"
    using fields by (simp add: describes_def)
  have same: "mk_stored_block (h, ?row) = mk_stored_block (h, row)"
    by (simp add: mk_stored_block_def)
  show ?thesis
    using restore_checkpoint_eq [OF verified fields row_ok_without_receipts [OF assms(3)] _ _ _ checkpoint_doc_accounts [OF assms(5)] assms(10,10)]
      assms(4,6-9) hash digest block same by simp
qed

text \<open>
  C35. Checkpoints round-trip: every block of a reachable store can be exported, the document passes
  the verification, and restoring it into an empty store of the chain under its own digest and block
  hash gives a store with this block as its head, the same accounts and a passing integrity check.
\<close>

theorem checkpoint_roundtrip:
  assumes "store_reachable chain db" "dict_get (blocks db) h = Some row"
    and "store_reachable chain db0" "blocks db0 = []"
  shows "\<exists>ms digest db'. export_checkpoint chain db (Some h) = Inr ms \<and> (\<exists>evidence. verify_checkpoint ms = Inr evidence) \<and>
    json_at ms ''checkpoint_digest'' = JStr digest \<and>
    restore_checkpoint chain db0 db0 ms digest (br_block_hash row) = Inr (mk_stored_block (h, row), db') \<and>
    store_head db' = get_block db h \<and> accounts_at db' None = accounts_at db (Some h) \<and>
    (\<exists>evidence. integrity_check chain db' = Inr evidence)"
proof -
  have ok: "store_ok chain db"
    by (rule store_reachable_ok [OF assms(1)])
  note row = store_row_ok [OF ok assms(2)]
  have chain: "0 < chain"
    using ok by (simp add: store_ok_def)
  obtain a where a: "snapshot_ok a" "accounts_text row = accounts_json a"
    using row(1) by (rule row_snapshot)
  let ?ms = "checkpoint_doc chain (h, row) a"
  let ?row = "row\<lparr>receipts_text := ''[]''\<rparr>"
  let ?db = "restored db0 h ?row"
  have export: "export_checkpoint chain db (Some h) = Inr ?ms"
    by (rule export_checkpoint_eq [OF assms(2) row(1) a])
  have verified: "\<exists>evidence. verify_checkpoint ?ms = Inr evidence"
    by (rule verify_checkpoint_doc [OF chain row(2,1,3) a])
  note restore = restore_checkpoint_doc [OF chain row(2,1,3) a row(4-6) assms(4)]
  have "store_reachable chain ?db"
    by (rule store_reachable.restored [OF assms(3) restore])
  then have "\<exists>evidence. integrity_check chain ?db = Inr evidence"
    by (intro integrity_of_chain) (use store_reachable_ok in \<open>auto simp: store_ok_def restored_def\<close>)
  moreover have "store_head ?db = Inr (mk_stored_block (h, row))" "head_height ?db = h" "dict_get (blocks ?db) h = Some ?row"
    by (simp_all add: store_head_def top_row_def rows_by_height_def restored_def head_height_def mk_stored_block_def)
  moreover from this have "accounts_at ?db None = accounts_at db (Some h)"
    using assms(2) by (simp add: accounts_at_def target_height_def del: map_of_eq_Some_iff)
  moreover have "get_block db h = Inr (mk_stored_block (h, row))"
    using assms(2) by (simp add: get_block_def del: map_of_eq_Some_iff)
  ultimately show ?thesis
    using export verified checkpoint_doc_fields(4) restore by metis
qed

definition checkpoint_text :: "(string \<times> json) list \<Rightarrow> bytes" where
  "checkpoint_text ms = ''JUNCA_STATE_CHECKPOINT_V1'' @ [CHR 0x00] @ encode (json_dumps (JObj (json_without ''checkpoint_digest'' ms)))"

lemma json_at_without: "k \<noteq> d \<Longrightarrow> json_at (json_without d ms) k = json_at ms k"
  by (induction ms) (auto simp: json_without_def json_at_def)

lemma same_body_fields:
  assumes "json_canon (JObj (json_without d ms)) = json_canon (JObj (json_without d ms'))" "dict_ok ms" "dict_ok ms'"
    and "k \<noteq> d" "k \<in> json_keys ms" "k \<in> json_keys ms'"
  shows "json_canon (json_at ms k) = json_canon (json_at ms' k)"
proof -
  obtain ns where ns: "json_canon (JObj (json_without d ms)) = JObj ns"
    by simp
  have "dict_ok (json_without d ms)" "k \<in> json_keys (json_without d ms)"
    using assms(2-6) by (auto simp: json_without_def json_keys_def distinct_map_filter)
  from json_at_canon [OF ns this] have "json_at ns k = json_canon (json_at ms k)"
    by (simp add: json_at_without [OF assms(4)])
  moreover have "dict_ok (json_without d ms')" "k \<in> json_keys (json_without d ms')"
    using assms(2-6) by (auto simp: json_without_def json_keys_def distinct_map_filter)
  from json_at_canon [OF ns [unfolded assms(1)] this] have "json_at ns k = json_canon (json_at ms' k)"
    by (simp add: json_at_without [OF assms(4)])
  ultimately show ?thesis
    by simp
qed

text \<open>
  A restore is bound to its anchors: two documents restored under the same trusted digest have the
  same content and give the same head block, or their canonical texts are a collision of SHA-256.
\<close>

theorem restore_anchored:
  assumes "restore_checkpoint chain db locked ms digest block = Inr (b, d)"
    and "restore_checkpoint chain db' locked' ms' digest block' = Inr (b', d')"
    and "json_ok (JObj ms)" "json_ok (JObj ms')"
  shows "b = b' \<and> json_canon (JObj (json_without ''checkpoint_digest'' ms)) = json_canon (JObj (json_without ''checkpoint_digest'' ms')) \<or>
    checkpoint_text ms \<noteq> checkpoint_text ms' \<and> sha256 (checkpoint_text ms) = sha256 (checkpoint_text ms')"
proof (rule restore_checkpoint_Inr [OF assms(1)], rule restore_checkpoint_Inr [OF assms(2)])
  fix h row a h' row' a'
  assume 1: "describes ms chain h row" "br_finalized row" "b = mk_stored_block (h, row)"
    "json_at ms ''checkpoint_digest'' = JStr (lower digest)"
    "json_at ms ''checkpoint_digest'' = JStr (checkpoint_digest_of (json_without ''checkpoint_digest'' ms))"
  assume 2: "describes ms' chain h' row'" "br_finalized row'" "b' = mk_stored_block (h', row')"
    "json_at ms' ''checkpoint_digest'' = JStr (lower digest)"
    "json_at ms' ''checkpoint_digest'' = JStr (checkpoint_digest_of (json_without ''checkpoint_digest'' ms'))"
  have "digest0x (checkpoint_text ms) = lower digest" "digest0x (checkpoint_text ms') = lower digest"
    using 1(4,5) 2(4,5) unfolding checkpoint_digest_of_def checkpoint_text_def by (metis json.inject(3))+
  then have sha: "sha256 (checkpoint_text ms) = sha256 (checkpoint_text ms')"
    by (metis digest0x_def sha256_hex_def same_append_eq hex_of_inject)
  show ?thesis
  proof (cases "checkpoint_text ms = checkpoint_text ms'")
    case True
    have "json_ok (JObj (json_without ''checkpoint_digest'' xs))" if "json_ok (JObj xs)" for xs
      using that by (auto simp: json_without_def distinct_map_filter list_all_iff)
    then have body: "json_canon (JObj (json_without ''checkpoint_digest'' ms)) = json_canon (JObj (json_without ''checkpoint_digest'' ms'))"
      using True json_dumps_inject [of "JObj (json_without ''checkpoint_digest'' ms)" "JObj (json_without ''checkpoint_digest'' ms')"]
        assms(3,4) unfolding checkpoint_text_def encode_dumps same_append_eq by blast
    have keys: "json_keys ms = set checkpoint_fields" "json_keys ms' = set checkpoint_fields"
      using assms(1,2) by (auto simp: restore_checkpoint_def verify_checkpoint_def bindE_Inr_iff if_Inl_Inr_iff)
    have "json_canon (json_at ms k) = json_canon (json_at ms' k)" if "k \<in> set checkpoint_fields" "k \<noteq> ''checkpoint_digest''" for k
      using same_body_fields [OF body _ _ that(2)] assms(3,4) that(1) keys by simp
    note same = this [of "''height''"] this [of "''block_hash''"] this [of "''parent_hash''"] this [of "''state_root''"]
      this [of "''base_fee_per_gas''"] this [of "''gas_used''"] this [of "''certificate_hash''"]
    have "opt_str_json c = opt_str_json c' \<longleftrightarrow> c = c'" "json_canon (opt_str_json c) = opt_str_json c" for c c'
      by (auto simp: opt_str_json_def split: option.splits)
    then have "b = b'"
      using same 1(1-3) 2(1-3) by (simp add: describes_def mk_stored_block_def checkpoint_fields_def)
    then show ?thesis
      using body by blast
  qed (use sha in blast)
qed

section \<open>The recovered certificate\<close>

text \<open>
  The certificate a store returns for its head after a commit is the one the block was committed
  with: its stored text is read back to the same certificate.
\<close>

theorem latest_certificate_roundtrip:
  assumes "commit_finalized_block chain db locked h bh ph t c ts = Inr (b, db')" "certificate_wf c"
    and "store_reachable chain locked"
  shows "latest_finality_certificate chain db' = Inr (Some c)"
  using assms(1)
proof (rule commit_Inr)
  fix n parent_row
  let ?row = "committed_row bh ph t c n"
  assume n: "check_commit chain db h bh ph t c ts = Inr n" "top_row locked = Some (h - 1, parent_row)"
    "db' = committed locked h ?row c ts"
  note checked = check_commit_Inr [OF n(1)]
  have "head_height locked < h"
    using top_row_greatest(3) [OF n(2)] by simp
  then have top: "top_row db' = Some (h, ?row)"
    using rows_snoc(2) [of locked h db' ?row] n(3) by (simp add: committed_def)
  have "fst ` set (certificate_texts locked) \<subseteq> fst ` set (blocks locked)"
    using store_reachable_ok [OF assms(3)] by (simp add: store_ok_def)
  moreover have "h \<notin> fst ` set (blocks locked)"
    using top_row_greatest(2) [OF n(2)] by fastforce
  ultimately have "dict_get (certificate_texts locked) h = None"
    by (auto simp: map_of_eq_None_iff)
  then have "dict_get (certificate_texts db') h = Some (json_dumps (certificate_as_evidence c))"
    by (simp add: n(3) committed_def map_add_def del: map_of_eq_Some_iff)
  then show ?thesis
    using top checked(1,4,5,7) decode_certificate [OF assms(2)]
    by (simp add: latest_finality_certificate_def committed_row_def del: map_of_eq_Some_iff)
qed

section \<open>A genesis block under a checkpoint\<close>

text \<open>
  A store that was restored from a checkpoint above height 1 accepts the initialisation of a
  genesis block: it returns the checkpoint block, inserts a second base below it and the store then
  fails its own integrity check.
\<close>

theorem genesis_after_restore:
  assumes "restore_checkpoint chain db locked ms digest block = Inr (b, db1)" "1 < sb_height b"
    and "initialize_genesis db1 db1 bh accounts fee = Inr (g, db2)" "\<forall>item \<in> set accounts. account_ok (snd item)"
  shows "g = b \<and> fst ` set (blocks db2) = {0, sb_height b} \<and>
    integrity_check chain db2 = Inl (StateStoreError ''block heights are not contiguous'')"
proof (rule restore_checkpoint_Inr [OF assms(1)])
  fix h row
  assume r: "b = mk_stored_block (h, row)" "db1 = restored locked h row"
  have h: "1 < h" "sb_height b = h"
    using assms(2) by (simp_all add: r(1) mk_stored_block_def)
  have none: "dict_get (blocks db1) 0 = None"
    using h by (simp add: r(2) restored_def)
  show ?thesis
    using assms(3)
  proof (cases rule: initialize_genesis_Inr)
    case (inserted n row0)
    have blocks: "blocks db2 = [(h, row), (0, row0)]" "dict_get (metadata db2) ''base_height'' = Some (int_str 0)"
      by (simp_all add: inserted(7) r(2) restored_def int_str_0)
    then have rows: "rows_by_height db2 = [(0, row0), (h, row)]"
      using h(1) by (simp add: rows_by_height_def)
    have "row_ok (0, row0)"
      using inserted(3-5) store_normalize_ok [OF inserted(3) assms(4)] empty_array_text
      by (auto simp: row_ok_def inserted(6) evidence_ok_def lower_hash_lower)
    then have "check_row (0, zero_hash32) (0, row0) = Inr (1, br_block_hash row0)"
      by (simp add: check_row_Inr inserted(6))
    moreover have "check_row (1, br_block_hash row0) (h, row) = Inl (StateStoreError ''block heights are not contiguous'')"
      using h(1) by (simp add: check_row_def)
    moreover have "check_base_height db2 0 = Inr ()"
      by (rule base_height_checked [OF _ blocks(2)]) simp
    moreover have "store_hash (JStr zero_hash32) ''base parent_hash'' = Inr zero_hash32"
      using zero_hash32_lower by (simp add: store_hash_Inr lower_hash_def)
    moreover have "br_parent_hash row0 = zero_hash32"
      by (simp add: inserted(6))
    ultimately have "integrity_check chain db2 = Inl (StateStoreError ''block heights are not contiguous'')"
      by (simp add: integrity_check_def rows)
    moreover have "store_head db2 = Inr b"
      using rows by (simp add: store_head_def top_row_def blocks(1) r(1))
    then have "g = b"
      using assms(3) none inserted(7) unfolding initialize_genesis_def
      by (auto simp: bindE_Inr_iff if_Inl_Inr_iff insert_block_Inr inserted(6) store_hash_Inr Let_def int_str_0)
    ultimately show ?thesis
      using blocks(1) h(2) by auto
  qed (use none in simp)
qed

section \<open>A sample store\<close>

definition fresh_store :: store_db where
  "fresh_store = empty_store_db\<lparr>metadata := [(''chain_id'', ''7'')]\<rparr>"

definition genesis_row :: block_row where
  "genesis_row = \<lparr>br_block_hash = block_x, br_parent_hash = zero_hash32, br_state_root = compute_state_root [],
     br_base_fee = 5, br_gas_used = 0, br_finalized = True, br_certificate_hash = None,
     accounts_text = accounts_json [], receipts_text = ''[]''\<rparr>"

definition genesis_store :: store_db where
  "genesis_store = fresh_store\<lparr>blocks := [(0, genesis_row)], metadata := [(''chain_id'', ''7''), (''base_height'', ''0'')]\<rparr>"

definition sample_transition :: block_transition where
  "sample_transition = \<lparr>bt_chain_id = 7, base_fee_per_gas = 5, gas_used = 0, total_base_fee_burned = 0,
     total_validator_tips = 0, state_root = compute_state_root [], bt_accounts = [], receipts = []\<rparr>"

definition sample_certificate :: finality_certificate where
  "sample_certificate = \<lparr>fc_chain_id = 7, fc_height = 1, fc_round = 0, fc_block_hash = block_y, fc_signed_power = 3,
     fc_total_power = 3, fc_validator_ids = [''v1''], fc_vote_hashes = [block_x],
     certificate_hash = certificate_digest 7 1 0 block_y 3 3 [''v1''] [block_x]\<rparr>"

definition sample_row :: block_row where
  "sample_row = committed_row block_y block_x sample_transition sample_certificate []"

definition sample_store :: store_db where
  "sample_store = committed genesis_store 1 sample_row sample_certificate (Some 99)"

lemma fresh_store_opened: "open_store 7 empty_store_db = Inr fresh_store"
  by code_simp

lemma empty_normal: "store_normalize [] = Inr []" "snapshot_ok []"
  by (simp_all add: store_normalize_def snapshot_ok_def)

lemma hash_check: "is_hash32 s \<Longrightarrow> store_hash (JStr s) f = Inr s"
  by (simp add: store_hash_Inr)

lemma sample_ints: "sqlite_int 0" "sqlite_int 1" "sqlite_int 2" "sqlite_int 5" "sqlite_int 99"
  by (simp_all add: sqlite_int_def)

lemma genesis_initialized: "initialize_genesis fresh_store fresh_store block_x [] 5 = Inr (mk_stored_block (0, genesis_row), genesis_store)"
  by (simp add: initialize_genesis_def hash_check sample_blocks empty_normal insert_block_def sample_ints Let_def
      fresh_store_def empty_store_db_def genesis_store_def genesis_row_def store_head_def top_row_def rows_by_height_def)

lemma sample_committed:
  "commit_finalized_block 7 genesis_store genesis_store 1 block_y block_x sample_transition sample_certificate (Some 99) =
     Inr (mk_stored_block (1, sample_row), sample_store)"
  by (simp add: commit_finalized_block_def check_commit_def hash_check sample_blocks empty_normal insert_block_def
      insert_timestamp_def insert_certificate_def sample_ints genesis_store_def genesis_row_def sample_store_def
      sample_row_def sample_transition_def sample_certificate_def committed_def committed_row_def fresh_store_def
      empty_store_db_def store_head_def top_row_def rows_by_height_def head_height_def mk_stored_block_def)

lemma sample_executed: "executed sample_transition sample_certificate"
  by (simp add: executed_def sample_transition_def sample_certificate_def certificate_digest_def lower_hash_def)

lemma fresh_store_reachable: "store_reachable 7 fresh_store"
  by (rule store_reachable.created [OF fresh_store_opened])

lemma genesis_store_reachable: "store_reachable 7 genesis_store"
  using store_reachable.genesis [OF fresh_store_reachable fresh_store_reachable genesis_initialized]
  by (simp add: fresh_store_def empty_store_db_def)

lemma sample_store_reachable: "store_reachable 7 sample_store"
  by (rule store_reachable.committed [OF genesis_store_reachable sample_committed sample_executed])

lemma sample_blocks_stored: "blocks sample_store = [(0, genesis_row), (1, sample_row)]"
  by (simp add: sample_store_def committed_def genesis_store_def)


lemma commit_extends_witness: "head_height sample_store = 1 \<and> block_timestamp sample_store 1 = Some 99"
  using commit_extends [OF sample_committed] by (simp add: sample_transition_def del: map_of_eq_Some_iff) blast

lemma finalized_blocks_permanent_witness:
  "get_block sample_store 0 = Inr (mk_stored_block (0, genesis_row)) \<and>
   rollback_to sample_store 0 = Inl (StateStoreError ''finalized block rollback is prohibited'')"
proof -
  have "(store_step 7)\<^sup>*\<^sup>* genesis_store sample_store"
    by (rule r_into_rtranclp, rule store_step.commit_step [OF sample_committed])
  moreover have "get_block genesis_store 0 = Inr (mk_stored_block (0, genesis_row))"
    by (simp add: get_block_def genesis_store_def)
  moreover have "head_height sample_store = 1"
    by (simp add: head_height_def sample_blocks_stored)
  ultimately show ?thesis
    using finalized_blocks_permanent [of 7 genesis_store sample_store 0] by simp
qed

lemma checkpoint_roundtrip_witness:
  "\<exists>ms digest db'. export_checkpoint 7 sample_store (Some 1) = Inr ms \<and>
     restore_checkpoint 7 fresh_store fresh_store ms digest (br_block_hash sample_row) = Inr (mk_stored_block (1, sample_row), db')"
  using checkpoint_roundtrip [OF sample_store_reachable _ fresh_store_reachable, of 1 sample_row]
  by (fastforce simp: sample_blocks_stored fresh_store_def empty_store_db_def)

lemma sample_row_ok: "row_ok (1, sample_row)" "row_ok (2, sample_row)"
proof -
  have "row_ok (1, sample_row)"
    using store_row_ok(1) [OF store_reachable_ok [OF sample_store_reachable], of 1 sample_row] by (simp add: sample_blocks_stored)
  then show "row_ok (1, sample_row)" "row_ok (2, sample_row)"
    by (simp_all add: row_ok_def evidence_ok_def sample_row_def committed_row_def Let_def)
qed

definition sample_checkpoint :: "int \<Rightarrow> (string \<times> json) list" where
  "sample_checkpoint h = checkpoint_doc 7 (h, sample_row) []"

definition sample_digest :: "int \<Rightarrow> string" where
  "sample_digest h = checkpoint_digest_of (checkpoint_body_json 7 (h, sample_row) (JObj []))"

definition restored_store :: "int \<Rightarrow> store_db" where
  "restored_store h = restored fresh_store h (sample_row\<lparr>receipts_text := ''[]''\<rparr>)"

lemma sample_restored:
  assumes "h \<in> {1, 2}"
  shows "restore_checkpoint 7 fresh_store fresh_store (sample_checkpoint h) (sample_digest h) block_y =
     Inr (mk_stored_block (h, sample_row), restored_store h)"
proof -
  have "br_block_hash sample_row = block_y" "accounts_text sample_row = accounts_json []" "br_finalized sample_row"
      "br_base_fee sample_row = 5" "br_gas_used sample_row = 0"
    by (simp_all add: sample_row_def committed_row_def sample_blocks sample_transition_def)
  then show ?thesis
    using restore_checkpoint_doc [of 7 h sample_row "[]" fresh_store] assms sample_row_ok empty_normal sample_ints
    by (auto simp: sample_checkpoint_def sample_digest_def restored_store_def fresh_store_def empty_store_db_def)
qed

lemma restore_anchored_witness:
  "restore_checkpoint 7 fresh_store fresh_store (sample_checkpoint 1) (sample_digest 1) block_y =
     Inr (mk_stored_block (1, sample_row), restored_store 1) \<and>
   (mk_stored_block (1, sample_row) = mk_stored_block (1, sample_row) \<or>
    sha256 (checkpoint_text (sample_checkpoint 1)) = sha256 (checkpoint_text (sample_checkpoint 1)))"
proof -
  have "json_ok (JObj (sample_checkpoint 1))"
    by (simp add: sample_checkpoint_def checkpoint_doc_def checkpoint_body_json_def opt_str_json_def sample_row_def
        committed_row_def Let_def)
  then show ?thesis
    using restore_anchored [OF sample_restored sample_restored] sample_restored [of 1] by blast
qed

lemma latest_certificate_roundtrip_witness: "latest_finality_certificate 7 sample_store = Inr (Some sample_certificate)"
proof (rule latest_certificate_roundtrip [OF sample_committed _ genesis_store_reachable])
  show "certificate_wf sample_certificate"
    by (simp add: certificate_wf_def sample_certificate_def sample_blocks)
qed

lemma genesis_after_restore_witness:
  "\<exists>g db2. initialize_genesis (restored_store 2) (restored_store 2) block_x [] 5 = Inr (g, db2) \<and>
     integrity_check 7 db2 = Inl (StateStoreError ''block heights are not contiguous'')"
proof -
  have "br_block_hash sample_row = block_y"
    by (simp add: sample_row_def committed_row_def sample_blocks)
  then have "\<exists>g db2. initialize_genesis (restored_store 2) (restored_store 2) block_x [] 5 = Inr (g, db2)"
    using sample_blocks
    by (simp add: initialize_genesis_def hash_check empty_normal insert_block_def sample_ints restored_store_def restored_def
        store_head_def top_row_def Let_def)
  then obtain g db2 where init: "initialize_genesis (restored_store 2) (restored_store 2) block_x [] 5 = Inr (g, db2)"
    by blast
  then show ?thesis
    using genesis_after_restore [OF sample_restored _ init] by (auto simp: mk_stored_block_def)
qed

end
