(* ===== verification/Channel.thy ===== *)
theory Channel
  imports Main
begin

text \<open>
  The interface of an ordered channel between two ends: whatever the sending end turns into a frame,
  the receiving end that is in step with it turns back into the message, and the two ends stay in step.
  Sequences of messages then arrive complete and in order. \<open>WireProtocol\<close> interprets the locale with
  the two sessions of a pair of peers.
\<close>

text \<open>A stateful operation applied to a list, stopping at the first failure.\<close>

fun run_all :: "('s \<Rightarrow> 'm \<Rightarrow> ('o \<times> 's) option) \<Rightarrow> 's \<Rightarrow> 'm list \<Rightarrow> ('o list \<times> 's) option" where
  "run_all f s [] = Some ([], s)"
| "run_all f s (m # ms) =
     (case f s m of
        None \<Rightarrow> None
      | Some (x, s') \<Rightarrow> map_option (\<lambda>(xs, t). (x # xs, t)) (run_all f s' ms))"

lemma run_all_Cons_Some:
  "run_all f s (m # ms) = Some (ys, t) \<longleftrightarrow>
     (\<exists>x s' xs. f s m = Some (x, s') \<and> run_all f s' ms = Some (xs, t) \<and> ys = x # xs)"
  by (auto split: option.splits)

locale ordered_channel =
  fixes transmit :: "'s \<Rightarrow> 'm \<Rightarrow> ('f \<times> 's) option" and accept :: "'r \<Rightarrow> 'f \<Rightarrow> ('n \<times> 'r) option"
    and in_step :: "'s \<Rightarrow> 'r \<Rightarrow> bool" and good :: "'m \<Rightarrow> bool" and norm :: "'m \<Rightarrow> 'n"
  assumes transfer: "in_step s r \<Longrightarrow> good m \<Longrightarrow> transmit s m = Some (f, s') \<Longrightarrow>
    \<exists>r'. accept r f = Some (norm m, r') \<and> in_step s' r'"
begin

lemma transfer_all:
  "in_step s r \<Longrightarrow> (\<And>m. m \<in> set ms \<Longrightarrow> good m) \<Longrightarrow> run_all transmit s ms = Some (fs, s') \<Longrightarrow>
     \<exists>r'. run_all accept r fs = Some (map norm ms, r') \<and> in_step s' r'"
proof (induction ms arbitrary: s r fs)
  case (Cons m ms)
  obtain f s1 gs where send: "transmit s m = Some (f, s1)" "run_all transmit s1 ms = Some (gs, s')" "fs = f # gs"
    using Cons.prems(3) unfolding run_all_Cons_Some by blast
  obtain r1 where r1: "accept r f = Some (norm m, r1)" "in_step s1 r1"
    using transfer [OF Cons.prems(1) _ send(1)] Cons.prems(2) by auto
  show ?case
    using Cons.IH [OF r1(2) _ send(2)] Cons.prems(2) r1(1) send(3) by fastforce
qed auto

end

end
