(* ===== verification/WireProtocol.thy ===== *)
theory WireProtocol
  imports Codec Channel
begin

text \<open>
  \<open>wire_protocol.py\<close>: frames, the authenticated session of two peers, and the validation of every
  message. Payloads are JSON documents; a constructor that checks the types of its arguments takes
  JSON values. A session changes only where \<open>send\<close> and \<open>receive\<close> return, so both give a session with
  their result. The signer and the verifier are callbacks that may raise.

  The body of a frame is a list of bytes. A body that is not ASCII is never canonical; the code rejects
  it with one of two messages, depending on the encoding that \<open>json.loads\<close> detects, where the model
  reads the bytes as code points.
\<close>

section \<open>Bounds\<close>

definition MAX_FRAME_BYTES :: nat where "MAX_FRAME_BYTES = 2097152"
definition MAX_BLOCK_RANGE :: nat where "MAX_BLOCK_RANGE = 512"
definition MAX_SNAPSHOT_CHUNKS :: nat where "MAX_SNAPSHOT_CHUNKS = 4096"
definition MAX_SNAPSHOT_TOTAL_BYTES :: nat where "MAX_SNAPSHOT_TOTAL_BYTES = 67108864"
definition MAX_SIGNATURE_BYTES :: nat where "MAX_SIGNATURE_BYTES = 512"
definition MAX_SEQUENCE :: int where "MAX_SEQUENCE = 9223372036854775807"
definition PROTOCOL_VERSION :: int where "PROTOCOL_VERSION = 1"

section \<open>Canonical values\<close>

datatype message_type =
    HELLO | STATUS | GET_BLOCK_RANGE | BLOCK_RANGE | GET_SNAPSHOT | SNAPSHOT_MANIFEST | PING | PONG

definition message_types :: "(string \<times> message_type) list" where
  "message_types = [(''HELLO'', HELLO), (''STATUS'', STATUS), (''GET_BLOCK_RANGE'', GET_BLOCK_RANGE),
     (''BLOCK_RANGE'', BLOCK_RANGE), (''GET_SNAPSHOT'', GET_SNAPSHOT), (''SNAPSHOT_MANIFEST'', SNAPSHOT_MANIFEST),
     (''PING'', PING), (''PONG'', PONG)]"

fun type_value :: "message_type \<Rightarrow> string" where
  "type_value HELLO = ''HELLO''"
| "type_value STATUS = ''STATUS''"
| "type_value GET_BLOCK_RANGE = ''GET_BLOCK_RANGE''"
| "type_value BLOCK_RANGE = ''BLOCK_RANGE''"
| "type_value GET_SNAPSHOT = ''GET_SNAPSHOT''"
| "type_value SNAPSHOT_MANIFEST = ''SNAPSHOT_MANIFEST''"
| "type_value PING = ''PING''"
| "type_value PONG = ''PONG''"

definition wire_canonical :: "json \<Rightarrow> bytes" where
  "wire_canonical v = encode (json_dumps v)"

definition wire_hash :: "json \<Rightarrow> string \<Rightarrow> string result" where
  "wire_hash v field =
     (case v of
        JStr s \<Rightarrow>
          if length s \<noteq> 66 \<or> \<not> starts_with ''0x'' s
          then Inl (WireProtocolError (field @ '' must be a 32-byte hex value''))
          else if \<not> int16_ok (drop 2 s)
          then Inl (WireProtocolError (field @ '' must be a 32-byte hex value''))
          else Inr s
      | _ \<Rightarrow> Inl (WireProtocolError (field @ '' must be a 32-byte hex value'')))"

definition canonical_hash :: "json \<Rightarrow> string \<Rightarrow> string result" where
  "canonical_hash v field =
     bindE (wire_hash v field) (\<lambda>s.
     if s \<noteq> lower s then Inl (WireProtocolError (field @ '' must use canonical lowercase hex'')) else Inr s)"

text \<open>An integer that is not a bool and at least a bound.\<close>

definition int_at_least :: "int \<Rightarrow> json \<Rightarrow> exn \<Rightarrow> int result" where
  "int_at_least least v e = (case v of JInt i \<Rightarrow> if i < least then Inl e else Inr i | _ \<Rightarrow> Inl e)"

section \<open>Handshakes\<close>

record handshake =
  node_id :: string
  hs_chain_id :: int
  genesis_hash :: string
  session_nonce :: string
  protocol_version :: int
  capabilities :: "string list"

text \<open>\<open>str.isalnum\<close> for one character of Latin-1.\<close>

definition is_alnum :: "char \<Rightarrow> bool" where
  "is_alnum c =
     (let n = (of_char c :: nat)
      in (48 \<le> n \<and> n \<le> 57) \<or> (65 \<le> n \<and> n \<le> 90) \<or> (97 \<le> n \<and> n \<le> 122) \<or>
         n \<in> {170, 178, 179, 181, 185, 186, 188, 189, 190} \<or> (192 \<le> n \<and> n \<noteq> 215 \<and> n \<noteq> 247))"

definition capability_ok :: "json \<Rightarrow> bool" where
  "capability_ok v =
     (case v of
        JStr s \<Rightarrow>
          let t = filter (\<lambda>c. c \<noteq> CHR ''_'') s
          in s \<noteq> [] \<and> length s \<le> 64 \<and> t \<noteq> [] \<and> list_all is_alnum t
      | _ \<Rightarrow> False)"

definition node_id_ok :: "json \<Rightarrow> bool" where
  "node_id_ok v =
     (case v of
        JStr s \<Rightarrow> s \<noteq> [] \<and> length (encode s) \<le> 128 \<and> strip s = s \<and> \<not> list_ex (\<lambda>c. (of_char c :: nat) < 33) s
      | _ \<Rightarrow> False)"

definition text_of :: "json \<Rightarrow> string" where
  "text_of v = (case v of JStr s \<Rightarrow> s | _ \<Rightarrow> [])"

definition mk_handshake :: "json \<Rightarrow> json \<Rightarrow> json \<Rightarrow> json \<Rightarrow> json \<Rightarrow> json list \<Rightarrow> handshake result" where
  "mk_handshake node chain genesis nonce version caps =
     (if \<not> node_id_ok node then Inl (WireProtocolError ''node_id is required and bounded'')
      else
        bindE (int_at_least 1 chain (WireProtocolError ''unsupported handshake protocol identity'')) (\<lambda>chain_id.
        if version \<noteq> JInt PROTOCOL_VERSION
        then Inl (WireProtocolError ''unsupported handshake protocol identity'')
        else
          bindE (canonical_hash genesis ''genesis_hash'') (\<lambda>genesis_hash.
          bindE (canonical_hash nonce ''session_nonce'') (\<lambda>session_nonce.
          if caps = [] \<or> 32 < length caps \<or> \<not> list_all capability_ok caps \<or>
             sorted_list_of_set (set (map text_of caps)) \<noteq> map text_of caps
          then Inl (WireProtocolError ''capabilities must be unique and canonically ordered'')
          else Inr \<lparr>node_id = text_of node, hs_chain_id = chain_id, genesis_hash = genesis_hash,
                 session_nonce = session_nonce, protocol_version = PROTOCOL_VERSION,
                 capabilities = map text_of caps\<rparr>))))"

definition handshake_payload :: "handshake \<Rightarrow> (string \<times> json) list" where
  "handshake_payload h =
     [(''node_id'', JStr (node_id h)),
      (''chain_id'', JInt (hs_chain_id h)),
      (''genesis_hash'', JStr (lower (genesis_hash h))),
      (''session_nonce'', JStr (lower (session_nonce h))),
      (''protocol_version'', JInt (protocol_version h)),
      (''capabilities'', JArr (map JStr (capabilities h)))]"

section \<open>Block ranges and snapshot manifests\<close>

definition range_fields :: "string list" where
  "range_fields = [''height'', ''block_hash'', ''parent_hash'', ''state_root'', ''certificate_hash'']"

text \<open>One round of the loop: the expected height and the hash of the previous block.\<close>

definition check_block :: "int \<times> string option \<Rightarrow> json \<Rightarrow> (int \<times> string option) result" where
  "check_block expected block =
     (case block of
        JObj ms \<Rightarrow>
          if json_keys ms \<noteq> set range_fields \<or> \<not> py_eq (json_at ms ''height'') (JInt (fst expected))
          then Inl (WireProtocolError ''block range is non-contiguous'')
          else
            bindE (canonical_hash (json_at ms ''block_hash'') ''block_hash'') (\<lambda>block_hash.
            bindE (canonical_hash (json_at ms ''parent_hash'') ''parent_hash'') (\<lambda>parent_hash.
            bindE (canonical_hash (json_at ms ''state_root'') ''state_root'') (\<lambda>_.
            bindE (canonical_hash (json_at ms ''certificate_hash'') ''certificate_hash'') (\<lambda>_.
            if (case snd expected of None \<Rightarrow> False | Some previous \<Rightarrow> lower parent_hash \<noteq> previous)
            then Inl (WireProtocolError ''block range parent linkage is invalid'')
            else Inr (fst expected + 1, Some (lower block_hash))))))
      | _ \<Rightarrow> Inl (WireProtocolError ''block range entry is invalid''))"

definition validate_block_range :: "json list \<Rightarrow> json \<Rightarrow> unit result" where
  "validate_block_range bs requested_start =
     bindE (int_at_least 1 requested_start (WireProtocolError ''block range size is invalid'')) (\<lambda>start.
     if bs = [] \<or> MAX_BLOCK_RANGE < length bs then Inl (WireProtocolError ''block range size is invalid'')
     else bindE (foldE check_block (start, None) bs) (\<lambda>_. Inr ()))"

record snapshot_manifest =
  sm_chain_id :: int
  sm_height :: int
  sm_block_hash :: string
  sm_state_root :: string
  sm_checkpoint_digest :: string
  chunk_hashes :: "string list"

definition mk_manifest :: "json \<Rightarrow> json \<Rightarrow> json \<Rightarrow> json \<Rightarrow> json \<Rightarrow> json list \<Rightarrow> snapshot_manifest result" where
  "mk_manifest chain height block root digest chunks =
     bindE (int_at_least 1 chain (WireProtocolError ''snapshot manifest identity is invalid'')) (\<lambda>chain_id.
     bindE (int_at_least 0 height (WireProtocolError ''snapshot manifest identity is invalid'')) (\<lambda>h.
     if chunks = [] \<or> MAX_SNAPSHOT_CHUNKS < length chunks
     then Inl (WireProtocolError ''snapshot manifest identity is invalid'')
     else
       bindE (canonical_hash block ''block_hash'') (\<lambda>b.
       bindE (canonical_hash root ''state_root'') (\<lambda>s.
       bindE (canonical_hash digest ''checkpoint_digest'') (\<lambda>d.
       bindE (mapE (\<lambda>v. canonical_hash v ''chunk_hash'') chunks) (\<lambda>cs.
       Inr \<lparr>sm_chain_id = chain_id, sm_height = h, sm_block_hash = b, sm_state_root = s, sm_checkpoint_digest = d,
            chunk_hashes = cs\<rparr>))))))"

definition check_chunk :: "nat \<Rightarrow> string \<times> bytes \<Rightarrow> nat result" where
  "check_chunk total_bytes item =
     (let (expected, chunk) = item; total_now = total_bytes + length chunk in
      if MAX_FRAME_BYTES < length chunk \<or> MAX_SNAPSHOT_TOTAL_BYTES < total_now
      then Inl (WireProtocolError ''snapshot chunk exceeds size boundary'')
      else if digest0x chunk \<noteq> lower expected then Inl (WireProtocolError ''snapshot chunk digest mismatch'')
      else Inr total_now)"

definition verify_chunks :: "snapshot_manifest \<Rightarrow> bytes list \<Rightarrow> string result" where
  "verify_chunks m chunks =
     (if length chunks \<noteq> length (chunk_hashes m) then Inl (WireProtocolError ''snapshot chunk count mismatch'')
      else bindE (foldE check_chunk 0 (zip (chunk_hashes m) chunks)) (\<lambda>_. Inr ''VERIFIED''))"

section \<open>Payloads\<close>

definition status_fields :: "string list" where
  "status_fields = [''chain_id'', ''genesis_hash'', ''height'', ''block_hash'', ''parent_hash'', ''state_root'',
     ''signed_power'', ''total_power'']"

definition status_number :: "(string \<times> json) list \<Rightarrow> string \<Rightarrow> int result" where
  "status_number p field =
     int_at_least (if field = ''chain_id'' \<or> field = ''total_power'' then 1 else 0) (json_at p field)
       (WireProtocolError ''STATUS numeric field is invalid'')"

definition validate_status :: "(string \<times> json) list \<Rightarrow> unit result" where
  "validate_status p =
     (if json_keys p \<noteq> set status_fields then Inl (WireProtocolError ''STATUS payload fields are invalid'')
      else
        bindE (status_number p ''chain_id'') (\<lambda>_.
        bindE (status_number p ''height'') (\<lambda>_.
        bindE (status_number p ''signed_power'') (\<lambda>signed_power.
        bindE (status_number p ''total_power'') (\<lambda>total_power.
        if signed_power > total_power then Inl (WireProtocolError ''STATUS voting power is invalid'')
        else all_ok (\<lambda>field. bindE (canonical_hash (json_at p field) (''STATUS '' @ field)) (\<lambda>_. Inr ()))
               [''genesis_hash'', ''block_hash'', ''parent_hash'', ''state_root''])))))"

definition validate_range_request :: "(string \<times> json) list \<Rightarrow> unit result" where
  "validate_range_request p =
     (if json_keys p \<noteq> {''start_height'', ''limit''}
      then Inl (WireProtocolError ''block range request fields are invalid'')
      else
        bindE (int_at_least 1 (json_at p ''start_height'') (WireProtocolError ''block range request is outside bounds'')) (\<lambda>_.
        bindE (int_at_least 1 (json_at p ''limit'') (WireProtocolError ''block range request is outside bounds'')) (\<lambda>limit.
        if limit > int MAX_BLOCK_RANGE then Inl (WireProtocolError ''block range request is outside bounds'') else Inr ())))"

definition is_object :: "json \<Rightarrow> bool" where
  "is_object v = (case v of JObj _ \<Rightarrow> True | _ \<Rightarrow> False)"

definition validate_range :: "(string \<times> json) list \<Rightarrow> unit result" where
  "validate_range p =
     (if json_keys p \<noteq> {''blocks'', ''finality_proofs''}
      then Inl (WireProtocolError ''BLOCK_RANGE payload fields are invalid'')
      else
        (case (json_at p ''blocks'', json_at p ''finality_proofs'') of
           (JArr bs, JArr proofs) \<Rightarrow>
             if bs = [] \<or> length bs \<noteq> length proofs \<or> MAX_BLOCK_RANGE < length bs
             then Inl (WireProtocolError ''BLOCK_RANGE payload size is invalid'')
             else
               (case hd bs of
                  JObj first \<Rightarrow>
                    bindE (validate_block_range bs (json_at first ''height'')) (\<lambda>_.
                    if \<not> list_all is_object proofs
                    then Inl (WireProtocolError ''BLOCK_RANGE finality proof is invalid'') else Inr ())
                | _ \<Rightarrow> Inl (WireProtocolError ''BLOCK_RANGE entry is invalid''))
         | _ \<Rightarrow> Inl (WireProtocolError ''BLOCK_RANGE payload size is invalid'')))"

definition hello_fields :: "string list" where
  "hello_fields = [''node_id'', ''chain_id'', ''genesis_hash'', ''session_nonce'', ''protocol_version'', ''capabilities'']"

definition manifest_fields :: "string list" where
  "manifest_fields = [''chain_id'', ''height'', ''block_hash'', ''state_root'', ''checkpoint_digest'', ''chunk_hashes'']"

fun validate_kind :: "message_type \<Rightarrow> (string \<times> json) list \<Rightarrow> unit result" where
  "validate_kind HELLO p =
     (case json_at p ''capabilities'' of
        JArr caps \<Rightarrow>
          if json_keys p \<noteq> set hello_fields then Inl (WireProtocolError ''HELLO payload fields are invalid'')
          else bindE (mk_handshake (json_at p ''node_id'') (json_at p ''chain_id'') (json_at p ''genesis_hash'')
                 (json_at p ''session_nonce'') (json_at p ''protocol_version'') caps) (\<lambda>_. Inr ())
      | _ \<Rightarrow> Inl (WireProtocolError ''HELLO payload fields are invalid''))"
| "validate_kind STATUS p = validate_status p"
| "validate_kind GET_BLOCK_RANGE p = validate_range_request p"
| "validate_kind BLOCK_RANGE p = validate_range p"
| "validate_kind GET_SNAPSHOT p =
     (if json_keys p \<noteq> {''height''} then Inl (WireProtocolError ''GET_SNAPSHOT payload fields are invalid'')
      else bindE (int_at_least 0 (json_at p ''height'') (WireProtocolError ''GET_SNAPSHOT height is invalid'')) (\<lambda>_. Inr ()))"
| "validate_kind SNAPSHOT_MANIFEST p =
     (case json_at p ''chunk_hashes'' of
        JArr chunks \<Rightarrow>
          if json_keys p \<noteq> set manifest_fields then Inl (WireProtocolError ''SNAPSHOT_MANIFEST payload fields are invalid'')
          else bindE (mk_manifest (json_at p ''chain_id'') (json_at p ''height'') (json_at p ''block_hash'')
                 (json_at p ''state_root'') (json_at p ''checkpoint_digest'') chunks) (\<lambda>_. Inr ())
      | _ \<Rightarrow> Inl (WireProtocolError ''SNAPSHOT_MANIFEST payload fields are invalid''))"
| "validate_kind PING p =
     (if json_keys p \<noteq> {''nonce''} then Inl (WireProtocolError ''ping payload fields are invalid'')
      else bindE (canonical_hash (json_at p ''nonce'') ''ping nonce'') (\<lambda>_. Inr ()))"
| "validate_kind PONG p =
     (if json_keys p \<noteq> {''nonce''} then Inl (WireProtocolError ''ping payload fields are invalid'')
      else bindE (canonical_hash (json_at p ''nonce'') ''ping nonce'') (\<lambda>_. Inr ()))"

definition validate_payload :: "message_type \<Rightarrow> (string \<times> json) list \<Rightarrow> unit result" where
  "validate_payload t p =
     bindE (validate_kind t p) (\<lambda>_.
     if length (wire_canonical (JObj p)) > MAX_FRAME_BYTES - 1024
     then Inl (WireProtocolError ''message payload exceeds size boundary'') else Inr ())"

section \<open>Frames\<close>

definition encode_frame :: "(string \<times> json) list \<Rightarrow> bytes result" where
  "encode_frame envelope =
     (let body = wire_canonical (JObj envelope) in
      if body = [] \<or> MAX_FRAME_BYTES < length body
      then Inl (WireProtocolError ''wire frame exceeds size boundary'')
      else Inr (be_bytes4 (int (length body)) @ body))"

definition be_value :: "bytes \<Rightarrow> nat" where
  "be_value bs = foldl (\<lambda>n c. 256 * n + of_char c) 0 bs"

definition decode_frame :: "bytes \<Rightarrow> (string \<times> json) list result" where
  "decode_frame frame =
     (if length frame < 5 then Inl (WireProtocolError ''wire frame is truncated'')
      else
        let declared = be_value (take 4 frame); body = drop 4 frame in
        if declared \<noteq> length body \<or> MAX_FRAME_BYTES < declared
        then Inl (WireProtocolError ''wire frame length is invalid'')
        else
          (case json_loads body of
             None \<Rightarrow> Inl (WireProtocolError ''wire frame JSON is invalid'')
           | Some (JObj ms) \<Rightarrow>
               if wire_canonical (JObj ms) \<noteq> body then Inl (WireProtocolError ''wire frame is not canonical'') else Inr ms
           | Some _ \<Rightarrow> Inl (WireProtocolError ''wire frame is not canonical'')))"

section \<open>Sessions\<close>

record session =
  local_peer :: handshake
  remote_peer :: handshake
  next_send :: int
  next_receive :: int

record wire_envelope =
  we_type :: message_type
  we_sequence :: int
  we_payload :: "(string \<times> json) list"
  we_signature :: string

definition unsigned_json :: "message_type \<Rightarrow> int \<Rightarrow> (string \<times> json) list \<Rightarrow> (string \<times> json) list" where
  "unsigned_json t sequence p =
     [(''message_type'', JStr (type_value t)), (''sequence'', JInt sequence), (''payload'', JObj p)]"

definition signing_bytes :: "wire_envelope \<Rightarrow> bytes" where
  "signing_bytes e = wire_canonical (JObj (unsigned_json (we_type e) (we_sequence e) (we_payload e)))"

definition mk_session :: "handshake \<Rightarrow> handshake \<Rightarrow> session result" where
  "mk_session l r =
     (if hs_chain_id l \<noteq> hs_chain_id r then Inl (WireProtocolError ''handshake chain_id mismatch'')
      else if lower (genesis_hash l) \<noteq> lower (genesis_hash r)
      then Inl (WireProtocolError ''handshake genesis mismatch'')
      else if node_id l = node_id r then Inl (WireProtocolError ''peer node_id must be distinct'')
      else if lower (session_nonce l) = lower (session_nonce r)
      then Inl (WireProtocolError ''session nonces must be distinct'')
      else Inr \<lparr>local_peer = l, remote_peer = r, next_send = 0, next_receive = 0\<rparr>)"

definition session_context :: "session \<Rightarrow> (string \<times> json) list" where
  "session_context s =
     [(''chain_id'', JInt (hs_chain_id (local_peer s))),
      (''genesis_hash'', JStr (lower (genesis_hash (local_peer s)))),
      (''nonces'', JArr (map JStr (sort [lower (session_nonce (local_peer s)), lower (session_nonce (remote_peer s))]))),
      (''protocol'', JStr ''JUNCA_PEER_WIRE_V1'')]"

definition session_bound :: "session \<Rightarrow> bytes \<Rightarrow> bytes" where
  "session_bound s message = wire_canonical (JObj (session_context s)) @ [CHR 0x00] @ message"

definition send :: "session \<Rightarrow> (bytes \<Rightarrow> bytes result) \<Rightarrow> message_type \<Rightarrow> (string \<times> json) list \<Rightarrow> (bytes \<times> session) result" where
  "send s signer t p =
     (if next_send s > MAX_SEQUENCE then Inl (WireProtocolError ''wire sequence space is exhausted'')
      else
        bindE (validate_payload t p) (\<lambda>_.
        let unsigned = unsigned_json t (next_send s) p in
        bindE (signer (session_bound s (wire_canonical (JObj unsigned)))) (\<lambda>sig.
        if sig = [] \<or> MAX_SIGNATURE_BYTES < length sig
        then Inl (WireProtocolError ''signer returned an invalid signature'')
        else
          bindE (encode_frame (unsigned @ [(''signature'', JStr (hex_of sig))])) (\<lambda>frame.
          Inr (frame, s\<lparr>next_send := next_send s + 1\<rparr>)))))"

definition envelope_encoding :: "'a result" where
  "envelope_encoding = Inl (WireProtocolError ''wire envelope encoding is invalid'')"

definition decode_type :: "json \<Rightarrow> message_type result" where
  "decode_type v =
     (case v of
        JStr s \<Rightarrow> (case map_of message_types s of Some t \<Rightarrow> Inr t | None \<Rightarrow> envelope_encoding)
      | _ \<Rightarrow> envelope_encoding)"

definition decode_signature :: "json \<Rightarrow> (string \<times> bytes) result" where
  "decode_signature v =
     (case v of
        JStr s \<Rightarrow>
          if s = [] \<or> s \<noteq> lower s \<or> length s mod 2 \<noteq> 0 \<or> length s > MAX_SIGNATURE_BYTES * 2 then envelope_encoding
          else (case from_hex s of None \<Rightarrow> envelope_encoding | Some b \<Rightarrow> if b = [] then envelope_encoding else Inr (s, b))
      | _ \<Rightarrow> envelope_encoding)"

definition receive_frame ::
  "session \<Rightarrow> (string \<Rightarrow> bytes \<Rightarrow> bytes \<Rightarrow> bool result) \<Rightarrow> bytes \<Rightarrow> (wire_envelope \<times> session) result" where
  "receive_frame s verifier frame =
     bindE (decode_frame frame) (\<lambda>decoded.
     if json_keys decoded \<noteq> {''message_type'', ''sequence'', ''payload'', ''signature''}
     then Inl (WireProtocolError ''wire envelope fields are invalid'')
     else
       bindE (decode_type (json_at decoded ''message_type'')) (\<lambda>t.
       bindE (decode_signature (json_at decoded ''signature'')) (\<lambda>(text, sig).
       case json_at decoded ''sequence'' of
         JInt sequence \<Rightarrow>
           if sequence < 0 \<or> sequence > MAX_SEQUENCE \<or> sequence \<noteq> next_receive s
           then Inl (WireProtocolError ''wire sequence is replayed or out of order'')
           else
             (case json_at decoded ''payload'' of
                JObj p \<Rightarrow>
                  bindE (validate_payload t p) (\<lambda>_.
                  bindE (verifier (node_id (remote_peer s))
                           (session_bound s (wire_canonical (JObj (unsigned_json t sequence p)))) sig) (\<lambda>valid.
                  if \<not> valid then Inl (WireProtocolError ''peer signature verification failed'')
                  else Inr (\<lparr>we_type = t, we_sequence = sequence, we_payload = p, we_signature = text\<rparr>,
                         s\<lparr>next_receive := next_receive s + 1\<rparr>)))
              | _ \<Rightarrow> Inl (WireProtocolError ''wire payload must be an object''))
       | _ \<Rightarrow> Inl (WireProtocolError ''wire sequence is replayed or out of order''))))"

section \<open>Frames are canonical\<close>

lemma of_char_of_int: "(of_char (char_of (i :: int)) :: nat) = nat (i mod 256)"
proof -
  have "int (of_char (char_of i :: char)) = (of_char (char_of i :: char) :: int)"
    by (simp add: of_nat_of_char)
  then show ?thesis
    by (metis char_of_mod_256 nat_int of_char_of)
qed

lemma base256_sum:
  "n = q1 * 256 + r0 \<Longrightarrow> q1 = q2 * 256 + r1 \<Longrightarrow> q2 = q3 * 256 + r2 \<Longrightarrow> n = 16777216 * q3 + 65536 * r2 + 256 * r1 + (r0 :: nat)"
  by simp

lemma base256: "(n :: nat) = 16777216 * (n div 16777216) + 65536 * (n div 65536 mod 256) + 256 * (n div 256 mod 256) + n mod 256"
proof -
  have "n div 65536 = n div 256 div 256" "n div 16777216 = n div 256 div 256 div 256"
    using div_mult2_eq [of n 256 256] div_mult2_eq [of n 65536 256] by simp_all
  then show ?thesis
    using base256_sum [of n "n div 256" "n mod 256" "n div 256 div 256" "n div 256 mod 256" "n div 256 div 256 div 256" "n div 256 div 256 mod 256"]
    by simp
qed

lemma be_value_bytes4: "n < 4294967296 \<Longrightarrow> be_value (be_bytes4 (int n)) = n"
proof -
  assume small: "n < 4294967296"
  have nat_parts: "nat (int n div 16777216 mod 256) = n div 16777216" "nat (int n div 65536 mod 256) = n div 65536 mod 256"
      "nat (int n div 256 mod 256) = n div 256 mod 256" "nat (int n mod 256) = n mod 256"
    using small by (simp_all add: nat_mod_distrib nat_div_distrib div_less_dividend)
  show ?thesis
    using base256 [of n] unfolding be_value_def be_bytes4_def by (simp only: list.simps foldl.simps of_char_of_int nat_parts) simp
qed

lemma char_of_parts:
  assumes "n div k mod 256 = of_char a"
  shows "char_of (int n div int k) = a"
proof -
  have "(of_char (char_of (int n div int k) :: char) :: nat) = of_char a"
    using assms by (simp add: of_char_of_int nat_mod_distrib flip: zdiv_int)
  then show ?thesis
    by simp
qed

lemma digits256:
  assumes "w = 16777216 * x + 65536 * y + 256 * z + u" "x < 256" "y < 256" "z < 256" "u < (256 :: nat)"
  shows "w div 16777216 mod 256 = x \<and> w div 65536 mod 256 = y \<and> w div 256 mod 256 = z \<and> w mod 256 = u"
proof -
  have nonzero: "(256 :: nat) \<noteq> 0"
    by simp
  have w: "w = u + (z + (y + x * 256) * 256) * 256"
    using assms(1) by simp
  have 1: "w div 256 = z + (y + x * 256) * 256" "w mod 256 = u"
    unfolding w div_mult_self1 [OF nonzero] mod_mult_self1 using assms(5) by simp_all
  have 2: "w div 65536 = y + x * 256" "w div 256 mod 256 = z"
    using assms(4) div_mult2_eq [of w 256 256] unfolding 1(1) div_mult_self1 [OF nonzero] mod_mult_self1 by simp_all
  have 3: "w div 16777216 = x" "w div 65536 mod 256 = y"
    using assms(3) div_mult2_eq [of w 65536 256] unfolding 2(1) div_mult_self1 [OF nonzero] mod_mult_self1 by simp_all
  show ?thesis
    using 1 2 3 assms(2) by simp
qed

lemma be_bytes4_value:
  assumes "length f = 4"
  shows "be_bytes4 (int (be_value f)) = f"
proof -
  obtain a b c d where f: "f = [a, b, c, d]"
    using assms by (auto simp: numeral_eq_Suc length_Suc_conv)
  have "be_value f = 16777216 * of_char a + 65536 * of_char b + 256 * of_char c + of_char d"
    by (simp add: f be_value_def)
  moreover have "(of_char a :: nat) < 256" "(of_char b :: nat) < 256" "(of_char c :: nat) < 256" "(of_char d :: nat) < 256"
    by simp_all
  ultimately have "be_value f div 16777216 mod 256 = of_char a" "be_value f div 65536 mod 256 = of_char b"
      "be_value f div 256 mod 256 = of_char c" "be_value f mod 256 = of_char d"
    using digits256 by blast+
  then show ?thesis
    using char_of_parts [of "be_value f" 16777216] char_of_parts [of "be_value f" 65536]
      char_of_parts [of "be_value f" 256] char_of_parts [of "be_value f" 1]
    by (simp add: be_bytes4_def f)
qed

lemma encode_frame_Inr:
  "encode_frame e = Inr f \<longleftrightarrow> length (json_dumps (JObj e)) \<le> MAX_FRAME_BYTES \<and>
     f = be_bytes4 (int (length (json_dumps (JObj e)))) @ json_dumps (JObj e)"
proof -
  have "json_dumps (JObj e) \<noteq> []"
    by (simp add: json_dumps_def)
  then show ?thesis
    by (auto simp: encode_frame_def wire_canonical_def Let_def)
qed

lemma length_be_bytes4 [simp]: "length (be_bytes4 n) = 4"
  by (simp add: be_bytes4_def)

lemma decode_frame_Inr:
  "decode_frame f = Inr e \<longleftrightarrow>
     f = be_bytes4 (int (length (json_dumps (JObj e)))) @ json_dumps (JObj e) \<and>
     length (json_dumps (JObj e)) \<le> MAX_FRAME_BYTES \<and> json_loads (json_dumps (JObj e)) = Some (JObj e)"
  (is "?decoded \<longleftrightarrow> ?framed")
proof
  assume ?decoded
  then have long: "5 \<le> length f" and len: "be_value (take 4 f) = length (drop 4 f)" "length (drop 4 f) \<le> MAX_FRAME_BYTES"
    by (auto simp: decode_frame_def Let_def if_Inl_Inr_iff)
  have body: "json_loads (drop 4 f) = Some (JObj e)" "json_dumps (JObj e) = drop 4 f"
    using \<open>?decoded\<close> unfolding decode_frame_def Let_def
    by (auto simp: if_Inl_Inr_iff wire_canonical_def split: option.splits json.splits)
  have "length (take 4 f) = 4"
    using long by simp
  then have "take 4 f = be_bytes4 (int (length (drop 4 f)))"
    using be_bytes4_value [of "take 4 f"] by (simp only: len(1))
  then have "f = be_bytes4 (int (length (drop 4 f))) @ drop 4 f"
    by (metis append_take_drop_id)
  then show ?framed
    using body len(2) by simp
next
  let ?body = "json_dumps (JObj e)"
  assume framed: ?framed
  have parts: "take 4 f = be_bytes4 (int (length ?body))" "drop 4 f = ?body"
    using framed by simp_all
  have "?body \<noteq> []"
    by (simp add: json_dumps_def)
  then have "\<not> length f < 5"
    using framed by (cases ?body) simp_all
  moreover have "be_value (take 4 f) = length ?body"
    using framed by (simp add: parts(1) be_value_bytes4 MAX_FRAME_BYTES_def)
  ultimately show ?decoded
    using framed by (simp add: decode_frame_def parts(2) Let_def wire_canonical_def)
qed

lemma json_dumps_canon [simp]: "json_dumps (json_canon v) = json_dumps v"
  by (simp add: json_dumps_def)

lemma frame_delivered:
  assumes "encode_frame e = Inr f" "json_ok (JObj e)" "json_canon (JObj e) = JObj e'"
  shows "decode_frame f = Inr e'"
proof -
  have same: "json_dumps (JObj e') = json_dumps (JObj e)"
    using json_dumps_canon [of "JObj e"] by (simp only: assms(3))
  then show ?thesis
    using assms json_loads_dumps [OF assms(2)] by (simp add: decode_frame_Inr encode_frame_Inr)
qed

lemma decoded_encodes: "decode_frame f = Inr e \<Longrightarrow> encode_frame e = Inr f"
  by (simp add: decode_frame_Inr encode_frame_Inr)

section \<open>Validation does not depend on the order of members\<close>

lemma int_at_least_canon [simp]: "int_at_least l (json_canon v) e = int_at_least l v e"
  by (cases v) (simp_all add: int_at_least_def)

lemma canonical_hash_canon [simp]: "canonical_hash (json_canon v) f = canonical_hash v f"
  by (cases v) (simp_all add: canonical_hash_def wire_hash_def)

lemma is_object_canon [simp]: "is_object (json_canon v) = is_object v"
  by (cases v) (simp_all add: is_object_def)

lemma capability_canon [simp]: "capability_ok (json_canon v) = capability_ok v" "text_of (json_canon v) = text_of v"
  by (cases v; simp add: capability_ok_def text_of_def)+

lemma node_id_canon [simp]: "node_id_ok (json_canon v) = node_id_ok v"
  by (cases v) (simp_all add: node_id_ok_def)

lemma py_eq_int_canon [simp]: "py_eq (json_canon v) (JInt i) = py_eq v (JInt i)"
  by (cases v) (simp_all add: py_eq_def)

lemma canon_eq_int [simp]: "json_canon v = JInt i \<longleftrightarrow> v = JInt i"
  by (cases v) simp_all

lemma list_all_canon [simp]:
  "list_all capability_ok (map json_canon vs) = list_all capability_ok vs"
  "list_all is_object (map json_canon vs) = list_all is_object vs"
  "map text_of (map json_canon vs) = map text_of vs"
  by (simp_all add: list.pred_map comp_def)

lemma mk_handshake_canon:
  "mk_handshake (json_canon n) (json_canon c) (json_canon g) (json_canon s) (json_canon v) (map json_canon caps) =
     mk_handshake n c g s v caps"
  unfolding mk_handshake_def by (simp cong: if_cong del: list.map_comp map_map)

lemma mk_manifest_canon:
  "mk_manifest (json_canon c) (json_canon h) (json_canon b) (json_canon r) (json_canon d) (map json_canon chunks) =
     mk_manifest c h b r d chunks"
proof -
  have "mapE (\<lambda>v. canonical_hash v f) (map json_canon chunks) = mapE (\<lambda>v. canonical_hash v f) chunks" for f
    by (induction chunks) simp_all
  then show ?thesis
    unfolding mk_manifest_def by (simp cong: if_cong)
qed

lemma json_at_canon_any:
  assumes "json_canon (JObj ms) = JObj ms'" "dict_ok ms"
  shows "json_at ms' k = json_canon (json_at ms k)"
proof (cases "k \<in> json_keys ms")
  case True
  then show ?thesis
    using json_at_canon [OF assms] by simp
next
  case False
  then have "k \<notin> json_keys ms'"
    using json_keys_canon [OF assms(1)] by simp
  then have "map_of ms k = None" "map_of ms' k = None"
    using False by (simp_all add: json_keys_def map_of_eq_None_iff)
  then show ?thesis
    by (simp add: json_at_def)
qed

lemma check_block_canon: "json_ok v \<Longrightarrow> check_block e (json_canon v) = check_block e v"
proof (cases v)
  case (JObj ms)
  assume "json_ok v"
  then have "dict_ok ms"
    using JObj by simp
  obtain ms' where ms': "json_canon (JObj ms) = JObj ms'"
    by simp
  note at = json_at_canon_any [OF ms' \<open>dict_ok ms\<close>]
  show ?thesis
    unfolding JObj ms' by (simp add: check_block_def at json_keys_canon [OF ms'] cong: if_cong)
qed (simp_all add: check_block_def)

lemma validate_block_range_canon:
  assumes "json_ok (JArr bs)"
  shows "validate_block_range (map json_canon bs) (json_canon start) = validate_block_range bs start"
proof -
  have "foldE check_block e (map json_canon bs) = foldE check_block e bs" for e
    using assms by (induction bs arbitrary: e) (simp_all add: check_block_canon)
  then show ?thesis
    by (simp add: validate_block_range_def cong: if_cong)
qed

lemma json_ok_member: "json_ok (JObj ms) \<Longrightarrow> json_ok (json_at ms k)"
  by (auto simp: json_at_def list_all_iff split: option.splits dest!: map_of_SomeD)

lemma validate_range_canon:
  assumes "json_canon (JObj p) = JObj p'" "json_ok (JObj p)"
  shows "validate_range p' = validate_range p"
proof -
  have at: "json_at p' k = json_canon (json_at p k)" for k
    using json_at_canon_any [OF assms(1)] assms(2) by simp
  show ?thesis
  proof (cases "\<exists>bs proofs. json_at p ''blocks'' = JArr bs \<and> json_at p ''finality_proofs'' = JArr proofs \<and> bs \<noteq> []")
    case True
    then obtain bs proofs where lists: "json_at p ''blocks'' = JArr bs" "json_at p ''finality_proofs'' = JArr proofs" "bs \<noteq> []"
      by blast
    have ok: "json_ok (JArr bs)"
      using json_ok_member [OF assms(2), of "''blocks''"] lists(1) by simp
    show ?thesis
    proof (cases "hd bs")
      case (JObj first)
      obtain first' where first': "json_canon (JObj first) = JObj first'"
        by simp
      have "dict_ok first"
        using ok lists(3) JObj by (cases bs) auto
      then have height: "json_at first' ''height'' = json_canon (json_at first ''height'')"
        using json_at_canon_any [OF first'] by blast
      have "hd (map json_canon bs) = JObj first'"
        using lists(3) JObj first' by (simp add: hd_map)
      then show ?thesis
        using lists JObj height validate_block_range_canon [OF ok]
        unfolding validate_range_def json_keys_canon [OF assms(1)] at by (simp cong: if_cong del: list.map_comp)
    qed (use lists in \<open>simp_all add: validate_range_def json_keys_canon [OF assms(1)] at hd_map\<close>)
  next
    case False
    then show ?thesis
      unfolding validate_range_def json_keys_canon [OF assms(1)] at
      by (auto split: json.splits)
  qed
qed

lemma validate_payload_canon:
  assumes "json_canon (JObj p) = JObj p'" "json_ok (JObj p)"
  shows "validate_payload t p' = validate_payload t p"
proof -
  have at: "json_at p' k = json_canon (json_at p k)" for k
    using json_at_canon_any [OF assms(1)] assms(2) by simp
  note keys = json_keys_canon [OF assms(1)]
  have "wire_canonical (JObj p') = wire_canonical (JObj p)"
    using json_dumps_canon [of "JObj p"] unfolding assms(1) wire_canonical_def by simp
  moreover have "validate_kind t p' = validate_kind t p"
  proof (cases t)
    case HELLO
    then show ?thesis
      by (cases "json_at p ''capabilities''") (simp_all add: at keys mk_handshake_canon cong: if_cong del: list.map_comp map_map)
  next
    case SNAPSHOT_MANIFEST
    then show ?thesis
      by (cases "json_at p ''chunk_hashes''") (simp_all add: at keys mk_manifest_canon cong: if_cong del: list.map_comp map_map)
  next
    case BLOCK_RANGE
    then show ?thesis
      using validate_range_canon [OF assms] by simp
  qed (simp_all add: validate_status_def status_number_def validate_range_request_def all_ok_def at keys cong: if_cong)
  ultimately show ?thesis
    by (simp add: validate_payload_def)
qed

section \<open>Sending and receiving\<close>

definition envelope_json :: "message_type \<Rightarrow> int \<Rightarrow> (string \<times> json) list \<Rightarrow> bytes \<Rightarrow> (string \<times> json) list" where
  "envelope_json t sequence p sig = unsigned_json t sequence p @ [(''signature'', JStr (hex_of sig))]"

lemma send_Inr:
  "send s signer t p = Inr (f, s') \<longleftrightarrow>
     next_send s \<le> MAX_SEQUENCE \<and> validate_payload t p = Inr () \<and>
     (\<exists>sig. signer (session_bound s (wire_canonical (JObj (unsigned_json t (next_send s) p)))) = Inr sig \<and>
        sig \<noteq> [] \<and> length sig \<le> MAX_SIGNATURE_BYTES \<and> encode_frame (envelope_json t (next_send s) p sig) = Inr f) \<and>
     s' = s\<lparr>next_send := next_send s + 1\<rparr>"
  by (auto simp: send_def envelope_json_def bindE_Inr_iff if_Inl_Inr_iff Let_def not_less)

lemma case_int_Inr: "(case v of JInt i \<Rightarrow> f i | _ \<Rightarrow> Inl e) = Inr r \<longleftrightarrow> (\<exists>i. v = JInt i \<and> f i = Inr r)"
  by (cases v) auto

lemma case_obj_Inr: "(case v of JObj ms \<Rightarrow> f ms | _ \<Rightarrow> Inl e) = Inr r \<longleftrightarrow> (\<exists>ms. v = JObj ms \<and> f ms = Inr r)"
  by (cases v) auto

lemma receive_frame_Inr:
  assumes "receive_frame s verifier f = Inr (e, s')"
  obtains decoded sig where "decode_frame f = Inr decoded"
    "json_keys decoded = {''message_type'', ''sequence'', ''payload'', ''signature''}"
    "decode_type (json_at decoded ''message_type'') = Inr (we_type e)"
    "decode_signature (json_at decoded ''signature'') = Inr (we_signature e, sig)"
    "json_at decoded ''sequence'' = JInt (we_sequence e)" "json_at decoded ''payload'' = JObj (we_payload e)"
    "we_sequence e = next_receive s" "0 \<le> we_sequence e" "we_sequence e \<le> MAX_SEQUENCE"
    "validate_payload (we_type e) (we_payload e) = Inr ()"
    "verifier (node_id (remote_peer s)) (session_bound s (signing_bytes e)) sig = Inr True"
    "s' = s\<lparr>next_receive := next_receive s + 1\<rparr>"
proof -
  note elims = bindE_Inr_iff if_Inl_Inr_iff case_int_Inr case_obj_Inr case_prod_beta not_not
  obtain decoded t ts n p where parts: "decode_frame f = Inr decoded"
      "json_keys decoded = {''message_type'', ''sequence'', ''payload'', ''signature''}"
      "decode_type (json_at decoded ''message_type'') = Inr t"
      "decode_signature (json_at decoded ''signature'') = Inr ts"
      "json_at decoded ''sequence'' = JInt n" "json_at decoded ''payload'' = JObj p"
      "\<not> (n < 0 \<or> n > MAX_SEQUENCE \<or> n \<noteq> next_receive s)" "validate_payload t p = Inr ()"
      "verifier (node_id (remote_peer s)) (session_bound s (wire_canonical (JObj (unsigned_json t n p)))) (snd ts) = Inr True"
      "e = \<lparr>we_type = t, we_sequence = n, we_payload = p, we_signature = fst ts\<rparr>"
      "s' = s\<lparr>next_receive := next_receive s + 1\<rparr>"
    using assms unfolding receive_frame_def elims prod.inject by auto
  then show thesis
    using that [of decoded "snd ts"] by (simp add: signing_bytes_def)
qed

lemma unsigned_canon: "json_canon (JObj p) = JObj p' \<Longrightarrow>
    wire_canonical (JObj (unsigned_json t n p')) = wire_canonical (JObj (unsigned_json t n p))"
proof -
  assume p': "json_canon (JObj p) = JObj p'"
  then have "json_canon (JObj p') = json_canon (JObj p)"
    by (metis json_canon_idem)
  then have "json_canon (JObj (unsigned_json t n p')) = json_canon (JObj (unsigned_json t n p))"
    unfolding unsigned_json_def by (simp only: json_canon.simps list.map map_prod_simp)
  then show ?thesis
    by (simp only: wire_canonical_def json_dumps_def)
qed

lemma decode_type_value: "decode_type (JStr (type_value t)) = Inr t"
  by (cases t) (simp_all add: decode_type_def message_types_def)

lemma decode_signature_hex:
  "sig \<noteq> [] \<Longrightarrow> length sig \<le> MAX_SIGNATURE_BYTES \<Longrightarrow> decode_signature (JStr (hex_of sig)) = Inr (hex_of sig, sig)"
  by (simp add: decode_signature_def)

text \<open>
  The two sessions of a pair of peers: each has the other's handshake, they agree on chain and
  genesis, and the receiver expects the sequence number the sender uses next.
\<close>

definition sessions_in_step :: "session \<Rightarrow> session \<Rightarrow> bool" where
  "sessions_in_step s r \<longleftrightarrow>
     local_peer r = remote_peer s \<and> remote_peer r = local_peer s \<and>
     hs_chain_id (local_peer s) = hs_chain_id (remote_peer s) \<and>
     lower (genesis_hash (local_peer s)) = lower (genesis_hash (remote_peer s)) \<and>
     next_receive r = next_send s \<and> 0 \<le> next_send s"

lemma session_bound_in_step: "sessions_in_step s r \<Longrightarrow> session_bound r m = session_bound s m"
  by (auto simp: sessions_in_step_def session_bound_def session_context_def)

lemma send_receive:
  assumes "sessions_in_step s r" "json_ok (JObj p)" "send s signer t p = Inr (f, s')" "json_canon (JObj p) = JObj p'"
    and verifies: "\<And>m sig. signer m = Inr sig \<Longrightarrow> verifier (node_id (local_peer s)) m sig = Inr True"
  shows "\<exists>e r'. receive_frame r verifier f = Inr (e, r') \<and> we_type e = t \<and> we_sequence e = next_send s \<and>
    we_payload e = p' \<and> sessions_in_step s' r' \<and> r' = r\<lparr>next_receive := next_receive r + 1\<rparr>"
proof -
  let ?n = "next_send s"
  obtain sig where sent: "next_send s \<le> MAX_SEQUENCE" "validate_payload t p = Inr ()"
      "signer (session_bound s (wire_canonical (JObj (unsigned_json t ?n p)))) = Inr sig" "sig \<noteq> []"
      "length sig \<le> MAX_SIGNATURE_BYTES" "encode_frame (envelope_json t ?n p sig) = Inr f"
      "s' = s\<lparr>next_send := ?n + 1\<rparr>"
    using assms(3) by (auto simp: send_Inr)
  have fields: "dict_ok (envelope_json t ?n p sig)" "json_ok (JObj (envelope_json t ?n p sig))"
      "json_keys (envelope_json t ?n p sig) = {''message_type'', ''sequence'', ''payload'', ''signature''}"
      "json_at (envelope_json t ?n p sig) ''message_type'' = JStr (type_value t)"
      "json_at (envelope_json t ?n p sig) ''sequence'' = JInt ?n"
      "json_at (envelope_json t ?n p sig) ''payload'' = JObj p"
      "json_at (envelope_json t ?n p sig) ''signature'' = JStr (hex_of sig)"
    using assms(2) by (auto simp: envelope_json_def unsigned_json_def json_keys_def json_at_def)
  obtain e' where e': "json_canon (JObj (envelope_json t ?n p sig)) = JObj e'"
    by simp
  note decoded = frame_delivered [OF sent(6) fields(2) e']
  have at: "json_at e' k = json_canon (json_at (envelope_json t ?n p sig) k)" for k
    by (rule json_at_canon_any [OF e' fields(1)])
  have keys: "json_keys e' = {''message_type'', ''sequence'', ''payload'', ''signature''}"
    using json_keys_canon [OF e'] fields(3) by simp
  have payload: "json_at e' ''payload'' = JObj p'"
    using at [of "''payload''"] unfolding fields(6) assms(4) .
  have others: "json_at e' ''message_type'' = JStr (type_value t)" "json_at e' ''sequence'' = JInt ?n"
      "json_at e' ''signature'' = JStr (hex_of sig)"
    by (simp_all add: at fields)
  have valid: "validate_payload t p' = Inr ()"
    using validate_payload_canon [OF assms(4,2)] sent(2) by simp
  have "verifier (node_id (remote_peer r)) (session_bound r (wire_canonical (JObj (unsigned_json t ?n p')))) sig = Inr True"
    using verifies [OF sent(3)] session_bound_in_step [OF assms(1)] unsigned_canon [OF assms(4)] assms(1)
    by (simp add: sessions_in_step_def)
  then have "receive_frame r verifier f =
      Inr (\<lparr>we_type = t, we_sequence = ?n, we_payload = p', we_signature = hex_of sig\<rparr>, r\<lparr>next_receive := next_receive r + 1\<rparr>)"
    using assms(1) sent(1) decoded keys payload others valid decode_signature_hex [OF sent(4,5)]
    by (simp add: receive_frame_def decode_type_value sessions_in_step_def)
  then show ?thesis
    using assms(1) sent(7) by (simp add: sessions_in_step_def)
qed

section \<open>The properties of the wire protocol\<close>

text \<open>
  C36. Frames have one encoding: a framed envelope is decoded to the same document with its members in
  order, and a byte string that the decoder accepts is exactly the encoding of what it decodes to, so
  no two frames carry the same envelope.
\<close>

theorem frame_codec:
  assumes "json_ok (JObj e)"
  shows "(encode_frame e = Inr f \<longrightarrow> (\<exists>e'. decode_frame f = Inr e' \<and> JObj e' = json_canon (JObj e))) \<and>
    (decode_frame g = Inr d \<longrightarrow> encode_frame d = Inr g)"
proof -
  obtain e' where e': "json_canon (JObj e) = JObj e'"
    by simp
  then show ?thesis
    using frame_delivered [OF _ assms e', of f] decoded_encodes [of g d] by metis
qed

definition returned :: "'a result \<Rightarrow> 'a option" where
  "returned m = (case m of Inl _ \<Rightarrow> None | Inr x \<Rightarrow> Some x)"

lemma returned_Some: "returned m = Some x \<longleftrightarrow> m = Inr x"
  by (cases m) (simp_all add: returned_def)

text \<open>A message is its type and payload; what arrives has the members of the payload in order.\<close>

definition send_message :: "(bytes \<Rightarrow> bytes result) \<Rightarrow> session \<Rightarrow> message_type \<times> (string \<times> json) list \<Rightarrow> (bytes \<times> session) option" where
  "send_message signer s m = returned (send s signer (fst m) (snd m))"

definition receive_message ::
  "(string \<Rightarrow> bytes \<Rightarrow> bytes \<Rightarrow> bool result) \<Rightarrow> session \<Rightarrow> bytes \<Rightarrow> ((message_type \<times> (string \<times> json) list) \<times> session) option" where
  "receive_message verifier r f =
     map_option (\<lambda>(e, r'). ((we_type e, we_payload e), r')) (returned (receive_frame r verifier f))"

definition ordered :: "message_type \<times> (string \<times> json) list \<Rightarrow> message_type \<times> (string \<times> json) list" where
  "ordered m = (fst m, case json_canon (JObj (snd m)) of JObj p \<Rightarrow> p | _ \<Rightarrow> [])"

definition trusted_channel ::
  "(bytes \<Rightarrow> bytes result) \<Rightarrow> (string \<Rightarrow> bytes \<Rightarrow> bytes \<Rightarrow> bool result) \<Rightarrow> session \<Rightarrow> session \<Rightarrow> bool" where
  "trusted_channel signer verifier s r \<longleftrightarrow>
     sessions_in_step s r \<and> (\<forall>m sig. signer m = Inr sig \<longrightarrow> verifier (node_id (local_peer s)) m sig = Inr True)"

interpretation wire: ordered_channel "send_message signer" "receive_message verifier" "trusted_channel signer verifier"
    "\<lambda>m. json_ok (JObj (snd m))" ordered for signer verifier
proof
  fix s r m f s'
  assume s: "trusted_channel signer verifier s r" "json_ok (JObj (snd m))" "send_message signer s m = Some (f, s')"
  obtain p' where p': "json_canon (JObj (snd m)) = JObj p'"
    by simp
  have sent: "send s signer (fst m) (snd m) = Inr (f, s')"
    using s(3) by (simp add: send_message_def returned_Some)
  then have "local_peer s' = local_peer s"
    by (simp add: send_Inr)
  then show "\<exists>r'. receive_message verifier r f = Some (ordered m, r') \<and> trusted_channel signer verifier s' r'"
    using send_receive [OF _ s(2) sent p', of r verifier] s(1)
    by (auto simp: trusted_channel_def receive_message_def ordered_def p' returned_def simp del: json_canon.simps)
qed

text \<open>
  C27. A session delivers: whatever sequence of messages a peer sends, the other end of the session
  receives the same messages in the same order, provided that it accepts the signatures of that peer.
\<close>

theorem session_delivery:
  assumes "mk_session l r = Inr a" "mk_session r l = Inr b"
    and "\<forall>m sig. signer m = Inr sig \<longrightarrow> verifier (node_id l) m sig = Inr True"
    and "\<forall>m \<in> set ms. json_ok (JObj (snd m))" "run_all (send_message signer) a ms = Some (frames, a')"
  shows "\<exists>b'. run_all (receive_message verifier) b frames = Some (map ordered ms, b') \<and> next_receive b' = next_send a'"
proof -
  have ends: "local_peer a = l" "remote_peer a = r" "local_peer b = r" "remote_peer b = l"
      "next_send a = 0" "next_receive b = 0" "hs_chain_id l = hs_chain_id r" "lower (genesis_hash l) = lower (genesis_hash r)"
    using assms(1,2) by (auto simp: mk_session_def if_Inl_Inr_iff)
  then have "trusted_channel signer verifier a b"
    using assms(3) by (simp add: trusted_channel_def sessions_in_step_def)
  then show ?thesis
    using wire.transfer_all [OF _ _ assms(5), of verifier b] assms(4)
    by (auto simp: trusted_channel_def sessions_in_step_def)
qed

text \<open>What happens to a session: it sends and it receives.\<close>

definition session_step :: "session \<Rightarrow> session \<Rightarrow> bool" where
  "session_step s s' \<longleftrightarrow>
     (\<exists>signer t p f. send s signer t p = Inr (f, s')) \<or> (\<exists>verifier f e. receive_frame s verifier f = Inr (e, s'))"

lemma session_step_mono: "session_step s s' \<Longrightarrow> next_receive s \<le> next_receive s'"
proof (unfold session_step_def, elim disjE exE)
  fix verifier f e
  assume "receive_frame s verifier f = Inr (e, s')"
  then show ?thesis
    by (rule receive_frame_Inr) simp
qed (simp add: send_Inr)

lemma session_steps_mono: "session_step\<^sup>*\<^sup>* s s' \<Longrightarrow> next_receive s \<le> next_receive s'"
  by (induction rule: rtranclp_induct) (auto dest: session_step_mono)

text \<open>
  C28. A frame is accepted at most once in a session: after it was received, and whatever the session
  sends and receives afterwards, the same frame is refused as a replay, with every verifier.
\<close>

theorem replay_rejected:
  assumes "receive_frame s verifier f = Inr (e, s1)" "session_step\<^sup>*\<^sup>* s1 s2"
  shows "receive_frame s2 verifier' f = Inl (WireProtocolError ''wire sequence is replayed or out of order'')"
  using assms(1)
proof (rule receive_frame_Inr)
  fix decoded sig
  assume r: "decode_frame f = Inr decoded" "json_keys decoded = {''message_type'', ''sequence'', ''payload'', ''signature''}"
    "decode_type (json_at decoded ''message_type'') = Inr (we_type e)"
    "decode_signature (json_at decoded ''signature'') = Inr (we_signature e, sig)"
    "json_at decoded ''sequence'' = JInt (we_sequence e)" "we_sequence e = next_receive s"
    "s1 = s\<lparr>next_receive := next_receive s + 1\<rparr>"
  have "we_sequence e < next_receive s2"
    using session_steps_mono [OF assms(2)] r(6,7) by simp
  then show ?thesis
    using r(1-5) by (simp add: receive_frame_def)
qed

text \<open>
  What a peer signs is bound to its session and its content: equal signed bytes mean the same
  chain, the same genesis, the same pair of nonces, the same message type, the same sequence number
  and the same payload.
\<close>

theorem session_binding:
  assumes "session_bound s (signing_bytes e) = session_bound s' (signing_bytes e')"
    and "json_ok (JObj (we_payload e))" "json_ok (JObj (we_payload e'))"
  shows "hs_chain_id (local_peer s) = hs_chain_id (local_peer s') \<and>
    lower (genesis_hash (local_peer s)) = lower (genesis_hash (local_peer s')) \<and>
    {lower (session_nonce (local_peer s)), lower (session_nonce (remote_peer s))} =
      {lower (session_nonce (local_peer s')), lower (session_nonce (remote_peer s'))} \<and>
    we_type e = we_type e' \<and> we_sequence e = we_sequence e' \<and>
    json_canon (JObj (we_payload e)) = json_canon (JObj (we_payload e'))"
proof -
  have ctx: "json_ok (JObj (session_context x))" for x
    by (simp add: session_context_def list_all_iff)
  have "json_dumps (JObj (session_context s)) @ CHR 0x00 # signing_bytes e =
      json_dumps (JObj (session_context s')) @ CHR 0x00 # signing_bytes e'"
    using assms(1) by (simp add: session_bound_def wire_canonical_def)
  then have same_ctx: "json_canon (JObj (session_context s)) = json_canon (JObj (session_context s'))"
      and bytes: "signing_bytes e = signing_bytes e'"
    unfolding json_dumps_obj_append_inject [OF ctx ctx] by simp_all
  have ok: "json_ok (JObj (unsigned_json t n p))" if "json_ok (JObj p)" for t n p
    using that by (simp add: unsigned_json_def)
  have unsigned: "json_canon (JObj (unsigned_json (we_type e) (we_sequence e) (we_payload e))) =
      json_canon (JObj (unsigned_json (we_type e') (we_sequence e') (we_payload e')))"
    using bytes json_dumps_inject [OF ok [OF assms(2)] ok [OF assms(3)]]
    unfolding signing_bytes_def wire_canonical_def encode_dumps by simp
  then have "we_sequence e = we_sequence e'" "type_value (we_type e) = type_value (we_type e')"
      "json_canon (JObj (we_payload e)) = json_canon (JObj (we_payload e'))"
    by (simp_all add: unsigned_json_def)
  moreover have "we_type e = we_type e'"
    using calculation(2) by (metis decode_type_value sum.inject(2))
  moreover have "hs_chain_id (local_peer s) = hs_chain_id (local_peer s')"
      "lower (genesis_hash (local_peer s)) = lower (genesis_hash (local_peer s'))"
      "map JStr (sort [lower (session_nonce (local_peer s)), lower (session_nonce (remote_peer s))]) =
       map JStr (sort [lower (session_nonce (local_peer s')), lower (session_nonce (remote_peer s'))])"
    using same_ctx by (auto simp: session_context_def comp_def)
  moreover from this(3) have "{lower (session_nonce (local_peer s)), lower (session_nonce (remote_peer s))} =
      {lower (session_nonce (local_peer s')), lower (session_nonce (remote_peer s'))}"
    by (auto split: if_splits)
  ultimately show ?thesis
    by blast
qed

section \<open>Sample sessions\<close>

definition wire_value :: "char \<Rightarrow> string" where "wire_value c = ''0x'' @ replicate 64 c"

definition alice :: handshake where
  "alice = \<lparr>node_id = ''alice'', hs_chain_id = 7, genesis_hash = wire_value (CHR ''0''), session_nonce = wire_value (CHR ''1''),
     protocol_version = 1, capabilities = [''BLOCK_RANGE_V1'', ''SNAPSHOT_V1'']\<rparr>"

definition bob :: handshake where
  "bob = alice\<lparr>node_id := ''bob'', session_nonce := wire_value (CHR ''2'')\<rparr>"

definition alice_session :: session where
  "alice_session = \<lparr>local_peer = alice, remote_peer = bob, next_send = 0, next_receive = 0\<rparr>"

definition bob_session :: session where
  "bob_session = \<lparr>local_peer = bob, remote_peer = alice, next_send = 0, next_receive = 0\<rparr>"

definition ping :: "(string \<times> json) list" where "ping = [(''nonce'', JStr (wire_value (CHR ''3'')))]"

definition sample_messages :: "(message_type \<times> (string \<times> json) list) list" where
  "sample_messages = [(PING, ping), (GET_BLOCK_RANGE, [(''start_height'', JInt 1), (''limit'', JInt 5)])]"

definition stamp :: "bytes \<Rightarrow> bytes result" where "stamp _ = Inr ''s''"

definition accepting :: "string \<Rightarrow> bytes \<Rightarrow> bytes \<Rightarrow> bool result" where "accepting _ _ _ = Inr True"

lemma sample_sessions: "mk_session alice bob = Inr alice_session" "mk_session bob alice = Inr bob_session"
  by code_simp+

definition range_request :: "(string \<times> json) list" where
  "range_request = [(''start_height'', JInt 1), (''limit'', JInt 5)]"

lemma small_send:
  assumes "next_send s \<in> {0, 1}" "validate_kind t p = Inr ()" "length (json_dumps (JObj p)) < 300"
    and "length (json_dumps (JObj (envelope_json t (next_send s) p ''s''))) < 300"
  shows "\<exists>f. send s stamp t p = Inr (f, s\<lparr>next_send := next_send s + 1\<rparr>)"
proof -
  have "validate_payload t p = Inr ()"
    using assms(2,3) by (simp add: validate_payload_def wire_canonical_def MAX_FRAME_BYTES_def)
  then show ?thesis
    using assms(1,4) by (auto simp: send_Inr encode_frame_Inr stamp_def MAX_FRAME_BYTES_def MAX_SIGNATURE_BYTES_def MAX_SEQUENCE_def)
qed

lemma sample_kinds: "validate_kind PING ping = Inr ()" "validate_kind GET_BLOCK_RANGE range_request = Inr ()"
  by (code_simp, simp add: range_request_def validate_range_request_def json_keys_def json_at_def int_at_least_def MAX_BLOCK_RANGE_def)

lemma sample_lengths:
  "length (json_dumps (JObj ping)) < 300" "length (json_dumps (JObj range_request)) < 300"
  "length (json_dumps (JObj (envelope_json PING 0 ping ''s''))) < 300"
  "length (json_dumps (JObj (envelope_json GET_BLOCK_RANGE 1 range_request ''s''))) < 300"
  by code_simp+

lemma sample_ping: "\<exists>f. send alice_session stamp PING ping = Inr (f, alice_session\<lparr>next_send := 1\<rparr>)"
  using small_send [of alice_session PING ping] sample_kinds sample_lengths by (simp add: alice_session_def)

lemma sample_sent: "\<exists>frames a'. run_all (send_message stamp) alice_session sample_messages = Some (frames, a')"
proof -
  obtain f where f: "send alice_session stamp PING ping = Inr (f, alice_session\<lparr>next_send := 1\<rparr>)"
    using sample_ping by blast
  obtain g s where g: "send (alice_session\<lparr>next_send := 1\<rparr>) stamp GET_BLOCK_RANGE range_request = Inr (g, s)"
    using small_send [of "alice_session\<lparr>next_send := 1\<rparr>" GET_BLOCK_RANGE range_request] sample_kinds sample_lengths by auto
  show ?thesis
    by (simp add: sample_messages_def send_message_def f g returned_def flip: range_request_def)
qed

lemma sample_messages_ok: "\<forall>m \<in> set sample_messages. json_ok (JObj (snd m))"
  by (simp add: sample_messages_def ping_def)

lemma frame_codec_witness: "\<exists>f d. encode_frame ping = Inr f \<and> decode_frame f = Inr d"
proof -
  have ok: "json_ok (JObj ping)"
    by (simp add: ping_def)
  obtain f where "encode_frame ping = Inr f"
    using sample_lengths(1) by (simp add: encode_frame_Inr MAX_FRAME_BYTES_def)
  then show ?thesis
    using frame_codec [OF ok] by blast
qed

lemma session_delivery_witness:
  "\<exists>frames b'. run_all (receive_message accepting) bob_session frames = Some (map ordered sample_messages, b')"
proof -
  obtain frames a' where sent: "run_all (send_message stamp) alice_session sample_messages = Some (frames, a')"
    using sample_sent by blast
  have "\<forall>m sig. stamp m = Inr sig \<longrightarrow> accepting (node_id alice) m sig = Inr True"
    by (simp add: accepting_def)
  then show ?thesis
    using session_delivery [OF sample_sessions _ sample_messages_ok sent] by blast
qed

lemma replay_rejected_witness:
  "\<exists>f e s. receive_frame bob_session accepting f = Inr (e, s) \<and>
     receive_frame s accepting f = Inl (WireProtocolError ''wire sequence is replayed or out of order'')"
proof -
  obtain f s' where sent: "send alice_session stamp PING ping = Inr (f, s')"
    using sample_ping by blast
  obtain p' where p': "json_canon (JObj ping) = JObj p'"
    by simp
  have "sessions_in_step alice_session bob_session"
    by code_simp
  then obtain e r' where "receive_frame bob_session accepting f = Inr (e, r')"
    using send_receive [OF _ _ sent p', of bob_session accepting] by (auto simp: ping_def accepting_def)
  then show ?thesis
    using replay_rejected [OF _ rtranclp.rtrancl_refl] by blast
qed

lemma session_binding_witness:
  "json_canon (JObj [(''start_height'', JInt 1), (''limit'', JInt 5)]) = json_canon (JObj [(''limit'', JInt 5), (''start_height'', JInt 1)])"
proof -
  let ?e = "\<lparr>we_type = GET_BLOCK_RANGE, we_sequence = 0, we_payload = [(''start_height'', JInt 1), (''limit'', JInt 5)], we_signature = []\<rparr>"
  let ?e' = "\<lparr>we_type = GET_BLOCK_RANGE, we_sequence = 0, we_payload = [(''limit'', JInt 5), (''start_height'', JInt 1)], we_signature = []\<rparr>"
  have "session_bound alice_session (signing_bytes ?e) = session_bound bob_session (signing_bytes ?e')"
    by code_simp
  then show ?thesis
    using session_binding [of alice_session ?e bob_session ?e'] by simp
qed

end
