(* ===== verification/NodePipeline.thy ===== *)
theory NodePipeline
  imports Mempool StateStore
begin

text \<open>
  \<open>node_pipeline.py\<close>: the path of a block through one node. A proposal is built from the pool and executed
  on the accounts of the stored head; once a certificate binds it, it is committed to the store and its
  transactions leave the pool. The signature verifier is the callback of the caller, a parameter.
\<close>

section \<open>The pipeline\<close>

record executed_proposal =
  ep_height :: int
  ep_parent_hash :: string
  ep_block_hash :: string
  ep_timestamp :: "int option"
  ep_candidate :: block_candidate
  ep_transition :: block_transition

definition executed_proposal_as_evidence :: "executed_proposal \<Rightarrow> json" where
  "executed_proposal_as_evidence p = JObj
     [(''schema_version'', JStr ''junca-executed-proposal/v1''),
      (''height'', JInt (ep_height p)),
      (''parent_hash'', JStr (ep_parent_hash p)),
      (''block_hash'', JStr (ep_block_hash p)),
      (''timestamp'', case ep_timestamp p of None \<Rightarrow> JNull | Some t \<Rightarrow> JInt t),
      (''candidate_digest'', JStr (candidate_digest (ep_candidate p))),
      (''state_root'', JStr (state_root (ep_transition p))),
      (''transaction_count'', JInt (int (length (cand_transactions (ep_candidate p))))),
      (''execution_status'', JStr ''EXECUTED_NOT_FINALIZED''),
      (''mainnet_changed'', JBool False),
      (''assets_moved'', JBool False),
      (''bridge_activated'', JBool False)]"

text \<open>The pool and the store are objects the pipeline shares with the rest of the node.\<close>

record node_pipeline =
  np_config :: protocol_config
  np_pool :: tx_pool
  np_chain :: int
  np_store :: store_db

definition node_pipeline_init :: "protocol_config \<Rightarrow> tx_pool \<Rightarrow> int \<Rightarrow> store_db \<Rightarrow> node_pipeline result" where
  "node_pipeline_init c pool chain db =
     (if chain \<noteq> cfg_chain_id c then Inl (NodePipelineError ''store and protocol chain_id mismatch'')
      else Inr \<lparr>np_config = c, np_pool = pool, np_chain = chain, np_store = db\<rparr>)"

definition header_json :: "string \<Rightarrow> int \<Rightarrow> int \<Rightarrow> string \<Rightarrow> string \<Rightarrow> int option \<Rightarrow> json" where
  "header_json candidate chain height parent root timestamp = JObj
     ([(''candidate_digest'', JStr candidate),
       (''chain_id'', JInt chain),
       (''height'', JInt height),
       (''parent_hash'', JStr parent),
       (''state_root'', JStr root)] @
      (case timestamp of None \<Rightarrow> [] | Some t \<Rightarrow> [(''timestamp'', JInt t)]))"

definition header_text :: "string \<Rightarrow> int \<Rightarrow> int \<Rightarrow> string \<Rightarrow> string \<Rightarrow> int option \<Rightarrow> bytes" where
  "header_text candidate chain height parent root timestamp =
     ''JUNCA_BLOCK_HEADER_V1'' @ [CHR 0x00] @ encode (json_dumps (header_json candidate chain height parent root timestamp))"

text \<open>\<open>None\<close> where the selection of the candidate would not end.\<close>

definition execute_candidate ::
  "node_pipeline \<Rightarrow> (tx_envelope \<Rightarrow> bool) \<Rightarrow> int option \<Rightarrow> executed_proposal result option" where
  "execute_candidate n verifier timestamp =
     (if (case timestamp of None \<Rightarrow> False | Some t \<Rightarrow> t \<le> 0)
      then Some (Inl (NodePipelineError ''block timestamp must be a positive integer''))
      else
        case store_head (np_store n) of
          Inl e \<Rightarrow> Some (Inl e)
        | Inr head \<Rightarrow>
            (case accounts_at (np_store n) None of
               Inl e \<Rightarrow> Some (Inl e)
             | Inr accounts \<Rightarrow>
                 map_option (\<lambda>selection.
                   bindE selection (\<lambda>candidate.
                   bindE (execute_block (np_config n) (sb_base_fee head) (sb_gas_used head) accounts
                            (cand_transactions candidate) verifier) (\<lambda>transition.
                   let height = sb_height head + 1 in
                   Inr \<lparr>ep_height = height,
                        ep_parent_hash = sb_block_hash head,
                        ep_block_hash = digest0x (header_text (candidate_digest candidate) (cfg_chain_id (np_config n))
                          height (sb_block_hash head) (state_root transition) timestamp),
                        ep_timestamp = timestamp,
                        ep_candidate = candidate,
                        ep_transition = transition\<rparr>)))
                   (build_candidate (np_pool n) accounts (sb_base_fee head) None)))"

definition commit_finalized ::
  "node_pipeline \<Rightarrow> store_db \<Rightarrow> executed_proposal \<Rightarrow> finality_certificate \<Rightarrow> (stored_block \<times> node_pipeline) result" where
  "commit_finalized n locked p c =
     bindE (store_head (np_store n)) (\<lambda>current.
     if ep_height p \<noteq> sb_height current + 1 \<or> ep_parent_hash p \<noteq> sb_block_hash current
     then Inl (NodePipelineError ''proposal no longer extends the current head'')
     else if fc_height c \<noteq> ep_height p \<or> fc_block_hash c \<noteq> ep_block_hash p
     then Inl (NodePipelineError ''certificate does not bind the executed proposal'')
     else
       bindE (commit_finalized_block (np_chain n) (np_store n) locked (ep_height p) (ep_block_hash p) (ep_parent_hash p)
                (ep_transition p) c (ep_timestamp p)) (\<lambda>(block, db').
       Inr (block, n\<lparr>np_store := db', np_pool := remove_included (np_pool n) (cand_transactions (ep_candidate p))\<rparr>)))"

section \<open>Proposals\<close>

lemma execute_candidate_Inr:
  assumes "execute_candidate n v ts = Some (Inr p)"
  obtains head accounts where "store_head (np_store n) = Inr head" "accounts_at (np_store n) None = Inr accounts"
    "build_candidate (np_pool n) accounts (sb_base_fee head) None = Some (Inr (ep_candidate p))"
    "execute_block (np_config n) (sb_base_fee head) (sb_gas_used head) accounts (cand_transactions (ep_candidate p)) v
       = Inr (ep_transition p)"
    "ep_height p = sb_height head + 1" "ep_parent_hash p = sb_block_hash head" "ep_timestamp p = ts"
    "ep_block_hash p = digest0x (header_text (candidate_digest (ep_candidate p)) (cfg_chain_id (np_config n))
       (ep_height p) (ep_parent_hash p) (state_root (ep_transition p)) ts)"
    "\<And>t. ts = Some t \<Longrightarrow> 0 < t"
  using assms unfolding execute_candidate_def
  by (auto simp: bindE_Inr_iff Let_def split: if_splits sum.splits option.splits)

lemma stored_head:
  assumes "store_ok chain db" "store_head db = Inr head"
  obtains row where "top_row db = Some (sb_height head, row)" "head = mk_stored_block (sb_height head, row)"
    "row_ok (sb_height head, row)" "head_height db = sb_height head" "0 \<le> sb_height head"
    "dict_get (blocks db) (sb_height head) = Some row"
proof -
  obtain h row where top: "top_row db = Some (h, row)" "head = mk_stored_block (h, row)"
    using assms(2) by (auto simp: store_head_def split: option.splits)
  have "dict_get (blocks db) h = Some row"
    using top_row_greatest(1) [OF top(1)] assms(1) by (simp add: store_ok_def)
  then show thesis
    using that [of row] top top_row_greatest(3) [OF top(1)] store_row_ok [OF assms(1)]
    by (simp add: mk_stored_block_def Let_def)
qed

lemma head_accounts:
  assumes "store_ok chain db" "store_head db = Inr head" "accounts_at db None = Inr a"
  shows "snapshot_ok a" "sb_state_root head = compute_state_root a"
proof -
  obtain row where row: "head = mk_stored_block (sb_height head, row)" "row_ok (sb_height head, row)"
      "head_height db = sb_height head" "dict_get (blocks db) (sb_height head) = Some row"
    using stored_head [OF assms(1,2)] by blast
  obtain b where b: "snapshot_ok b" "accounts_text row = accounts_json b" "br_state_root row = compute_state_root b"
    using row(2) by (rule row_snapshot)
  have "a = b"
    using assms(3) row(3,4) b snapshot_text.enc_inject by (auto simp: accounts_at_def target_height_def decode_accounts_json_Inr simp del: map_of_eq_Some_iff)
  then show "snapshot_ok a" "sb_state_root head = compute_state_root a"
    using b row(1) by (simp_all add: mk_stored_block_def Let_def) (metis stored_block.select_convs(4))
qed

lemma compute_state_root_sort [simp]: "dict_ok a \<Longrightarrow> compute_state_root (sort_key fst a) = compute_state_root a"
  by (simp add: compute_state_root_def sort_key_id_if_sorted)

lemma execute_block_normal:
  assumes "execute_block c pf pg a txs v = Inr bt" "snapshot_ok a"
  shows "snapshot_ok (bt_accounts bt)" "state_root bt = compute_state_root (bt_accounts bt)" "0 < base_fee_per_gas bt"
    "bt_chain_id bt = cfg_chain_id c"
proof -
  have ok: "accounts_ok a"
    using assms(2) by (simp add: snapshot_ok_def)
  obtain b l where l: "next_base_fee c pf pg = Inr b" "run_block c b v 0
      \<lparr>bl_state = a, bl_receipts = [], seen_hashes = {}, block_gas_used = 0, total_burned = 0, total_tips = 0\<rparr> txs = Inr l"
      and bt: "base_fee_per_gas bt = b" "state_root bt = compute_state_root (bl_state l)"
      "bt_accounts bt = sort_key fst (bl_state l)" "bt_chain_id bt = cfg_chain_id c"
    using assms(1) by (auto simp: execute_block_Inr normalize_accounts_id [OF ok])
  have "accounts_ok (bl_state l)"
    using run_block_ok [OF l(2)] ok by simp
  then show "snapshot_ok (bt_accounts bt)" "state_root bt = compute_state_root (bt_accounts bt)" "bt_chain_id bt = cfg_chain_id c"
    by (simp_all add: bt snapshot_ok_def accounts_ok_def distinct_keys_sort_key)
  show "0 < base_fee_per_gas bt"
    using l(1) by (auto simp: bt next_base_fee_Inr Let_def split: if_splits)
qed

section \<open>Finalized proposals are stored\<close>

text \<open>What finality promises of a certificate for a block of a chain, whoever built it.\<close>

definition quorum_certificate :: "int \<Rightarrow> int \<Rightarrow> string \<Rightarrow> finality_certificate \<Rightarrow> bool" where
  "quorum_certificate chain h block c \<longleftrightarrow>
     fc_chain_id c = chain \<and> fc_height c = h \<and> fc_block_hash c = block \<and>
     2 * fc_total_power c < 3 * fc_signed_power c \<and> lower_hash (certificate_hash c)"

lemma digest_lower_hash: "lower_hash (digest0x x)"
  by (simp add: lower_hash_def)

lemma machine_certificate:
  assumes "fsm_reachable w m" "get_certificate m h = Inr c"
  shows "quorum_certificate (fsm_chain_id m) h (fc_block_hash c) c"
proof -
  have c: "fc_height c = h" "backed w (fsm_chain_id m) (fsm_validators m) (fsm_total_power m) c"
    using finalized_backed [OF fsm_reachable_ok [OF assms(1)]] assms(2) by (simp_all add: get_certificate_Inr)
  have "certificate_hash c = certificate_digest (fc_chain_id c) (fc_height c) (fc_round c) (fc_block_hash c) (fc_signed_power c)
      (fc_total_power c) (fc_validator_ids c) (fc_vote_hashes c)"
    using c(2) by (auto simp: backed_def certificate_of_def) (metis finality_certificate.select_convs)
  then have "lower_hash (certificate_hash c)"
    by (simp add: certificate_digest_def digest_lower_hash)
  then show ?thesis
    using c backed_ids(5,7,8) [OF c(2)] by (simp add: quorum_certificate_def)
qed

lemma proposal_executed:
  assumes "execute_candidate n v ts = Some (Inr p)" "store_ok (np_chain n) (np_store n)"
    and "protocol_config_post_init (np_config n) = Inr ()" "lower_hash (certificate_hash c)"
  shows "executed (ep_transition p) c"
proof -
  obtain head a where p: "store_head (np_store n) = Inr head" "accounts_at (np_store n) None = Inr a"
      "execute_block (np_config n) (sb_base_fee head) (sb_gas_used head) a (cand_transactions (ep_candidate p)) v = Inr (ep_transition p)"
    using assms(1) by (rule execute_candidate_Inr)
  have a: "snapshot_ok a"
    using assms(2) p(1,2) by (rule head_accounts)
  have "gas_used (ep_transition p) = intrinsic_gas (np_config n) * int (length (cand_transactions (ep_candidate p)))"
    using p(3) run_block_gas by (fastforce simp: execute_block_Inr)
  moreover have "0 < intrinsic_gas (np_config n)"
    using assms(3) by (auto simp: protocol_config_post_init_def split: if_splits)
  ultimately show ?thesis
    using execute_block_normal [OF p(3) a] assms(4) by (auto simp: executed_def snapshot_ok_def accounts_ok_def)
qed

lemma proposal_commits:
  assumes p: "execute_candidate n v ts = Some (Inr p)" and store: "store_ok (np_chain n) (np_store n)"
    and config: "np_chain n = cfg_chain_id (np_config n)" and c: "quorum_certificate (np_chain n) (ep_height p) (ep_block_hash p) c"
    and new: "\<forall>item \<in> set (blocks (np_store n)). br_block_hash (snd item) \<noteq> ep_block_hash p"
    and ints: "sqlite_int (ep_height p)" "sqlite_int (base_fee_per_gas (ep_transition p))" "sqlite_int (gas_used (ep_transition p))"
      "\<And>t. ts = Some t \<Longrightarrow> sqlite_int t"
  defines "row \<equiv> committed_row (ep_block_hash p) (ep_parent_hash p) (ep_transition p) c (bt_accounts (ep_transition p))"
  shows "commit_finalized n (np_store n) p c =
    Inr (mk_stored_block (ep_height p, row),
         n\<lparr>np_store := committed (np_store n) (ep_height p) row c ts,
           np_pool := remove_included (np_pool n) (cand_transactions (ep_candidate p))\<rparr>)"
proof -
  let ?db = "np_store n" and ?t = "ep_transition p"
  obtain head a where head: "store_head ?db = Inr head" "accounts_at ?db None = Inr a"
      "execute_block (np_config n) (sb_base_fee head) (sb_gas_used head) a (cand_transactions (ep_candidate p)) v = Inr ?t"
      "ep_height p = sb_height head + 1" "ep_parent_hash p = sb_block_hash head" "ep_timestamp p = ts"
      "ep_block_hash p = digest0x (header_text (candidate_digest (ep_candidate p)) (cfg_chain_id (np_config n))
         (ep_height p) (ep_parent_hash p) (state_root ?t) ts)" "\<And>t. ts = Some t \<Longrightarrow> 0 < t"
    using p by (rule execute_candidate_Inr) blast
  obtain parent where top: "top_row ?db = Some (sb_height head, parent)" "head = mk_stored_block (sb_height head, parent)"
      "row_ok (sb_height head, parent)" "head_height ?db = sb_height head" "0 \<le> sb_height head"
    using stored_head [OF store head(1)] by blast
  have parent: "sb_block_hash head = br_block_hash parent" "lower_hash (br_block_hash parent)"
    using top(2,3) by (simp_all add: mk_stored_block_def row_ok_def Let_def) (metis stored_block.select_convs(2))
  note t = execute_block_normal [OF head(3) head_accounts(1) [OF store head(1,2)]]
  have hash: "lower_hash (ep_block_hash p)"
    by (simp only: head(7) digest_lower_hash)
  have checked: "check_commit (np_chain n) ?db (ep_height p) (ep_block_hash p) (ep_parent_hash p) ?t c ts = Inr (bt_accounts ?t)"
    using parent hash c t head(1,4,5) top(4,5) config head(8)
    by (auto simp: check_commit_def hash_check lower_hash_def quorum_certificate_def store_normalize_id split: option.splits)
  have above: "\<forall>item \<in> set (blocks ?db). fst item < ep_height p"
    using top_row_greatest(2) [OF top(1)] head(4) by fastforce
  then have absent: "ep_height p \<notin> fst ` set (blocks ?db)"
    by force
  let ?db1 = "?db\<lparr>blocks := blocks ?db @ [(ep_height p, row)]\<rparr>"
  let ?db2 = "?db1\<lparr>timestamps := timestamps ?db @ (case ts of None \<Rightarrow> [] | Some s \<Rightarrow> [(ep_height p, s)])\<rparr>"
  have none: "dict_get (blocks ?db) (ep_height p) = None" "dict_get (timestamps ?db) (ep_height p) = None"
      "dict_get (certificate_texts ?db) (ep_height p) = None"
    using absent store by (auto simp: store_ok_def map_of_eq_None_iff)
  have "insert_block (ep_height p) row ?db = Inr ?db1"
    using none(1) new ints(1-3) hash by (simp add: insert_block_Inr row_def committed_row_def lower_hash_def)
  moreover have "(case ts of None \<Rightarrow> Inr ?db1 | Some s \<Rightarrow> insert_timestamp (ep_height p) s ?db1) = Inr ?db2"
    using none(1,2) ints(1,4) head(8)
    by (auto simp: insert_timestamp_Inr map_add_def split: option.split simp del: map_of_eq_Some_iff)
  moreover have "insert_certificate (ep_height p) (json_dumps (certificate_as_evidence c)) ?db2 =
      Inr (committed ?db (ep_height p) row c ts)"
    using none(1,3) ints(1) by (simp add: insert_certificate_Inr committed_def map_add_def del: map_of_eq_Some_iff)
  moreover have "store_head (committed ?db (ep_height p) row c ts) = Inr (mk_stored_block (ep_height p, row))"
    using top(4) head(4) by (intro rows_snoc(3) [of ?db]) (simp_all add: committed_def)
  moreover have "top_row ?db = Some (ep_height p - 1, parent)" "br_block_hash parent = lower (ep_parent_hash p)"
    using top(1) head(4,5) parent by (simp_all add: lower_hash_def)
  ultimately have "commit_finalized_block (np_chain n) ?db ?db (ep_height p) (ep_block_hash p) (ep_parent_hash p) ?t c ts =
      Inr (mk_stored_block (ep_height p, row), committed ?db (ep_height p) row c ts)"
    unfolding commit_finalized_block_def checked row_def by (simp only: bindE_simps) simp
  then show ?thesis
    using head(1,4,5,6) c by (simp add: commit_finalized_def quorum_certificate_def)
qed

lemma proposal_stored:
  assumes "execute_candidate n v ts = Some (Inr p)" "store_ok chain (np_store n)"
  defines "row \<equiv> \<lambda>c. committed_row (ep_block_hash p) (ep_parent_hash p) (ep_transition p) c (bt_accounts (ep_transition p))"
  shows "store_head (committed (np_store n) (ep_height p) (row c) c ts) = Inr (mk_stored_block (ep_height p, row c))"
    "accounts_at (committed (np_store n) (ep_height p) (row c) c ts) None = Inr (bt_accounts (ep_transition p))"
    "lower (ep_block_hash p) = ep_block_hash p" "lower (ep_parent_hash p) = ep_parent_hash p"
proof -
  let ?db = "np_store n" and ?t = "ep_transition p"
  let ?db' = "committed ?db (ep_height p) (row c) c ts"
  obtain head a where p: "store_head ?db = Inr head" "accounts_at ?db None = Inr a"
      "execute_block (np_config n) (sb_base_fee head) (sb_gas_used head) a (cand_transactions (ep_candidate p)) v = Inr ?t"
      "ep_height p = sb_height head + 1" "ep_parent_hash p = sb_block_hash head"
      "ep_block_hash p = digest0x (header_text (candidate_digest (ep_candidate p)) (cfg_chain_id (np_config n))
         (ep_height p) (ep_parent_hash p) (state_root ?t) ts)"
    using assms(1) by (rule execute_candidate_Inr) blast
  obtain parent where parent: "head = mk_stored_block (sb_height head, parent)" "row_ok (sb_height head, parent)"
      "head_height ?db = sb_height head" "top_row ?db = Some (sb_height head, parent)"
    using stored_head [OF assms(2) p(1)] by blast
  have above: "head_height ?db < ep_height p"
    using parent(3) p(4) by simp
  note rows = rows_snoc [of ?db "ep_height p" ?db' "row c"]
  have head: "store_head ?db' = Inr (mk_stored_block (ep_height p, row c))" "head_height ?db' = ep_height p"
    using rows(3,4) above by (simp_all add: committed_def)
  then show "store_head ?db' = Inr (mk_stored_block (ep_height p, row c))"
    by simp
  have "dict_get (blocks ?db) (ep_height p) = None"
    using top_row_greatest(2) [OF parent(4)] p(4) by (force simp: map_of_eq_None_iff)
  then have "dict_get (blocks ?db') (ep_height p) = Some (row c)"
    by (simp add: committed_def map_add_def del: map_of_eq_Some_iff)
  then show "accounts_at ?db' None = Inr (bt_accounts ?t)"
    using head(2) execute_block_normal(1) [OF p(3) head_accounts(1) [OF assms(2) p(1,2)]]
    by (simp add: accounts_at_def target_height_def row_def committed_row_def decode_accounts_json_Inr del: map_of_eq_Some_iff)
  show "lower (ep_block_hash p) = ep_block_hash p"
    using digest_lower_hash p(6) by (simp only: lower_hash_def)
  show "lower (ep_parent_hash p) = ep_parent_hash p"
    using parent(1,2) p(5) by (simp add: row_ok_def lower_hash_def mk_stored_block_def Let_def) (metis stored_block.select_convs(2))
qed

lemma proposal_fields:
  assumes "execute_candidate n v ts = Some (Inr p)" "store_ok (np_chain n) (np_store n)"
  shows "1 \<le> ep_height p" "lower_hash (ep_parent_hash p)" "lower_hash (ep_block_hash p)"
    "is_hash32 (state_root (ep_transition p))"
proof -
  obtain head a where p: "store_head (np_store n) = Inr head" "accounts_at (np_store n) None = Inr a"
      "execute_block (np_config n) (sb_base_fee head) (sb_gas_used head) a (cand_transactions (ep_candidate p)) v = Inr (ep_transition p)"
      "ep_height p = sb_height head + 1" "ep_parent_hash p = sb_block_hash head"
      "ep_block_hash p = digest0x (header_text (candidate_digest (ep_candidate p)) (cfg_chain_id (np_config n))
         (ep_height p) (ep_parent_hash p) (state_root (ep_transition p)) ts)"
    using assms(1) by (rule execute_candidate_Inr) blast
  obtain row where row: "head = mk_stored_block (sb_height head, row)" "row_ok (sb_height head, row)" "0 \<le> sb_height head"
    using stored_head [OF assms(2) p(1)] by blast
  show "1 \<le> ep_height p"
    using row(3) p(4) by simp
  show "lower_hash (ep_parent_hash p)"
    using row(1,2) p(5) by (simp add: row_ok_def mk_stored_block_def Let_def) (metis stored_block.select_convs(2))
  show "lower_hash (ep_block_hash p)"
    by (simp only: p(6) digest_lower_hash)
  show "is_hash32 (state_root (ep_transition p))"
    using execute_block_normal(2) [OF p(3) head_accounts(1) [OF assms(2) p(1,2)]] by (simp add: compute_state_root_def)
qed

section \<open>Properties of the pipeline\<close>

text \<open>The histories of a node: its pool changes, proposals of any earlier moment are finalized and committed.\<close>

inductive node_reachable ::
  "protocol_config \<Rightarrow> mempool_policy \<Rightarrow> (tx_envelope \<Rightarrow> bool) \<Rightarrow> vote_verifier \<Rightarrow> node_pipeline \<Rightarrow> bool" for c pol v w where
  started: "pool_reachable c pol pool \<Longrightarrow> store_reachable chain db \<Longrightarrow> node_pipeline_init c pool chain db = Inr n \<Longrightarrow>
    node_reachable c pol v w n"
| pooled: "node_reachable c pol v w n \<Longrightarrow> pool_step (np_pool n) pool \<Longrightarrow> node_reachable c pol v w (n\<lparr>np_pool := pool\<rparr>)"
| finalized: "node_reachable c pol v w n0 \<Longrightarrow> execute_candidate n0 v ts = Some (Inr p) \<Longrightarrow>
    fsm_reachable w m \<Longrightarrow> fsm_chain_id m = cfg_chain_id c \<Longrightarrow> get_certificate m h = Inr cert \<Longrightarrow>
    node_reachable c pol v w n \<Longrightarrow> commit_finalized n (np_store n) p cert = Inr (b, n') \<Longrightarrow> node_reachable c pol v w n'"

lemma commit_finalized_Inr:
  assumes "commit_finalized n locked p c = Inr (b, n')"
  shows "commit_finalized_block (np_chain n) (np_store n) locked (ep_height p) (ep_block_hash p) (ep_parent_hash p)
           (ep_transition p) c (ep_timestamp p) = Inr (b, np_store n')"
    "np_pool n' = remove_included (np_pool n) (cand_transactions (ep_candidate p))"
    "np_config n' = np_config n" "np_chain n' = np_chain n" "fc_height c = ep_height p" "fc_block_hash c = ep_block_hash p"
  using assms by (auto simp: commit_finalized_def bindE_Inr_iff if_Inl_Inr_iff)

lemma commit_head:
  assumes "commit_finalized n locked p c = Inr (b, n')"
  shows "store_head (np_store n') = Inr b" "sb_height b = ep_height p" "sb_block_hash b = lower (ep_block_hash p)"
proof -
  note commit = commit_finalized_Inr(1) [OF assms]
  then show "store_head (np_store n') = Inr b"
    unfolding commit_finalized_block_def by (auto simp: bindE_Inr_iff if_Inl_Inr_iff)
  show "sb_height b = ep_height p" "sb_block_hash b = lower (ep_block_hash p)"
    using commit by (rule commit_Inr; simp add: mk_stored_block_def committed_row_def)+
qed

lemma node_reachable_parts:
  assumes "node_reachable c pol v w n" "protocol_config_post_init c = Inr ()"
  shows "np_config n = c \<and> np_chain n = cfg_chain_id c \<and> pool_reachable c pol (np_pool n) \<and>
    store_reachable (np_chain n) (np_store n)"
  using assms(1)
proof induction
  case (started pool chain db n)
  then show ?case
    by (auto simp: node_pipeline_init_def if_Inl_Inr_iff)
next
  case (pooled n pool)
  then show ?case
    using pool_reachable.step [of c pol "np_pool n" pool] by auto
next
  case (finalized n0 ts p m h cert n b n')
  note commit = commit_finalized_Inr [OF finalized.hyps(7)]
  have "lower_hash (certificate_hash cert)"
    using machine_certificate [OF finalized.hyps(3,5)] by (simp add: quorum_certificate_def)
  then have "executed (ep_transition p) cert"
    using finalized.IH(1) assms(2) store_reachable_ok by (intro proposal_executed [OF finalized.hyps(2)]) auto
  then have "store_reachable (np_chain n) (np_store n')"
    using finalized.IH(2) by (intro store_reachable.committed [OF _ commit(1)]) auto
  moreover have "pool_reachable c pol (np_pool n')"
    unfolding commit(2) using finalized.IH(2) by (intro pool_reachable.step [OF _ pool_step.remove_step]) simp
  ultimately show ?case
    using finalized.IH(2) commit(3,4) by simp
qed

text \<open>
  C10. Nodes keep their invariants: after any interleaving of pool operations and of commits of
  executed proposals under certificates of a finality state machine, the store passes its own
  integrity check and the pool is well formed. What the store does not check itself, positive base fees
  and well-typed accounts, the execution provides.
\<close>

theorem node_integrity:
  assumes "node_reachable c pol v w n" "protocol_config_post_init c = Inr ()" "mempool_policy_post_init pol = Inr ()"
  shows "pool_ok (np_pool n) \<and> (blocks (np_store n) \<noteq> [] \<longrightarrow> (\<exists>evidence. integrity_check (np_chain n) (np_store n) = Inr evidence))"
proof -
  note parts = node_reachable_parts [OF assms(1,2)]
  have "chain_ok (np_store n)"
    using store_reachable_ok parts by (auto simp: store_ok_def)
  then show ?thesis
    using pool_reachable_for [OF _ assms(3)] parts integrity_of_chain by (auto simp: pool_for_def)
qed

text \<open>
  An executed proposal extends the stored head: one height above it, with its hash as the parent,
  transactions of the pool, each verified and valid at the next base fee, and balances that differ from
  those of the head by the burned fees, the tips and what transfers to oneself create.
\<close>

theorem proposal_extends_head:
  assumes "execute_candidate n v ts = Some (Inr p)" "store_ok (np_chain n) (np_store n)" "pool_ok (np_pool n)"
    and "protocol_config_post_init (np_config n) = Inr ()" "pool_config (np_pool n) = np_config n"
    and "store_head (np_store n) = Inr head" "accounts_at (np_store n) None = Inr accounts"
  shows "ep_height p = sb_height head + 1 \<and> ep_parent_hash p = sb_block_hash head \<and>
    set (cand_transactions (ep_candidate p)) \<subseteq> snd ` set (pool_txs (np_pool n)) \<and>
    next_base_fee (np_config n) (sb_base_fee head) (sb_gas_used head) = Inr (base_fee_per_gas (ep_transition p)) \<and>
    (\<forall>t \<in> set (cand_transactions (ep_candidate p)).
       v t \<and> validate_transaction (np_config n) t (base_fee_per_gas (ep_transition p)) = Inr ()) \<and>
    gas_used (ep_transition p) = cand_gas_used (ep_candidate p) \<and>
    total_balance (bt_accounts (ep_transition p)) + total_base_fee_burned (ep_transition p) + total_validator_tips (ep_transition p) =
      total_balance accounts +
      minted_by_self_transfers (np_config n) (base_fee_per_gas (ep_transition p)) (cand_transactions (ep_candidate p))"
proof -
  let ?t = "ep_transition p" and ?txs = "cand_transactions (ep_candidate p)"
  have p: "build_candidate (np_pool n) accounts (sb_base_fee head) None = Some (Inr (ep_candidate p))"
      "execute_block (np_config n) (sb_base_fee head) (sb_gas_used head) accounts ?txs v = Inr ?t"
      "ep_height p = sb_height head + 1" "ep_parent_hash p = sb_block_hash head"
    by (rule execute_candidate_Inr [OF assms(1)]; use assms(6,7) in simp)+
  have a: "accounts_ok accounts"
    using head_accounts(1) [OF assms(2,6,7)] by (simp add: snapshot_ok_def)
  have config: "0 < intrinsic_gas (np_config n)" "0 < block_gas_limit (np_config n)"
    using assms(4) by (auto simp: protocol_config_post_init_def split: if_splits)
  obtain l where l: "ep_candidate p = \<lparr>cand_transactions = selected l, cand_gas_limit = block_gas_limit (np_config n),
         cand_gas_used = loop_gas l, candidate_digest = digest0x (encode (json_dumps
          (candidate_json (cfg_chain_id (np_config n)) (block_gas_limit (np_config n)) (loop_gas l) (selected l))))\<rparr>"
      "loop_inv (np_pool n) accounts (sb_base_fee head) (block_gas_limit (np_config n)) l"
    by (rule build_candidate_loop [OF assms(3), of "block_gas_limit (np_config n)" None accounts "sb_base_fee head"])
       (use config assms(5) p(1) in auto)
  obtain b k where k: "next_base_fee (np_config n) (sb_base_fee head) (sb_gas_used head) = Inr b"
      "run_block (np_config n) b v 0 \<lparr>bl_state = accounts, bl_receipts = [], seen_hashes = {}, block_gas_used = 0,
         total_burned = 0, total_tips = 0\<rparr> ?txs = Inr k"
    and t: "base_fee_per_gas ?t = b" "gas_used ?t = block_gas_used k" "total_base_fee_burned ?t = total_burned k"
      "total_validator_tips ?t = total_tips k" "bt_accounts ?t = sort_key fst (bl_state k)"
    using p(2) by (auto simp: execute_block_Inr normalize_accounts_id [OF a])
  have "gas_used ?t = cand_gas_used (ep_candidate p)"
    using run_block_gas [OF k(2)] l assms(5) by (simp add: t(2) loop_inv_def)
  moreover have "set ?txs \<subseteq> snd ` set (pool_txs (np_pool n))"
    using loop_inv_facts(1) [OF l(2) assms(3)] by (force simp: l(1))
  ultimately show ?thesis
    using p(3,4) k(1) run_block_checked [OF k(2)] run_block_total [OF k(2)] by (simp add: t(1,3-5))
qed

text \<open>
  C9. A proposal that reached finality is stored: if a certificate of a finality state machine binds an
  executed proposal, committing it succeeds, makes exactly its block and its accounts the head of the
  store, and takes all its transactions out of the pool. Numbers have to fit the columns of the
  database, and the hash of the block has to be new.
\<close>

theorem finalized_proposal_commits:
  assumes "execute_candidate n v ts = Some (Inr p)" "node_reachable c pol v w n"
    and "protocol_config_post_init c = Inr ()" "mempool_policy_post_init pol = Inr ()"
    and "fsm_reachable w m" "fsm_chain_id m = cfg_chain_id c"
    and "get_certificate m (ep_height p) = Inr cert" "fc_block_hash cert = ep_block_hash p"
    and "\<forall>item \<in> set (blocks (np_store n)). br_block_hash (snd item) \<noteq> ep_block_hash p"
    and "sqlite_int (ep_height p)" "sqlite_int (base_fee_per_gas (ep_transition p))" "sqlite_int (gas_used (ep_transition p))"
      "\<forall>t. ts = Some t \<longrightarrow> sqlite_int t"
  shows "\<exists>b n'. commit_finalized n (np_store n) p cert = Inr (b, n') \<and> node_reachable c pol v w n' \<and>
    store_head (np_store n') = Inr b \<and> sb_height b = ep_height p \<and> sb_block_hash b = ep_block_hash p \<and>
    sb_parent_hash b = ep_parent_hash p \<and> sb_certificate_hash b = Some (certificate_hash cert) \<and>
    accounts_at (np_store n') None = Inr (bt_accounts (ep_transition p)) \<and>
    (\<forall>t \<in> set (cand_transactions (ep_candidate p)). (key_of t, t) \<notin> set (pool_txs (np_pool n')))"
proof -
  let ?db = "np_store n" and ?t = "ep_transition p"
  let ?row = "committed_row (ep_block_hash p) (ep_parent_hash p) ?t cert (bt_accounts ?t)"
  let ?n = "n\<lparr>np_store := committed ?db (ep_height p) ?row cert ts,
      np_pool := remove_included (np_pool n) (cand_transactions (ep_candidate p))\<rparr>"
  note parts = node_reachable_parts [OF assms(2,3)]
  have store: "store_ok (np_chain n) ?db"
    using parts store_reachable_ok by blast
  have "quorum_certificate (np_chain n) (ep_height p) (ep_block_hash p) cert"
    using machine_certificate [OF assms(5,7)] assms(6,8) parts by simp
  then have commit: "commit_finalized n ?db p cert = Inr (mk_stored_block (ep_height p, ?row), ?n)"
    using assms(9-13) parts by (intro proposal_commits [OF assms(1) store]) auto
  have reach: "node_reachable c pol v w ?n"
    by (rule node_reachable.finalized [OF assms(2,1,5,6,7,2) commit])
  note stored = proposal_stored(1,2) [OF assms(1) store, of cert] proposal_stored(3,4) [OF assms(1) store]
  have "pool_ok (np_pool n)"
    using parts pool_reachable_for [OF _ assms(4)] by (auto simp: pool_for_def)
  then have "\<forall>t \<in> set (cand_transactions (ep_candidate p)). (key_of t, t) \<notin> set (pool_txs (np_pool ?n))"
    by (auto simp: remove_included_keep keep_only_def Let_def hash_of_def)
  then show ?thesis
    using commit reach stored by (intro exI [of _ "mk_stored_block (ep_height p, ?row)"] exI [of _ ?n])
      (simp add: mk_stored_block_def committed_row_def)
qed

text \<open>
  The candidate is selected at the base fee of the head but executed at the next one: when the base
  fee rises and the candidate has a transaction whose cap lies below the new one, the execution of the
  whole block raises. A transaction that is due also survives pruning at the base fee of the head, so
  the next attempt selects it again.
\<close>

theorem underpriced_candidate_stalls:
  assumes "store_head (np_store n) = Inr head" "accounts_at (np_store n) None = Inr accounts"
    and "next_base_fee (np_config n) (sb_base_fee head) (sb_gas_used head) = Inr fee"
    and "build_candidate (np_pool n) accounts (sb_base_fee head) None = Some (Inr cand)"
    and "t \<in> set (cand_transactions cand)" "max_fee_per_gas t < fee"
    and "pool_ok (np_pool n)" "(key_of t, t) \<in> set (pool_txs (np_pool n))" "sb_base_fee head \<le> max_fee_per_gas t"
    and "tx_nonce t = nonce_of accounts (lower (sender t))" "0 \<le> max_nonce_gap (pool_policy (np_pool n))"
  shows "\<exists>e. execute_candidate n v ts = Some (Inl e) \<and>
    (key_of t, t) \<in> set (pool_txs (snd (prune (np_pool n) accounts (sb_base_fee head))))"
proof -
  have "execute_block (np_config n) (sb_base_fee head) (sb_gas_used head) accounts (cand_transactions cand) v \<noteq> Inr bt" for bt
  proof
    assume "execute_block (np_config n) (sb_base_fee head) (sb_gas_used head) accounts (cand_transactions cand) v = Inr bt"
    then obtain s l where "run_block (np_config n) fee v 0 \<lparr>bl_state = s, bl_receipts = [], seen_hashes = {},
        block_gas_used = 0, total_burned = 0, total_tips = 0\<rparr> (cand_transactions cand) = Inr l"
      using assms(3) by (auto simp: execute_block_Inr)
    from run_block_checked [OF this] show False
      using assms(5,6) by (auto simp: validate_transaction_Inr)
  qed
  then obtain e where "execute_block (np_config n) (sb_base_fee head) (sb_gas_used head) accounts (cand_transactions cand) v = Inl e"
    by (cases "execute_block (np_config n) (sb_base_fee head) (sb_gas_used head) accounts (cand_transactions cand) v") auto
  then have "\<exists>e. execute_candidate n v ts = Some (Inl e)"
    using assms(1,2,4) by (simp add: execute_candidate_def)
  moreover have "\<not> prunable (np_pool n) accounts (sb_base_fee head) (key_of t, t)"
    using assms(9-11) by (simp add: prunable_def key_of_def nonce_of_def Let_def)
  then have "(key_of t, t) \<in> set (pool_txs (snd (prune (np_pool n) accounts (sb_base_fee head))))"
    using assms(7,8) by (simp add: prune_keep keep_only_def Let_def)
  ultimately show ?thesis
    by blast
qed

section \<open>A sample node\<close>

text \<open>The hash of the sample genesis passes the check of the code and is no digest: it has an underscore.\<close>

definition underscore_hash :: string where "underscore_hash = ''0x1_'' @ replicate 62 (CHR ''1'')"

definition funded_accounts :: accounts where
  "funded_accounts = [(lower addr_a, \<lparr>balance = 200, nonce = 3\<rparr>)]"

definition funded_row :: "int \<Rightarrow> int \<Rightarrow> block_row" where
  "funded_row fee gas = \<lparr>br_block_hash = underscore_hash, br_parent_hash = zero_hash32,
     br_state_root = compute_state_root funded_accounts, br_base_fee = fee, br_gas_used = gas, br_finalized = True,
     br_certificate_hash = None, accounts_text = accounts_json funded_accounts, receipts_text = ''[]''\<rparr>"

definition funded_store :: "int \<Rightarrow> int \<Rightarrow> store_db" where
  "funded_store fee gas = fresh_store\<lparr>blocks := [(0, funded_row fee gas)],
     metadata := [(''chain_id'', ''7''), (''base_height'', ''0'')]\<rparr>"

definition sample_node :: "int \<Rightarrow> int \<Rightarrow> node_pipeline" where
  "sample_node fee gas = \<lparr>np_config = sample_config, np_pool = sample_pool, np_chain = 7, np_store = funded_store fee gas\<rparr>"

definition sample_block_candidate :: block_candidate where
  "sample_block_candidate = \<lparr>cand_transactions = [sample_tx addr_a addr_b 3], cand_gas_limit = 20, cand_gas_used = 5,
     candidate_digest = digest0x (encode (json_dumps (candidate_json 7 20 5 [sample_tx addr_a addr_b 3])))\<rparr>"

lemma underscore_hash_ok: "is_hash32 underscore_hash" "lower underscore_hash = underscore_hash" "underscore_hash \<noteq> digest0x m"
proof -
  show "is_hash32 underscore_hash" "lower underscore_hash = underscore_hash"
    by code_simp+
  have "underscore_hash ! 3 = CHR ''_''" "\<not> is_lower_hex (CHR ''_'')"
    by code_simp+
  moreover have "is_lower_hex (digest0x m ! 3)"
    using sha256_hex_lower_hex [of m] by (simp add: digest0x_def list_all_length sha256_hex_def)
  ultimately show "underscore_hash \<noteq> digest0x m"
    by metis
qed

lemma funded_snapshot: "snapshot_ok funded_accounts"
  using canonical_address_lower [OF sample_addresses(1)]
  by (simp add: snapshot_ok_def accounts_ok_def funded_accounts_def account_ok_def)

lemma funded_genesis:
  "initialize_genesis fresh_store fresh_store underscore_hash funded_accounts 2 =
     Inr (mk_stored_block (0, funded_row 2 0), funded_store 2 0)"
  by (simp add: initialize_genesis_def hash_check underscore_hash_ok store_normalize_id funded_snapshot insert_block_def
      sample_ints Let_def fresh_store_def empty_store_db_def funded_store_def funded_row_def store_head_def top_row_def
      rows_by_height_def)

lemma funded_store_reachable: "store_reachable 7 (funded_store 2 0)"
  using store_reachable.genesis [OF fresh_store_reachable fresh_store_reachable funded_genesis]
  by (simp add: fresh_store_def empty_store_db_def funded_accounts_def account_ok_def)

lemma sample_node_reachable: "node_reachable sample_config sample_policy v w (sample_node 2 0)"
  by (rule node_reachable.started [OF sample_pool_reachable funded_store_reachable])
     (simp add: node_pipeline_init_def sample_config_def sample_node_def)

lemma sample_node_head:
  "store_head (np_store (sample_node fee gas)) = Inr (mk_stored_block (0, funded_row fee gas))"
  "accounts_at (np_store (sample_node fee gas)) None = Inr funded_accounts"
  using funded_snapshot
  by (simp_all add: sample_node_def funded_store_def store_head_def top_row_def rows_by_height_def accounts_at_def
      target_height_def head_height_def funded_row_def decode_accounts_json_Inr)

lemma sample_node_fields [simp]:
  "np_config (sample_node fee gas) = sample_config" "np_pool (sample_node fee gas) = sample_pool"
  "np_chain (sample_node fee gas) = 7"
  by (simp_all add: sample_node_def)

lemma funded_head_fields [simp]:
  "sb_height (mk_stored_block (0, funded_row fee gas)) = 0" "sb_block_hash (mk_stored_block (0, funded_row fee gas)) = underscore_hash"
  "sb_base_fee (mk_stored_block (0, funded_row fee gas)) = fee" "sb_gas_used (mk_stored_block (0, funded_row fee gas)) = gas"
  by (simp_all add: mk_stored_block_def funded_row_def)

lemma sample_candidate:
  assumes "b \<le> 4"
  shows "build_candidate sample_pool funded_accounts b None = Some (Inr sample_block_candidate)"
proof -
  have "lower (lower addr_a) = lower addr_a"
    by simp
  then have keys: "lower_keys funded_accounts = funded_accounts"
    by (simp add: lower_keys_def funded_accounts_def)
  show ?thesis
    using assms lower_addr_distinct
    by (simp add: build_candidate_def keys [unfolded funded_accounts_def] while_option_unfold candidate_step_def executable_heads_def List.map_filter_def
        head_of_sender_def sample_pool_def sample_defs funded_accounts_def dict_get_default_def Let_def
        sample_block_candidate_def)
qed

lemma sample_chain: "cfg_chain_id sample_config = 7"
  by (simp add: sample_config_def)

lemma sample_proposal:
  obtains p where "execute_candidate (sample_node 2 0) (\<lambda>_. True) (Some 99) = Some (Inr p)"
    "ep_candidate p = sample_block_candidate" "ep_height p = 1" "base_fee_per_gas (ep_transition p) = 2"
    "gas_used (ep_transition p) = 5" "\<exists>m. ep_block_hash p = digest0x m"
proof -
  have ok: "accounts_ok funded_accounts"
    using funded_snapshot by (simp add: snapshot_ok_def)
  obtain bt where bt: "execute_block sample_config 2 0 funded_accounts [sample_tx addr_a addr_b 3] (\<lambda>_. True) = Inr bt"
      "base_fee_per_gas bt = 2" "gas_used bt = 5"
    by (simp add: execute_block_def normalize_accounts_id [OF ok] next_base_fee_def)
       (simp add: exec_defs sample_defs funded_accounts_def)
  have txs: "cand_transactions sample_block_candidate = [sample_tx addr_a addr_b 3]"
    by (simp add: sample_block_candidate_def)
  show thesis
    by (rule that [of "\<lparr>ep_height = 1, ep_parent_hash = underscore_hash, ep_block_hash = digest0x (header_text
        (candidate_digest sample_block_candidate) 7 1 underscore_hash (state_root bt) (Some 99)), ep_timestamp = Some 99,
        ep_candidate = sample_block_candidate, ep_transition = bt\<rparr>"])
       (use bt sample_candidate [of 2] in \<open>auto simp: execute_candidate_def sample_node_head txs sample_chain\<close>)
qed

text \<open>A machine that starts at the stored genesis and decides a block of the next height.\<close>

definition next_fsm :: fsm where "next_fsm = sample_fsm\<lparr>checkpoint_height := 0\<rparr>"

definition next_votes :: "string \<Rightarrow> finality_vote list" where
  "next_votes b = map (\<lambda>i. (sample_vote b 0 i)\<lparr>fv_height := 1\<rparr>) [''a'', ''b'', ''c'']"

lemma next_fsm_reachable: "fsm_reachable w next_fsm"
  by (rule fsm_reachable.started [OF _ sample_validators_ok, of 7 0])
     (simp add: finality_init_def next_fsm_def sample_fsm_def sample_validators_def dict_of_def less_eq_char_def less_char_def)

lemma next_decided:
  assumes "is_hash32 b" "lower b = b"
  obtains c where "get_certificate (receive (\<lambda>_. Some True) next_fsm (next_votes b)) 1 = Inr c" "fc_block_hash c = b"
proof -
  have "undecided (\<lambda>_. Some True) next_fsm 1 0 b [] (next_votes b)"
    using assms fsm_reachable_ok [OF next_fsm_reachable]
    by (auto simp: undecided_def next_fsm_def next_votes_def sample_vote_def sample_fsm_def latest_finalized_height_def
        vote_ok_def vote_for_def sample_validators_def)
  from receive_decides [OF this] show thesis
    using that by (auto simp: get_certificate_Inr next_fsm_def next_votes_def sample_vote_def sample_fsm_def
        sample_validators_def power_of_def)
qed

lemma next_chain: "fsm_chain_id (receive w next_fsm ws) = 7"
  using receive_constant [OF fsm_reachable_ok [OF next_fsm_reachable]] by (simp add: next_fsm_def sample_fsm_def)

lemma finalized_proposal_commits_witness:
  "\<exists>p c b n'. execute_candidate (sample_node 2 0) (\<lambda>_. True) (Some 99) = Some (Inr p) \<and>
     commit_finalized (sample_node 2 0) (np_store (sample_node 2 0)) p c = Inr (b, n') \<and> store_head (np_store n') = Inr b \<and>
     sb_height b = 1"
proof -
  obtain p where p: "execute_candidate (sample_node 2 0) (\<lambda>_. True) (Some 99) = Some (Inr p)"
      "ep_height p = 1" "base_fee_per_gas (ep_transition p) = 2" "gas_used (ep_transition p) = 5" "\<exists>m. ep_block_hash p = digest0x m"
    by (rule sample_proposal) blast
  have hash: "is_hash32 (ep_block_hash p)" "lower (ep_block_hash p) = ep_block_hash p"
    using p(5) by auto
  obtain c where c: "get_certificate (receive (\<lambda>_. Some True) next_fsm (next_votes (ep_block_hash p))) 1 = Inr c"
      "fc_block_hash c = ep_block_hash p"
    using hash by (rule next_decided)
  have "\<forall>item \<in> set (blocks (np_store (sample_node 2 0))). br_block_hash (snd item) \<noteq> ep_block_hash p"
    using p(5) underscore_hash_ok(3) by (auto simp: sample_node_def funded_store_def funded_row_def)
  then show ?thesis
    using finalized_proposal_commits [OF p(1) sample_node_reachable sample_config_ok sample_policy_ok
        receive_reachable [OF next_fsm_reachable], of "\<lambda>_. Some True" "next_votes (ep_block_hash p)" c] c p next_chain sample_chain
    by (fastforce simp: sqlite_int_def)
qed

lemma node_integrity_witness:
  "pool_ok (np_pool (sample_node 2 0)) \<and> (\<exists>evidence. integrity_check 7 (np_store (sample_node 2 0)) = Inr evidence)"
  using node_integrity [OF sample_node_reachable sample_config_ok sample_policy_ok]
  by (simp add: sample_node_def funded_store_def)

lemma proposal_extends_head_witness:
  "\<exists>p. execute_candidate (sample_node 2 0) (\<lambda>_. True) (Some 99) = Some (Inr p) \<and> ep_height p = 1 \<and>
     ep_parent_hash p = underscore_hash"
proof -
  obtain p where p: "execute_candidate (sample_node 2 0) (\<lambda>_. True) (Some 99) = Some (Inr p)"
    by (rule sample_proposal)
  have "pool_ok sample_pool" "pool_config sample_pool = sample_config"
    using pool_reachable_for [OF sample_pool_reachable sample_policy_ok] by (simp_all add: pool_for_def)
  then show ?thesis
    using proposal_extends_head [OF p _ _ _ _ sample_node_head] p store_reachable_ok [OF funded_store_reachable] sample_config_ok
    by (auto simp: sample_node_def mk_stored_block_def funded_row_def)
qed

lemma underpriced_candidate_stalls_witness:
  "\<exists>e. execute_candidate (sample_node 4 20) (\<lambda>_. True) (Some 99) = Some (Inl e)"
proof -
  let ?n = "sample_node 4 20" and ?head = "mk_stored_block (0, funded_row 4 20)" and ?t = "sample_tx addr_a addr_b 3"
  have pool: "pool_ok (np_pool ?n)"
    using pool_reachable_for [OF sample_pool_reachable sample_policy_ok] by (simp add: pool_for_def)
  have fee: "next_base_fee (np_config ?n) (sb_base_fee ?head) (sb_gas_used ?head) = Inr 5"
    by (simp add: next_base_fee_def sample_config_def)
  have cand: "build_candidate (np_pool ?n) funded_accounts (sb_base_fee ?head) None = Some (Inr sample_block_candidate)"
    using sample_candidate [of 4] by simp
  have t: "?t \<in> set (cand_transactions sample_block_candidate)" "max_fee_per_gas ?t < 5" "sb_base_fee ?head \<le> max_fee_per_gas ?t"
    by (simp_all add: sample_block_candidate_def sample_tx_def)
  have held: "(key_of ?t, ?t) \<in> set (pool_txs (np_pool ?n))"
    by (simp add: sample_pool_def key_of_def sample_tx_def Let_def)
  have due: "tx_nonce ?t = nonce_of funded_accounts (lower (sender ?t))" "0 \<le> max_nonce_gap (pool_policy (np_pool ?n))"
    by (simp_all add: sample_tx_def nonce_of_def dict_get_default_def funded_accounts_def sample_pool_def sample_policy_def Let_def)
  show ?thesis
    using underpriced_candidate_stalls [OF sample_node_head fee cand t(1,2) pool held t(3) due] by blast
qed

end
