(* ===== verification/BridgeProtocol.thy ===== *)
theory BridgeProtocol
  imports Json Sha256 WriteOnce
begin

text \<open>
  \<open>bridge_protocol.py\<close>: the state machine of bridge messages, from observation over confirmations and
  attestations of relayers to execution or rejection. The signatures of relayers are verified by the
  caller, who passes the result in the attestation. Records are shared objects in the code; the model
  returns the record as it is after the operation.
\<close>

section \<open>Messages\<close>

definition REQUIRED_GOVERNANCE :: string where "REQUIRED_GOVERNANCE = ''JAIOS Institutional Governance''"
definition REQUIRED_NOTICE :: string where "REQUIRED_NOTICE = ''Public Testnet / No Monetary Value''"

datatype bridge_state = Observed | FinalityPending | Attested | ExecutionReady | Executed | Rejected

fun bridge_state_value :: "bridge_state \<Rightarrow> string" where
  "bridge_state_value Observed = ''OBSERVED''"
| "bridge_state_value FinalityPending = ''FINALITY_PENDING''"
| "bridge_state_value Attested = ''ATTESTED''"
| "bridge_state_value ExecutionReady = ''EXECUTION_READY''"
| "bridge_state_value Executed = ''EXECUTED''"
| "bridge_state_value Rejected = ''REJECTED''"

record bridge_message =
  bm_route_digest :: string
  bm_direction :: string
  bm_source_network :: string
  bm_destination_network :: string
  bm_nonce :: int
  bm_source_transaction :: string
  bm_source_block :: int
  bm_asset_type :: string
  bm_source_asset :: string
  bm_destination_asset :: string
  bm_sender :: string
  bm_recipient :: string
  bm_value :: int
  bm_token_id :: "int option"
  bm_governance :: string
  bm_notice :: string
  bm_schema_version :: int

definition canonical_message :: "bridge_message \<Rightarrow> json" where
  "canonical_message m = JObj
     [(''asset_type'', JStr (bm_asset_type m)),
      (''destination_asset'', JStr (bm_destination_asset m)),
      (''destination_network'', JStr (bm_destination_network m)),
      (''direction'', JStr (bm_direction m)),
      (''governance'', JStr (bm_governance m)),
      (''nonce'', JInt (bm_nonce m)),
      (''notice'', JStr (bm_notice m)),
      (''recipient'', JStr (bm_recipient m)),
      (''route_digest'', JStr (bm_route_digest m)),
      (''schema_version'', JInt (bm_schema_version m)),
      (''sender'', JStr (bm_sender m)),
      (''source_asset'', JStr (bm_source_asset m)),
      (''source_block'', JInt (bm_source_block m)),
      (''source_network'', JStr (bm_source_network m)),
      (''source_transaction'', JStr (bm_source_transaction m)),
      (''token_id'', case bm_token_id m of None \<Rightarrow> JNull | Some i \<Rightarrow> JInt i),
      (''value'', JInt (bm_value m))]"

definition message_text :: "bridge_message \<Rightarrow> bytes" where
  "message_text m = ''JUNCA_BRIDGE_MESSAGE_V1'' @ [CHR 0x00] @ encode (json_dumps (canonical_message m))"

definition message_digest :: "bridge_message \<Rightarrow> string" where
  "message_digest m = sha256_hex (message_text m)"

record relayer_attestation =
  at_relayer_id :: string
  at_message_digest :: string
  at_key_id :: string
  at_signature :: string
  cryptographic_verification :: bool

record bridge_record =
  rec_message :: bridge_message
  rec_state :: bridge_state
  rec_confirmations :: int
  rec_attestations :: "(string, relayer_attestation) dict"
  rec_execution_transaction :: "string option"
  rec_rejection_reason :: "string option"

definition new_bridge_record :: "bridge_message \<Rightarrow> bridge_record" where
  "new_bridge_record m = \<lparr>rec_message = m, rec_state = Observed, rec_confirmations = 0, rec_attestations = [],
     rec_execution_transaction = None, rec_rejection_reason = None\<rparr>"

definition bridge_record_evidence :: "bridge_record \<Rightarrow> json" where
  "bridge_record_evidence r = JObj
     [(''message'', canonical_message (rec_message r)),
      (''message_digest'', JStr (message_digest (rec_message r))),
      (''state'', JStr (bridge_state_value (rec_state r))),
      (''confirmations'', JInt (rec_confirmations r)),
      (''attested_relayers'', JArr (map JStr (sort (map fst (rec_attestations r))))),
      (''execution_transaction'', case rec_execution_transaction r of None \<Rightarrow> JNull | Some t \<Rightarrow> JStr t),
      (''rejection_reason'', case rec_rejection_reason r of None \<Rightarrow> JNull | Some t \<Rightarrow> JStr t)]"

section \<open>Checks\<close>

definition require :: "bool \<Rightarrow> string \<Rightarrow> unit result" where
  "require condition message = raise_if (\<not> condition) (BridgeProtocolError message)"

text \<open>A sequence of such checks, in their order.\<close>

definition require_all :: "(bool \<times> string) list \<Rightarrow> unit result" where
  "require_all = all_ok (\<lambda>(condition, message). require condition message)"

text \<open>The three patterns of \<open>re.fullmatch\<close>; no hexadecimal digit is an x, so the prefix is never ambiguous.\<close>

definition hex64_lower :: "string \<Rightarrow> bool" where
  "hex64_lower s \<longleftrightarrow> length s = 64 \<and> list_all is_lower_hex s"

definition without_0x :: "string \<Rightarrow> string" where
  "without_0x s = (if starts_with ''0x'' s then drop 2 s else s)"

definition hex64 :: "string \<Rightarrow> bool" where
  "hex64 s \<longleftrightarrow> length (without_0x s) = 64 \<and> list_all is_hex_digit (without_0x s)"

definition hex128_or_more :: "string \<Rightarrow> bool" where
  "hex128_or_more s \<longleftrightarrow> 128 \<le> length (without_0x s) \<and> list_all is_hex_digit (without_0x s)"

section \<open>The protocol\<close>

record bridge =
  bp_route_digest :: string
  allowed_networks :: "string set"
  relayer_ids :: "string set"
  threshold :: int
  required_confirmations :: int
  per_transaction_limit :: int
  daily_limit :: int
  paused :: bool
  records :: "(string, bridge_record) dict"
  used_source_transactions :: "string set"
  used_nonces :: "(string \<times> int) set"
  executed_value :: int

definition validate_policy :: "bridge \<Rightarrow> unit result" where
  "validate_policy b = require_all
     [(hex64_lower (bp_route_digest b), ''invalid route digest''),
      (card (allowed_networks b) = 2, ''exactly two route networks are required''),
      (''junca-public-testnet'' \<in> allowed_networks b, ''JUNCA testnet is required''),
      (allowed_networks b \<inter> {''bsc-testnet'', ''tron-shasta''} \<noteq> {}, ''supported destination is required''),
      (3 \<le> card (relayer_ids b), ''at least three relayers are required''),
      (2 \<le> threshold b \<and> threshold b \<le> int (card (relayer_ids b)), ''invalid relayer threshold''),
      (0 < required_confirmations b, ''confirmations must be positive''),
      (0 < per_transaction_limit b \<and> per_transaction_limit b \<le> daily_limit b, ''invalid limits'')]"

definition bridge_init ::
  "string \<Rightarrow> string list \<Rightarrow> string list \<Rightarrow> int \<Rightarrow> int \<Rightarrow> int \<Rightarrow> int \<Rightarrow> bool \<Rightarrow> bridge result" where
  "bridge_init route networks relayers needed confirmations per_transaction daily is_paused =
     (let b = \<lparr>bp_route_digest = route, allowed_networks = set networks, relayer_ids = set relayers, threshold = needed,
        required_confirmations = confirmations, per_transaction_limit = per_transaction, daily_limit = daily,
        paused = is_paused, records = [], used_source_transactions = {}, used_nonces = {}, executed_value = 0\<rparr> in
      bindE (validate_policy b) (\<lambda>_. Inr b))"

definition token_check :: "bridge_message \<Rightarrow> bool \<times> string" where
  "token_check m =
     (if bm_asset_type m = ''nft''
      then (case bm_token_id m of None \<Rightarrow> False | Some i \<Rightarrow> 0 \<le> i, ''NFT token_id is required'')
      else (bm_token_id m = None, ''fungible message cannot include token_id''))"

definition validate_message :: "bridge \<Rightarrow> bridge_message \<Rightarrow> unit result" where
  "validate_message b m = require_all
     [(bm_schema_version m = 1, ''unsupported message schema''),
      (bm_route_digest m = bp_route_digest b, ''route digest mismatch''),
      (bm_governance m = REQUIRED_GOVERNANCE, ''invalid governance display''),
      (bm_notice m = REQUIRED_NOTICE, ''testnet notice is required''),
      (bm_source_network m \<in> allowed_networks b, ''source network is not on route''),
      (bm_destination_network m \<in> allowed_networks b, ''destination network is not on route''),
      (bm_source_network m \<noteq> bm_destination_network m, ''source and destination must differ''),
      (bm_direction m = bm_source_network m @ ''->'' @ bm_destination_network m, ''direction does not match networks''),
      (0 \<le> bm_nonce m \<and> 0 \<le> bm_source_block m, ''nonce and block must be non-negative''),
      (hex64 (bm_source_transaction m), ''invalid source transaction''),
      (bm_asset_type m \<in> {''fungible'', ''nft''}, ''invalid asset type''),
      (0 < bm_value m, ''value must be positive''),
      token_check m,
      (strip (bm_source_asset m) \<noteq> [], ''source_asset is required''),
      (strip (bm_destination_asset m) \<noteq> [], ''destination_asset is required''),
      (strip (bm_sender m) \<noteq> [], ''sender is required''),
      (strip (bm_recipient m) \<noteq> [], ''recipient is required'')]"

definition bridge_record_at :: "bridge \<Rightarrow> string \<Rightarrow> bridge_record result" where
  "bridge_record_at b digest =
     (case dict_get (records b) digest of
        None \<Rightarrow> Inl (BridgeProtocolError ''unknown bridge message'')
      | Some r \<Rightarrow> Inr r)"

text \<open>The record after an operation, and the protocol that holds it.\<close>

definition put_record :: "bridge \<Rightarrow> string \<Rightarrow> bridge_record \<Rightarrow> bridge_record \<times> bridge" where
  "put_record b digest r = (r, b\<lparr>records := dict_set digest r (records b)\<rparr>)"

definition bridge_observe :: "bridge \<Rightarrow> bridge_message \<Rightarrow> (bridge_record \<times> bridge) result" where
  "bridge_observe b m =
     bindE (validate_message b m) (\<lambda>_.
     let digest = message_digest m; nonce_key = (bm_source_network m, bm_nonce m) in
     bindE (require_all
       [(dict_get (records b) digest = None, ''message replay detected''),
        (bm_source_transaction m \<notin> used_source_transactions b, ''source transaction replay detected''),
        (nonce_key \<notin> used_nonces b, ''source nonce replay detected'')]) (\<lambda>_.
     let r = new_bridge_record m in
     Inr (r, b\<lparr>records := dict_set digest r (records b),
               used_source_transactions := insert (bm_source_transaction m) (used_source_transactions b),
               used_nonces := insert nonce_key (used_nonces b)\<rparr>)))"

definition apply_confirmations :: "bridge \<Rightarrow> string \<Rightarrow> int \<Rightarrow> (bridge_record \<times> bridge) result" where
  "apply_confirmations b digest n =
     bindE (bridge_record_at b digest) (\<lambda>r.
     bindE (require_all
       [(rec_state r \<in> {Observed, FinalityPending}, ''invalid confirmation transition''),
        (rec_confirmations r \<le> n, ''confirmations cannot decrease'')]) (\<lambda>_.
     Inr (put_record b digest (r\<lparr>rec_confirmations := n,
       rec_state := (if required_confirmations b \<le> n \<and> threshold b \<le> int (length (rec_attestations r))
                     then Attested else FinalityPending)\<rparr>))))"

definition bridge_attest :: "bridge \<Rightarrow> relayer_attestation \<Rightarrow> (bridge_record \<times> bridge) result" where
  "bridge_attest b a =
     bindE (bridge_record_at b (at_message_digest a)) (\<lambda>r.
     bindE (require_all
       [(rec_state r \<notin> {Executed, Rejected}, ''terminal bridge record''),
        (at_relayer_id a \<in> relayer_ids b, ''unknown relayer''),
        (dict_get (rec_attestations r) (at_relayer_id a) = None, ''duplicate relayer attestation''),
        (at_message_digest a = message_digest (rec_message r), ''attestation digest mismatch''),
        (cryptographic_verification a, ''signature was not cryptographically verified''),
        (at_key_id a \<noteq> [], ''relayer key id is required''),
        (hex128_or_more (at_signature a), ''invalid signature encoding'')]) (\<lambda>_.
     let attested = dict_set (at_relayer_id a) a (rec_attestations r); r' = r\<lparr>rec_attestations := attested\<rparr> in
     Inr (put_record b (at_message_digest a)
       (if threshold b \<le> int (length attested) \<and> required_confirmations b \<le> rec_confirmations r
        then r'\<lparr>rec_state := Attested\<rparr> else r'))))"

definition prepare_execution :: "bridge \<Rightarrow> string \<Rightarrow> (bridge_record \<times> bridge) result" where
  "prepare_execution b digest =
     bindE (bridge_record_at b digest) (\<lambda>r.
     bindE (require_all
       [(rec_state r = Attested, ''record is not attested and final''),
        (\<not> paused b, ''route is paused''),
        (bm_value (rec_message r) \<le> per_transaction_limit b, ''per-transaction limit exceeded''),
        (executed_value b + bm_value (rec_message r) \<le> daily_limit b, ''daily limit exceeded'')]) (\<lambda>_.
     Inr (put_record b digest (r\<lparr>rec_state := ExecutionReady\<rparr>))))"

definition mark_executed :: "bridge \<Rightarrow> string \<Rightarrow> string \<Rightarrow> (bridge_record \<times> bridge) result" where
  "mark_executed b digest execution_transaction =
     bindE (bridge_record_at b digest) (\<lambda>r.
     bindE (require_all
       [(rec_state r = ExecutionReady, ''record is not execution-ready''),
        (hex64 execution_transaction, ''invalid execution transaction'')]) (\<lambda>_.
     let (r', b') = put_record b digest
           (r\<lparr>rec_execution_transaction := Some execution_transaction, rec_state := Executed\<rparr>) in
     Inr (r', b'\<lparr>executed_value := executed_value b + bm_value (rec_message r)\<rparr>)))"

definition bridge_reject :: "bridge \<Rightarrow> string \<Rightarrow> string \<Rightarrow> (bridge_record \<times> bridge) result" where
  "bridge_reject b digest reason =
     bindE (bridge_record_at b digest) (\<lambda>r.
     bindE (require_all
       [(rec_state r \<noteq> Executed, ''executed record cannot be rejected''),
        (strip reason \<noteq> [], ''rejection reason is required'')]) (\<lambda>_.
     Inr (put_record b digest (r\<lparr>rec_state := Rejected, rec_rejection_reason := Some (strip reason)\<rparr>))))"

definition set_paused :: "bridge \<Rightarrow> bool \<Rightarrow> bridge" where
  "set_paused b is_paused = b\<lparr>paused := is_paused\<rparr>"

section \<open>Messages from documents\<close>

definition required_message_fields :: "string list" where
  "required_message_fields = [''route_digest'', ''direction'', ''source_network'', ''destination_network'', ''nonce'',
     ''source_transaction'', ''source_block'', ''asset_type'', ''source_asset'', ''destination_asset'', ''sender'',
     ''recipient'', ''value'']"

definition message_fields :: "string list" where
  "message_fields = required_message_fields @ [''token_id'', ''governance'', ''notice'', ''schema_version'']"

definition field_or :: "(string \<times> json) list \<Rightarrow> string \<Rightarrow> json \<Rightarrow> json" where
  "field_or raw f d = (if f \<in> json_keys raw then json_at raw f else d)"

text \<open>
  The two messages are cut after their fixed part. The dataclass does not check the types of its
  fields: the outcome for a value of another type is \<open>UndeclaredType\<close>.
\<close>

definition bridge_message_from_mapping :: "(string \<times> json) list \<Rightarrow> bridge_message result" where
  "bridge_message_from_mapping raw =
     bindE (require (json_keys raw \<subseteq> set message_fields) ''unknown bridge message fields: '') (\<lambda>_.
     bindE (require (set required_message_fields \<subseteq> json_keys raw) ''BridgeMessage.__init__() missing '') (\<lambda>_.
     bindE (str_field (json_at raw ''route_digest'')) (\<lambda>route.
     bindE (str_field (json_at raw ''direction'')) (\<lambda>direction.
     bindE (str_field (json_at raw ''source_network'')) (\<lambda>source_network.
     bindE (str_field (json_at raw ''destination_network'')) (\<lambda>destination_network.
     bindE (int_field (json_at raw ''nonce'')) (\<lambda>nonce.
     bindE (str_field (json_at raw ''source_transaction'')) (\<lambda>source_transaction.
     bindE (int_field (json_at raw ''source_block'')) (\<lambda>source_block.
     bindE (str_field (json_at raw ''asset_type'')) (\<lambda>asset_type.
     bindE (str_field (json_at raw ''source_asset'')) (\<lambda>source_asset.
     bindE (str_field (json_at raw ''destination_asset'')) (\<lambda>destination_asset.
     bindE (str_field (json_at raw ''sender'')) (\<lambda>sender.
     bindE (str_field (json_at raw ''recipient'')) (\<lambda>recipient.
     bindE (int_field (json_at raw ''value'')) (\<lambda>amount.
     bindE (case field_or raw ''token_id'' JNull of JNull \<Rightarrow> Inr None | v \<Rightarrow> map_sum id Some (int_field v)) (\<lambda>token.
     bindE (str_field (field_or raw ''governance'' (JStr REQUIRED_GOVERNANCE))) (\<lambda>governance.
     bindE (str_field (field_or raw ''notice'' (JStr REQUIRED_NOTICE))) (\<lambda>notice.
     bindE (int_field (field_or raw ''schema_version'' (JInt 1))) (\<lambda>version.
     Inr \<lparr>bm_route_digest = route, bm_direction = direction, bm_source_network = source_network,
          bm_destination_network = destination_network, bm_nonce = nonce, bm_source_transaction = source_transaction,
          bm_source_block = source_block, bm_asset_type = asset_type, bm_source_asset = source_asset,
          bm_destination_asset = destination_asset, bm_sender = sender, bm_recipient = recipient, bm_value = amount,
          bm_token_id = token, bm_governance = governance, bm_notice = notice, bm_schema_version = version\<rparr>)))))))))))))))))))"

section \<open>What the operations do\<close>

lemma require_Inr [result_elims]: "require c m = Inr u \<longleftrightarrow> c"
  by (simp add: require_def raise_if_Inr_iff)

lemma require_all_Inr [result_elims]: "require_all cs = Inr u \<longleftrightarrow> (\<forall>c \<in> set cs. fst c)"
  by (auto simp: require_all_def all_ok_Inr_iff require_Inr)

lemma bridge_record_at_Inr [result_elims]: "bridge_record_at b d = Inr r \<longleftrightarrow> dict_get (records b) d = Some r"
  by (auto simp: bridge_record_at_def split: option.splits)

lemmas bridge_elims = bindE_Inr_iff require_all_Inr bridge_record_at_Inr put_record_def

text \<open>One case per operation: the record before, and what is written.\<close>

lemma bridge_observe_Inr:
  "bridge_observe b m = Inr (r, b') \<longleftrightarrow>
     validate_message b m = Inr () \<and> dict_get (records b) (message_digest m) = None \<and>
     bm_source_transaction m \<notin> used_source_transactions b \<and> (bm_source_network m, bm_nonce m) \<notin> used_nonces b \<and>
     r = new_bridge_record m \<and>
     b' = b\<lparr>records := records b @ [(message_digest m, r)],
            used_source_transactions := insert (bm_source_transaction m) (used_source_transactions b),
            used_nonces := insert (bm_source_network m, bm_nonce m) (used_nonces b)\<rparr>"
proof (cases "dict_get (records b) (message_digest m)")
  case None
  then show ?thesis
    by (auto simp: bridge_observe_def bridge_elims Let_def dict_set_new)
qed (auto simp: bridge_observe_def bridge_elims Let_def simp del: map_of_eq_Some_iff)

lemma apply_confirmations_Inr:
  "apply_confirmations b d n = Inr (r', b') \<longleftrightarrow>
     (\<exists>r. dict_get (records b) d = Some r \<and> rec_state r \<in> {Observed, FinalityPending} \<and> rec_confirmations r \<le> n \<and>
        r' = r\<lparr>rec_confirmations := n,
               rec_state := (if required_confirmations b \<le> n \<and> threshold b \<le> int (length (rec_attestations r))
                             then Attested else FinalityPending)\<rparr> \<and>
        b' = b\<lparr>records := dict_set d r' (records b)\<rparr>)"
proof (cases "dict_get (records b) d")
  case (Some r)
  then show ?thesis
    by (auto simp: apply_confirmations_def bridge_elims  simp del: map_of_eq_Some_iff)
qed (simp add: apply_confirmations_def bridge_record_at_def)

lemma bridge_attest_Inr:
  "bridge_attest b a = Inr (r', b') \<longleftrightarrow>
     (\<exists>r. dict_get (records b) (at_message_digest a) = Some r \<and> rec_state r \<notin> {Executed, Rejected} \<and>
        at_relayer_id a \<in> relayer_ids b \<and> dict_get (rec_attestations r) (at_relayer_id a) = None \<and>
        at_message_digest a = message_digest (rec_message r) \<and> cryptographic_verification a \<and> at_key_id a \<noteq> [] \<and>
        hex128_or_more (at_signature a) \<and>
        r' = r\<lparr>rec_attestations := rec_attestations r @ [(at_relayer_id a, a)],
               rec_state := (if threshold b \<le> int (length (rec_attestations r)) + 1 \<and>
                                required_confirmations b \<le> rec_confirmations r
                             then Attested else rec_state r)\<rparr> \<and>
        b' = b\<lparr>records := dict_set (at_message_digest a) r' (records b)\<rparr>)"
proof (cases "dict_get (records b) (at_message_digest a)")
  case (Some r)
  then show ?thesis
    by (auto simp: bridge_attest_def bridge_elims Let_def dict_set_new simp del: map_of_eq_Some_iff)
qed (simp add: bridge_attest_def bridge_record_at_def)

lemma prepare_execution_Inr:
  "prepare_execution b d = Inr (r', b') \<longleftrightarrow>
     (\<exists>r. dict_get (records b) d = Some r \<and> rec_state r = Attested \<and> \<not> paused b \<and>
        bm_value (rec_message r) \<le> per_transaction_limit b \<and>
        executed_value b + bm_value (rec_message r) \<le> daily_limit b \<and>
        r' = r\<lparr>rec_state := ExecutionReady\<rparr> \<and> b' = b\<lparr>records := dict_set d r' (records b)\<rparr>)"
proof (cases "dict_get (records b) d")
  case (Some r)
  then show ?thesis
    by (auto simp: prepare_execution_def bridge_elims  simp del: map_of_eq_Some_iff)
qed (simp add: prepare_execution_def bridge_record_at_def)

lemma mark_executed_Inr:
  "mark_executed b d tx = Inr (r', b') \<longleftrightarrow>
     (\<exists>r. dict_get (records b) d = Some r \<and> rec_state r = ExecutionReady \<and> hex64 tx \<and>
        r' = r\<lparr>rec_execution_transaction := Some tx, rec_state := Executed\<rparr> \<and>
        b' = b\<lparr>records := dict_set d r' (records b), executed_value := executed_value b + bm_value (rec_message r)\<rparr>)"
proof (cases "dict_get (records b) d")
  case (Some r)
  then show ?thesis
    by (auto simp: mark_executed_def bridge_elims  simp del: map_of_eq_Some_iff)
qed (simp add: mark_executed_def bridge_record_at_def)

lemma bridge_reject_Inr:
  "bridge_reject b d reason = Inr (r', b') \<longleftrightarrow>
     (\<exists>r. dict_get (records b) d = Some r \<and> rec_state r \<noteq> Executed \<and> strip reason \<noteq> [] \<and>
        r' = r\<lparr>rec_state := Rejected, rec_rejection_reason := Some (strip reason)\<rparr> \<and>
        b' = b\<lparr>records := dict_set d r' (records b)\<rparr>)"
proof (cases "dict_get (records b) d")
  case (Some r)
  then show ?thesis
    by (auto simp: bridge_reject_def bridge_elims  simp del: map_of_eq_Some_iff)
qed (simp add: bridge_reject_def bridge_record_at_def)

section \<open>Histories\<close>

inductive bridge_step :: "bridge \<Rightarrow> bridge \<Rightarrow> bool" where
  observe_step: "bridge_observe b m = Inr (r, b') \<Longrightarrow> bridge_step b b'"
| confirm_step: "apply_confirmations b d n = Inr (r, b') \<Longrightarrow> bridge_step b b'"
| attest_step: "bridge_attest b a = Inr (r, b') \<Longrightarrow> bridge_step b b'"
| prepare_step: "prepare_execution b d = Inr (r, b') \<Longrightarrow> bridge_step b b'"
| execute_step: "mark_executed b d tx = Inr (r, b') \<Longrightarrow> bridge_step b b'"
| reject_step: "bridge_reject b d reason = Inr (r, b') \<Longrightarrow> bridge_step b b'"
| pause_step: "bridge_step b (set_paused b p)"

inductive bridge_reachable :: "bridge \<Rightarrow> bool" where
  created: "bridge_init route networks relayers needed confirmations per_tx daily p = Inr b \<Longrightarrow> bridge_reachable b"
| step: "bridge_reachable b \<Longrightarrow> bridge_step b b' \<Longrightarrow> bridge_reachable b'"

section \<open>The invariant of a record\<close>

text \<open>A record in good order under its key; only the policy of the protocol matters for it.\<close>

definition record_ok :: "bridge \<Rightarrow> string \<Rightarrow> bridge_record \<Rightarrow> bool" where
  "record_ok b d r \<longleftrightarrow>
     d = message_digest (rec_message r) \<and> validate_message b (rec_message r) = Inr () \<and>
     dict_ok (rec_attestations r) \<and>
     (\<forall>(i, a) \<in> set (rec_attestations r).
        i = at_relayer_id a \<and> i \<in> relayer_ids b \<and> at_message_digest a = d \<and> cryptographic_verification a) \<and>
     (rec_state r \<in> {Attested, ExecutionReady, Executed} \<longrightarrow>
        required_confirmations b \<le> rec_confirmations r \<and> threshold b \<le> int (length (rec_attestations r))) \<and>
     (rec_state r \<in> {ExecutionReady, Executed} \<longrightarrow> bm_value (rec_message r) \<le> per_transaction_limit b) \<and>
     (rec_execution_transaction r \<noteq> None \<longleftrightarrow> rec_state r = Executed)"

definition same_policy :: "bridge \<Rightarrow> bridge \<Rightarrow> bool" where
  "same_policy b b' \<longleftrightarrow> bp_route_digest b' = bp_route_digest b \<and> allowed_networks b' = allowed_networks b \<and>
     relayer_ids b' = relayer_ids b \<and> threshold b' = threshold b \<and> required_confirmations b' = required_confirmations b \<and>
     per_transaction_limit b' = per_transaction_limit b \<and> daily_limit b' = daily_limit b"

lemma same_policy_ok:
  assumes "same_policy b b'"
  shows "record_ok b' d r \<longleftrightarrow> record_ok b d r" "validate_message b' m = validate_message b m" "validate_policy b' = validate_policy b"
  using assms by (simp_all add: same_policy_def record_ok_def validate_message_def validate_policy_def)

lemma new_record_ok: "validate_message b m = Inr () \<Longrightarrow> record_ok b (message_digest m) (new_bridge_record m)"
  by (simp add: record_ok_def new_bridge_record_def)

text \<open>
  Every step but an observation and a pause writes one record in place: it keeps the message, and the state moves
  along the lifecycle.
\<close>

definition moves :: "bridge \<Rightarrow> bridge_record \<Rightarrow> bridge_record \<Rightarrow> bool" where
  "moves b r r' \<longleftrightarrow> rec_message r' = rec_message r \<and> rec_state r \<noteq> Executed \<and>
     (rec_state r = Rejected \<longrightarrow> rec_state r' = Rejected) \<and>
     (rec_state r' = Executed \<longrightarrow> rec_state r = ExecutionReady) \<and>
     (\<forall>d. record_ok b d r \<longrightarrow> record_ok b d r')"

lemma bridge_step_cases:
  assumes "bridge_step b b'"
  obtains (observed) m where "bridge_observe b m = Inr (new_bridge_record m, b')"
  | (moved) d r r' where "dict_get (records b) d = Some r" "moves b r r'" "records b' = dict_set d r' (records b)"
      "same_policy b b'" "used_source_transactions b' = used_source_transactions b" "used_nonces b' = used_nonces b"
      "executed_value b' = executed_value b + (if rec_state r' = Executed then bm_value (rec_message r) else 0)"
  | (paused) p where "b' = set_paused b p"
  using assms
proof cases
  case (observe_step m r)
  then show thesis
    using observed [of m] by (simp add: bridge_observe_Inr)
next
  case (confirm_step d n r')
  then obtain r where "dict_get (records b) d = Some r" "moves b r r'" "rec_state r' \<noteq> Executed" "b' = b\<lparr>records := dict_set d r' (records b)\<rparr>"
    by (auto simp: apply_confirmations_Inr moves_def record_ok_def simp del: map_of_eq_Some_iff)
  then show thesis
    by (intro moved [of d r r']) (simp_all add: same_policy_def)
next
  case (attest_step a r')
  then obtain r where r: "dict_get (records b) (at_message_digest a) = Some r" "rec_state r \<notin> {Executed, Rejected}"
      "at_relayer_id a \<in> relayer_ids b" "dict_get (rec_attestations r) (at_relayer_id a) = None"
      "at_message_digest a = message_digest (rec_message r)" "cryptographic_verification a"
      and r': "r' = r\<lparr>rec_attestations := rec_attestations r @ [(at_relayer_id a, a)],
               rec_state := (if threshold b \<le> int (length (rec_attestations r)) + 1 \<and>
                                required_confirmations b \<le> rec_confirmations r
                             then Attested else rec_state r)\<rparr>"
      and b': "b' = b\<lparr>records := dict_set (at_message_digest a) r' (records b)\<rparr>"
    unfolding bridge_attest_Inr by blast
  have "record_ok b d r'" if "record_ok b d r" for d
    using that r(2-6) unfolding record_ok_def r' by (auto simp: map_of_eq_None_iff)
  then have "moves b r r'" "rec_state r' \<noteq> Executed"
    using r(2) by (auto simp: moves_def r')
  with r(1) b' show thesis
    by (intro moved [of "at_message_digest a" r r']) (simp_all add: same_policy_def)
next
  case (prepare_step d r')
  then obtain r where "dict_get (records b) d = Some r" "moves b r r'" "rec_state r' \<noteq> Executed" "b' = b\<lparr>records := dict_set d r' (records b)\<rparr>"
    by (auto simp: prepare_execution_Inr moves_def record_ok_def simp del: map_of_eq_Some_iff)
  then show thesis
    by (intro moved [of d r r']) (simp_all add: same_policy_def)
next
  case (execute_step d tx r')
  then obtain r where "dict_get (records b) d = Some r" "moves b r r'" "rec_state r' = Executed"
      "b' = b\<lparr>records := dict_set d r' (records b), executed_value := executed_value b + bm_value (rec_message r)\<rparr>"
    by (auto simp: mark_executed_Inr moves_def record_ok_def simp del: map_of_eq_Some_iff)
  then show thesis
    by (intro moved [of d r r']) (simp_all add: same_policy_def)
next
  case (reject_step d reason r')
  then obtain r where "dict_get (records b) d = Some r" "moves b r r'" "rec_state r' \<noteq> Executed" "b' = b\<lparr>records := dict_set d r' (records b)\<rparr>"
    by (auto simp: bridge_reject_Inr moves_def record_ok_def simp del: map_of_eq_Some_iff)
  then show thesis
    by (intro moved [of d r r']) (simp_all add: same_policy_def)
qed (use paused in blast)


section \<open>The invariant of the protocol\<close>

definition tx_of :: "string \<times> bridge_record \<Rightarrow> string" where
  "tx_of item = bm_source_transaction (rec_message (snd item))"

definition nonce_key_of :: "string \<times> bridge_record \<Rightarrow> string \<times> int" where
  "nonce_key_of item = (bm_source_network (rec_message (snd item)), bm_nonce (rec_message (snd item)))"

definition executed_amount :: "string \<times> bridge_record \<Rightarrow> int" where
  "executed_amount item = (if rec_state (snd item) = Executed then bm_value (rec_message (snd item)) else 0)"

definition bridge_ok :: "bridge \<Rightarrow> bool" where
  "bridge_ok b \<longleftrightarrow>
     validate_policy b = Inr () \<and> dict_ok (records b) \<and> (\<forall>(d, r) \<in> set (records b). record_ok b d r) \<and>
     used_source_transactions b = tx_of ` set (records b) \<and> distinct (map tx_of (records b)) \<and>
     used_nonces b = nonce_key_of ` set (records b) \<and> distinct (map nonce_key_of (records b)) \<and>
     executed_value b = sum_list (map executed_amount (records b))"

lemma bridge_init_ok: "bridge_init route networks relayers needed confirmations per_tx daily p = Inr b \<Longrightarrow> bridge_ok b"
  by (auto simp: bridge_init_def bindE_Inr_iff bridge_ok_def Let_def)

lemma bridge_step_ok:
  assumes "bridge_step b b'" "bridge_ok b"
  shows "bridge_ok b'"
  using assms(1)
proof (cases rule: bridge_step_cases)
  case (observed m)
  note new = observed [unfolded bridge_observe_Inr]
  let ?item = "(message_digest m, new_bridge_record m)"
  have "same_policy b b'"
    using new by (simp add: same_policy_def)
  note same = same_policy_ok [OF this]
  have "tx_of ?item = bm_source_transaction m" "nonce_key_of ?item = (bm_source_network m, bm_nonce m)" "executed_amount ?item = 0"
    by (simp_all add: tx_of_def nonce_key_of_def executed_amount_def new_bridge_record_def)
  moreover have "message_digest m \<notin> fst ` set (records b)"
    using new by (simp add: map_of_eq_None_iff)
  ultimately show ?thesis
    using assms(2) new new_record_ok [of b m] unfolding bridge_ok_def same by auto
next
  case (moved d r r')
  note same = same_policy_ok [OF moved(4)]
  have ok: "record_ok b d r"
    using assms(2) moved(1) by (auto simp: bridge_ok_def dest!: map_of_SomeD)
  have msg: "rec_message r' = rec_message r" and state: "rec_state r \<noteq> Executed" and ok': "record_ok b d r'"
    using moved(2) ok by (simp_all add: moves_def)
  have "tx_of (d, r') = tx_of (d, r)" "nonce_key_of (d, r') = nonce_key_of (d, r)"
    by (simp_all add: tx_of_def nonce_key_of_def msg)
  then have maps: "map tx_of (records b') = map tx_of (records b)" "map nonce_key_of (records b') = map nonce_key_of (records b)"
    unfolding moved(3) using map_dict_set_same [OF moved(1)] by blast+
  have "tx_of ` set (records b') = tx_of ` set (records b)" "nonce_key_of ` set (records b') = nonce_key_of ` set (records b)"
    using maps [THEN arg_cong [of _ _ set]] by simp_all
  moreover have "executed_value b' = sum_list (map executed_amount (records b'))"
    using assms(2) moved(7) state unfolding moved(3) sum_dict_set [OF moved(1)]
    by (simp add: bridge_ok_def executed_amount_def msg)
  moreover have "\<forall>(d, r) \<in> set (records b'). record_ok b d r"
    using assms(2) ok' unfolding moved(3) bridge_ok_def by (auto simp: set_dict_set)
  moreover have "dict_ok (records b')"
    using assms(2) unfolding moved(3) bridge_ok_def by simp
  ultimately show ?thesis
    using assms(2) maps moved(5,6) unfolding bridge_ok_def same by simp
next
  case (paused p)
  have "same_policy b b'"
    by (simp add: paused same_policy_def set_paused_def)
  note same = same_policy_ok [OF this]
  show ?thesis
    using assms(2) unfolding bridge_ok_def same by (simp add: paused set_paused_def)
qed

lemma bridge_reachable_ok: "bridge_reachable b \<Longrightarrow> bridge_ok b"
  by (induction rule: bridge_reachable.induct) (auto intro: bridge_init_ok bridge_step_ok)

section \<open>The properties of the bridge\<close>


text \<open>Executed records are written once.\<close>

definition executed_record :: "bridge \<Rightarrow> string \<Rightarrow> bridge_record option" where
  "executed_record b d =
     (case dict_get (records b) d of None \<Rightarrow> None | Some r \<Rightarrow> if rec_state r = Executed then Some r else None)"

lemma executed_record_Some: "executed_record b d = Some r \<longleftrightarrow> dict_get (records b) d = Some r \<and> rec_state r = Executed"
  by (auto simp: executed_record_def split: option.splits)

lemma bridge_step_keeps_executed:
  assumes "bridge_step b b'" "executed_record b d = Some r"
  shows "executed_record b' d = Some r"
  using assms(1)
proof (cases rule: bridge_step_cases)
  case (observed m)
  then show ?thesis
    using assms(2) by (auto simp: bridge_observe_Inr executed_record_Some map_add_def)
next
  case (moved e s s')
  then have "e \<noteq> d"
    using assms(2) by (auto simp: moves_def executed_record_Some simp del: map_of_eq_Some_iff)
  then show ?thesis
    using assms(2) moved(3) by (simp add: executed_record_def)
qed (use assms(2) in \<open>simp add: executed_record_def set_paused_def\<close>)

interpretation execution_log: write_once bridge_step executed_record
  by unfold_locales (rule bridge_step_keeps_executed)

text \<open>
  An execution is final and happens once: over any further operations the executed record stays as
  it is, with its transaction, and confirming, attesting, preparing, executing and rejecting it all raise.
\<close>

theorem execution_final:
  assumes "mark_executed b d tx = Inr (r, b')" "bridge_step\<^sup>*\<^sup>* b' b''"
  shows "dict_get (records b'') d = Some r \<and> rec_execution_transaction r = Some tx \<and>
    (\<forall>n tx' reason a. (\<exists>e. mark_executed b'' d tx' = Inl e) \<and> (\<exists>e. prepare_execution b'' d = Inl e) \<and>
       (\<exists>e. bridge_reject b'' d reason = Inl e) \<and> (\<exists>e. apply_confirmations b'' d n = Inl e) \<and>
       (at_message_digest a = d \<longrightarrow> (\<exists>e. bridge_attest b'' a = Inl e)))"
proof -
  have r: "executed_record b' d = Some r" "rec_execution_transaction r = Some tx"
    using assms(1) by (auto simp: mark_executed_Inr executed_record_Some simp del: map_of_eq_Some_iff)
  have "executed_record b'' d = Some r"
    using assms(2) r(1) by (rule execution_log.steps_keep)
  then have final: "dict_get (records b'') d = Some r" "rec_state r = Executed"
    by (simp_all add: executed_record_Some)
  have raises: "(\<And>y. x \<noteq> Inr y) \<Longrightarrow> \<exists>e. x = Inl e" for x :: "(bridge_record \<times> bridge) result"
    by (cases x) auto
  have "mark_executed b'' d tx' \<noteq> Inr y" "prepare_execution b'' d \<noteq> Inr y" "bridge_reject b'' d reason \<noteq> Inr y"
    "apply_confirmations b'' d n \<noteq> Inr y" "at_message_digest a = d \<Longrightarrow> bridge_attest b'' a \<noteq> Inr y" for tx' reason n a y
    using final by (cases y; force simp: mark_executed_Inr prepare_execution_Inr bridge_reject_Inr apply_confirmations_Inr
        bridge_attest_Inr simp del: map_of_eq_Some_iff)+
  then show ?thesis
    using final(1) r(2) raises by blast
qed

lemma bridge_step_grows:
  assumes "bridge_step b b'"
  shows "used_source_transactions b \<subseteq> used_source_transactions b' \<and> used_nonces b \<subseteq> used_nonces b'"
  using assms
proof (cases rule: bridge_step_cases)
  case (observed m)
  then show ?thesis
    by (auto simp: bridge_observe_Inr)
next
  case (moved d r r')
  then show ?thesis
    by auto
qed (simp add: set_paused_def)

lemma bridge_steps_grow:
  assumes "bridge_step\<^sup>*\<^sup>* b b'"
  shows "used_source_transactions b \<subseteq> used_source_transactions b' \<and> used_nonces b \<subseteq> used_nonces b'"
  using assms by (induction rule: rtranclp_induct) (auto dest!: bridge_step_grows)

text \<open>
  C18. Replay protection: once a message was observed, every later observation of the same message, of a
  message with the same source transaction text, or with the same source network and nonce raises,
  whatever happened in between, rejection included.
\<close>

theorem bridge_no_replay:
  assumes "bridge_observe b m = Inr (r, b')" "bridge_step\<^sup>*\<^sup>* b' b''"
    and "m' = m \<or> bm_source_transaction m' = bm_source_transaction m \<or>
      (bm_source_network m' = bm_source_network m \<and> bm_nonce m' = bm_nonce m)"
  shows "\<exists>e. bridge_observe b'' m' = Inl e"
proof (cases "bridge_observe b'' m'")
  case (Inr y)
  then have fresh: "bm_source_transaction m' \<notin> used_source_transactions b''" "(bm_source_network m', bm_nonce m') \<notin> used_nonces b''"
    by (cases y, simp add: bridge_observe_Inr)+
  have "bm_source_transaction m \<in> used_source_transactions b'" "(bm_source_network m, bm_nonce m) \<in> used_nonces b'"
    using assms(1) by (auto simp: bridge_observe_Inr)
  then show ?thesis
    using fresh assms(3) bridge_steps_grow [OF assms(2)] by auto
qed simp

section \<open>The ledger the bridge implements\<close>

text \<open>The contract: messages are submitted with an amount, and each is paid or closed at most once.\<close>

datatype phase = Open | Paid | Closed

record ledger =
  entries :: "string \<Rightarrow> (phase \<times> int) option"
  paid_total :: int

inductive ledger_step :: "ledger \<Rightarrow> ledger \<Rightarrow> bool" where
  submit: "entries l d = None \<Longrightarrow> 0 < v \<Longrightarrow> ledger_step l (l\<lparr>entries := (entries l)(d \<mapsto> (Open, v))\<rparr>)"
| pay: "entries l d = Some (Open, v) \<Longrightarrow>
    ledger_step l (l\<lparr>entries := (entries l)(d \<mapsto> (Paid, v)), paid_total := paid_total l + v\<rparr>)"
| close: "entries l d = Some (Open, v) \<Longrightarrow> ledger_step l (l\<lparr>entries := (entries l)(d \<mapsto> (Closed, v))\<rparr>)"

definition phase_of :: "bridge_record \<Rightarrow> phase \<times> int" where
  "phase_of r = (case rec_state r of Executed \<Rightarrow> Paid | Rejected \<Rightarrow> Closed | _ \<Rightarrow> Open, bm_value (rec_message r))"

definition ledger_of :: "bridge \<Rightarrow> ledger" where
  "ledger_of b = \<lparr>entries = (\<lambda>d. map_option phase_of (dict_get (records b) d)), paid_total = executed_value b\<rparr>"

lemma bridge_step_ledger:
  assumes "bridge_step b b'"
  shows "ledger_step\<^sup>=\<^sup>= (ledger_of b) (ledger_of b')"
  using assms
proof (cases rule: bridge_step_cases)
  case (observed m)
  note new = observed [unfolded bridge_observe_Inr]
  have "0 < bm_value m"
    using new by (simp add: validate_message_def require_all_Inr)
  then have "ledger_step (ledger_of b) ((ledger_of b)\<lparr>entries := (entries (ledger_of b))(message_digest m \<mapsto> (Open, bm_value m))\<rparr>)"
    using new by (intro ledger_step.submit) (simp_all add: ledger_of_def)
  moreover have "dict_get (records b') d = (if d = message_digest m then Some (new_bridge_record m) else dict_get (records b) d)" for d
    using new by (simp add: map_add_def del: map_of_eq_Some_iff split: option.split)
  then have "ledger_of b' = (ledger_of b)\<lparr>entries := (entries (ledger_of b))(message_digest m \<mapsto> (Open, bm_value m))\<rparr>"
    using new by (auto simp: ledger_of_def fun_eq_iff new_bridge_record_def phase_of_def simp del: map_of_eq_Some_iff)
  ultimately show ?thesis
    by simp
next
  case (moved d r r')
  have entry: "entries (ledger_of b) d = Some (phase_of r)"
    using moved(1) by (simp add: ledger_of_def del: map_of_eq_Some_iff)
  have msg: "bm_value (rec_message r') = bm_value (rec_message r)"
    using moved(2) by (simp add: moves_def)
  have after: "ledger_of b' = \<lparr>entries = (entries (ledger_of b))(d \<mapsto> phase_of r'), paid_total = executed_value b'\<rparr>"
    by (simp add: ledger_of_def moved(3) fun_eq_iff)
  consider "phase_of r' = phase_of r" "rec_state r' \<noteq> Executed"
    | "phase_of r = (Open, bm_value (rec_message r))" "rec_state r' = Executed"
    | "phase_of r = (Open, bm_value (rec_message r))" "rec_state r' = Rejected"
    using moved(2) msg by (cases "rec_state r"; cases "rec_state r'") (auto simp: moves_def phase_of_def)
  then show ?thesis
  proof cases
    case 1
    then have "ledger_of b' = ledger_of b"
      using entry moved(7) by (simp add: after fun_upd_idem) (simp add: ledger_of_def)
    then show ?thesis
      by simp
  next
    case 2
    then have "ledger_of b' = (ledger_of b)\<lparr>entries := (entries (ledger_of b))(d \<mapsto> (Paid, bm_value (rec_message r))),
        paid_total := paid_total (ledger_of b) + bm_value (rec_message r)\<rparr>"
      using moved(7) msg by (simp add: after phase_of_def) (simp add: ledger_of_def)
    then show ?thesis
      using ledger_step.pay [of "ledger_of b" d] entry 2(1) by simp
  next
    case 3
    then have "ledger_of b' = (ledger_of b)\<lparr>entries := (entries (ledger_of b))(d \<mapsto> (Closed, bm_value (rec_message r)))\<rparr>"
      using moved(7) msg by (simp add: after phase_of_def) (simp add: ledger_of_def)
    then show ?thesis
      using ledger_step.close [of "ledger_of b" d] entry 3(1) by simp
  qed
qed (simp add: ledger_of_def set_paused_def)


section \<open>What the limits and the replay protection miss\<close>

text \<open>
  The daily limit and the pause are checked when an execution is prepared, not when it is marked:
  two attested messages that each fit the limit are both prepared, and both are then executed, also
  after the route was paused, although together they exceed the limit.
\<close>

theorem daily_limit_exceeded:
  assumes "dict_get (records b) d1 = Some r1" "dict_get (records b) d2 = Some r2" "d1 \<noteq> d2"
    and "rec_state r1 = Attested" "rec_state r2 = Attested" "\<not> paused b" "hex64 tx1" "hex64 tx2"
    and "bm_value (rec_message r1) \<le> per_transaction_limit b" "bm_value (rec_message r2) \<le> per_transaction_limit b"
    and "executed_value b + bm_value (rec_message r1) \<le> daily_limit b"
      "executed_value b + bm_value (rec_message r2) \<le> daily_limit b"
    and "daily_limit b < executed_value b + bm_value (rec_message r1) + bm_value (rec_message r2)"
  shows "\<exists>p1 b1 p2 b2 e1 b3 e2 b4. prepare_execution b d1 = Inr (p1, b1) \<and> prepare_execution b1 d2 = Inr (p2, b2) \<and>
    mark_executed (set_paused b2 True) d1 tx1 = Inr (e1, b3) \<and> mark_executed b3 d2 tx2 = Inr (e2, b4) \<and>
    daily_limit b4 < executed_value b4"
proof -
  define p1 where "p1 = r1\<lparr>rec_state := ExecutionReady\<rparr>"
  define p2 where "p2 = r2\<lparr>rec_state := ExecutionReady\<rparr>"
  define e1 where "e1 = p1\<lparr>rec_execution_transaction := Some tx1, rec_state := Executed\<rparr>"
  define e2 where "e2 = p2\<lparr>rec_execution_transaction := Some tx2, rec_state := Executed\<rparr>"
  define b1 where "b1 = b\<lparr>records := dict_set d1 p1 (records b)\<rparr>"
  define b2 where "b2 = b1\<lparr>records := dict_set d2 p2 (records b1)\<rparr>"
  define b3 where "b3 = (set_paused b2 True)\<lparr>records := dict_set d1 e1 (records b2),
    executed_value := executed_value b + bm_value (rec_message r1)\<rparr>"
  define b4 where "b4 = b3\<lparr>records := dict_set d2 e2 (records b3),
    executed_value := executed_value b + bm_value (rec_message r1) + bm_value (rec_message r2)\<rparr>"
  note states = b1_def b2_def b3_def b4_def p1_def p2_def e1_def e2_def set_paused_def
  have "prepare_execution b d1 = Inr (p1, b1)" "prepare_execution b1 d2 = Inr (p2, b2)"
    "mark_executed (set_paused b2 True) d1 tx1 = Inr (e1, b3)" "mark_executed b3 d2 tx2 = Inr (e2, b4)"
    using assms by (simp_all add: prepare_execution_Inr mark_executed_Inr states del: map_of_eq_Some_iff)
  moreover have "daily_limit b4 < executed_value b4"
    using assms(13) by (simp add: states)
  ultimately show ?thesis
    by blast
qed

lemma token_check_fields: "token_check (m\<lparr>bm_source_transaction := tx, bm_nonce := n\<rparr>) = token_check m"
  by (simp add: token_check_def)

text \<open>Messages with the same text are the same message.\<close>

lemma canonical_message_ok: "json_ok (canonical_message m)"
  by (simp add: canonical_message_def split: option.split)

lemma message_text_source: "message_text m = message_text m' \<Longrightarrow> bm_source_transaction m = bm_source_transaction m'"
  using json_dumps_inject [OF canonical_message_ok canonical_message_ok, of m m']
  by (auto simp: message_text_def encode_dumps canonical_message_def split: option.splits)

text \<open>
  Replay protection compares the text of source transactions: the pattern allows them with and
  without the prefix 0x, so a transaction observed with it is accepted again without it, under a
  nonce not used yet, unless the digests of the two messages collide.
\<close>

theorem respelled_transaction_accepted:
  assumes "bridge_observe b m = Inr (r, b')" "starts_with ''0x'' (bm_source_transaction m)"
    and "m' = m\<lparr>bm_source_transaction := drop 2 (bm_source_transaction m), bm_nonce := n\<rparr>"
    and "0 \<le> n" "(bm_source_network m, n) \<notin> used_nonces b'"
    and "drop 2 (bm_source_transaction m) \<notin> used_source_transactions b" "dict_get (records b) (message_digest m') = None"
  shows "(\<exists>r' b''. bridge_observe b' m' = Inr (r', b'')) \<or>
    (message_text m' \<noteq> message_text m \<and> sha256 (message_text m') = sha256 (message_text m))"
proof (cases "message_digest m' = message_digest m")
  case True
  have "0 < length (bm_source_transaction m)"
    using assms(2) by (cases "bm_source_transaction m") simp_all
  moreover have "length (bm_source_transaction m') = length (bm_source_transaction m) - 2"
    using assms(3) by simp
  ultimately have "length (bm_source_transaction m') \<noteq> length (bm_source_transaction m)"
    by linarith
  then have "message_text m' \<noteq> message_text m"
    using message_text_source by metis
  moreover have "sha256 (message_text m') = sha256 (message_text m)"
    using True by (simp add: message_digest_def sha256_hex_def)
  ultimately show ?thesis
    by blast
next
  case False
  note first = assms(1) [unfolded bridge_observe_Inr]
  have valid: "validate_message b m = Inr ()"
    using first by simp
  define tx where "tx = bm_source_transaction m"
  have tx: "length (drop 2 tx) = 64" "list_all is_hex_digit (drop 2 tx)"
    using valid assms(2) by (simp_all add: validate_message_def require_all_Inr hex64_def without_0x_def tx_def)
  then obtain c1 c2 rest where "drop 2 tx = c1 # c2 # rest"
    by (cases "drop 2 tx" rule: remdups_adj.cases) auto
  moreover from this have "c2 \<noteq> CHR ''x''"
    using tx(2) by (auto simp: is_hex_digit_def)
  ultimately have "without_0x (drop 2 tx) = drop 2 tx"
    by (simp add: without_0x_def)
  then have "hex64 (drop 2 tx)"
    using tx by (simp add: hex64_def)
  then have "validate_message b m' = Inr ()"
    using valid assms(4) by (simp add: validate_message_def require_all_Inr assms(3) tx_def token_check_fields)
  moreover have "validate_message b' m' = validate_message b m'"
    using first by (intro same_policy_ok) (simp add: same_policy_def)
  moreover have "length tx = 66"
    using tx(1) by simp
  then have "length tx \<noteq> length (drop 2 tx)"
    by simp
  then have "tx \<noteq> drop 2 tx"
    by metis
  then have "bm_source_transaction m' \<notin> used_source_transactions b'"
    using first assms(6) by (auto simp: assms(3) tx_def)
  moreover have "dict_get (records b') (message_digest m') = None"
    using first assms(7) False by (simp add: map_add_def)
  ultimately have "bridge_observe b' m' = Inr (new_bridge_record m', b'\<lparr>records := records b' @ [(message_digest m', new_bridge_record m')],
      used_source_transactions := insert (bm_source_transaction m') (used_source_transactions b'),
      used_nonces := insert (bm_source_network m', bm_nonce m') (used_nonces b')\<rparr>)"
    using assms(5) unfolding bridge_observe_Inr by (simp add: assms(3))
  then show ?thesis
    by blast
qed

section \<open>A sample bridge\<close>

definition sample_bridge :: bridge where
  "sample_bridge = \<lparr>bp_route_digest = replicate 64 (CHR ''a''), allowed_networks = {''junca-public-testnet'', ''bsc-testnet''},
     relayer_ids = {''r1'', ''r2'', ''r3''}, threshold = 2, required_confirmations = 1, per_transaction_limit = 10,
     daily_limit = 15, paused = False, records = [], used_source_transactions = {}, used_nonces = {}, executed_value = 0\<rparr>"

definition sample_message :: bridge_message where
  "sample_message = \<lparr>bm_route_digest = replicate 64 (CHR ''a''), bm_direction = ''junca-public-testnet->bsc-testnet'',
     bm_source_network = ''junca-public-testnet'', bm_destination_network = ''bsc-testnet'', bm_nonce = 0,
     bm_source_transaction = ''0x'' @ replicate 64 (CHR ''b''), bm_source_block = 1, bm_asset_type = ''fungible'',
     bm_source_asset = ''a'', bm_destination_asset = ''b'', bm_sender = ''s'', bm_recipient = ''r'', bm_value = 9,
     bm_token_id = None, bm_governance = REQUIRED_GOVERNANCE, bm_notice = REQUIRED_NOTICE, bm_schema_version = 1\<rparr>"

definition sample_attestation :: "string \<Rightarrow> relayer_attestation" where
  "sample_attestation i = \<lparr>at_relayer_id = i, at_message_digest = message_digest sample_message, at_key_id = ''k'',
     at_signature = replicate 128 (CHR ''c''), cryptographic_verification = True\<rparr>"

definition sample_record :: "int \<Rightarrow> string list \<Rightarrow> bridge_state \<Rightarrow> string option \<Rightarrow> bridge_record" where
  "sample_record n ids s tx = \<lparr>rec_message = sample_message, rec_state = s, rec_confirmations = n,
     rec_attestations = map (\<lambda>i. (i, sample_attestation i)) ids, rec_execution_transaction = tx, rec_rejection_reason = None\<rparr>"

definition sample_bridge_with :: "bridge_record \<Rightarrow> int \<Rightarrow> bridge" where
  "sample_bridge_with r amount = sample_bridge\<lparr>records := [(message_digest sample_message, r)],
     used_source_transactions := {bm_source_transaction sample_message}, used_nonces := {(''junca-public-testnet'', 0)},
     executed_value := amount\<rparr>"

lemma sample_bridge_reachable: "bridge_reachable sample_bridge"
proof -
  have "bridge_init (replicate 64 (CHR ''a'')) [''junca-public-testnet'', ''bsc-testnet''] [''r1'', ''r2'', ''r3''] 2 1 10 15 False
      = Inr sample_bridge"
    by (simp add: bridge_init_def Let_def bindE_Inr_iff validate_policy_def require_all_Inr sample_bridge_def hex64_lower_def
        list_all_iff is_lower_hex_def)
  then show ?thesis
    by (rule bridge_reachable.created)
qed

lemma sample_message_valid: "validate_message sample_bridge sample_message = Inr ()"
  by (simp add: validate_message_def token_check_def require_all_Inr sample_message_def sample_bridge_def hex64_def without_0x_def
      list_all_iff is_hex_digit_def strip_def is_space_def)

lemmas sample_bridge_simps = sample_bridge_with_def sample_bridge_def sample_record_def sample_attestation_def

lemma sample_observed:
  "bridge_observe sample_bridge sample_message =
     Inr (new_bridge_record sample_message, sample_bridge_with (sample_record 0 [] Observed None) 0)"
  unfolding bridge_observe_Inr
  by (intro conjI sample_message_valid)
     (simp_all add: sample_bridge_with_def sample_bridge_def sample_record_def new_bridge_record_def sample_message_def)

lemma sample_marked:
  "apply_confirmations (sample_bridge_with (sample_record 0 [] Observed None) 0) (message_digest sample_message) 1 =
     Inr (sample_record 1 [] FinalityPending None, sample_bridge_with (sample_record 1 [] FinalityPending None) 0)"
  "bridge_attest (sample_bridge_with (sample_record 1 [] FinalityPending None) 0) (sample_attestation ''r1'') =
     Inr (sample_record 1 [''r1''] FinalityPending None, sample_bridge_with (sample_record 1 [''r1''] FinalityPending None) 0)"
  "bridge_attest (sample_bridge_with (sample_record 1 [''r1''] FinalityPending None) 0) (sample_attestation ''r2'') =
     Inr (sample_record 1 [''r1'', ''r2''] Attested None, sample_bridge_with (sample_record 1 [''r1'', ''r2''] Attested None) 0)"
  "prepare_execution (sample_bridge_with (sample_record 1 [''r1'', ''r2''] Attested None) 0) (message_digest sample_message) =
     Inr (sample_record 1 [''r1'', ''r2''] ExecutionReady None, sample_bridge_with (sample_record 1 [''r1'', ''r2''] ExecutionReady None) 0)"
  "mark_executed (sample_bridge_with (sample_record 1 [''r1'', ''r2''] ExecutionReady None) 0) (message_digest sample_message)
     (replicate 64 (CHR ''d'')) =
     Inr (sample_record 1 [''r1'', ''r2''] Executed (Some (replicate 64 (CHR ''d''))),
          sample_bridge_with (sample_record 1 [''r1'', ''r2''] Executed (Some (replicate 64 (CHR ''d'')))) 9)"
proof -
  have hex: "hex64 (replicate 64 (CHR ''d''))" "hex128_or_more (replicate 128 (CHR ''c''))"
    by (simp_all add: hex64_def hex128_or_more_def without_0x_def list_all_iff is_hex_digit_def starts_with_def)
  have amount: "bm_value sample_message = 9"
    by (simp add: sample_message_def)
  show "apply_confirmations (sample_bridge_with (sample_record 0 [] Observed None) 0) (message_digest sample_message) 1 =
     Inr (sample_record 1 [] FinalityPending None, sample_bridge_with (sample_record 1 [] FinalityPending None) 0)"
    by (simp add: apply_confirmations_Inr sample_bridge_simps)
  show "bridge_attest (sample_bridge_with (sample_record 1 [] FinalityPending None) 0) (sample_attestation ''r1'') =
     Inr (sample_record 1 [''r1''] FinalityPending None, sample_bridge_with (sample_record 1 [''r1''] FinalityPending None) 0)"
    by (simp add: bridge_attest_Inr sample_bridge_simps hex)
  show "bridge_attest (sample_bridge_with (sample_record 1 [''r1''] FinalityPending None) 0) (sample_attestation ''r2'') =
     Inr (sample_record 1 [''r1'', ''r2''] Attested None, sample_bridge_with (sample_record 1 [''r1'', ''r2''] Attested None) 0)"
    by (simp add: bridge_attest_Inr sample_bridge_simps hex)
  show "prepare_execution (sample_bridge_with (sample_record 1 [''r1'', ''r2''] Attested None) 0) (message_digest sample_message) =
     Inr (sample_record 1 [''r1'', ''r2''] ExecutionReady None, sample_bridge_with (sample_record 1 [''r1'', ''r2''] ExecutionReady None) 0)"
    by (simp add: prepare_execution_Inr sample_bridge_simps amount)
  show "mark_executed (sample_bridge_with (sample_record 1 [''r1'', ''r2''] ExecutionReady None) 0) (message_digest sample_message)
     (replicate 64 (CHR ''d'')) =
     Inr (sample_record 1 [''r1'', ''r2''] Executed (Some (replicate 64 (CHR ''d''))),
          sample_bridge_with (sample_record 1 [''r1'', ''r2''] Executed (Some (replicate 64 (CHR ''d'')))) 9)"
    by (simp add: mark_executed_Inr sample_bridge_simps amount hex)
qed

definition executed_sample :: bridge where
  "executed_sample = sample_bridge_with (sample_record 1 [''r1'', ''r2''] Executed (Some (replicate 64 (CHR ''d'')))) 9"

lemma executed_sample_reachable: "bridge_reachable executed_sample"
  unfolding executed_sample_def
  by (rule bridge_reachable.step [OF _ bridge_step.execute_step [OF sample_marked(5)]],
      rule bridge_reachable.step [OF _ bridge_step.prepare_step [OF sample_marked(4)]],
      rule bridge_reachable.step [OF _ bridge_step.attest_step [OF sample_marked(3)]],
      rule bridge_reachable.step [OF _ bridge_step.attest_step [OF sample_marked(2)]],
      rule bridge_reachable.step [OF _ bridge_step.confirm_step [OF sample_marked(1)]],
      rule bridge_reachable.step [OF sample_bridge_reachable bridge_step.observe_step [OF sample_observed]])


lemma execution_final_witness:
  "\<exists>e. mark_executed executed_sample (message_digest sample_message) [] = Inl e"
  using execution_final [OF sample_marked(5) rtranclp.rtrancl_refl] unfolding executed_sample_def by blast

lemma bridge_no_replay_witness:
  "\<exists>e. bridge_observe (sample_bridge_with (sample_record 1 [] FinalityPending None) 0) sample_message = Inl e"
  by (rule bridge_no_replay [OF sample_observed r_into_rtranclp [of bridge_step, OF bridge_step.confirm_step [OF sample_marked(1)]]]) simp


lemma daily_limit_exceeded_witness:
  "\<exists>b :: bridge. daily_limit b < executed_value b \<and> daily_limit b = 15"
proof -
  let ?r = "sample_record 1 [''r1'', ''r2''] Attested None"
  let ?b = "sample_bridge\<lparr>records := [(''x'', ?r), (''y'', ?r)]\<rparr>"
  have "hex64 (replicate 64 (CHR ''d''))"
    by (simp add: hex64_def without_0x_def list_all_iff is_hex_digit_def starts_with_def)
  then have "\<exists>p1 b1 p2 b2 e1 b3 e2 b4. prepare_execution ?b ''x'' = Inr (p1, b1) \<and> prepare_execution b1 ''y'' = Inr (p2, b2) \<and>
    mark_executed (set_paused b2 True) ''x'' (replicate 64 (CHR ''d'')) = Inr (e1, b3) \<and>
    mark_executed b3 ''y'' (replicate 64 (CHR ''d'')) = Inr (e2, b4) \<and> daily_limit b4 < executed_value b4"
    by (intro daily_limit_exceeded [of ?b "''x''" ?r "''y''" ?r])
       (simp_all add: sample_record_def sample_message_def sample_bridge_def)
  then obtain p1 b1 p2 b2 e1 b3 e2 b4 where run: "prepare_execution ?b ''x'' = Inr (p1, b1)" "prepare_execution b1 ''y'' = Inr (p2, b2)"
    "mark_executed (set_paused b2 True) ''x'' (replicate 64 (CHR ''d'')) = Inr (e1, b3)"
    "mark_executed b3 ''y'' (replicate 64 (CHR ''d'')) = Inr (e2, b4)" "daily_limit b4 < executed_value b4"
    by blast
  have "daily_limit b4 = 15"
    using run(1-4) by (auto simp: prepare_execution_Inr mark_executed_Inr set_paused_def sample_bridge_def simp del: map_of_eq_Some_iff)
  then show ?thesis
    using run(5) by blast
qed

definition respelled_message :: bridge_message where
  "respelled_message = sample_message\<lparr>bm_source_transaction := drop 2 (bm_source_transaction sample_message), bm_nonce := 1\<rparr>"

lemma respelled_transaction_accepted_witness:
  "(\<exists>r' b''. bridge_observe (sample_bridge_with (sample_record 0 [] Observed None) 0) respelled_message = Inr (r', b'')) \<or>
   (message_text respelled_message \<noteq> message_text sample_message \<and>
    sha256 (message_text respelled_message) = sha256 (message_text sample_message))"
  by (rule respelled_transaction_accepted [OF sample_observed _ respelled_message_def])
     (simp_all add: sample_bridge_with_def sample_message_def sample_bridge_def)

section \<open>Messages and their documents\<close>

text \<open>The document of a message is read back as the message.\<close>

lemma message_fields_read:
  assumes "canonical_message m = JObj raw"
  shows "json_keys raw = set message_fields"
    "json_at raw ''route_digest'' = JStr (bm_route_digest m)" "json_at raw ''direction'' = JStr (bm_direction m)"
    "json_at raw ''source_network'' = JStr (bm_source_network m)"
    "json_at raw ''destination_network'' = JStr (bm_destination_network m)" "json_at raw ''nonce'' = JInt (bm_nonce m)"
    "json_at raw ''source_transaction'' = JStr (bm_source_transaction m)" "json_at raw ''source_block'' = JInt (bm_source_block m)"
    "json_at raw ''asset_type'' = JStr (bm_asset_type m)" "json_at raw ''source_asset'' = JStr (bm_source_asset m)"
    "json_at raw ''destination_asset'' = JStr (bm_destination_asset m)" "json_at raw ''sender'' = JStr (bm_sender m)"
    "json_at raw ''recipient'' = JStr (bm_recipient m)" "json_at raw ''value'' = JInt (bm_value m)"
    "json_at raw ''token_id'' = (case bm_token_id m of None \<Rightarrow> JNull | Some i \<Rightarrow> JInt i)"
    "json_at raw ''governance'' = JStr (bm_governance m)" "json_at raw ''notice'' = JStr (bm_notice m)"
    "json_at raw ''schema_version'' = JInt (bm_schema_version m)"
proof -
  note raw = assms [unfolded canonical_message_def json.inject, symmetric]
  have "json_keys raw = set [''asset_type'', ''destination_asset'', ''destination_network'', ''direction'', ''governance'', ''nonce'', ''notice'', ''recipient'', ''route_digest'', ''schema_version'', ''sender'', ''source_asset'', ''source_block'', ''source_network'', ''source_transaction'', ''token_id'', ''value'']"
    unfolding raw json_keys_def by simp
  also have "\<dots> = set message_fields"
    by code_simp
  finally show "json_keys raw = set message_fields" .
qed (unfold assms [unfolded canonical_message_def json.inject, symmetric] json_at_def, simp_all)

lemma message_roundtrip:
  assumes "canonical_message m = JObj raw"
  shows "bridge_message_from_mapping raw = Inr m"
proof -
  note read = message_fields_read [OF assms]
  have "set required_message_fields \<subseteq> json_keys raw" "{''token_id'', ''governance'', ''notice'', ''schema_version''} \<subseteq> json_keys raw"
    unfolding read(1) message_fields_def by auto
  then show ?thesis
    unfolding bridge_message_from_mapping_def field_or_def
    by (simp add: read require_def raise_if_def) (cases m; simp split: option.split)
qed

end
