(* ===== verification/RelayerJournal.thy ===== *)
theory RelayerJournal
  imports Json Sha256 WriteOnce
begin

text \<open>
  \<open>relayer_journal.py\<close>: the queue of bridge messages of the relayers in SQLite, with leases and an audit
  log whose entries are chained by hashes. Several processes share the database. A transaction that
  raises is rolled back. Where an operation reads before its transaction takes the lock, the model takes
  the database it read, \<open>db\<close>, and the database its transaction finds, \<open>locked\<close>.
\<close>

section \<open>Tables\<close>

datatype queue_state = QPending | QLeased | QExecuted | QDeadLetter

fun queue_state_text :: "queue_state \<Rightarrow> string" where
  "queue_state_text QPending = ''PENDING''"
| "queue_state_text QLeased = ''LEASED''"
| "queue_state_text QExecuted = ''EXECUTED''"
| "queue_state_text QDeadLetter = ''DEAD_LETTER''"

record queue_row =
  q_source_network :: string
  q_source_transaction :: string
  q_source_nonce :: int
  q_payload :: string
  q_state :: queue_state
  q_attempts :: int
  q_lease_owner :: "string option"
  q_lease_expires_at :: "int option"
  q_execution_transaction :: "string option"
  q_last_error :: "string option"
  q_created_at :: int
  q_updated_at :: int

text \<open>The sequence number of an entry is its position: entries are never deleted.\<close>

record audit_entry =
  ae_event :: string
  ae_digest :: string
  ae_details :: string
  ae_previous :: string
  ae_hash :: string
  ae_created_at :: int

record relayer_db =
  queue :: "(string, queue_row) dict"
  audit_log :: "audit_entry list"

definition empty_relayer_db :: relayer_db where
  "empty_relayer_db = \<lparr>queue = [], audit_log = []\<rparr>"

definition open_relayer_journal :: "int \<Rightarrow> relayer_db \<Rightarrow> relayer_db result" where
  "open_relayer_journal max_attempts db =
     (if max_attempts < 1 then Inl (RelayerJournalError ''max_attempts must be positive'') else Inr db)"

record queue_item =
  qi_message_digest :: string
  qi_state :: queue_state
  qi_attempts :: int
  qi_lease_owner :: "string option"
  qi_lease_expires_at :: "int option"
  qi_payload :: json

definition queue_get :: "relayer_db \<Rightarrow> string \<Rightarrow> queue_item result" where
  "queue_get db digest =
     (case dict_get (queue db) digest of
        None \<Rightarrow> Inl (RelayerJournalError ''unknown message'')
      | Some row \<Rightarrow>
          (case json_loads (q_payload row) of
             None \<Rightarrow> Inl JSONDecodeError
           | Some payload \<Rightarrow> Inr
               \<lparr>qi_message_digest = digest, qi_state = q_state row, qi_attempts = q_attempts row,
                qi_lease_owner = q_lease_owner row, qi_lease_expires_at = q_lease_expires_at row, qi_payload = payload\<rparr>))"

section \<open>The audit log\<close>

definition zero_entry_hash :: string where "zero_entry_hash = replicate 64 (CHR ''0'')"

definition entry_text :: "string \<Rightarrow> string \<Rightarrow> string \<Rightarrow> string \<Rightarrow> int \<Rightarrow> string" where
  "entry_text previous event digest details timestamp =
     previous @ [CHR 0x00] @ event @ [CHR 0x00] @ digest @ [CHR 0x00] @ details @ [CHR 0x00] @ int_str timestamp"

definition entry_hash :: "string \<Rightarrow> string \<Rightarrow> string \<Rightarrow> string \<Rightarrow> int \<Rightarrow> string" where
  "entry_hash previous event digest details timestamp =
     sha256_hex (encode (entry_text previous event digest details timestamp))"

definition last_entry_hash :: "audit_entry list \<Rightarrow> string" where
  "last_entry_hash log = (if log = [] then zero_entry_hash else ae_hash (last log))"

definition audit_event :: "string \<Rightarrow> string \<Rightarrow> json \<Rightarrow> int \<Rightarrow> relayer_db \<Rightarrow> relayer_db result" where
  "audit_event event digest details timestamp db =
     (let previous = last_entry_hash (audit_log db);
          canonical = json_dumps details;
          h = entry_hash previous event digest canonical timestamp in
      if list_ex (\<lambda>e. ae_hash e = h) (audit_log db) then Inl SQLiteIntegrityError
      else Inr (db\<lparr>audit_log := audit_log db @
             [\<lparr>ae_event = event, ae_digest = digest, ae_details = canonical, ae_previous = previous, ae_hash = h,
               ae_created_at = timestamp\<rparr>]\<rparr>))"

definition entry_valid :: "string \<Rightarrow> audit_entry \<Rightarrow> bool" where
  "entry_valid previous e \<longleftrightarrow> ae_previous e = previous \<and>
     ae_hash e = entry_hash previous (ae_event e) (ae_digest e) (ae_details e) (ae_created_at e)"

fun verify_entries :: "string \<Rightarrow> audit_entry list \<Rightarrow> bool" where
  "verify_entries previous [] = True"
| "verify_entries previous (e # es) = (entry_valid previous e \<and> verify_entries (ae_hash e) es)"

definition verify_audit_chain :: "relayer_db \<Rightarrow> bool" where
  "verify_audit_chain db = verify_entries zero_entry_hash (audit_log db)"

section \<open>The queue\<close>

text \<open>
  \<open>str(value)\<close> of a value of a document. The text of a list or of an object is not modelled: the
  outcome is \<open>UndeclaredType\<close>.
\<close>

definition py_str :: "json \<Rightarrow> string result" where
  "py_str v =
     (case v of
        JStr s \<Rightarrow> Inr s
      | JInt i \<Rightarrow> Inr (int_str i)
      | JBool b \<Rightarrow> Inr (if b then ''True'' else ''False'')
      | JNull \<Rightarrow> Inr ''None''
      | _ \<Rightarrow> Inl UndeclaredType)"

text \<open>\<open>isinstance(value, int)\<close> holds of the truth values too, which are stored as 0 and 1.\<close>

definition py_int :: "json \<Rightarrow> int option" where
  "py_int v = (case v of JInt i \<Rightarrow> Some i | JBool b \<Rightarrow> Some (if b then 1 else 0) | _ \<Rightarrow> None)"

definition payload_at :: "(string \<times> json) list \<Rightarrow> string \<Rightarrow> json" where
  "payload_at payload f = (case map_of payload f of None \<Rightarrow> JStr [] | Some v \<Rightarrow> v)"

definition insert_queue :: "string \<Rightarrow> queue_row \<Rightarrow> relayer_db \<Rightarrow> relayer_db result" where
  "insert_queue digest row db =
     (if \<not> sqlite_int (q_source_nonce row) \<or> \<not> sqlite_int (q_created_at row) then Inl OverflowError
      else if dict_get (queue db) digest \<noteq> None \<or>
        list_ex (\<lambda>item. q_source_transaction (snd item) = q_source_transaction row \<or>
          (q_source_network (snd item) = q_source_network row \<and> q_source_nonce (snd item) = q_source_nonce row)) (queue db)
      then Inl SQLiteIntegrityError
      else Inr (db\<lparr>queue := dict_set digest row (queue db)\<rparr>))"

text \<open>\<open>except sqlite3.IntegrityError\<close>\<close>

definition replay_error :: "'a result \<Rightarrow> 'a result" where
  "replay_error m = (if m = Inl SQLiteIntegrityError
     then Inl (RelayerJournalError ''replay or duplicate queue identity'') else m)"

definition enqueue :: "relayer_db \<Rightarrow> (string \<times> json) list \<Rightarrow> int \<Rightarrow> (queue_item \<times> relayer_db) result" where
  "enqueue locked payload timestamp =
     (let canonical = json_dumps (JObj payload) in
      bindE (py_str (payload_at payload ''message_digest'')) (\<lambda>digest.
      bindE (py_str (payload_at payload ''source_network'')) (\<lambda>source_network.
      bindE (py_str (payload_at payload ''source_transaction'')) (\<lambda>source_transaction.
      if length digest \<noteq> 64 \<or> source_network = [] \<or> length source_transaction \<noteq> 64
      then Inl (RelayerJournalError ''invalid queue identity'')
      else
        (case py_int (payload_at payload ''source_nonce'') of
           None \<Rightarrow> Inl (RelayerJournalError ''invalid source nonce'')
         | Some source_nonce \<Rightarrow>
             if source_nonce < 0 then Inl (RelayerJournalError ''invalid source nonce'')
             else
               bindE (replay_error
                 (bindE (insert_queue digest
                    \<lparr>q_source_network = source_network, q_source_transaction = source_transaction,
                     q_source_nonce = source_nonce, q_payload = canonical, q_state = QPending, q_attempts = 0,
                     q_lease_owner = None, q_lease_expires_at = None, q_execution_transaction = None,
                     q_last_error = None, q_created_at = timestamp, q_updated_at = timestamp\<rparr> locked)
                  (audit_event ''ENQUEUED'' digest (JObj [(''source_network'', JStr source_network)]) timestamp))) (\<lambda>db'.
               bindE (queue_get db' digest) (\<lambda>item. Inr (item, db'))))))))"

definition leasable :: "int \<Rightarrow> queue_row \<Rightarrow> bool" where
  "leasable timestamp row \<longleftrightarrow> q_state row = QPending \<or>
     (q_state row = QLeased \<and> (case q_lease_expires_at row of None \<Rightarrow> False | Some t \<Rightarrow> t \<le> timestamp))"

text \<open>\<open>ORDER BY created_at, message_digest LIMIT 1\<close>: no two rows have the same pair.\<close>

definition next_leasable :: "relayer_db \<Rightarrow> int \<Rightarrow> string option" where
  "next_leasable db timestamp =
     (case sort_key (\<lambda>item. (q_created_at (snd item), fst item)) (filter (\<lambda>item. leasable timestamp (snd item)) (queue db)) of
        [] \<Rightarrow> None
      | item # _ \<Rightarrow> Some (fst item))"

definition lease_row :: "string \<Rightarrow> int \<Rightarrow> int \<Rightarrow> queue_row \<Rightarrow> queue_row" where
  "lease_row owner timestamp lease_seconds row = row\<lparr>q_state := QLeased, q_attempts := q_attempts row + 1,
     q_lease_owner := Some owner, q_lease_expires_at := Some (timestamp + lease_seconds), q_updated_at := timestamp\<rparr>"

definition lease :: "relayer_db \<Rightarrow> relayer_db \<Rightarrow> string \<Rightarrow> int \<Rightarrow> int \<Rightarrow> (queue_item option \<times> relayer_db) result" where
  "lease db locked owner timestamp lease_seconds =
     (if owner = [] \<or> lease_seconds < 1 then Inl (RelayerJournalError ''invalid lease'')
      else if \<not> sqlite_int timestamp then Inl OverflowError
      else
        (case next_leasable db timestamp of
           None \<Rightarrow> Inr (None, locked)
         | Some digest \<Rightarrow>
             if \<not> sqlite_int (timestamp + lease_seconds) then Inl OverflowError
             else
               (case dict_get (queue locked) digest of
                  None \<Rightarrow> Inr (None, locked)
                | Some row \<Rightarrow>
                    if \<not> leasable timestamp row then Inr (None, locked)
                    else
                      bindE (audit_event ''LEASED'' digest (JObj [(''owner'', JStr owner)]) timestamp
                        (locked\<lparr>queue := dict_set digest (lease_row owner timestamp lease_seconds row) (queue locked)\<rparr>)) (\<lambda>db'.
                      bindE (queue_get db' digest) (\<lambda>item. Inr (Some item, db'))))))"

definition leased_by :: "string \<Rightarrow> queue_row \<Rightarrow> bool" where
  "leased_by owner row \<longleftrightarrow> q_state row = QLeased \<and> q_lease_owner row = Some owner"

definition acknowledge :: "relayer_db \<Rightarrow> string \<Rightarrow> string \<Rightarrow> string \<Rightarrow> int \<Rightarrow> (queue_item \<times> relayer_db) result" where
  "acknowledge locked digest owner execution_transaction timestamp =
     (if length execution_transaction \<noteq> 64 then Inl (RelayerJournalError ''invalid execution transaction'')
      else if \<not> sqlite_int timestamp then Inl OverflowError
      else
        (case dict_get (queue locked) digest of
           None \<Rightarrow> Inl (RelayerJournalError ''lease ownership mismatch'')
         | Some row \<Rightarrow>
             if \<not> leased_by owner row then Inl (RelayerJournalError ''lease ownership mismatch'')
             else
               bindE (audit_event ''EXECUTED'' digest (JObj [(''execution_transaction'', JStr execution_transaction)]) timestamp
                 (locked\<lparr>queue := dict_set digest
                    (row\<lparr>q_state := QExecuted, q_execution_transaction := Some execution_transaction,
                         q_lease_owner := None, q_lease_expires_at := None, q_updated_at := timestamp\<rparr>) (queue locked)\<rparr>)) (\<lambda>db'.
               bindE (queue_get db' digest) (\<lambda>item. Inr (item, db')))))"

text \<open>
  The ownership is read before the transaction starts; its update names the message only, so it applies
  to the row as it then is, if it is still there.
\<close>

definition fail :: "int \<Rightarrow> relayer_db \<Rightarrow> relayer_db \<Rightarrow> string \<Rightarrow> string \<Rightarrow> string \<Rightarrow> int \<Rightarrow> (queue_item \<times> relayer_db) result" where
  "fail max_attempts db locked digest owner error timestamp =
     (if strip error = [] then Inl (RelayerJournalError ''failure reason is required'')
      else
        (case dict_get (queue db) digest of
           None \<Rightarrow> Inl (RelayerJournalError ''lease ownership mismatch'')
         | Some seen \<Rightarrow>
             if \<not> leased_by owner seen then Inl (RelayerJournalError ''lease ownership mismatch'')
             else if \<not> sqlite_int timestamp then Inl OverflowError
             else
               let next_state = (if max_attempts \<le> q_attempts seen then QDeadLetter else QPending);
                   reason = take 1000 (strip error);
                   updated = (case dict_get (queue locked) digest of
                     None \<Rightarrow> queue locked
                   | Some row \<Rightarrow> dict_set digest
                       (row\<lparr>q_state := next_state, q_last_error := Some reason, q_lease_owner := None,
                            q_lease_expires_at := None, q_updated_at := timestamp\<rparr>) (queue locked)) in
               bindE (audit_event (queue_state_text next_state) digest (JObj [(''error'', JStr reason)]) timestamp
                 (locked\<lparr>queue := updated\<rparr>)) (\<lambda>db'.
               bindE (queue_get db' digest) (\<lambda>item. Inr (item, db')))))"

section \<open>The audit chain\<close>

text \<open>Two texts of entries whose events and details have no NUL are equal only if the entries are.\<close>

definition no_nul :: "string \<Rightarrow> bool" where
  "no_nul s \<longleftrightarrow> CHR 0x00 \<notin> set s"

lemma split_at_nul:
  assumes "xs @ [CHR 0x00] @ ys = xs' @ [CHR 0x00] @ ys'" "no_nul xs" "no_nul xs'"
  shows "xs = xs' \<and> ys = ys'"
  using assms
proof (induction xs arbitrary: xs')
  case Nil
  then show ?case
    by (cases xs') (auto simp: no_nul_def)
next
  case (Cons x xs)
  then show ?case
    by (cases xs') (auto simp: no_nul_def)
qed

lemma split_at_last_nul:
  assumes "xs @ [CHR 0x00] @ ys = xs' @ [CHR 0x00] @ ys'" "no_nul ys" "no_nul ys'"
  shows "xs = xs' \<and> ys = ys'"
proof -
  have "rev ys @ [CHR 0x00] @ rev xs = rev ys' @ [CHR 0x00] @ rev xs'"
    using arg_cong [OF assms(1), of rev] by simp
  then have "rev ys = rev ys' \<and> rev xs = rev xs'"
    by (rule split_at_nul) (use assms(2,3) in \<open>simp_all add: no_nul_def\<close>)
  then show ?thesis
    by simp
qed

lemma no_nul_digits: "list_all is_digit s \<Longrightarrow> no_nul s"
  by (induction s) (auto simp: no_nul_def is_digit_def)

lemma no_nul_int_str: "no_nul (int_str i)"
  using no_nul_digits nat_str_digits by (auto simp: int_str_def no_nul_def)

lemma no_nul_sha [simp]: "no_nul (sha256_hex m)"
  using sha256_hex_lower_hex [of m] by (auto simp: no_nul_def list_all_iff is_lower_hex_def)

lemma no_nul_zero [simp]: "no_nul zero_entry_hash"
  by (simp add: no_nul_def zero_entry_hash_def)

lemma entry_text_inject:
  assumes "entry_text p e d x t = entry_text p' e' d' x' t'"
    and "no_nul p" "no_nul p'" "no_nul e" "no_nul e'" "no_nul x" "no_nul x'"
  shows "p = p' \<and> e = e' \<and> d = d' \<and> x = x' \<and> t = t'"
proof -
  have p: "p = p'" "e @ [CHR 0x00] @ d @ [CHR 0x00] @ x @ [CHR 0x00] @ int_str t = e' @ [CHR 0x00] @ d' @ [CHR 0x00] @ x' @ [CHR 0x00] @ int_str t'"
    using split_at_nul [OF assms(1) [unfolded entry_text_def] assms(2,3)] by simp_all
  have e: "e = e'" "d @ [CHR 0x00] @ x @ [CHR 0x00] @ int_str t = d' @ [CHR 0x00] @ x' @ [CHR 0x00] @ int_str t'"
    using split_at_nul [OF p(2) assms(4,5)] by simp_all
  have t: "d @ [CHR 0x00] @ x = d' @ [CHR 0x00] @ x'" "int_str t = int_str t'"
    using split_at_last_nul [of "d @ [CHR 0x00] @ x" "int_str t" "d' @ [CHR 0x00] @ x'" "int_str t'"] e(2) no_nul_int_str by simp_all
  have "d = d' \<and> x = x'"
    using split_at_last_nul [OF t(1) assms(6,7)] .
  then show ?thesis
    using p(1) e(1) t(2) by (simp add: int_str_inject)
qed

definition text_of_entry :: "audit_entry \<Rightarrow> bytes" where
  "text_of_entry e = encode (entry_text (ae_previous e) (ae_event e) (ae_digest e) (ae_details e) (ae_created_at e))"

lemma verify_entries_snoc:
  "verify_entries p (es @ [e]) \<longleftrightarrow> verify_entries p es \<and> entry_valid (if es = [] then p else ae_hash (last es)) e"
  by (induction es arbitrary: p) auto

lemma entry_valid_hash: "entry_valid p e \<Longrightarrow> ae_hash e = sha256_hex (text_of_entry e) \<and> ae_previous e = p"
  by (simp add: entry_valid_def entry_hash_def text_of_entry_def)

lemma verify_entries_hashes:
  "verify_entries p es \<Longrightarrow> e \<in> set es \<Longrightarrow> ae_hash e = sha256_hex (text_of_entry e)"
  by (induction es arbitrary: p) (auto simp: entry_valid_hash)

lemma verify_entries_previous:
  "verify_entries p es \<Longrightarrow> no_nul p \<Longrightarrow> e \<in> set es \<Longrightarrow> no_nul (ae_previous e)"
proof (induction es arbitrary: p)
  case (Cons a es)
  then have a: "ae_hash a = sha256_hex (text_of_entry a)" "ae_previous a = p"
    using entry_valid_hash [of p a] by simp_all
  then have "no_nul (ae_hash a)"
    by simp
  then show ?case
    using Cons a(2) by auto
qed simp

text \<open>The condition under which the chain says nothing: SHA-256 was broken by the entries at hand.\<close>

definition hash_broken :: "audit_entry list \<Rightarrow> audit_entry list \<Rightarrow> bool" where
  "hash_broken es fs \<longleftrightarrow>
     (\<exists>e \<in> set es. \<exists>f \<in> set fs. text_of_entry e \<noteq> text_of_entry f \<and> sha256 (text_of_entry e) = sha256 (text_of_entry f)) \<or>
     (\<exists>e \<in> set es \<union> set fs. sha256_hex (text_of_entry e) = zero_entry_hash)"

lemma audit_chains_equal:
  assumes "verify_entries zero_entry_hash es" "verify_entries zero_entry_hash fs" "last_entry_hash es = last_entry_hash fs"
    and "\<forall>e \<in> set es \<union> set fs. no_nul (ae_event e) \<and> no_nul (ae_details e)" "\<not> hash_broken es fs"
  shows "es = fs"
  using assms
proof (induction es arbitrary: fs rule: rev_induct)
  case Nil
  show ?case
  proof (cases fs rule: rev_cases)
    case (snoc gs f)
    then have "sha256_hex (text_of_entry f) = zero_entry_hash"
      using Nil.prems(2,3) verify_entries_hashes [of zero_entry_hash fs f] by (simp add: last_entry_hash_def)
    then show ?thesis
      using Nil.prems(5) snoc by (auto simp: hash_broken_def)
  qed simp
next
  case (snoc e es)
  have e: "entry_valid (last_entry_hash es) e" "verify_entries zero_entry_hash es"
    using snoc.prems(1) by (simp_all add: verify_entries_snoc last_entry_hash_def)
  have he: "ae_hash e = sha256_hex (text_of_entry e)"
    using entry_valid_hash [OF e(1)] by simp
  show ?case
  proof (cases fs rule: rev_cases)
    case Nil
    then have "sha256_hex (text_of_entry e) = zero_entry_hash"
      using snoc.prems(3) he by (simp add: last_entry_hash_def)
    then show ?thesis
      using snoc.prems(5) by (auto simp: hash_broken_def)
  next
    case (snoc gs f)
    note fs = snoc
    have f: "entry_valid (last_entry_hash gs) f" "verify_entries zero_entry_hash gs"
      using snoc.prems(2) by (simp_all add: fs verify_entries_snoc last_entry_hash_def)
    have hf: "ae_hash f = sha256_hex (text_of_entry f)"
      using entry_valid_hash [OF f(1)] by simp
    have "sha256 (text_of_entry e) = sha256 (text_of_entry f)"
      using snoc.prems(3) he hf by (simp add: last_entry_hash_def fs sha256_hex_def)
    then have "text_of_entry e = text_of_entry f"
      using snoc.prems(5) by (auto simp: hash_broken_def fs)
    then have texts: "entry_text (ae_previous e) (ae_event e) (ae_digest e) (ae_details e) (ae_created_at e) =
        entry_text (ae_previous f) (ae_event f) (ae_digest f) (ae_details f) (ae_created_at f)"
      by (simp add: text_of_entry_def)
    have "no_nul (ae_previous e)" "no_nul (ae_previous f)"
      using verify_entries_previous [OF snoc.prems(1)] verify_entries_previous [OF snoc.prems(2)] by (simp_all add: fs)
    then have same: "ae_previous e = ae_previous f \<and> ae_event e = ae_event f \<and> ae_digest e = ae_digest f \<and>
        ae_details e = ae_details f \<and> ae_created_at e = ae_created_at f"
      using entry_text_inject [OF texts] snoc.prems(4) by (simp add: fs)
    moreover have "ae_hash e = ae_hash f"
      using \<open>text_of_entry e = text_of_entry f\<close> he hf by simp
    ultimately have "e = f"
      by (intro audit_entry.equality) simp_all
    moreover have "last_entry_hash es = last_entry_hash gs"
      using e(1) f(1) same by (simp add: entry_valid_def)
    then have "es = gs"
      using snoc.prems(4,5) by (intro snoc.IH [OF e(2) f(2)]) (auto simp: fs hash_broken_def)
    ultimately show ?thesis
      by (simp add: fs)
  qed
qed

section \<open>Writing to the audit log\<close>

lemma audit_event_Inr [result_elims]:
  "audit_event event digest details timestamp db = Inr db' \<longleftrightarrow>
     (\<exists>e. entry_valid (last_entry_hash (audit_log db)) e \<and> ae_event e = event \<and> ae_digest e = digest \<and>
        ae_details e = json_dumps details \<and> ae_created_at e = timestamp \<and> ae_hash e \<notin> ae_hash ` set (audit_log db) \<and>
        db' = db\<lparr>audit_log := audit_log db @ [e]\<rparr>)"
proof -
  let ?p = "last_entry_hash (audit_log db)"
  let ?h = "entry_hash ?p event digest (json_dumps details) timestamp"
  let ?e = "\<lparr>ae_event = event, ae_digest = digest, ae_details = json_dumps details, ae_previous = ?p, ae_hash = ?h,
      ae_created_at = timestamp\<rparr>"
  have written: "audit_event event digest details timestamp db = Inr db' \<longleftrightarrow>
      ?h \<notin> ae_hash ` set (audit_log db) \<and> db' = db\<lparr>audit_log := audit_log db @ [?e]\<rparr>"
    by (simp add: audit_event_def Let_def list_ex_iff image_iff) metis
  show ?thesis
  proof
    assume "audit_event event digest details timestamp db = Inr db'"
    then show "\<exists>e. entry_valid ?p e \<and> ae_event e = event \<and> ae_digest e = digest \<and> ae_details e = json_dumps details \<and>
        ae_created_at e = timestamp \<and> ae_hash e \<notin> ae_hash ` set (audit_log db) \<and> db' = db\<lparr>audit_log := audit_log db @ [e]\<rparr>"
      unfolding written by (intro exI [of _ ?e]) (simp add: entry_valid_def)
  next
    assume "\<exists>e. entry_valid ?p e \<and> ae_event e = event \<and> ae_digest e = digest \<and> ae_details e = json_dumps details \<and>
        ae_created_at e = timestamp \<and> ae_hash e \<notin> ae_hash ` set (audit_log db) \<and> db' = db\<lparr>audit_log := audit_log db @ [e]\<rparr>"
    then obtain e where e: "entry_valid ?p e" "ae_event e = event" "ae_digest e = digest" "ae_details e = json_dumps details"
        "ae_created_at e = timestamp" "ae_hash e \<notin> ae_hash ` set (audit_log db)" "db' = db\<lparr>audit_log := audit_log db @ [e]\<rparr>"
      by blast
    then have "e = ?e"
      by (intro audit_entry.equality) (simp_all add: entry_valid_def)
    then show "audit_event event digest details timestamp db = Inr db'"
      unfolding written using e(6,7) by simp
  qed
qed

text \<open>JSON text has no control characters.\<close>

lemma no_nul_append [simp]: "no_nul (s @ t) \<longleftrightarrow> no_nul s \<and> no_nul t"
  by (auto simp: no_nul_def)

lemma no_nul_Cons [simp]: "no_nul (c # s) \<longleftrightarrow> c \<noteq> CHR 0x00 \<and> no_nul s"
  by (auto simp: no_nul_def)

lemma no_nul_Nil [simp]: "no_nul []"
  by (simp add: no_nul_def)

lemma no_nul_join: "no_nul sep \<Longrightarrow> \<forall>s \<in> set ss. no_nul s \<Longrightarrow> no_nul (join sep ss)"
  by (induction sep ss rule: join.induct) auto

lemma no_nul_hex_digit: "n < 16 \<Longrightarrow> hex_digit n \<noteq> CHR 0x00"
  using hex_digit_lower_hex [of n] by (auto simp: is_lower_hex_def)

lemma no_nul_if: "(b \<Longrightarrow> no_nul s) \<Longrightarrow> (\<not> b \<Longrightarrow> no_nul t) \<Longrightarrow> no_nul (if b then s else t)"
  by simp

lemma no_nul_escape: "no_nul (json_escape c)"
  unfolding json_escape_def no_nul_Cons no_nul_Nil
  by (intro no_nul_if; simp add: no_nul_hex_digit nibbles; auto)

lemma no_nul_quote: "no_nul (json_quote s)"
proof -
  have "no_nul (concat (map json_escape s))"
    by (induction s) (auto simp: no_nul_escape)
  then show ?thesis
    by (simp add: json_quote_def)
qed

lemma no_nul_render: "no_nul (json_render v)"
proof (induction v)
  case (JArr vs)
  then show ?case
    by (auto intro!: no_nul_join)
next
  case (JObj ms)
  then have "\<forall>s \<in> set (map json_member (map (map_prod id json_render) ms)). no_nul s"
    by (fastforce simp: json_member_def no_nul_quote)
  then show ?case
    by (auto intro!: no_nul_join)
qed (simp_all add: no_nul_int_str no_nul_quote)

lemma no_nul_dumps [simp]: "no_nul (json_dumps v)"
  by (simp add: json_dumps_def no_nul_render)

section \<open>What the operations do\<close>

lemma replay_error_Inr: "replay_error m = Inr y \<longleftrightarrow> m = Inr y"
  by (auto simp: replay_error_def)

lemma insert_queue_Inr [result_elims]:
  "insert_queue d row db = Inr db' \<longleftrightarrow>
     sqlite_int (q_source_nonce row) \<and> sqlite_int (q_created_at row) \<and> dict_get (queue db) d = None \<and>
     (\<forall>item \<in> set (queue db). q_source_transaction (snd item) \<noteq> q_source_transaction row \<and>
        (q_source_network (snd item), q_source_nonce (snd item)) \<noteq> (q_source_network row, q_source_nonce row)) \<and>
     db' = db\<lparr>queue := queue db @ [(d, row)]\<rparr>"
proof (cases "dict_get (queue db) d")
  case None
  then show ?thesis
    using dict_set_new [OF None] by (auto simp: insert_queue_def list_ex_iff)
qed (simp add: insert_queue_def del: map_of_eq_Some_iff)

text \<open>The identity of a queued message, and the shape of its row.\<close>

definition identity_of_row :: "queue_row \<Rightarrow> string \<times> string \<times> int \<times> string" where
  "identity_of_row row = (q_source_network row, q_source_transaction row, q_source_nonce row, q_payload row)"

definition queue_row_ok :: "queue_row \<Rightarrow> bool" where
  "queue_row_ok row \<longleftrightarrow>
     (q_state row = QLeased \<longleftrightarrow> q_lease_owner row \<noteq> None) \<and> (q_lease_owner row \<noteq> None \<longleftrightarrow> q_lease_expires_at row \<noteq> None) \<and>
     0 \<le> q_attempts row \<and> (q_state row = QExecuted \<longrightarrow> q_execution_transaction row \<noteq> None) \<and>
     json_loads (q_payload row) \<noteq> None"

inductive relayer_step :: "int \<Rightarrow> relayer_db \<Rightarrow> relayer_db \<Rightarrow> bool" for max_attempts where
  enqueue_step: "json_ok (JObj payload) \<Longrightarrow> enqueue locked payload t = Inr (item, db') \<Longrightarrow> relayer_step max_attempts locked db'"
| lease_step: "lease db locked owner t seconds = Inr (found, db') \<Longrightarrow> relayer_step max_attempts locked db'"
| acknowledge_step: "acknowledge locked d owner tx t = Inr (item, db') \<Longrightarrow> relayer_step max_attempts locked db'"
| fail_step: "fail max_attempts db locked d owner reason t = Inr (item, db') \<Longrightarrow> relayer_step max_attempts locked db'"

inductive relayer_reachable :: "int \<Rightarrow> relayer_db \<Rightarrow> bool" for max_attempts where
  created: "open_relayer_journal max_attempts empty_relayer_db = Inr db \<Longrightarrow> relayer_reachable max_attempts db"
| step: "relayer_reachable max_attempts db \<Longrightarrow> relayer_step max_attempts db db' \<Longrightarrow> relayer_reachable max_attempts db'"

lemma enqueue_Inr:
  assumes "enqueue locked payload t = Inr (item, db')"
  obtains d row db1 where "insert_queue d row locked = Inr db1"
    "audit_event ''ENQUEUED'' d (JObj [(''source_network'', JStr (q_source_network row))]) t db1 = Inr db'"
    "queue_get db' d = Inr item" "q_payload row = json_dumps (JObj payload)" "q_state row = QPending" "q_attempts row = 0"
    "q_lease_owner row = None" "q_lease_expires_at row = None" "q_created_at row = t"
    "py_str (payload_at payload ''message_digest'') = Inr d"
    "py_str (payload_at payload ''source_network'') = Inr (q_source_network row)"
    "py_str (payload_at payload ''source_transaction'') = Inr (q_source_transaction row)"
    "py_int (payload_at payload ''source_nonce'') = Some (q_source_nonce row)"
proof -
  obtain d net tx n where p: "py_str (payload_at payload ''message_digest'') = Inr d"
      "py_str (payload_at payload ''source_network'') = Inr net" "py_str (payload_at payload ''source_transaction'') = Inr tx"
      "py_int (payload_at payload ''source_nonce'') = Some n"
    using assms by (auto simp: enqueue_def bindE_Inr_iff Let_def split: option.splits if_splits)
  define row where "row = \<lparr>q_source_network = net, q_source_transaction = tx,
                     q_source_nonce = n, q_payload = json_dumps (JObj payload), q_state = QPending, q_attempts = 0,
                     q_lease_owner = None, q_lease_expires_at = None, q_execution_transaction = None,
                     q_last_error = None, q_created_at = t, q_updated_at = t\<rparr>"
  have "bindE (insert_queue d row locked) (audit_event ''ENQUEUED'' d (JObj [(''source_network'', JStr net)]) t) = Inr db'"
      "queue_get db' d = Inr item"
    using assms p by (auto simp: enqueue_def bindE_Inr_iff replay_error_Inr row_def Let_def if_Inl_Inr_iff split: if_splits)
  then show thesis
    using that [of d row] p by (auto simp: bindE_Inr_iff row_def)
qed

lemma lease_Inr:
  assumes "lease db locked owner t seconds = Inr (found, db')"
  obtains (nothing) "found = None" "db' = locked"
  | (leased) d row item where "found = Some item" "next_leasable db t = Some d" "dict_get (queue locked) d = Some row"
      "leasable t row" "queue_get db' d = Inr item" "owner \<noteq> []" "1 \<le> seconds"
      "audit_event ''LEASED'' d (JObj [(''owner'', JStr owner)]) t
         (locked\<lparr>queue := dict_set d (lease_row owner t seconds row) (queue locked)\<rparr>) = Inr db'"
proof (cases "next_leasable db t")
  case None
  then have "found = None" "db' = locked"
    using assms by (simp_all add: lease_def if_Inl_Inr_iff)
  then show thesis
    by (rule nothing)
next
  case (Some d)
  show thesis
  proof (cases "\<exists>row. dict_get (queue locked) d = Some row \<and> leasable t row")
    case True
    then obtain row where "dict_get (queue locked) d = Some row" "leasable t row"
      by blast
    then show thesis
      using assms Some leased [of _ d row]
      by (auto simp: lease_def if_Inl_Inr_iff bindE_Inr_iff simp del: map_of_eq_Some_iff)
  next
    case False
    then have "found = None" "db' = locked"
      using assms Some by (cases "dict_get (queue locked) d"; simp add: lease_def if_Inl_Inr_iff del: map_of_eq_Some_iff)+
    then show thesis
      by (rule nothing)
  qed
qed

lemma acknowledge_Inr:
  assumes "acknowledge locked d owner tx t = Inr (item, db')"
  obtains row where "dict_get (queue locked) d = Some row" "leased_by owner row" "length tx = 64" "queue_get db' d = Inr item"
    "audit_event ''EXECUTED'' d (JObj [(''execution_transaction'', JStr tx)]) t
       (locked\<lparr>queue := dict_set d (row\<lparr>q_state := QExecuted, q_execution_transaction := Some tx, q_lease_owner := None,
          q_lease_expires_at := None, q_updated_at := t\<rparr>) (queue locked)\<rparr>) = Inr db'"
  using assms that by (cases "dict_get (queue locked) d")
    (auto simp: acknowledge_def if_Inl_Inr_iff bindE_Inr_iff simp del: map_of_eq_Some_iff)

definition failed_row :: "int \<Rightarrow> queue_row \<Rightarrow> string \<Rightarrow> int \<Rightarrow> queue_row \<Rightarrow> queue_row" where
  "failed_row max_attempts seen reason t row = row\<lparr>q_state := (if max_attempts \<le> q_attempts seen then QDeadLetter else QPending),
     q_last_error := Some (take 1000 (strip reason)), q_lease_owner := None, q_lease_expires_at := None, q_updated_at := t\<rparr>"

lemma fail_Inr:
  assumes "fail max_attempts db locked d owner reason t = Inr (item, db')"
  obtains seen row where "dict_get (queue db) d = Some seen" "leased_by owner seen" "dict_get (queue locked) d = Some row"
    "audit_event (queue_state_text (if max_attempts \<le> q_attempts seen then QDeadLetter else QPending)) d
       (JObj [(''error'', JStr (take 1000 (strip reason)))]) t
       (locked\<lparr>queue := dict_set d (failed_row max_attempts seen reason t row) (queue locked)\<rparr>) = Inr db'"
    "queue_get db' d = Inr item"
proof (cases "dict_get (queue db) d")
  case None
  then show thesis
    using assms by (simp add: fail_def if_Inl_Inr_iff)
next
  case (Some seen)
  show thesis
  proof (cases "dict_get (queue locked) d")
    case None
    then show thesis
      using assms Some by (auto simp: fail_def if_Inl_Inr_iff bindE_Inr_iff audit_event_Inr queue_get_def Let_def simp del: map_of_eq_Some_iff)
  next
    case row: (Some row)
    then show thesis
      using assms Some that [of seen row]
      by (auto simp: fail_def if_Inl_Inr_iff bindE_Inr_iff failed_row_def Let_def simp del: map_of_eq_Some_iff)
  qed
qed

section \<open>What a step changes\<close>

text \<open>A step appends at most one entry to the audit log and inserts or updates at most one row.\<close>

lemma relayer_step_audit:
  assumes "relayer_step max_attempts locked db'"
  shows "audit_log db' = audit_log locked \<or>
    (\<exists>e. audit_log db' = audit_log locked @ [e] \<and> entry_valid (last_entry_hash (audit_log locked)) e \<and>
       no_nul (ae_event e) \<and> no_nul (ae_details e))"
proof -
  have event: "\<exists>e. audit_log db' = audit_log db1 @ [e] \<and> entry_valid (last_entry_hash (audit_log db1)) e \<and>
       no_nul (ae_event e) \<and> no_nul (ae_details e)"
    if "audit_event ev d details t db1 = Inr db'" "no_nul ev" for ev d details t db1
    using that by (auto simp: audit_event_Inr)
  show ?thesis
    using assms
  proof cases
    case (enqueue_step payload t item)
    from enqueue_step(2) show ?thesis
    proof (rule enqueue_Inr)
      fix d row db1
      assume "insert_queue d row locked = Inr db1"
        "audit_event ''ENQUEUED'' d (JObj [(''source_network'', JStr (q_source_network row))]) t db1 = Inr db'"
      then show ?thesis
        using event [of "''ENQUEUED''" d _ t db1] by (simp add: insert_queue_Inr)
    qed
  next
    case (lease_step db owner t seconds found)
    then show ?thesis
    proof (cases rule: lease_Inr)
      case (leased d row item)
      then show ?thesis
        using event [OF leased(8)] by simp
    qed simp
  next
    case (acknowledge_step d owner tx t item)
    then show ?thesis
      by (rule acknowledge_Inr) (drule event, simp_all)
  next
    case (fail_step db d owner reason t item)
    then show ?thesis
      by (rule fail_Inr) (drule event, simp_all)
  qed
qed

lemma json_text_read: "json_ok v \<Longrightarrow> json_loads (json_dumps v) \<noteq> None"
  by (simp add: json_loads_dumps)

lemma relayer_step_cases:
  assumes "relayer_step max_attempts locked db'"
  obtains (same) "queue db' = queue locked"
  | (inserted) d row db1 where "insert_queue d row locked = Inr db1" "queue db' = queue db1" "queue_row_ok row"
      "q_state row = QPending"
  | (updated) d row row' where "dict_get (queue locked) d = Some row" "queue db' = dict_set d row' (queue locked)"
      "identity_of_row row' = identity_of_row row" "queue_row_ok row \<Longrightarrow> queue_row_ok row'"
      "q_execution_transaction row \<noteq> None \<longrightarrow> q_execution_transaction row' \<noteq> None"
  using assms
proof cases
  case (enqueue_step payload t item)
  from enqueue_step(2) show thesis
  proof (rule enqueue_Inr)
    fix d row db1
    assume a: "insert_queue d row locked = Inr db1"
      "audit_event ''ENQUEUED'' d (JObj [(''source_network'', JStr (q_source_network row))]) t db1 = Inr db'"
      "q_payload row = json_dumps (JObj payload)" "q_state row = QPending" "q_attempts row = 0"
      "q_lease_owner row = None" "q_lease_expires_at row = None"
    show thesis
      using a json_text_read [OF enqueue_step(1)] by (intro inserted [OF a(1)]) (auto simp: queue_row_ok_def audit_event_Inr)
  qed
next
  case (lease_step db owner t seconds found)
  then show thesis
  proof (cases rule: lease_Inr)
    case (leased d row item)
    then show thesis
      by (intro updated [of d row "lease_row owner t seconds row"])
         (auto simp: audit_event_Inr lease_row_def identity_of_row_def queue_row_ok_def)
  qed (use same in simp)
next
  case (acknowledge_step d owner tx t item)
  then show thesis
  proof (rule acknowledge_Inr)
    fix row
    assume a: "dict_get (queue locked) d = Some row" "leased_by owner row"
      "audit_event ''EXECUTED'' d (JObj [(''execution_transaction'', JStr tx)]) t
         (locked\<lparr>queue := dict_set d (row\<lparr>q_state := QExecuted, q_execution_transaction := Some tx, q_lease_owner := None,
            q_lease_expires_at := None, q_updated_at := t\<rparr>) (queue locked)\<rparr>) = Inr db'"
    let ?row = "row\<lparr>q_state := QExecuted, q_execution_transaction := Some tx, q_lease_owner := None,
        q_lease_expires_at := None, q_updated_at := t\<rparr>"
    show thesis
      using a(3) by (intro updated [OF a(1), of ?row]) (auto simp: audit_event_Inr identity_of_row_def queue_row_ok_def)
  qed
next
  case (fail_step db d owner reason t item)
  then show thesis
  proof (rule fail_Inr)
    fix seen row
    assume a: "dict_get (queue locked) d = Some row"
      "audit_event (queue_state_text (if max_attempts \<le> q_attempts seen then QDeadLetter else QPending)) d
         (JObj [(''error'', JStr (take 1000 (strip reason)))]) t
         (locked\<lparr>queue := dict_set d (failed_row max_attempts seen reason t row) (queue locked)\<rparr>) = Inr db'"
    show thesis
      using a(2) by (intro updated [OF a(1), of "failed_row max_attempts seen reason t row"])
        (auto simp: audit_event_Inr failed_row_def identity_of_row_def queue_row_ok_def)
  qed
qed

section \<open>The invariant\<close>

definition tx_of_row :: "string \<times> queue_row \<Rightarrow> string" where
  "tx_of_row item = q_source_transaction (snd item)"

definition nonce_of_row :: "string \<times> queue_row \<Rightarrow> string \<times> int" where
  "nonce_of_row item = (q_source_network (snd item), q_source_nonce (snd item))"

definition relayer_ok :: "relayer_db \<Rightarrow> bool" where
  "relayer_ok db \<longleftrightarrow>
     verify_audit_chain db \<and> (\<forall>e \<in> set (audit_log db). no_nul (ae_event e) \<and> no_nul (ae_details e)) \<and>
     dict_ok (queue db) \<and> distinct (map tx_of_row (queue db)) \<and> distinct (map nonce_of_row (queue db)) \<and>
     (\<forall>item \<in> set (queue db). queue_row_ok (snd item))"

lemma identity_keys:
  "identity_of_row row' = identity_of_row row \<Longrightarrow> tx_of_row (d, row') = tx_of_row (d, row) \<and> nonce_of_row (d, row') = nonce_of_row (d, row)"
  by (simp add: identity_of_row_def tx_of_row_def nonce_of_row_def)

lemma relayer_step_ok:
  assumes "relayer_step max_attempts locked db'" "relayer_ok locked"
  shows "relayer_ok db'"
proof -
  have audit: "verify_audit_chain db' \<and> (\<forall>e \<in> set (audit_log db'). no_nul (ae_event e) \<and> no_nul (ae_details e))"
    using relayer_step_audit [OF assms(1)] assms(2)
    by (auto simp: relayer_ok_def verify_audit_chain_def verify_entries_snoc last_entry_hash_def)
  have "dict_ok (queue db') \<and> distinct (map tx_of_row (queue db')) \<and> distinct (map nonce_of_row (queue db')) \<and>
      (\<forall>item \<in> set (queue db'). queue_row_ok (snd item))"
    using assms(1)
  proof (cases rule: relayer_step_cases)
    case same
    then show ?thesis
      using assms(2) by (simp add: relayer_ok_def)
  next
    case (inserted d row db1)
    then have "queue db' = queue locked @ [(d, row)]" "d \<notin> fst ` set (queue locked)"
      "tx_of_row (d, row) \<notin> tx_of_row ` set (queue locked)" "nonce_of_row (d, row) \<notin> nonce_of_row ` set (queue locked)"
      by (auto simp: insert_queue_Inr map_of_eq_None_iff tx_of_row_def nonce_of_row_def)
    then show ?thesis
      using assms(2) inserted(3) by (simp add: relayer_ok_def)
  next
    case (updated d row row')
    have keys: "map tx_of_row (queue db') = map tx_of_row (queue locked)" "map nonce_of_row (queue db') = map nonce_of_row (queue locked)"
      unfolding updated(2) using identity_keys [OF updated(3), of d] map_dict_set_same [OF updated(1)] by blast+
    have "queue_row_ok row"
      using assms(2) map_of_SomeD [OF updated(1)] by (force simp: relayer_ok_def)
    then have "\<forall>item \<in> set (queue db'). queue_row_ok (snd item)"
      unfolding updated(2) using assms(2) updated(4) by (auto simp: relayer_ok_def set_dict_set)
    then show ?thesis
      using assms(2) keys by (simp add: relayer_ok_def updated(2))
  qed
  then show ?thesis
    using audit by (simp add: relayer_ok_def)
qed

lemma relayer_reachable_ok: "relayer_reachable max_attempts db \<Longrightarrow> relayer_ok db"
proof (induction rule: relayer_reachable.induct)
  case (created db)
  then show ?case
    by (auto simp: open_relayer_journal_def if_Inl_Inr_iff empty_relayer_db_def relayer_ok_def verify_audit_chain_def)
qed (rule relayer_step_ok)

text \<open>Entries of the audit log and identities of messages are written once.\<close>

definition audit_at :: "relayer_db \<Rightarrow> nat \<Rightarrow> audit_entry option" where
  "audit_at db k = (if k < length (audit_log db) then Some (audit_log db ! k) else None)"

interpretation audit_kept: write_once "relayer_step max_attempts" audit_at for max_attempts
  by unfold_locales (auto simp: audit_at_def nth_append dest!: relayer_step_audit split: if_splits)

definition queued_identity :: "relayer_db \<Rightarrow> string \<Rightarrow> (string \<times> string \<times> int \<times> string) option" where
  "queued_identity db d = map_option identity_of_row (dict_get (queue db) d)"

lemma relayer_step_identity:
  assumes "relayer_step max_attempts locked db'" "queued_identity locked d = Some i"
  shows "queued_identity db' d = Some i"
  using assms(1)
proof (cases rule: relayer_step_cases)
  case (inserted e row db1)
  then show ?thesis
    using assms(2) by (auto simp: queued_identity_def insert_queue_Inr map_add_def)
next
  case (updated e row row')
  then show ?thesis
    using assms(2) by (auto simp: queued_identity_def)
qed (use assms(2) in \<open>simp add: queued_identity_def\<close>)

interpretation identity_kept: write_once "relayer_step max_attempts" queued_identity for max_attempts
  by unfold_locales (rule relayer_step_identity)

section \<open>The properties of the relayer journal\<close>

text \<open>
  C32. Whatever the workers do and however their reads and transactions interleave, the audit chain of
  the journal verifies, no two messages share a source transaction or a nonce of one network, and a
  message has a lease owner and an expiry exactly while it is leased.
\<close>

theorem relayer_journal_ok:
  assumes "relayer_reachable max_attempts db"
  shows "verify_audit_chain db \<and> distinct (map tx_of_row (queue db)) \<and> distinct (map nonce_of_row (queue db)) \<and>
    (\<forall>d row. dict_get (queue db) d = Some row \<longrightarrow>
       (q_state row = QLeased \<longleftrightarrow> q_lease_owner row \<noteq> None) \<and> (q_lease_owner row \<noteq> None \<longleftrightarrow> q_lease_expires_at row \<noteq> None) \<and>
       (\<exists>item. queue_get db d = Inr item \<and> qi_state item = q_state row))"
proof -
  have ok: "relayer_ok db"
    by (rule relayer_reachable_ok [OF assms])
  have "(q_state row = QLeased \<longleftrightarrow> q_lease_owner row \<noteq> None) \<and> (q_lease_owner row \<noteq> None \<longleftrightarrow> q_lease_expires_at row \<noteq> None) \<and>
      (\<exists>item. queue_get db d = Inr item \<and> qi_state item = q_state row)" if row: "dict_get (queue db) d = Some row" for d row
  proof -
    have "queue_row_ok row"
      using ok map_of_SomeD [OF row] by (force simp: relayer_ok_def)
    then show ?thesis
      using row by (auto simp: queue_row_ok_def queue_get_def simp del: map_of_eq_Some_iff)
  qed
  then show ?thesis
    using ok by (simp add: relayer_ok_def del: map_of_eq_Some_iff)
qed


text \<open>
  Replay protection of the queue: once a message was enqueued, its identity and its payload stay as
  they are, and whatever the workers do afterwards, a payload with the same digest, the same source
  transaction or the same network and nonce is refused.
\<close>

theorem relayer_no_replay:
  assumes "enqueue locked payload t = Inr (item, db')" "(relayer_step max_attempts)\<^sup>*\<^sup>* db' db''"
    and "py_str (payload_at payload' ''message_digest'') = py_str (payload_at payload ''message_digest'') \<or>
      py_str (payload_at payload' ''source_transaction'') = py_str (payload_at payload ''source_transaction'') \<or>
      (py_str (payload_at payload' ''source_network'') = py_str (payload_at payload ''source_network'') \<and>
       py_int (payload_at payload' ''source_nonce'') = py_int (payload_at payload ''source_nonce''))"
  shows "\<exists>e. enqueue db'' payload' t' = Inl e"
proof (cases "enqueue db'' payload' t'")
  case (Inr y)
  then obtain item' db3 where again: "enqueue db'' payload' t' = Inr (item', db3)"
    by (cases y) simp
  obtain d row db1 where row: "insert_queue d row locked = Inr db1"
      "audit_event ''ENQUEUED'' d (JObj [(''source_network'', JStr (q_source_network row))]) t db1 = Inr db'"
      "py_str (payload_at payload ''message_digest'') = Inr d"
      "py_str (payload_at payload ''source_network'') = Inr (q_source_network row)"
      "py_str (payload_at payload ''source_transaction'') = Inr (q_source_transaction row)"
      "py_int (payload_at payload ''source_nonce'') = Some (q_source_nonce row)"
    using assms(1) by (rule enqueue_Inr)
  obtain d' row' db2 where row': "insert_queue d' row' db'' = Inr db2"
      "py_str (payload_at payload' ''message_digest'') = Inr d'"
      "py_str (payload_at payload' ''source_network'') = Inr (q_source_network row')"
      "py_str (payload_at payload' ''source_transaction'') = Inr (q_source_transaction row')"
      "py_int (payload_at payload' ''source_nonce'') = Some (q_source_nonce row')"
    using again by (rule enqueue_Inr)
  have "dict_get (queue db') d = Some row"
    using row(1,2) by (auto simp: insert_queue_Inr audit_event_Inr map_add_def)
  then have "queued_identity db' d = Some (identity_of_row row)"
    by (simp add: queued_identity_def)
  with assms(2) have "queued_identity db'' d = Some (identity_of_row row)"
    by (rule identity_kept.steps_keep)
  then obtain r where r: "dict_get (queue db'') d = Some r" "identity_of_row r = identity_of_row row"
    by (auto simp: queued_identity_def)
  have "(d, r) \<in> set (queue db'')"
    using r(1) by (rule map_of_SomeD)
  then have "d' \<noteq> d \<and> q_source_transaction row' \<noteq> q_source_transaction row \<and>
      (q_source_network row', q_source_nonce row') \<noteq> (q_source_network row, q_source_nonce row)"
    using row'(1) r by (fastforce simp: insert_queue_Inr identity_of_row_def simp del: map_of_eq_Some_iff)
  then show ?thesis
    using assms(3) row(3-6) row'(2-5) by auto
qed simp

text \<open>
  A lease is exclusive: while the row is as the lease left it and the lease has not expired, no
  worker is given the message again, whatever it read, and nobody but the owner can acknowledge it.
\<close>

theorem lease_exclusive:
  assumes "lease db locked owner t seconds = Inr (Some item, db1)" "dict_get (queue db2) (qi_message_digest item) = dict_get (queue db1) (qi_message_digest item)"
    and "t' < t + seconds"
  shows "q_lease_owner (the (dict_get (queue db1) (qi_message_digest item))) = Some owner \<and>
    (\<forall>db' other s' found db3. lease db' db2 other t' s' = Inr (Some found, db3) \<longrightarrow> qi_message_digest found \<noteq> qi_message_digest item) \<and>
    (\<forall>other tx t''. other \<noteq> owner \<longrightarrow> (\<exists>e. acknowledge db2 (qi_message_digest item) other tx t'' = Inl e))"
  using assms(1)
proof (cases rule: lease_Inr)
  case (leased d row i)
  let ?row = "lease_row owner t seconds row"
  have db1: "dict_get (queue db1) d = Some ?row"
    using leased(8) by (auto simp: audit_event_Inr)
  have d: "qi_message_digest item = d"
    using leased(1,5) by (auto simp: queue_get_def split: option.splits)
  have row: "dict_get (queue db2) d = Some ?row"
    using assms(2) db1 by (simp add: d)
  have busy: "\<not> leasable t' ?row"
    using assms(3) by (simp add: leasable_def lease_row_def)
  have "qi_message_digest found \<noteq> d" if again: "lease db' db2 other t' s' = Inr (Some found, db3)" for db' other s' found db3
    using again
  proof (cases rule: lease_Inr)
    case (leased d2 row2 i2)
    then have "qi_message_digest found = d2"
      by (auto simp: queue_get_def split: option.splits)
    then show ?thesis
      using leased(3,4) row busy by (auto simp del: map_of_eq_Some_iff)
  qed simp
  moreover have "\<exists>e. acknowledge db2 d other tx t'' = Inl e" if "other \<noteq> owner" for other tx t''
  proof (cases "acknowledge db2 d other tx t''")
    case (Inr y)
    then obtain i db3 where "acknowledge db2 d other tx t'' = Inr (i, db3)"
      by (cases y) simp
    then show ?thesis
      using row that by (elim acknowledge_Inr) (simp add: leased_by_def lease_row_def del: map_of_eq_Some_iff)
  qed simp
  ultimately show ?thesis
    using db1 by (auto simp: d lease_row_def simp del: map_of_eq_Some_iff)
qed simp

text \<open>
  A late failure reopens an executed message: \<open>fail\<close> checks the lease before its transaction starts
  and updates the row whatever its state then is. When the lease ran out in between and another worker
  executed the message, the failure of the first worker puts it back to pending, and it is leased again.
\<close>

theorem late_failure_reopens_executed:
  assumes "dict_get (queue db) d = Some seen" "leased_by owner seen" "q_attempts seen < max_attempts"
    and "dict_get (queue locked) d = Some row" "q_state row = QExecuted" "json_loads (q_payload row) \<noteq> None"
    and "strip reason \<noteq> []" "sqlite_int t"
    and "\<forall>e \<in> set (audit_log locked). ae_hash e \<noteq> entry_hash (last_entry_hash (audit_log locked)) ''PENDING'' d
      (json_dumps (JObj [(''error'', JStr (take 1000 (strip reason)))])) t"
  shows "\<exists>item db'. fail max_attempts db locked d owner reason t = Inr (item, db') \<and>
    (\<exists>row'. dict_get (queue db') d = Some row' \<and> q_state row' = QPending \<and>
       q_execution_transaction row' = q_execution_transaction row \<and> leasable t row')"
proof -
  let ?row = "failed_row max_attempts seen reason t row"
  let ?locked = "locked\<lparr>queue := dict_set d ?row (queue locked)\<rparr>"
  obtain e where e: "audit_event ''PENDING'' d (JObj [(''error'', JStr (take 1000 (strip reason)))]) t ?locked =
      Inr (?locked\<lparr>audit_log := audit_log locked @ [e]\<rparr>)"
    using assms(9) by (auto simp: audit_event_def Let_def list_ex_iff)
  let ?db = "?locked\<lparr>audit_log := audit_log locked @ [e]\<rparr>"
  obtain item where item: "queue_get ?db d = Inr item"
    using assms(6) by (auto simp: queue_get_def failed_row_def)
  have "fail max_attempts db locked d owner reason t = Inr (item, ?db)"
    using assms(1-5,7,8) e item by (simp add: fail_def Let_def failed_row_def del: map_of_eq_Some_iff)
  moreover have "dict_get (queue ?db) d = Some ?row" "q_state ?row = QPending"
    "q_execution_transaction ?row = q_execution_transaction row" "leasable t ?row"
    using assms(3) by (simp_all add: failed_row_def leasable_def)
  ultimately show ?thesis
    by blast
qed

section \<open>A sample journal\<close>

definition sample_digest64 :: string where "sample_digest64 = replicate 64 (CHR ''a'')"
definition sample_tx64 :: string where "sample_tx64 = replicate 64 (CHR ''b'')"

definition sample_payload :: "(string \<times> json) list" where
  "sample_payload = [(''message_digest'', JStr sample_digest64), (''source_network'', JStr ''bsc''),
     (''source_transaction'', JStr sample_tx64), (''source_nonce'', JInt 1)]"

definition sample_queue_row :: queue_row where
  "sample_queue_row = \<lparr>q_source_network = ''bsc'', q_source_transaction = sample_tx64, q_source_nonce = 1,
     q_payload = json_dumps (JObj sample_payload), q_state = QPending, q_attempts = 0, q_lease_owner = None,
     q_lease_expires_at = None, q_execution_transaction = None, q_last_error = None, q_created_at = 5, q_updated_at = 5\<rparr>"

definition sample_entry :: audit_entry where
  "sample_entry = \<lparr>ae_event = ''ENQUEUED'', ae_digest = sample_digest64,
     ae_details = json_dumps (JObj [(''source_network'', JStr ''bsc'')]), ae_previous = zero_entry_hash,
     ae_hash = entry_hash zero_entry_hash ''ENQUEUED'' sample_digest64 (json_dumps (JObj [(''source_network'', JStr ''bsc'')])) 5,
     ae_created_at = 5\<rparr>"

definition sample_relayer_db :: relayer_db where
  "sample_relayer_db = \<lparr>queue = [(sample_digest64, sample_queue_row)], audit_log = [sample_entry]\<rparr>"

lemma sample_payload_ok: "json_ok (JObj sample_payload)"
  by (simp add: sample_payload_def)

lemma sample_payload_read: "json_loads (json_dumps (JObj sample_payload)) = Some (json_canon (JObj sample_payload))"
  by (rule json_loads_dumps [OF sample_payload_ok])

lemma sample_enqueued: "\<exists>item. enqueue empty_relayer_db sample_payload 5 = Inr (item, sample_relayer_db)"
proof -
  let ?db = "\<lparr>queue = [(sample_digest64, sample_queue_row)], audit_log = []\<rparr>"
  have fields: "py_str (payload_at sample_payload ''message_digest'') = Inr sample_digest64"
    "py_str (payload_at sample_payload ''source_network'') = Inr ''bsc''"
    "py_str (payload_at sample_payload ''source_transaction'') = Inr sample_tx64"
    "py_int (payload_at sample_payload ''source_nonce'') = Some 1"
    by (simp_all add: payload_at_def sample_payload_def py_str_def py_int_def)
  have lengths: "length sample_digest64 = 64" "length sample_tx64 = 64"
    by (simp_all add: sample_digest64_def sample_tx64_def)
  have "insert_queue sample_digest64 sample_queue_row empty_relayer_db = Inr ?db"
    by (simp add: insert_queue_Inr empty_relayer_db_def sample_queue_row_def sqlite_int_def)
  moreover have "audit_event ''ENQUEUED'' sample_digest64 (JObj [(''source_network'', JStr ''bsc'')]) 5 ?db = Inr sample_relayer_db"
    by (simp add: audit_event_def last_entry_hash_def sample_relayer_db_def sample_entry_def Let_def)
  moreover have "\<exists>item. queue_get sample_relayer_db sample_digest64 = Inr item"
    by (simp add: queue_get_def sample_relayer_db_def sample_queue_row_def sample_payload_read)
  ultimately show ?thesis
    by (auto simp: enqueue_def fields lengths sample_queue_row_def [symmetric] replay_error_def)
qed

lemma sample_relayer_reachable: "relayer_reachable 3 sample_relayer_db"
proof -
  have "relayer_reachable 3 empty_relayer_db"
    by (rule relayer_reachable.created) (simp add: open_relayer_journal_def)
  then show ?thesis
    using relayer_reachable.step [OF _ relayer_step.enqueue_step [OF sample_payload_ok]] sample_enqueued by blast
qed

lemma relayer_journal_ok_witness: "verify_audit_chain sample_relayer_db \<and> audit_log sample_relayer_db = [sample_entry]"
  using relayer_journal_ok [OF sample_relayer_reachable] by (simp add: sample_relayer_db_def)


lemma relayer_no_replay_witness: "\<exists>e. enqueue sample_relayer_db sample_payload 9 = Inl e"
proof -
  obtain item where "enqueue empty_relayer_db sample_payload 5 = Inr (item, sample_relayer_db)"
    using sample_enqueued by blast
  from relayer_no_replay [OF this rtranclp.rtrancl_refl [of "relayer_step 3"]] show ?thesis
    by blast
qed

text \<open>A queue with an empty audit log, so that no hash of an entry has to be computed.\<close>

definition sample_queue :: "queue_row \<Rightarrow> relayer_db" where
  "sample_queue row = \<lparr>queue = [(sample_digest64, row)], audit_log = []\<rparr>"

lemma sample_leased:
  "\<exists>item db1. lease (sample_queue sample_queue_row) (sample_queue sample_queue_row) ''w'' 10 60 = Inr (Some item, db1) \<and>
     qi_message_digest item = sample_digest64"
proof -
  have "next_leasable (sample_queue sample_queue_row) 10 = Some sample_digest64"
    by (simp add: next_leasable_def sample_queue_def leasable_def sample_queue_row_def)
  then show ?thesis
    by (simp add: lease_def sqlite_int_def sample_queue_def audit_event_def queue_get_def leasable_def lease_row_def
        sample_queue_row_def sample_payload_read Let_def)
qed

lemma lease_exclusive_witness:
  "\<exists>item db1. lease (sample_queue sample_queue_row) (sample_queue sample_queue_row) ''w'' 10 60 = Inr (Some item, db1) \<and>
     (\<exists>e. acknowledge db1 (qi_message_digest item) ''v'' [] 11 = Inl e)"
proof -
  obtain item db1 where leased: "lease (sample_queue sample_queue_row) (sample_queue sample_queue_row) ''w'' 10 60 = Inr (Some item, db1)"
    using sample_leased by blast
  from lease_exclusive [OF leased refl, of 69] have "\<exists>e. acknowledge db1 (qi_message_digest item) ''v'' [] 11 = Inl e"
    by simp
  then show ?thesis
    using leased by blast
qed

lemma late_failure_reopens_executed_witness:
  "\<exists>item db'. fail 3 (sample_queue (lease_row ''w'' 10 60 sample_queue_row))
     (sample_queue (sample_queue_row\<lparr>q_state := QExecuted, q_execution_transaction := Some sample_tx64\<rparr>))
     sample_digest64 ''w'' ''timeout'' 99 = Inr (item, db') \<and>
   (\<exists>row'. dict_get (queue db') sample_digest64 = Some row' \<and> q_state row' = QPending)"
proof -
  have "strip ''timeout'' \<noteq> []"
    by code_simp
  then show ?thesis
    using late_failure_reopens_executed [of "sample_queue (lease_row ''w'' 10 60 sample_queue_row)" sample_digest64
        "lease_row ''w'' 10 60 sample_queue_row" "''w''" 3
        "sample_queue (sample_queue_row\<lparr>q_state := QExecuted, q_execution_transaction := Some sample_tx64\<rparr>)"
        "sample_queue_row\<lparr>q_state := QExecuted, q_execution_transaction := Some sample_tx64\<rparr>" "''timeout''" 99]
    by (simp add: sample_queue_def leased_by_def lease_row_def sample_queue_row_def sample_payload_read sqlite_int_def) blast
qed

end
