(* ===== verification/PeerSync.thy ===== *)
theory PeerSync
  imports NodePipeline
begin

text \<open>
  \<open>peer_sync.py\<close>: the registry of peers with the choice of a sync source, the durable journal of a block
  import, and the import itself, with the recovery after a crash. The journal is one file, replaced
  atomically: its content is \<open>None\<close> where the file does not exist. A crash is an exception of the fault
  injector at one of its three points. Failures of the file system are not modelled.
\<close>

section \<open>Peers\<close>

record peer_advertisement =
  pa_peer_id :: string
  pa_chain_id :: int
  pa_genesis_hash :: string
  finalized_height :: int
  finalized_hash :: string
  protocol_version :: int

definition peer_hash :: "json \<Rightarrow> string \<Rightarrow> unit result" where
  "peer_hash v field =
     (case v of
        JStr s \<Rightarrow> if is_hash32 s then Inr () else Inl (PeerSyncError (field @ '' must be a 32-byte hex value''))
      | _ \<Rightarrow> Inl (PeerSyncError (field @ '' must be a 32-byte hex value'')))"

definition advertisement_post_init :: "peer_advertisement \<Rightarrow> unit result" where
  "advertisement_post_init a =
     (if pa_peer_id a = [] \<or> 128 < length (pa_peer_id a) then Inl (PeerSyncError ''peer_id is required'')
      else if pa_chain_id a \<le> 0 \<or> finalized_height a < 0 \<or> protocol_version a \<noteq> 1
      then Inl (PeerSyncError ''peer advertisement contains invalid protocol values'')
      else
        bindE (peer_hash (JStr (pa_genesis_hash a)) ''genesis_hash'') (\<lambda>_.
        peer_hash (JStr (finalized_hash a)) ''finalized_hash''))"

record peer_record =
  pr_advertisement :: peer_advertisement
  fault_score :: int

definition peer_eligible :: "peer_record \<Rightarrow> bool" where
  "peer_eligible r = (fault_score r < 3)"

record peer_registry =
  reg_chain_id :: int
  reg_genesis_hash :: string
  reg_peers :: "(string, peer_record) dict"

definition registry_init :: "int \<Rightarrow> string \<Rightarrow> peer_registry result" where
  "registry_init chain genesis =
     (if chain \<le> 0 then Inl (PeerSyncError ''chain_id must be positive'')
      else
        bindE (peer_hash (JStr genesis) ''genesis_hash'') (\<lambda>_.
        Inr \<lparr>reg_chain_id = chain, reg_genesis_hash = lower genesis, reg_peers = []\<rparr>))"

definition registry_observe :: "peer_registry \<Rightarrow> peer_advertisement \<Rightarrow> (peer_record \<times> peer_registry) result" where
  "registry_observe g a =
     (if pa_chain_id a \<noteq> reg_chain_id g then Inl (PeerSyncError ''peer chain_id mismatch'')
      else if lower (pa_genesis_hash a) \<noteq> reg_genesis_hash g then Inl (PeerSyncError ''peer genesis mismatch'')
      else
        let current = dict_get (reg_peers g) (pa_peer_id a);
            score = (case current of None \<Rightarrow> 0 | Some r \<Rightarrow> fault_score r) in
        if (case current of None \<Rightarrow> False | Some r \<Rightarrow> finalized_height a < finalized_height (pr_advertisement r))
        then Inl (PeerSyncError ''peer finalized height regressed'')
        else if (case current of None \<Rightarrow> False | Some r \<Rightarrow>
            finalized_height a = finalized_height (pr_advertisement r) \<and>
            lower (finalized_hash a) \<noteq> lower (finalized_hash (pr_advertisement r)))
        then Inl (PeerSyncError ''peer advertised conflicting finalized hash'')
        else
          let r = \<lparr>pr_advertisement = a, fault_score = score\<rparr> in
          Inr (r, g\<lparr>reg_peers := dict_set (pa_peer_id a) r (reg_peers g)\<rparr>))"

definition registry_record_fault :: "peer_registry \<Rightarrow> string \<Rightarrow> (peer_record \<times> peer_registry) result" where
  "registry_record_fault g peer =
     (case dict_get (reg_peers g) peer of
        None \<Rightarrow> Inl (PeerSyncError ''unknown peer'')
      | Some current \<Rightarrow>
          let updated = current\<lparr>fault_score := fault_score current + 1\<rparr> in
          Inr (updated, g\<lparr>reg_peers := dict_set peer updated (reg_peers g)\<rparr>))"

definition source_key :: "peer_record \<Rightarrow> int \<times> int \<times> string" where
  "source_key r = (- finalized_height (pr_advertisement r), fault_score r, pa_peer_id (pr_advertisement r))"

definition select_source :: "peer_registry \<Rightarrow> int \<Rightarrow> peer_record result" where
  "select_source g local_height =
     (case filter (\<lambda>r. peer_eligible r \<and> local_height < finalized_height (pr_advertisement r)) (map snd (reg_peers g)) of
        [] \<Rightarrow> Inl (PeerSyncError ''no eligible peer is ahead of the local finalized head'')
      | r # rs \<Rightarrow> Inr (min_by source_key r rs))"

definition registry_evidence :: "peer_registry \<Rightarrow> json" where
  "registry_evidence g = JObj
     [(''schema_version'', JStr ''junca-peer-registry-evidence/v1''),
      (''chain_id'', JInt (reg_chain_id g)),
      (''genesis_hash'', JStr (reg_genesis_hash g)),
      (''peer_count'', JInt (int (length (reg_peers g)))),
      (''eligible_peer_count'', JInt (int (length (filter (\<lambda>item. peer_eligible (snd item)) (reg_peers g))))),
      (''mainnet_changed'', JBool False),
      (''assets_moved'', JBool False),
      (''bridge_activated'', JBool False)]"

section \<open>The recovery journal\<close>

datatype recovery_action = Clean | RetryRequired | CommitConfirmed

type_synonym journal_file = "string option"

definition recovery_digest :: "(string \<times> json) list \<Rightarrow> string" where
  "recovery_digest body =
     digest0x (''JUNCA_BLOCK_IMPORT_JOURNAL_V1'' @ [CHR 0x00] @ encode (json_dumps (JObj body)))"

definition write_journal :: "(string \<times> json) list \<Rightarrow> journal_file" where
  "write_journal members =
     (let body = json_without ''record_digest'' members in
      Some (json_dumps (JObj (body @ [(''record_digest'', JStr (recovery_digest body))]))))"

definition journal_fields :: "string list" where
  "journal_fields = [''schema_version'', ''chain_id'', ''status'', ''peer_id'', ''height'', ''parent_hash'', ''block_hash'',
     ''state_root'', ''record_digest'']"

text \<open>\<open>set(record)\<close> on a document that is not an object; only an array can have the required fields.\<close>

definition unhashable :: "json \<Rightarrow> bool" where
  "unhashable v = (case v of JArr _ \<Rightarrow> True | JObj _ \<Rightarrow> True | _ \<Rightarrow> False)"

definition read_other_document :: "json \<Rightarrow> 'a result" where
  "read_other_document v =
     (case v of
        JStr _ \<Rightarrow> Inl (PeerSyncError ''recovery journal fields are invalid'')
      | JArr vs \<Rightarrow>
          if list_ex unhashable vs \<or> set vs = JStr ` set journal_fields then Inl TypeError
          else Inl (PeerSyncError ''recovery journal fields are invalid'')
      | _ \<Rightarrow> Inl TypeError)"

definition journal_values_ok :: "(string \<times> json) list \<Rightarrow> bool result" where
  "journal_values_ok members =
     (if json_at members ''schema_version'' \<noteq> JStr ''junca-block-import-journal/v1'' then Inr False
      else if unhashable (json_at members ''status'') then Inl TypeError
      else Inr (json_at members ''status'' \<in> {JStr ''PREPARED'', JStr ''COMMITTED''} \<and>
        (case json_at members ''peer_id'' of JStr p \<Rightarrow> p \<noteq> [] \<and> length p \<le> 128 | _ \<Rightarrow> False) \<and>
        (case json_at members ''height'' of JInt h \<Rightarrow> 1 \<le> h | _ \<Rightarrow> False)))"

definition read_journal :: "int \<Rightarrow> journal_file \<Rightarrow> (string \<times> json) list option result" where
  "read_journal chain file =
     (case file of
        None \<Rightarrow> Inr None
      | Some text \<Rightarrow>
          (case json_loads text of
             None \<Rightarrow> Inl (PeerSyncError ''recovery journal is unreadable'')
           | Some (JObj raw) \<Rightarrow>
               if json_keys raw \<noteq> set journal_fields then Inl (PeerSyncError ''recovery journal fields are invalid'')
               else
                 let supplied = json_at raw ''record_digest'';
                     body = json_without ''record_digest'' raw;
                     members = body @ [(''record_digest'', supplied)] in
                 if supplied \<noteq> JStr (recovery_digest body) \<or> \<not> py_eq (json_at members ''chain_id'') (JInt chain)
                 then Inl (PeerSyncError ''recovery journal integrity failure'')
                 else
                   bindE (journal_values_ok members) (\<lambda>ok.
                   if \<not> ok then Inl (PeerSyncError ''recovery journal values are invalid'')
                   else
                     bindE (all_ok (\<lambda>field. peer_hash (json_at members field) (''journal '' @ field))
                       [''parent_hash'', ''block_hash'', ''state_root'', ''record_digest'']) (\<lambda>_.
                     Inr (Some members)))
           | Some v \<Rightarrow> read_other_document v))"

definition prepared_record :: "int \<Rightarrow> string \<Rightarrow> executed_proposal \<Rightarrow> (string \<times> json) list" where
  "prepared_record chain peer p =
     [(''schema_version'', JStr ''junca-block-import-journal/v1''),
      (''chain_id'', JInt chain),
      (''status'', JStr ''PREPARED''),
      (''peer_id'', JStr peer),
      (''height'', JInt (ep_height p)),
      (''parent_hash'', JStr (ep_parent_hash p)),
      (''block_hash'', JStr (ep_block_hash p)),
      (''state_root'', JStr (state_root (ep_transition p)))]"

definition begin_import :: "int \<Rightarrow> journal_file \<Rightarrow> string \<Rightarrow> executed_proposal \<Rightarrow> journal_file result" where
  "begin_import chain file peer p =
     (if peer = [] \<or> 128 < length peer then Inl (PeerSyncError ''journal peer_id is invalid'')
      else
        bindE (read_journal chain file) (\<lambda>current.
        if current \<noteq> None then Inl (PeerSyncError ''an import recovery record is already active'')
        else Inr (write_journal (prepared_record chain peer p))))"

definition mark_committed :: "int \<Rightarrow> journal_file \<Rightarrow> stored_block \<Rightarrow> journal_file result" where
  "mark_committed chain file b =
     bindE (read_journal chain file) (\<lambda>current.
     case current of
       None \<Rightarrow> Inl (PeerSyncError ''recovery journal does not bind the committed block'')
     | Some members \<Rightarrow>
         if json_at members ''block_hash'' \<noteq> JStr (sb_block_hash b)
         then Inl (PeerSyncError ''recovery journal does not bind the committed block'')
         else Inr (write_journal (dict_set ''status'' (JStr ''COMMITTED'') members)))"

definition recover :: "int \<Rightarrow> journal_file \<Rightarrow> store_db \<Rightarrow> (recovery_action \<times> journal_file) result" where
  "recover chain file db =
     bindE (read_journal chain file) (\<lambda>current.
     case current of
       None \<Rightarrow> Inr (Clean, file)
     | Some members \<Rightarrow>
         bindE (store_head db) (\<lambda>head.
         if JInt (sb_height head) = json_at members ''height'' \<and> JStr (sb_block_hash head) = json_at members ''block_hash''
         then Inr (CommitConfirmed, None)
         else if JInt (sb_height head + 1) = json_at members ''height'' \<and>
           JStr (sb_block_hash head) = json_at members ''parent_hash''
         then Inr (RetryRequired, file)
         else Inl (PeerSyncError ''journal does not reconcile with finalized state'')))"

section \<open>Importing a finalized block\<close>

record importer =
  im_registry :: peer_registry
  im_pipeline :: node_pipeline
  im_journal_chain :: int
  im_file :: journal_file

text \<open>\<open>except (NodePipelineError, ValueError)\<close>: every error class of the source and the JSON and text errors.\<close>

definition is_value_error :: "exn \<Rightarrow> bool" where
  "is_value_error e = (e \<notin> {TypeError, KeyError, IndexError, OverflowError, SQLiteIntegrityError, UndeclaredType} \<and> (\<forall>m. e \<noteq> FaultInjected m))"

text \<open>
  The part of \<open>import_finalized\<close> that follows \<open>journal.begin\<close>, and the whole. The injector is called at
  named points and may raise; the state then stays as it is at that point.
\<close>

definition import_prepared ::
  "importer \<Rightarrow> (string \<Rightarrow> exn option) \<Rightarrow> string \<Rightarrow> executed_proposal \<Rightarrow> finality_certificate \<Rightarrow> stored_block result \<times> importer" where
  "import_prepared s injector peer p c =
     (case injector ''after_journal_prepare'' of
        Some e \<Rightarrow> (Inl e, s)
      | None \<Rightarrow>
        (case commit_finalized (im_pipeline s) (np_store (im_pipeline s)) p c of
           Inl e \<Rightarrow>
             if \<not> is_value_error e then (Inl e, s)
             else
               (case store_head (np_store (im_pipeline s)) of
                  Inl e' \<Rightarrow> (Inl e', s)
                | Inr head \<Rightarrow>
                    let s2 = (if sb_height head + 1 = ep_height p \<and> sb_block_hash head = ep_parent_hash p
                              then s\<lparr>im_file := None\<rparr> else s) in
                    (case registry_record_fault (im_registry s2) peer of
                       Inl e' \<Rightarrow> (Inl e', s2)
                     | Inr (_, g) \<Rightarrow> (Inl e, s2\<lparr>im_registry := g\<rparr>)))
         | Inr (block, pipeline) \<Rightarrow>
             let s2 = s\<lparr>im_pipeline := pipeline\<rparr> in
             (case injector ''after_state_commit'' of
                Some e \<Rightarrow> (Inl e, s2)
              | None \<Rightarrow>
                (case mark_committed (im_journal_chain s2) (im_file s2) block of
                   Inl e \<Rightarrow> (Inl e, s2)
                 | Inr committed_file \<Rightarrow>
                     let s3 = s2\<lparr>im_file := committed_file\<rparr> in
                     (case injector ''after_journal_commit'' of
                        Some e \<Rightarrow> (Inl e, s3)
                      | None \<Rightarrow> (Inr block, s3\<lparr>im_file := None\<rparr>))))))"

definition import_finalized ::
  "importer \<Rightarrow> (string \<Rightarrow> exn option) \<Rightarrow> string \<Rightarrow> executed_proposal \<Rightarrow> finality_certificate \<Rightarrow> stored_block result \<times> importer" where
  "import_finalized s injector peer p c =
     (case select_source (im_registry s) (head_height (np_store (im_pipeline s))) of
        Inl e \<Rightarrow> (Inl e, s)
      | Inr source \<Rightarrow>
          if pa_peer_id (pr_advertisement source) \<noteq> peer
          then (Inl (PeerSyncError ''block source is not the selected synchronization peer''), s)
          else if finalized_height (pr_advertisement source) < ep_height p
          then (Inl (PeerSyncError ''peer did not advertise the imported finalized height''), s)
          else if finalized_height (pr_advertisement source) = ep_height p \<and>
            lower (finalized_hash (pr_advertisement source)) \<noteq> ep_block_hash p
          then
            (case registry_record_fault (im_registry s) peer of
               Inl e \<Rightarrow> (Inl e, s)
             | Inr (_, g) \<Rightarrow> (Inl (PeerSyncError ''proposal does not match peer finalized advertisement''), s\<lparr>im_registry := g\<rparr>))
          else
            (case begin_import (im_journal_chain s) (im_file s) peer p of
               Inl e \<Rightarrow> (Inl e, s)
             | Inr prepared \<Rightarrow> import_prepared (s\<lparr>im_file := prepared\<rparr>) injector peer p c))"

section \<open>Writing and reading the journal\<close>

abbreviation digest_field :: string where "digest_field \<equiv> ''record_digest''"

text \<open>A record the coordinator may write: the fields, with values the reader accepts.\<close>

definition good_journal :: "int \<Rightarrow> (string \<times> json) list \<Rightarrow> bool" where
  "good_journal chain m \<longleftrightarrow>
     json_ok (JObj m) \<and> json_keys (json_without digest_field m) = set (butlast journal_fields) \<and>
     (\<forall>k. json_canon (json_at m k) = json_at m k) \<and>
     json_at m ''chain_id'' = JInt chain \<and> journal_values_ok m = Inr True \<and>
     (\<forall>f \<in> {''parent_hash'', ''block_hash'', ''state_root''}. \<exists>s. json_at m f = JStr s \<and> is_hash32 s)"

definition same_journal :: "(string \<times> json) list \<Rightarrow> (string \<times> json) list \<Rightarrow> bool" where
  "same_journal m m' \<longleftrightarrow> (\<forall>k. k \<noteq> digest_field \<longrightarrow> json_at m' k = json_at m k)"

lemma canon_without: "json_canon (JObj ms) = JObj ms' \<Longrightarrow> json_canon (JObj (json_without d ms)) = JObj (json_without d ms')"
  by (auto simp: json_without_def filter_sort filter_map comp_def)

lemma dumps_canon: "json_dumps (json_canon v) = json_dumps v"
  by (simp add: json_dumps_def)

lemma json_at_Nil [simp]: "json_at [] k = JNull"
  by (simp add: json_at_def)

lemma json_at_Cons [simp]: "json_at ((a, v) # m) k = (if k = a then v else json_at m k)"
  by (simp add: json_at_def)

lemma json_at_snoc: "json_at (m @ [(d, v)]) k = (if k \<in> json_keys m then json_at m k else if k = d then v else JNull)"
  by (induction m) (force simp: json_keys_def)+

lemma json_at_not_key: "k \<notin> json_keys m \<Longrightarrow> json_at m k = JNull"
  by (induction m) (auto simp: json_keys_def)

lemma json_keys_without: "json_keys (json_without d m) = json_keys m - {d}"
  by (auto simp: json_keys_def json_without_def)

lemma json_at_filter: "k \<noteq> d \<Longrightarrow> json_at (json_without d m) k = json_at m k"
  by (induction m) (auto simp: json_without_def)

lemma journal_values_same: "same_journal m m' \<Longrightarrow> journal_values_ok m' = journal_values_ok m"
  by (simp add: journal_values_ok_def same_journal_def)

lemma journal_fields_split: "set journal_fields = insert digest_field (set (butlast journal_fields))"
  by (simp add: journal_fields_def insert_commute)

lemma digest_field_last: "digest_field \<notin> set (butlast journal_fields)"
  by (simp add: journal_fields_def)

lemma read_write_journal:
  assumes "good_journal chain m"
  obtains m' where "read_journal chain (write_journal m) = Inr (Some m')" "good_journal chain m'" "same_journal m m'"
proof -
  define body where "body = json_without digest_field m"
  define doc where "doc = body @ [(digest_field, JStr (recovery_digest body))]"
  have ok: "json_ok (JObj m)" and keys: "json_keys body = set (butlast journal_fields)"
      and canon: "json_canon (json_at m k) = json_at m k" for k
    using assms by (simp_all add: good_journal_def body_def)
  have fresh: "digest_field \<notin> json_keys body"
    using keys digest_field_last by simp
  have doc_ok: "json_ok (JObj doc)"
    using ok by (auto simp: doc_def body_def json_without_def list_all_iff distinct_map_filter)
  obtain ms where ms: "json_canon (JObj doc) = JObj ms"
    by simp
  have doc_keys: "json_keys doc = set journal_fields"
    using keys journal_fields_split by (auto simp: doc_def json_keys_def)
  have ms_keys: "json_keys ms = set journal_fields"
    using json_keys_canon [OF ms] doc_keys by simp
  have doc_at: "json_at doc k = json_at m k" if "k \<noteq> digest_field" for k
    using that json_at_filter [of k digest_field m] json_at_not_key [of k body]
    by (auto simp: doc_def json_at_snoc body_def)
  have doc_digest: "json_at doc digest_field = JStr (recovery_digest body)"
    using fresh by (simp add: doc_def json_at_snoc)
  have ms_at: "json_at ms k = json_at doc k" for k
  proof (cases "k \<in> json_keys doc")
    case True
    then show ?thesis
      using json_at_canon [OF ms _ True] doc_ok doc_at [of k] doc_digest canon [of k]
      by (cases "k = digest_field") auto
  next
    case False
    then show ?thesis
      using json_at_not_key [of k ms] json_at_not_key [of k doc] doc_keys ms_keys by simp
  qed
  have "json_without digest_field doc = body"
    by (simp add: doc_def body_def json_without_def)
  then have "json_canon (JObj body) = JObj (json_without digest_field ms)"
    using canon_without [OF ms, of digest_field] by simp
  then have digest: "recovery_digest (json_without digest_field ms) = recovery_digest body"
    unfolding recovery_digest_def by (metis dumps_canon)
  define m' where "m' = json_without digest_field ms @ [(digest_field, JStr (recovery_digest body))]"
  have same: "same_journal m m'"
    using ms_at doc_at json_at_filter [of _ digest_field ms] json_at_not_key [of _ "json_without digest_field ms"]
    by (simp add: same_journal_def m'_def json_at_snoc) metis
  have at_digest: "json_at m' digest_field = JStr (recovery_digest body)"
    by (simp add: m'_def json_at_snoc json_keys_without)
  have good: "good_journal chain m'"
  proof -
    have "json_ok (JObj ms)"
      using json_ok_canon [OF doc_ok] ms by simp
    then have "json_ok (JObj m')"
      by (auto simp: m'_def json_without_def list_all_iff distinct_map_filter)
    moreover have "json_without digest_field m' = json_without digest_field ms"
      by (simp add: m'_def json_without_def)
    then have "json_keys (json_without digest_field m') = set (butlast journal_fields)"
      using ms_keys journal_fields_split digest_field_last by (auto simp: json_keys_without)
    moreover have "json_canon (json_at m' k) = json_at m' k" for k
      using same canon [of k] at_digest by (cases "k = digest_field") (auto simp: same_journal_def)
    ultimately show ?thesis
      using assms same journal_values_same [OF same] by (simp add: good_journal_def same_journal_def)
  qed
  have "json_loads (json_dumps (JObj doc)) = Some (JObj ms)"
    using json_loads_dumps [OF doc_ok] ms by simp
  moreover have "all_ok (\<lambda>field. peer_hash (json_at m' field) (''journal '' @ field))
      [''parent_hash'', ''block_hash'', ''state_root'', digest_field] = Inr ()"
    using good at_digest by (auto simp: all_ok_Inr_iff good_journal_def peer_hash_def recovery_digest_def)
  ultimately have "read_journal chain (write_journal m) = Inr (Some m')"
    using good digest ms_at [of digest_field] doc_digest ms_keys
    by (simp add: read_journal_def write_journal_def body_def [symmetric] doc_def [symmetric] m'_def [symmetric] good_journal_def Let_def)
  then show thesis
    using good same by (rule that)
qed


lemma prepared_good:
  assumes "peer \<noteq> []" "length peer \<le> 128" "1 \<le> ep_height p" "is_hash32 (ep_parent_hash p)" "is_hash32 (ep_block_hash p)"
    "is_hash32 (state_root (ep_transition p))"
  shows "good_journal chain (prepared_record chain peer p)"
  using assms
  by (auto simp: good_journal_def prepared_record_def json_without_def json_keys_def journal_fields_def journal_values_ok_def
      unhashable_def)

text \<open>What a journal that was written for a proposal holds when it is read.\<close>

definition binds_proposal :: "(string \<times> json) list \<Rightarrow> executed_proposal \<Rightarrow> bool" where
  "binds_proposal m p \<longleftrightarrow> json_at m ''height'' = JInt (ep_height p) \<and> json_at m ''block_hash'' = JStr (ep_block_hash p) \<and>
     json_at m ''parent_hash'' = JStr (ep_parent_hash p)"

lemma begin_import_reads:
  assumes "begin_import chain file peer p = Inr file'" "1 \<le> ep_height p" "is_hash32 (ep_parent_hash p)"
    "is_hash32 (ep_block_hash p)" "is_hash32 (state_root (ep_transition p))"
  obtains m where "read_journal chain file' = Inr (Some m)" "good_journal chain m" "binds_proposal m p"
proof -
  have file': "file' = write_journal (prepared_record chain peer p)" and peer: "peer \<noteq> []" "length peer \<le> 128"
    using assms(1) by (auto simp: begin_import_def bindE_Inr_iff if_Inl_Inr_iff)
  obtain m where m: "read_journal chain file' = Inr (Some m)" "good_journal chain m"
      "same_journal (prepared_record chain peer p) m"
    unfolding file' using prepared_good [OF peer assms(2-5)] by (rule read_write_journal)
  moreover have "binds_proposal m p"
    using m(3) by (simp add: same_journal_def binds_proposal_def) (simp add: prepared_record_def)
  ultimately show thesis
    using that by blast
qed

lemma json_at_set: "json_at (dict_set k' v m) k = (if k = k' then v else json_at m k)"
  by (simp add: json_at_def del: map_of_eq_Some_iff)

lemma json_without_set: "k \<noteq> d \<Longrightarrow> json_without d (dict_set k v m) = dict_set k v (json_without d m)"
  by (induction m) (auto simp: json_without_def)

lemma json_keys_set: "json_keys (dict_set k v m) = insert k (json_keys m)"
  by (simp add: json_keys_def)

lemma mark_committed_good:
  assumes "good_journal chain m"
  shows "good_journal chain (dict_set ''status'' (JStr ''COMMITTED'') m)"
proof -
  have "dict_ok m"
    using assms by (simp add: good_journal_def)
  then have "json_ok (JObj (dict_set ''status'' (JStr ''COMMITTED'') m))"
    using assms by (auto simp: good_journal_def list_all_iff set_dict_set)
  moreover have "insert ''status'' (set (butlast journal_fields)) = set (butlast journal_fields)"
    by (simp add: journal_fields_def insert_commute)
  ultimately show ?thesis
    using assms by (auto simp: good_journal_def json_at_set json_without_set json_keys_set journal_values_ok_def unhashable_def
        split: if_splits)
qed

lemma begin_import_not_None: "begin_import chain file peer p = Inr file' \<Longrightarrow> file' \<noteq> None"
  by (auto simp: begin_import_def bindE_Inr_iff if_Inl_Inr_iff write_journal_def Let_def)

section \<open>Crashes of an import\<close>

lemma recover_committed:
  assumes "read_journal chain file = Inr (Some m)" "binds_proposal m p" "store_head db = Inr head"
    "sb_height head = ep_height p" "sb_block_hash head = ep_block_hash p"
  shows "recover chain file db = Inr (CommitConfirmed, None)"
  using assms by (simp add: recover_def binds_proposal_def)

lemma recover_prepared:
  assumes "read_journal chain file = Inr (Some m)" "binds_proposal m p" "store_head db = Inr head"
    "sb_height head + 1 = ep_height p" "sb_block_hash head = ep_parent_hash p"
  shows "recover chain file db = Inr (RetryRequired, file)"
  using assms by (simp add: recover_def binds_proposal_def)

lemma recover_stale:
  assumes "read_journal chain file = Inr (Some m)" "binds_proposal m p" "store_head db = Inr head"
    "sb_height head \<noteq> ep_height p \<or> sb_block_hash head \<noteq> ep_block_hash p"
    "sb_height head + 1 \<noteq> ep_height p \<or> sb_block_hash head \<noteq> ep_parent_hash p"
  shows "recover chain file db = Inl (PeerSyncError ''journal does not reconcile with finalized state'')"
  using assms by (auto simp: recover_def binds_proposal_def)

lemma mark_committed_reads:
  assumes "mark_committed chain file b = Inr file'" "read_journal chain file = Inr (Some m)" "good_journal chain m"
    "binds_proposal m p"
  obtains m' where "read_journal chain file' = Inr (Some m')" "good_journal chain m'" "binds_proposal m' p"
proof -
  let ?m = "dict_set ''status'' (JStr ''COMMITTED'') m"
  have "file' = write_journal ?m"
    using assms(1,2) by (auto simp: mark_committed_def if_Inl_Inr_iff)
  then obtain m' where m': "read_journal chain file' = Inr (Some m')" "good_journal chain m'" "same_journal ?m m'"
    using read_write_journal [OF mark_committed_good [OF assms(3)]] by blast
  moreover have "binds_proposal m' p"
    using m'(3) assms(4) by (simp add: same_journal_def binds_proposal_def json_at_set)
  ultimately show thesis
    using that by blast
qed

text \<open>Where an import can stop: before the journal is written, before the commit, or after it.\<close>

lemma import_begun:
  assumes "import_finalized s injector peer p c = (r, s')"
  shows "(\<exists>e. r = Inl e) \<and> im_pipeline s' = im_pipeline s \<and> im_file s' = im_file s \<and> im_journal_chain s' = im_journal_chain s \<or>
    (\<exists>prepared. begin_import (im_journal_chain s) (im_file s) peer p = Inr prepared \<and>
       import_prepared (s\<lparr>im_file := prepared\<rparr>) injector peer p c = (r, s'))"
  using assms unfolding import_finalized_def by (auto split: sum.splits if_splits prod.splits)

lemma import_prepared_outcome:
  assumes "import_prepared s injector peer p c = (r, s')"
  shows "im_journal_chain s' = im_journal_chain s \<and>
    ((\<exists>e. r = Inl e) \<and> im_pipeline s' = im_pipeline s \<and>
       (im_file s' = im_file s \<or> im_file s' = None \<and> (\<exists>head. store_head (np_store (im_pipeline s)) = Inr head \<and>
          sb_height head + 1 = ep_height p \<and> sb_block_hash head = ep_parent_hash p)) \<or>
     (\<exists>b n'. commit_finalized (im_pipeline s) (np_store (im_pipeline s)) p c = Inr (b, n') \<and> im_pipeline s' = n' \<and>
       (im_file s' = im_file s \<or> mark_committed (im_journal_chain s) (im_file s) b = Inr (im_file s') \<or> im_file s' = None) \<and>
       (\<forall>b'. r = Inr b' \<longrightarrow> b' = b \<and> im_file s' = None)))"
  using assms unfolding import_prepared_def Let_def
  by (auto split: sum.splits if_splits option.splits prod.splits) metis+

lemma import_situation [consumes 1, case_names refused prepared committed]:
  assumes "import_finalized s injector peer p c = (r, s')"
  obtains (refused) "\<exists>e. r = Inl e" "im_pipeline s' = im_pipeline s" "im_file s' = im_file s"
      "im_journal_chain s' = im_journal_chain s"
    | (prepared) jf where "begin_import (im_journal_chain s) (im_file s) peer p = Inr jf" "\<exists>e. r = Inl e"
        "im_pipeline s' = im_pipeline s" "im_file s' = jf \<or> im_file s' = None" "im_journal_chain s' = im_journal_chain s"
    | (committed) jf b n' where "begin_import (im_journal_chain s) (im_file s) peer p = Inr jf"
        "commit_finalized (im_pipeline s) (np_store (im_pipeline s)) p c = Inr (b, n')" "im_pipeline s' = n'"
        "im_file s' = jf \<or> mark_committed (im_journal_chain s) jf b = Inr (im_file s') \<or> im_file s' = None"
        "\<forall>b'. r = Inr b' \<longrightarrow> b' = b \<and> im_file s' = None" "im_journal_chain s' = im_journal_chain s"
  using import_begun [OF assms]
proof (elim disjE exE conjE)
  fix jf
  assume jf: "begin_import (im_journal_chain s) (im_file s) peer p = Inr jf"
    "import_prepared (s\<lparr>im_file := jf\<rparr>) injector peer p c = (r, s')"
  show thesis
    using import_prepared_outcome [OF jf(2)] jf(1) prepared committed by (elim conjE disjE exE) simp_all
qed (rule refused; simp)

text \<open>The outcomes of a recovery that leave the node in order.\<close>

definition recovers :: "int \<Rightarrow> journal_file \<Rightarrow> store_db \<Rightarrow> recovery_action set \<Rightarrow> bool" where
  "recovers chain file db actions \<longleftrightarrow> (\<exists>action \<in> actions. \<exists>file'. recover chain file db = Inr (action, file'))"

lemma recovers_none: "Clean \<in> actions \<Longrightarrow> recovers chain None db actions"
  by (auto simp: recovers_def recover_def read_journal_def)



text \<open>
  The import writes its journal before anything checks that the proposal extends the head. With a
  proposal that does not, the commit is refused and the journal stays: the recovery then rejects it, and
  every later import is refused because of it, whatever it brings.
\<close>

theorem stale_import_wedges:
  assumes "execute_candidate n v ts = Some (Inr p)" "store_ok (np_chain n) (np_store n)" "im_file s = None"
    and "select_source (im_registry s) (head_height (np_store (im_pipeline s))) = Inr source"
    and "pa_peer_id (pr_advertisement source) = peer" "peer \<noteq> []" "length peer \<le> 128"
    and "ep_height p < finalized_height (pr_advertisement source)"
    and "store_head (np_store (im_pipeline s)) = Inr head"
    and "sb_height head + 1 \<noteq> ep_height p \<or> sb_block_hash head \<noteq> ep_parent_hash p"
    and "sb_height head \<noteq> ep_height p \<or> sb_block_hash head \<noteq> ep_block_hash p"
  shows "\<exists>e s'. import_finalized s (\<lambda>_. None) peer p c = (Inl e, s') \<and> im_pipeline s' = im_pipeline s \<and> im_file s' \<noteq> None \<and>
    recover (im_journal_chain s') (im_file s') (np_store (im_pipeline s')) =
      Inl (PeerSyncError ''journal does not reconcile with finalized state'') \<and>
    (\<forall>injector peer' p' c'. \<exists>e' s''. import_finalized s' injector peer' p' c' = (Inl e', s'') \<and> im_file s'' = im_file s')"
proof -
  let ?chain = "im_journal_chain s" and ?db = "np_store (im_pipeline s)"
  note p = proposal_fields [OF assms(1,2)]
  obtain jf where jf: "begin_import ?chain (im_file s) peer p = Inr jf"
    using assms(3,6,7) by (simp add: begin_import_def read_journal_def)
  obtain m where m: "read_journal ?chain jf = Inr (Some m)" "good_journal ?chain m" "binds_proposal m p"
    using begin_import_reads [OF jf] p by (auto simp: lower_hash_def)
  have stays: "\<exists>e s''. import_finalized t injector peer' p' c' = (Inl e, s'') \<and> im_file s'' = im_file t"
    if t: "im_file t = jf" "im_journal_chain t = ?chain" for t injector peer' p' c'
  proof -
    have "begin_import (im_journal_chain t) (im_file t) peer' p' \<noteq> Inr prepared" for prepared
      using t m(1) by (simp add: begin_import_def)
    then show ?thesis
      using import_begun [of t injector peer' p' c'] by (cases "import_finalized t injector peer' p' c'") auto
  qed
  have "commit_finalized (im_pipeline s) ?db p c = Inl (NodePipelineError ''proposal no longer extends the current head'')"
    using assms(9,10) by (auto simp: commit_finalized_def)
  moreover have "\<not> (sb_height head + 1 = ep_height p \<and> sb_block_hash head = ep_parent_hash p)"
    using assms(10) by simp
  ultimately have "\<exists>e s'. import_finalized s (\<lambda>_. None) peer p c = (Inl e, s') \<and> im_pipeline s' = im_pipeline s \<and>
      im_file s' = jf \<and> im_journal_chain s' = ?chain"
    using assms(4,5,8,9) jf
    by (cases "registry_record_fault (im_registry s) peer")
      (auto simp: import_finalized_def import_prepared_def is_value_error_def Let_def split: prod.splits)
  then obtain e s' where s': "import_finalized s (\<lambda>_. None) peer p c = (Inl e, s')" "im_pipeline s' = im_pipeline s"
      "im_file s' = jf" "im_journal_chain s' = ?chain"
    by blast
  have "jf \<noteq> None"
    using begin_import_not_None [OF jf] .
  moreover have "recover ?chain jf ?db = Inl (PeerSyncError ''journal does not reconcile with finalized state'')"
    using recover_stale [OF m(1,3) assms(9,11,10)] .
  ultimately show ?thesis
    using s' stays [OF s'(3,4)] by auto
qed

section \<open>The choice of a source\<close>

inductive registry_step :: "peer_registry \<Rightarrow> peer_registry \<Rightarrow> bool" where
  observed: "registry_observe g a = Inr (r, g') \<Longrightarrow> registry_step g g'"
| faulted: "registry_record_fault g peer = Inr (r, g') \<Longrightarrow> registry_step g g'"

definition registry_ok :: "peer_registry \<Rightarrow> bool" where
  "registry_ok g \<longleftrightarrow> dict_ok (reg_peers g) \<and>
     (\<forall>(k, r) \<in> set (reg_peers g). pa_peer_id (pr_advertisement r) = k \<and> pa_chain_id (pr_advertisement r) = reg_chain_id g \<and>
        lower (pa_genesis_hash (pr_advertisement r)) = reg_genesis_hash g)"

definition record_grows :: "peer_record \<Rightarrow> peer_record \<Rightarrow> bool" where
  "record_grows r r' \<longleftrightarrow> finalized_height (pr_advertisement r) \<le> finalized_height (pr_advertisement r') \<and>
     (finalized_height (pr_advertisement r) = finalized_height (pr_advertisement r') \<longrightarrow>
        lower (finalized_hash (pr_advertisement r)) = lower (finalized_hash (pr_advertisement r'))) \<and>
     fault_score r \<le> fault_score r'"

lemma registry_observe_Inr:
  assumes "registry_observe g a = Inr (r, g')"
  shows "pa_chain_id a = reg_chain_id g" "lower (pa_genesis_hash a) = reg_genesis_hash g" "pr_advertisement r = a"
    "g' = g\<lparr>reg_peers := dict_set (pa_peer_id a) r (reg_peers g)\<rparr>"
    "\<And>old. dict_get (reg_peers g) (pa_peer_id a) = Some old \<Longrightarrow> record_grows old r"
  using assms unfolding registry_observe_def Let_def record_grows_def
  by (simp_all add: if_Inl_Inr_iff del: map_of_eq_Some_iff split: option.splits) force+

lemma registry_fault_Inr:
  assumes "registry_record_fault g peer = Inr (r, g')"
  obtains old where "dict_get (reg_peers g) peer = Some old" "r = old\<lparr>fault_score := fault_score old + 1\<rparr>"
    "g' = g\<lparr>reg_peers := dict_set peer r (reg_peers g)\<rparr>"
  using assms by (auto simp: registry_record_fault_def Let_def simp del: map_of_eq_Some_iff split: option.splits)

lemma record_grows_refl [simp]: "record_grows r r"
  by (simp add: record_grows_def)

lemma registry_set_grows:
  assumes "registry_ok g" "pa_peer_id (pr_advertisement r) = peer" "pa_chain_id (pr_advertisement r) = reg_chain_id g"
    "lower (pa_genesis_hash (pr_advertisement r)) = reg_genesis_hash g"
    "\<And>old. dict_get (reg_peers g) peer = Some old \<Longrightarrow> record_grows old r"
  defines "g' \<equiv> g\<lparr>reg_peers := dict_set peer r (reg_peers g)\<rparr>"
  shows "registry_ok g' \<and> (\<forall>k r. dict_get (reg_peers g) k = Some r \<longrightarrow>
    (\<exists>r'. dict_get (reg_peers g') k = Some r' \<and> record_grows r r'))"
proof
  show "registry_ok g'"
    using assms(1-4) by (auto simp: registry_ok_def set_dict_set g'_def)
  show "\<forall>k r. dict_get (reg_peers g) k = Some r \<longrightarrow> (\<exists>r'. dict_get (reg_peers g') k = Some r' \<and> record_grows r r')"
    using assms(5) by (simp add: g'_def del: map_of_eq_Some_iff)
qed

lemma registry_step_grows:
  assumes "registry_step g g'" "registry_ok g"
  shows "registry_ok g' \<and> (\<forall>k r. dict_get (reg_peers g) k = Some r \<longrightarrow>
    (\<exists>r'. dict_get (reg_peers g') k = Some r' \<and> record_grows r r'))"
  using assms(1)
proof cases
  case (observed a r)
  note o = registry_observe_Inr [OF observed]
  show ?thesis
    unfolding o(4) using assms(2) o by (intro registry_set_grows) auto
next
  case (faulted peer r)
  then obtain old where old: "dict_get (reg_peers g) peer = Some old" "r = old\<lparr>fault_score := fault_score old + 1\<rparr>"
      "g' = g\<lparr>reg_peers := dict_set peer r (reg_peers g)\<rparr>"
    by (rule registry_fault_Inr)
  have "(peer, old) \<in> set (reg_peers g)"
    using old(1) by (rule map_of_SomeD)
  then show ?thesis
    unfolding old(3) using assms(2) old(1,2)
    by (intro registry_set_grows) (auto simp: registry_ok_def record_grows_def simp del: map_of_eq_Some_iff)
qed

lemma registry_steps_grow:
  assumes "registry_step\<^sup>*\<^sup>* g g'" "registry_ok g"
  shows "registry_ok g'" "dict_get (reg_peers g) k = Some r \<Longrightarrow> \<exists>r'. dict_get (reg_peers g') k = Some r' \<and> record_grows r r'"
proof -
  have "registry_ok g' \<and> (\<forall>k r. dict_get (reg_peers g) k = Some r \<longrightarrow>
    (\<exists>r'. dict_get (reg_peers g') k = Some r' \<and> record_grows r r'))"
    using assms
  proof induction
    case base
    then show ?case by (auto simp: record_grows_def)
  next
    case (step g1 g2)
    have "record_grows r r1 \<Longrightarrow> record_grows r1 r2 \<Longrightarrow> record_grows r r2" for r r1 r2
      by (auto simp: record_grows_def)
    then show ?case
      using step registry_step_grows [OF step.hyps(2)] by meson
  qed
  then show "registry_ok g'" "dict_get (reg_peers g) k = Some r \<Longrightarrow> \<exists>r'. dict_get (reg_peers g') k = Some r' \<and> record_grows r r'"
    by blast+
qed

text \<open>
  The sync source is the best peer of the registry, and nothing a peer does later undoes its
  record: the source is bound to the chain and the genesis, is ahead, was not excluded at any earlier
  moment, never advertised a lower height or another hash at the same one, and no eligible peer that is
  ahead has a smaller key (highest head first, then fewest faults, then the name).
\<close>

theorem sync_source_sound:
  assumes "registry_init chain genesis = Inr g0" "registry_step\<^sup>*\<^sup>* g0 g" "registry_step\<^sup>*\<^sup>* g g'"
    and "select_source g' local_height = Inr s"
  defines "peer \<equiv> pa_peer_id (pr_advertisement s)"
  shows "pa_chain_id (pr_advertisement s) = chain \<and> lower (pa_genesis_hash (pr_advertisement s)) = lower genesis \<and>
    local_height < finalized_height (pr_advertisement s) \<and>
    (\<forall>old. dict_get (reg_peers g) peer = Some old \<longrightarrow> peer_eligible old \<and> record_grows old s) \<and>
    (\<forall>other \<in> set (map snd (reg_peers g')). peer_eligible other \<and> local_height < finalized_height (pr_advertisement other) \<longrightarrow>
       source_key s \<le> source_key other)"
proof -
  have "registry_ok g0" and g0: "reg_chain_id g0 = chain" "reg_genesis_hash g0 = lower genesis"
    using assms(1) by (auto simp: registry_init_def registry_ok_def if_Inl_Inr_iff bindE_Inr_iff)
  then have ok: "registry_ok g" "registry_ok g'"
    using registry_steps_grow(1) assms(2,3) by blast+
  have same_binding: "reg_chain_id h' = reg_chain_id h \<and> reg_genesis_hash h' = reg_genesis_hash h" if "registry_step\<^sup>*\<^sup>* h h'" for h h'
    using that
    by induction (auto elim!: registry_step.cases simp: registry_observe_def registry_record_fault_def if_Inl_Inr_iff Let_def split: option.splits)
  obtain r rs where cands: "filter (\<lambda>r. peer_eligible r \<and> local_height < finalized_height (pr_advertisement r)) (map snd (reg_peers g')) = r # rs"
      "s = min_by source_key r rs"
    using assms(4) by (auto simp: select_source_def split: list.splits)
  have in_cands: "x \<in> set (r # rs) \<longleftrightarrow> x \<in> set (map snd (reg_peers g')) \<and> peer_eligible x \<and> local_height < finalized_height (pr_advertisement x)" for x
    unfolding cands(1) [symmetric] by auto
  have s: "s \<in> set (r # rs)"
    using min_by_in cands(2) by metis
  then obtain k where k: "(k, s) \<in> set (reg_peers g')"
    using in_cands by auto
  then have bound: "k = peer" "pa_chain_id (pr_advertisement s) = reg_chain_id g'"
      "lower (pa_genesis_hash (pr_advertisement s)) = reg_genesis_hash g'" "dict_get (reg_peers g') peer = Some s"
    using ok(2) by (auto simp: registry_ok_def peer_def)
  have "peer_eligible old \<and> record_grows old s" if old: "dict_get (reg_peers g) peer = Some old" for old
  proof -
    have "record_grows old s"
      using registry_steps_grow(2) [OF assms(3) ok(1) old] bound(4) by simp
    then show ?thesis
      using s in_cands by (auto simp: record_grows_def peer_eligible_def)
  qed
  moreover have "source_key s \<le> source_key x" if "x \<in> set (r # rs)" for x
    using min_by_least [OF that] cands(2) by simp
  ultimately show ?thesis
    using bound s in_cands same_binding [OF assms(2)] same_binding [OF assms(3)] g0 by auto
qed

section \<open>A sample import\<close>

definition sample_peer :: peer_advertisement where
  "sample_peer = \<lparr>pa_peer_id = ''p'', pa_chain_id = 7, pa_genesis_hash = zero_hash32, finalized_height = 5,
     finalized_hash = zero_hash32, protocol_version = 1\<rparr>"

definition sample_registry :: peer_registry where
  "sample_registry = \<lparr>reg_chain_id = 7, reg_genesis_hash = zero_hash32,
     reg_peers = [(''p'', \<lparr>pr_advertisement = sample_peer, fault_score = 0\<rparr>)]\<rparr>"

definition sample_importer :: "node_pipeline \<Rightarrow> importer" where
  "sample_importer n = \<lparr>im_registry = sample_registry, im_pipeline = n, im_journal_chain = 7, im_file = None\<rparr>"

lemma sample_source: "h < 5 \<Longrightarrow> select_source sample_registry h = Inr \<lparr>pr_advertisement = sample_peer, fault_score = 0\<rparr>"
  by (simp add: select_source_def sample_registry_def sample_peer_def peer_eligible_def)

lemma sample_proposal_commits:
  obtains p c b n' where "execute_candidate (sample_node 2 0) (\<lambda>_. True) (Some 99) = Some (Inr p)" "ep_height p = 1"
    "commit_finalized (sample_node 2 0) (np_store (sample_node 2 0)) p c = Inr (b, n')"
proof -
  obtain p where p: "execute_candidate (sample_node 2 0) (\<lambda>_. True) (Some 99) = Some (Inr p)"
      "ep_height p = 1" "base_fee_per_gas (ep_transition p) = 2" "gas_used (ep_transition p) = 5" "\<exists>m. ep_block_hash p = digest0x m"
    by (rule sample_proposal) blast
  have hash: "is_hash32 (ep_block_hash p)" "lower (ep_block_hash p) = ep_block_hash p"
    using p(5) by auto
  obtain c where c: "get_certificate (receive (\<lambda>_. Some True) next_fsm (next_votes (ep_block_hash p))) 1 = Inr c"
      "fc_block_hash c = ep_block_hash p"
    using hash by (rule next_decided)
  have "quorum_certificate 7 1 (ep_block_hash p) c"
    using machine_certificate [OF receive_reachable [OF next_fsm_reachable] c(1)] c(2) next_chain by simp
  moreover have "\<forall>item \<in> set (blocks (np_store (sample_node 2 0))). br_block_hash (snd item) \<noteq> ep_block_hash p"
    using p(5) underscore_hash_ok(3) by (auto simp: sample_node_def funded_store_def funded_row_def)
  moreover have "store_ok 7 (np_store (sample_node 2 0))"
    using store_reachable_ok [OF funded_store_reachable] by (simp add: sample_node_def)
  ultimately have "\<exists>b n'. commit_finalized (sample_node 2 0) (np_store (sample_node 2 0)) p c = Inr (b, n')"
    using proposal_commits [OF p(1)] p sample_config_ok sample_chain by (auto simp: sqlite_int_def)
  then show thesis
    using that p(1,2) by blast
qed

lemma sample_begins:
  assumes "ep_height p = 1" "begin_import 7 None ''p'' p = Inr jf" "sb_height head < 5" "store_head (np_store n) = Inr head"
    "head_height (np_store n) < 5"
  shows "import_finalized (sample_importer n) injector ''p'' p c = import_prepared ((sample_importer n)\<lparr>im_file := jf\<rparr>) injector ''p'' p c"
  using assms sample_source [of "head_height (np_store n)"]
  by (simp add: import_finalized_def sample_importer_def) (simp add: sample_peer_def)


definition advanced_node :: node_pipeline where
  "advanced_node = (sample_node 2 0)\<lparr>np_store := (funded_store 2 0)\<lparr>blocks := [(3, funded_row 2 0)]\<rparr>\<rparr>"

lemma stale_import_wedges_witness:
  "\<exists>p c e s'. import_finalized (sample_importer advanced_node) (\<lambda>_. None) ''p'' p c = (Inl e, s') \<and>
     (\<exists>e. recover (im_journal_chain s') (im_file s') (np_store (im_pipeline s')) = Inl e) \<and> im_file s' \<noteq> None"
proof -
  obtain p where p: "execute_candidate (sample_node 2 0) (\<lambda>_. True) (Some 99) = Some (Inr p)" "ep_height p = 1"
    by (rule sample_proposal) blast
  have head: "store_head (np_store advanced_node) = Inr (mk_stored_block (3, funded_row 2 0))" "head_height (np_store advanced_node) = 3"
    by (simp_all add: advanced_node_def store_head_def top_row_def rows_by_height_def head_height_def)
  have s: "im_file (sample_importer advanced_node) = None" "im_pipeline (sample_importer advanced_node) = advanced_node"
      "im_registry (sample_importer advanced_node) = sample_registry" "im_journal_chain (sample_importer advanced_node) = 7"
    by (simp_all add: sample_importer_def)
  have store: "store_ok (np_chain (sample_node 2 0)) (np_store (sample_node 2 0))"
    using store_reachable_ok [OF funded_store_reachable] by (simp add: sample_node_def)
  have height: "sb_height (mk_stored_block (3, funded_row 2 0)) = 3"
    by (simp add: mk_stored_block_def Let_def)
  show ?thesis
    using stale_import_wedges [OF p(1) store s(1), of "\<lparr>pr_advertisement = sample_peer, fault_score = 0\<rparr>" "''p''"
        "mk_stored_block (3, funded_row 2 0)", unfolded s head height p(2)] sample_source [of 3]
    by (simp add: sample_peer_def) blast
qed

lemma sync_source_sound_witness:
  "\<exists>g s. registry_init 7 zero_hash32 = Inr g \<and> select_source sample_registry 3 = Inr s \<and> 3 < finalized_height (pr_advertisement s) \<and>
     lower (pa_genesis_hash (pr_advertisement s)) = zero_hash32"
proof -
  let ?g = "\<lparr>reg_chain_id = 7, reg_genesis_hash = zero_hash32, reg_peers = []\<rparr>"
  have zero: "is_hash32 zero_hash32" "lower zero_hash32 = zero_hash32"
    by code_simp+
  have init: "registry_init 7 zero_hash32 = Inr ?g"
    using zero by (simp add: registry_init_def peer_hash_def)
  have "registry_observe ?g sample_peer = Inr (\<lparr>pr_advertisement = sample_peer, fault_score = 0\<rparr>, sample_registry)"
    using zero by (simp add: registry_observe_def sample_peer_def sample_registry_def Let_def)
  then have step: "registry_step\<^sup>*\<^sup>* ?g sample_registry"
    by (intro r_into_rtranclp [of registry_step] registry_step.observed)
  show ?thesis
    using sync_source_sound [OF init step rtranclp.rtrancl_refl sample_source [of 3]] init sample_source [of 3] zero by simp
qed

end
