(* ===== verification/SyncRuntime.thy ===== *)
theory SyncRuntime
  imports WireProtocol ConsensusSync SyncFinality
begin

text \<open>
  \<open>sync_runtime.py\<close>: the synchronization of a validator, where the authenticated sessions of
  \<open>WireProtocol\<close> feed the fork choice of \<open>ConsensusSync\<close> and the proof verifier of \<open>SyncFinality\<close>. A call
  can change the state and raise, so the operations give a result and the state after it. A session
  belongs to the runtime once it is registered. The runtime shares the schedule of its verifier: its
  sets are the ones registered before the runtime is made. The signature verifiers and the signer are
  parameters.
\<close>

section \<open>State\<close>

record sync_plan =
  sp_peer_id :: string
  sp_mode :: string
  sp_local_height :: int
  sp_target_height :: int
  request_frame :: bytes

text \<open>The heights are the values of the document, where \<open>true\<close> passes for 1.\<close>

record range_acceptance =
  ra_peer_id :: string
  ra_start_height :: json
  ra_end_height :: json
  ra_block_count :: int
  terminal_hash :: string
  terminal_state_root :: string
  ra_status :: string

record sync_runtime =
  rt_chain :: int
  rt_schedule :: schedule
  rt_vote_verifier :: vote_verifier
  rt_fork :: fork_choice
  rt_snapshot :: snapshot_catchup
  rt_sessions :: "(string, session) dict"
  status_sequences :: "(string, int) dict"
  rt_plans :: "(string, sync_plan) dict"

text \<open>The resolver is asked for heights of claims only, which are not negative.\<close>

definition schedule_resolver :: "schedule \<Rightarrow> int \<Rightarrow> int option" where
  "schedule_resolver sets h = (case at_height sets h of Inr s \<Rightarrow> Some (vs_total_power s) | Inl _ \<Rightarrow> None)"

definition sync_runtime_init ::
  "int \<Rightarrow> string \<Rightarrow> int \<Rightarrow> int \<Rightarrow> schedule \<Rightarrow> vote_verifier \<Rightarrow> int \<Rightarrow> int \<Rightarrow> sync_runtime result" where
  "sync_runtime_init chain genesis expected_power verifier_chain sets verifier threshold quarantine =
     (if verifier_chain \<noteq> chain then Inl (SyncRuntimeError ''finality verifier chain_id mismatch'')
      else
        bindE (at_height sets 0) (\<lambda>s.
        if vs_total_power s \<noteq> expected_power then Inl (SyncRuntimeError ''initial validator power mismatch'')
        else
          bindE (fork_choice_init chain genesis expected_power quarantine (Some (schedule_resolver sets))) (\<lambda>f.
          bindE (snapshot_catchup_init chain threshold) (\<lambda>c.
          Inr \<lparr>rt_chain = chain, rt_schedule = sets, rt_vote_verifier = verifier, rt_fork = f, rt_snapshot = c,
               rt_sessions = [], status_sequences = [], rt_plans = []\<rparr>))))"

definition runtime_register :: "sync_runtime \<Rightarrow> session \<Rightarrow> (string \<times> sync_runtime) result" where
  "runtime_register rt s =
     (let peer = node_id (remote_peer s) in
      if dict_get (rt_sessions rt) peer \<noteq> None then Inl (SyncRuntimeError ''peer session is already registered'')
      else if hs_chain_id (local_peer s) \<noteq> fk_chain_id (rt_fork rt)
      then Inl (SyncRuntimeError ''peer session chain_id mismatch'')
      else if lower (genesis_hash (local_peer s)) \<noteq> fk_genesis_hash (rt_fork rt)
      then Inl (SyncRuntimeError ''peer session genesis mismatch'')
      else Inr (peer, rt\<lparr>rt_sessions := dict_set peer s (rt_sessions rt)\<rparr>))"

definition runtime_session :: "sync_runtime \<Rightarrow> string \<Rightarrow> session result" where
  "runtime_session rt peer =
     (if quarantined (discipline (rt_fork rt) peer) then Inl (SyncRuntimeError ''peer is quarantined'')
      else
        (case dict_get (rt_sessions rt) peer of
           None \<Rightarrow> Inl (SyncRuntimeError ''peer session is not registered'')
         | Some s \<Rightarrow> Inr s))"

definition runtime_plan_of :: "sync_runtime \<Rightarrow> string \<Rightarrow> string \<Rightarrow> sync_plan result" where
  "runtime_plan_of rt peer mode =
     (case dict_get (rt_plans rt) peer of
        None \<Rightarrow> Inl (SyncRuntimeError ''peer has no active catch-up plan'')
      | Some plan \<Rightarrow>
          if sp_mode plan \<noteq> mode then Inl (SyncRuntimeError ''catch-up response mode mismatch'') else Inr plan)"

text \<open>A session object after one of its operations.\<close>

definition put_session :: "sync_runtime \<Rightarrow> string \<Rightarrow> session \<Rightarrow> sync_runtime" where
  "put_session rt peer s = rt\<lparr>rt_sessions := dict_set peer s (rt_sessions rt)\<rparr>"

definition fault_peer :: "sync_runtime \<Rightarrow> string \<Rightarrow> sync_runtime" where
  "fault_peer rt peer = rt\<lparr>rt_fork := snd (record_protocol_fault (rt_fork rt) peer)\<rparr>"

text \<open>\<open>str(exc)\<close> of the errors that are caught.\<close>

definition error_message :: "exn \<Rightarrow> string" where
  "error_message e =
     (case e of
        WireProtocolError m \<Rightarrow> m
      | ConsensusSyncError m \<Rightarrow> m
      | SyncFinalityError m \<Rightarrow> m
      | SyncRuntimeError m \<Rightarrow> m
      | _ \<Rightarrow> [])"

section \<open>Status\<close>

definition claim_of_status :: "string \<Rightarrow> (string \<times> json) list \<Rightarrow> finalized_claim result" where
  "claim_of_status peer p =
     bindE (int_field (json_at p ''chain_id'')) (\<lambda>chain.
     bindE (str_field (json_at p ''genesis_hash'')) (\<lambda>genesis.
     bindE (int_field (json_at p ''height'')) (\<lambda>h.
     bindE (str_field (json_at p ''block_hash'')) (\<lambda>block.
     bindE (str_field (json_at p ''parent_hash'')) (\<lambda>parent.
     bindE (str_field (json_at p ''state_root'')) (\<lambda>root.
     bindE (int_field (json_at p ''signed_power'')) (\<lambda>signed_power.
     bindE (int_field (json_at p ''total_power'')) (\<lambda>total_power.
     let c = \<lparr>peer_id = peer, cl_chain_id = chain, cl_genesis_hash = genesis, cl_height = h, cl_block_hash = block,
              cl_parent_hash = parent, cl_state_root = root, cl_signed_power = signed_power,
              cl_total_power = total_power\<rparr> in
     bindE (claim_post_init c) (\<lambda>_. Inr c)))))))))"

text \<open>The body of the \<open>try\<close> of \<open>receive_status\<close>, and the whole.\<close>

definition status_body ::
  "sync_runtime \<Rightarrow> (string \<Rightarrow> bytes \<Rightarrow> bytes \<Rightarrow> bool result) \<Rightarrow> session \<Rightarrow> string \<Rightarrow> bytes
     \<Rightarrow> finalized_claim result \<times> sync_runtime" where
  "status_body rt verifier s peer frame =
     (case receive_frame s verifier frame of
        Inl e \<Rightarrow> (Inl e, rt)
      | Inr (envelope, s') \<Rightarrow>
          let rt1 = put_session rt peer s' in
          if we_type envelope \<noteq> STATUS
          then (Inl (SyncRuntimeError ''expected authenticated STATUS frame''), rt1)
          else if json_keys (we_payload envelope) \<noteq> set status_fields
          then (Inl (SyncRuntimeError ''STATUS fields are invalid''), rt1)
          else if we_sequence envelope \<le> dict_get_default (status_sequences rt1) peer (-1)
          then (Inl (SyncRuntimeError ''STATUS sequence did not advance''), rt1)
          else
            (case claim_of_status peer (we_payload envelope) of
               Inl e \<Rightarrow> (Inl e, rt1)
             | Inr c \<Rightarrow>
                 (case observe (rt_fork rt1) c of
                    (Inl e, f) \<Rightarrow> (Inl e, rt1\<lparr>rt_fork := f\<rparr>)
                  | (Inr _, f) \<Rightarrow>
                      (Inr c, rt1\<lparr>rt_fork := f,
                         status_sequences := dict_set peer (we_sequence envelope) (status_sequences rt1)\<rparr>))))"

definition status_caught :: "exn \<Rightarrow> bool" where
  "status_caught e =
     (case e of WireProtocolError _ \<Rightarrow> True | ConsensusSyncError _ \<Rightarrow> True | SyncRuntimeError _ \<Rightarrow> True | _ \<Rightarrow> False)"

definition receive_status ::
  "sync_runtime \<Rightarrow> (string \<Rightarrow> bytes \<Rightarrow> bytes \<Rightarrow> bool result) \<Rightarrow> string \<Rightarrow> bytes \<Rightarrow> finalized_claim result \<times> sync_runtime" where
  "receive_status rt verifier peer frame =
     (case runtime_session rt peer of
        Inl e \<Rightarrow> (Inl e, rt)
      | Inr s \<Rightarrow>
          let faults_before = faults (discipline (rt_fork rt) peer) in
          (case status_body rt verifier s peer frame of
             (Inr c, rt') \<Rightarrow> (Inr c, rt')
           | (Inl e, rt') \<Rightarrow>
               if \<not> status_caught e then (Inl e, rt')
               else
                 (Inl (SyncRuntimeError (error_message e)),
                  if faults (discipline (rt_fork rt') peer) = faults_before then fault_peer rt' peer else rt')))"

section \<open>Catch-up\<close>

definition runtime_plan ::
  "sync_runtime \<Rightarrow> (bytes \<Rightarrow> bytes result) \<Rightarrow> string \<Rightarrow> int \<Rightarrow> int \<Rightarrow> (sync_plan \<times> sync_runtime) result" where
  "runtime_plan rt signer peer local_height target =
     bindE (runtime_session rt peer) (\<lambda>s.
     if (case fork_head (rt_fork rt) of None \<Rightarrow> True | Some c \<Rightarrow> cl_height c \<noteq> target)
     then Inl (SyncRuntimeError ''target is not the canonical finalized head'')
     else if local_height \<ge> target
     then Inl (SyncRuntimeError ''catch-up target must advance local height'')
     else
       bindE (choose_mode (rt_snapshot rt) local_height target) (\<lambda>mode.
       let (t, payload) =
         (if mode = ''SNAPSHOT'' then (GET_SNAPSHOT, [(''height'', JInt target)])
          else (GET_BLOCK_RANGE, [(''start_height'', JInt (local_height + 1)), (''limit'', JInt (min 512 (target - local_height)))])) in
       bindE (send s signer t payload) (\<lambda>(frame, s').
       let plan = \<lparr>sp_peer_id = peer, sp_mode = mode, sp_local_height = local_height, sp_target_height = target,
                   request_frame = frame\<rparr> in
       Inr (plan, (put_session rt peer s')\<lparr>rt_plans := dict_set peer plan (rt_plans rt)\<rparr>))))"

definition members_of :: "json \<Rightarrow> (string \<times> json) list" where
  "members_of v = (case v of JObj ms \<Rightarrow> ms | _ \<Rightarrow> [])"

definition block_text :: "json \<Rightarrow> string \<Rightarrow> string" where
  "block_text block field = lower (text_of (json_at (members_of block) field))"

definition block_height :: "json \<Rightarrow> int" where
  "block_height block =
     (case json_at (members_of block) ''height'' of JInt i \<Rightarrow> i | JBool b \<Rightarrow> (if b then 1 else 0) | _ \<Rightarrow> 0)"

definition check_binding :: "json \<times> finality_certificate \<Rightarrow> unit result" where
  "check_binding item =
     (let (block, c) = item in
      if fc_height c \<noteq> block_height block \<or> fc_block_hash c \<noteq> block_text block ''block_hash'' \<or>
         certificate_hash c \<noteq> block_text block ''certificate_hash''
      then Inl (SyncRuntimeError ''BLOCK_RANGE certificate does not bind the block'') else Inr ())"

text \<open>The checks of a received range; the certificates are those of its proofs.\<close>

definition check_range ::
  "string \<Rightarrow> sync_runtime \<Rightarrow> sync_plan \<Rightarrow> wire_envelope \<Rightarrow> string \<Rightarrow> range_acceptance result" where
  "check_range peer rt plan envelope local_hash =
     (let payload = we_payload envelope in
      if we_type envelope \<noteq> BLOCK_RANGE then Inl (SyncRuntimeError ''expected authenticated BLOCK_RANGE frame'')
      else if json_keys payload \<noteq> {''blocks'', ''finality_proofs''}
      then Inl (SyncRuntimeError ''BLOCK_RANGE fields are invalid'')
      else
        (case (json_at payload ''blocks'', json_at payload ''finality_proofs'') of
           (JArr bs, JArr proofs) \<Rightarrow>
             if length bs \<noteq> length proofs then Inl (SyncRuntimeError ''BLOCK_RANGE proof count is invalid'')
             else
               bindE (validate_block_range bs (JInt (sp_local_height plan + 1))) (\<lambda>_.
               bindE (mapE (\<lambda>item. bindE (proof_from_payload item)
                         (verify_proof (rt_chain rt) (rt_schedule rt) (rt_vote_verifier rt))) proofs) (\<lambda>certificates.
               bindE (all_ok check_binding (zip bs certificates)) (\<lambda>_.
               let first = hd bs; terminal = last bs in
               if block_text first ''parent_hash'' \<noteq> lower local_hash
               then Inl (SyncRuntimeError ''BLOCK_RANGE is not anchored to local head'')
               else if block_height terminal > sp_target_height plan
               then Inl (SyncRuntimeError ''BLOCK_RANGE exceeds finalized target'')
               else if block_height terminal = sp_target_height plan \<and>
                 (case fork_head (rt_fork rt) of
                    None \<Rightarrow> False
                  | Some c \<Rightarrow> block_text terminal ''block_hash'' \<noteq> lower (cl_block_hash c) \<or>
                              block_text terminal ''state_root'' \<noteq> lower (cl_state_root c))
               then Inl (SyncRuntimeError ''BLOCK_RANGE terminal finality mismatch'')
               else Inr \<lparr>ra_peer_id = peer,
                         ra_start_height = json_at (members_of first) ''height'',
                         ra_end_height = json_at (members_of terminal) ''height'',
                         ra_block_count = int (length bs),
                         terminal_hash = block_text terminal ''block_hash'',
                         terminal_state_root = block_text terminal ''state_root'',
                         ra_status = ''VERIFIED''\<rparr>)))
         | _ \<Rightarrow> Inl (SyncRuntimeError ''BLOCK_RANGE proof count is invalid'')))"

definition range_caught :: "exn \<Rightarrow> bool" where
  "range_caught e =
     (case e of WireProtocolError _ \<Rightarrow> True | SyncFinalityError _ \<Rightarrow> True | SyncRuntimeError _ \<Rightarrow> True | _ \<Rightarrow> False)"

definition check_manifest :: "sync_runtime \<Rightarrow> sync_plan \<Rightarrow> wire_envelope \<Rightarrow> bytes list \<Rightarrow> catchup_result result" where
  "check_manifest rt plan envelope chunks =
     (let payload = we_payload envelope in
      if we_type envelope \<noteq> SNAPSHOT_MANIFEST
      then Inl (SyncRuntimeError ''expected authenticated SNAPSHOT_MANIFEST frame'')
      else if json_keys payload \<noteq> set manifest_fields
      then Inl (SyncRuntimeError ''SNAPSHOT_MANIFEST fields are invalid'')
      else
        (case json_at payload ''chunk_hashes'' of
           JArr hashes \<Rightarrow>
             bindE (mk_manifest (json_at payload ''chain_id'') (json_at payload ''height'') (json_at payload ''block_hash'')
                      (json_at payload ''state_root'') (json_at payload ''checkpoint_digest'') hashes) (\<lambda>m.
             bindE (verify_chunks m chunks) (\<lambda>_.
             let d = \<lparr>sd_chain_id = sm_chain_id m, sd_height = sm_height m, sd_block_hash = sm_block_hash m,
                      sd_state_root = sm_state_root m, sd_checkpoint_digest = sm_checkpoint_digest m,
                      chunk_hashes = snapshot_manifest.chunk_hashes m\<rparr> in
             bindE (descriptor_post_init d) (\<lambda>_.
             case fork_head (rt_fork rt) of
               None \<Rightarrow> Inl (SyncRuntimeError ''snapshot target is no longer canonical'')
             | Some c \<Rightarrow>
                 if sd_height d \<noteq> sp_target_height plan
                 then Inl (SyncRuntimeError ''snapshot target is no longer canonical'')
                 else verify_snapshot (rt_snapshot rt) d chunks c)))
         | _ \<Rightarrow> Inl TypeError))"

text \<open>What both catch-up operations do: receive, check, drop the plan or fault the peer.\<close>

definition receive_catchup ::
  "string \<Rightarrow> (exn \<Rightarrow> bool) \<Rightarrow> (sync_runtime \<Rightarrow> sync_plan \<Rightarrow> wire_envelope \<Rightarrow> 'a result) \<Rightarrow> sync_runtime
     \<Rightarrow> (string \<Rightarrow> bytes \<Rightarrow> bytes \<Rightarrow> bool result) \<Rightarrow> string \<Rightarrow> bytes \<Rightarrow> 'a result \<times> sync_runtime" where
  "receive_catchup mode caught check rt verifier peer frame =
     (case bindE (runtime_plan_of rt peer mode) (\<lambda>plan. bindE (runtime_session rt peer) (\<lambda>s. Inr (plan, s))) of
        Inl e \<Rightarrow> (Inl e, rt)
      | Inr (plan, s) \<Rightarrow>
          let failed = (\<lambda>e rt'.
            if caught e then (Inl (SyncRuntimeError (error_message e)), fault_peer rt' peer) else (Inl e, rt')) in
          (case receive_frame s verifier frame of
             Inl e \<Rightarrow> failed e rt
           | Inr (envelope, s') \<Rightarrow>
               let rt1 = put_session rt peer s' in
               (case check rt1 plan envelope of
                  Inl e \<Rightarrow> failed e rt1
                | Inr r \<Rightarrow> (Inr r, rt1\<lparr>rt_plans := dict_del peer (rt_plans rt1)\<rparr>))))"

definition receive_block_range ::
  "sync_runtime \<Rightarrow> (string \<Rightarrow> bytes \<Rightarrow> bytes \<Rightarrow> bool result) \<Rightarrow> string \<Rightarrow> bytes \<Rightarrow> string \<Rightarrow> range_acceptance result \<times> sync_runtime" where
  "receive_block_range rt verifier peer frame local_hash =
     receive_catchup ''BLOCK_RANGE'' range_caught (\<lambda>rt1 plan envelope. check_range peer rt1 plan envelope local_hash) rt verifier peer frame"

definition receive_snapshot ::
  "sync_runtime \<Rightarrow> (string \<Rightarrow> bytes \<Rightarrow> bytes \<Rightarrow> bool result) \<Rightarrow> string \<Rightarrow> bytes \<Rightarrow> bytes list \<Rightarrow> catchup_result result \<times> sync_runtime" where
  "receive_snapshot rt verifier peer frame chunks =
     receive_catchup ''SNAPSHOT'' status_caught (\<lambda>rt1 plan envelope. check_manifest rt1 plan envelope chunks) rt verifier peer frame"

definition runtime_evidence :: "sync_runtime \<Rightarrow> json" where
  "runtime_evidence rt = JObj (foldl (\<lambda>d (k, v). dict_set k v d) (members_of (fork_evidence (rt_fork rt)))
     [(''schema_version'', JStr ''junca-validator-sync-runtime/v1''),
      (''authenticated_session_count'', JInt (int (length (rt_sessions rt)))),
      (''active_plan_count'', JInt (int (length (rt_plans rt)))),
      (''mainnet_changed'', JBool False),
      (''assets_moved'', JBool False),
      (''bridge_activated'', JBool False)])"

section \<open>Accepted ranges are certified\<close>

lemma canonical_hash_text: "canonical_hash v f = Inr h \<Longrightarrow> text_of v = h \<and> lower h = h"
  by (auto simp: canonical_hash_def wire_hash_def text_of_def bindE_Inr_iff if_Inl_Inr_iff split: json.splits)

lemma py_eq_int: "py_eq v (JInt h) \<longleftrightarrow> v = JInt h \<or> (\<exists>b. v = JBool b \<and> h = (if b then 1 else 0))"
  by (cases v) (auto simp: py_eq_def)

lemma check_block_Inr:
  assumes "check_block (h, previous) block = Inr nxt"
  shows "block_height block = h" "nxt = (h + 1, Some (block_text block ''block_hash''))"
    "\<And>p. previous = Some p \<Longrightarrow> block_text block ''parent_hash'' = p"
proof -
  obtain ms b p where ms: "block = JObj ms" "py_eq (json_at ms ''height'') (JInt h)"
      "canonical_hash (json_at ms ''block_hash'') ''block_hash'' = Inr b"
      "canonical_hash (json_at ms ''parent_hash'') ''parent_hash'' = Inr p"
      "nxt = (h + 1, Some (lower b))" "\<forall>q. previous = Some q \<longrightarrow> lower p = q"
    using assms by (auto simp: check_block_def bindE_Inr_iff if_Inl_Inr_iff split: json.splits option.splits)
  show "block_height block = h"
    using ms(1,2) by (auto simp: block_height_def members_of_def py_eq_int)
  show "nxt = (h + 1, Some (block_text block ''block_hash''))" "\<And>p. previous = Some p \<Longrightarrow> block_text block ''parent_hash'' = p"
    using ms canonical_hash_text by (auto simp: block_text_def members_of_def)
qed

text \<open>Blocks of successive heights, each with the hash of the one before it as its parent.\<close>

fun linked_blocks :: "int \<Rightarrow> string option \<Rightarrow> json list \<Rightarrow> bool" where
  "linked_blocks h previous [] \<longleftrightarrow> True"
| "linked_blocks h previous (b # bs) \<longleftrightarrow> block_height b = h \<and> (\<forall>p. previous = Some p \<longrightarrow> block_text b ''parent_hash'' = p) \<and>
     linked_blocks (h + 1) (Some (block_text b ''block_hash'')) bs"

lemma check_blocks_linked: "foldE check_block (h, previous) bs = Inr r \<Longrightarrow> linked_blocks h previous bs"
proof (induction bs arbitrary: h previous)
  case (Cons b bs)
  then obtain nxt where nxt: "check_block (h, previous) b = Inr nxt" "foldE check_block nxt bs = Inr r"
    by (auto simp: bindE_Inr_iff)
  then show ?case
    using check_block_Inr [OF nxt(1)] Cons.IH by auto
qed simp

lemma linked_height: "linked_blocks h previous bs \<Longrightarrow> i < length bs \<Longrightarrow> block_height (bs ! i) = h + int i"
  by (induction bs arbitrary: h previous i) (auto simp: nth_Cons split: nat.splits)

lemma linked_parent:
  "linked_blocks h previous bs \<Longrightarrow> Suc i < length bs \<Longrightarrow>
     block_text (bs ! Suc i) ''parent_hash'' = block_text (bs ! i) ''block_hash''"
proof (induction bs arbitrary: h previous i)
  case (Cons b bs)
  then show ?case
    by (cases i; cases bs) auto
qed simp

lemma validate_range_linked:
  assumes "validate_block_range bs (JInt h) = Inr u"
  shows "bs \<noteq> []" "linked_blocks h None bs"
  using assms check_blocks_linked by (auto simp: validate_block_range_def int_at_least_def bindE_Inr_iff if_Inl_Inr_iff)

text \<open>
  A block that the validators of its height signed: members of the set in force there, together with
  more than two thirds of its power, each with a verified vote for the block in one round.
\<close>

definition signed_by_quorum :: "sync_runtime \<Rightarrow> int \<Rightarrow> string \<Rightarrow> bool" where
  "signed_by_quorum rt h block \<longleftrightarrow>
     (\<exists>s r. \<exists>ids. at_height (rt_schedule rt) h = Inr s \<and> ids \<subseteq> validator_id ` set (vs_validators s) \<and>
        2 * vs_total_power s < 3 * sum (power_of (set_pairs s)) ids \<and>
        (\<forall>i \<in> ids. \<exists>w. rt_vote_verifier rt w = Some True \<and> fv_validator_id w = i \<and> fv_chain_id w = rt_chain rt \<and>
           fv_height w = h \<and> fv_round w = r \<and> lower (fv_block_hash w) = block))"

lemma verified_signed:
  assumes "scheduled (rt_schedule rt)" "verify_proof (rt_chain rt) (rt_schedule rt) (rt_vote_verifier rt) p = Inr c"
  shows "signed_by_quorum rt (fc_height c) (fc_block_hash c)"
proof -
  obtain s where s: "at_height (rt_schedule rt) (fp_height p) = Inr s"
    using assms(2) unfolding verify_proof_Inr [OF assms(1)] by blast
  note backed = verify_backed [OF assms s]
  note ids = backed_ids [OF backed(1)]
  have "fst ` set (set_pairs s) = validator_id ` set (vs_validators s)"
    by (force simp: set_pairs_def)
  then show ?thesis
    unfolding signed_by_quorum_def
    using s backed(2) ids(1,4,5) ids(6)
    by (intro exI [of _ s] exI [of _ "fc_round c"] exI [of _ "set (fc_validator_ids c)"]) (auto simp: vote_for_def, meson)
qed

lemma check_range_Inr:
  assumes "check_range peer rt plan envelope local_hash = Inr acc" "scheduled (rt_schedule rt)"
  obtains bs where "bs \<noteq> []" "linked_blocks (sp_local_height plan + 1) None bs"
    "\<forall>b \<in> set bs. signed_by_quorum rt (block_height b) (block_text b ''block_hash'')"
    "block_text (hd bs) ''parent_hash'' = lower local_hash" "block_height (last bs) \<le> sp_target_height plan"
    "\<And>c. fork_head (rt_fork rt) = Some c \<Longrightarrow> block_height (last bs) = sp_target_height plan \<Longrightarrow>
       block_text (last bs) ''block_hash'' = lower (cl_block_hash c) \<and> block_text (last bs) ''state_root'' = lower (cl_state_root c)"
    "ra_block_count acc = int (length bs)" "terminal_hash acc = block_text (last bs) ''block_hash''"
    "terminal_state_root acc = block_text (last bs) ''state_root''" "ra_peer_id acc = peer"
proof -
  obtain bs proofs cs where r: "length bs = length proofs" "validate_block_range bs (JInt (sp_local_height plan + 1)) = Inr ()"
      "mapE (\<lambda>item. bindE (proof_from_payload item)
         (verify_proof (rt_chain rt) (rt_schedule rt) (rt_vote_verifier rt))) proofs = Inr cs"
      "\<forall>item \<in> set (zip bs cs). check_binding item = Inr ()"
      "block_text (hd bs) ''parent_hash'' = lower local_hash" "block_height (last bs) \<le> sp_target_height plan"
      "\<And>c. fork_head (rt_fork rt) = Some c \<Longrightarrow> block_height (last bs) = sp_target_height plan \<Longrightarrow>
         block_text (last bs) ''block_hash'' = lower (cl_block_hash c) \<and> block_text (last bs) ''state_root'' = lower (cl_state_root c)"
      "acc = \<lparr>ra_peer_id = peer, ra_start_height = json_at (members_of (hd bs)) ''height'',
         ra_end_height = json_at (members_of (last bs)) ''height'', ra_block_count = int (length bs),
         terminal_hash = block_text (last bs) ''block_hash'', terminal_state_root = block_text (last bs) ''state_root'',
         ra_status = ''VERIFIED''\<rparr>"
    using assms(1)
    by (auto simp: check_range_def Let_def bindE_Inr_iff if_Inl_Inr_iff all_ok_Inr_iff split: json.splits option.splits)
  have "signed_by_quorum rt (block_height b) (block_text b ''block_hash'')" if "b \<in> set bs" for b
  proof -
    obtain i where i: "i < length bs" "b = bs ! i"
      using \<open>b \<in> set bs\<close> by (auto simp: in_set_conv_nth)
    have all: "list_all2 (\<lambda>item c. \<exists>p. proof_from_payload item = Inr p \<and>
        verify_proof (rt_chain rt) (rt_schedule rt) (rt_vote_verifier rt) p = Inr c) proofs cs"
      using r(3) by (simp add: mapE_Inr_iff bindE_Inr_iff)
    then obtain p where "verify_proof (rt_chain rt) (rt_schedule rt) (rt_vote_verifier rt) p = Inr (cs ! i)"
      using i r(1) by (auto dest: list_all2_nthD)
    moreover have "(b, cs ! i) \<in> set (zip bs cs)"
      using i r(1) list_all2_lengthD [OF all] by (auto simp: set_zip)
    then have "fc_height (cs ! i) = block_height b" "fc_block_hash (cs ! i) = block_text b ''block_hash''"
      using r(4) by (auto simp: check_binding_def if_Inl_Inr_iff)
    ultimately show ?thesis
      using verified_signed [OF assms(2)] by metis
  qed
  then show thesis
    using that [of bs] r validate_range_linked [OF r(2)] by simp
qed

lemma receive_catchup_Inr:
  assumes "receive_catchup mode caught check rt verifier peer frame = (Inr r, rt')"
  obtains plan s envelope s' where "runtime_plan_of rt peer mode = Inr plan" "runtime_session rt peer = Inr s"
    "receive_frame s verifier frame = Inr (envelope, s')" "check (put_session rt peer s') plan envelope = Inr r"
    "rt' = (put_session rt peer s')\<lparr>rt_plans := dict_del peer (rt_plans rt)\<rparr>"
  using assms
  by (auto simp: receive_catchup_def bindE_Inr_iff Let_def put_session_def split: sum.splits if_splits)


section \<open>Faults\<close>

lemma discipline_fault:
  "discipline (snd (record_protocol_fault f peer)) q =
     (if q = peer then \<lparr>faults = faults (discipline f peer) + 1,
        quarantined = (quarantine_threshold f \<le> faults (discipline f peer) + 1)\<rparr> else discipline f q)"
  by (simp add: record_protocol_fault_def Let_def discipline_def dict_get_default_def del: map_of_eq_Some_iff)

text \<open>One more fault for a peer, and nothing else about any peer.\<close>

definition faulted_once :: "fork_choice \<Rightarrow> string \<Rightarrow> fork_choice \<Rightarrow> bool" where
  "faulted_once f peer f' \<longleftrightarrow> quarantine_threshold f' = quarantine_threshold f \<and>
     faults (discipline f' peer) = faults (discipline f peer) + 1 \<and>
     (quarantined (discipline f' peer) \<longleftrightarrow> quarantine_threshold f \<le> faults (discipline f peer) + 1) \<and>
     (\<forall>q. q \<noteq> peer \<longrightarrow> discipline f' q = discipline f q)"

lemma faulted_once_fault [simp]: "faulted_once f peer (snd (record_protocol_fault f peer))"
  by (simp add: faulted_once_def discipline_fault) (simp add: record_protocol_fault_def Let_def)

lemma observe_disciplines:
  assumes "observe f c = (r, f')"
  shows "faulted_once f (peer_id c) f' \<or>
    quarantine_threshold f' = quarantine_threshold f \<and> disciplines f' = disciplines f"
    "r = Inr x \<Longrightarrow> disciplines f' = disciplines f"
proof -
  have "(faulted_once f (peer_id c) f' \<or> quarantine_threshold f' = quarantine_threshold f \<and> disciplines f' = disciplines f) \<and>
      (\<forall>x. r = Inr x \<longrightarrow> disciplines f' = disciplines f)"
  proof (cases rule: observe_cases [of f c])
    case (faulted e)
    then show ?thesis using assms by auto
  qed (use assms in \<open>auto simp: noted_def\<close>)
  then show "faulted_once f (peer_id c) f' \<or> quarantine_threshold f' = quarantine_threshold f \<and> disciplines f' = disciplines f"
    "r = Inr x \<Longrightarrow> disciplines f' = disciplines f"
    by blast+
qed

lemma claim_of_status_peer: "claim_of_status peer p = Inr c \<Longrightarrow> peer_id c = peer \<and> claim_post_init c = Inr ()"
  by (auto simp: claim_of_status_def bindE_Inr_iff Let_def)

lemma status_body_fork:
  assumes "status_body rt verifier s peer frame = (r, rt')"
  shows "rt_fork rt' = rt_fork rt \<or>
    (\<exists>c x. peer_id c = peer \<and> claim_post_init c = Inr () \<and> observe (rt_fork rt) c = (x, rt_fork rt'))"
  using assms claim_of_status_peer
  by (fastforce simp: status_body_def Let_def put_session_def split: sum.splits if_splits prod.splits)

lemma status_fault:
  assumes "runtime_session rt peer = Inr s" "receive_status rt verifier peer frame = (Inl (SyncRuntimeError m), rt')"
  shows "faulted_once (rt_fork rt) peer (rt_fork rt')"
proof -
  obtain e rt1 where body: "status_body rt verifier s peer frame = (Inl e, rt1)" "status_caught e"
      "rt' = (if faults (discipline (rt_fork rt1) peer) = faults (discipline (rt_fork rt) peer) then fault_peer rt1 peer else rt1)"
    using assms by (auto simp: receive_status_def Let_def status_caught_def split: sum.splits prod.splits if_splits exn.splits)
  consider "faulted_once (rt_fork rt) peer (rt_fork rt1)"
    | "quarantine_threshold (rt_fork rt1) = quarantine_threshold (rt_fork rt)" "disciplines (rt_fork rt1) = disciplines (rt_fork rt)"
    using status_body_fork [OF body(1)] observe_disciplines(1) by metis
  then show ?thesis
  proof cases
    case 1
    then show ?thesis using body(3) by (simp add: faulted_once_def)
  next
    case 2
    then have "\<And>q. discipline (rt_fork rt1) q = discipline (rt_fork rt) q"
      by (simp add: discipline_def)
    then show ?thesis
      using 2 body(3) faulted_once_fault [of "rt_fork rt1" peer] by (simp add: fault_peer_def faulted_once_def)
  qed
qed

lemma catchup_fault:
  assumes "runtime_plan_of rt peer mode = Inr plan" "runtime_session rt peer = Inr s"
    and "receive_catchup mode caught check rt verifier peer frame = (Inl (SyncRuntimeError m), rt')"
    and "\<And>e. caught (SyncRuntimeError e)"
  shows "faulted_once (rt_fork rt) peer (rt_fork rt')"
  using assms faulted_once_fault [of "rt_fork rt" peer]
  by (auto simp: receive_catchup_def Let_def fault_peer_def put_session_def split: sum.splits if_splits prod.splits)

text \<open>A message of a peer: a status, a block range or a snapshot manifest with its chunks.\<close>

datatype peer_message = StatusFrame bytes | RangeFrame bytes string | ManifestFrame bytes "bytes list"

definition rejects ::
  "sync_runtime \<Rightarrow> (string \<Rightarrow> bytes \<Rightarrow> bytes \<Rightarrow> bool result) \<Rightarrow> string \<Rightarrow> peer_message \<Rightarrow> exn \<Rightarrow> sync_runtime \<Rightarrow> bool" where
  "rejects rt verifier peer m e rt' =
     (case m of
        StatusFrame frame \<Rightarrow> receive_status rt verifier peer frame = (Inl e, rt')
      | RangeFrame frame local_hash \<Rightarrow> receive_block_range rt verifier peer frame local_hash = (Inl e, rt')
      | ManifestFrame frame chunks \<Rightarrow> receive_snapshot rt verifier peer frame chunks = (Inl e, rt'))"

definition expected_message :: "sync_runtime \<Rightarrow> string \<Rightarrow> peer_message \<Rightarrow> bool" where
  "expected_message rt peer m \<longleftrightarrow>
     (\<exists>s. runtime_session rt peer = Inr s) \<and>
     (case m of
        StatusFrame _ \<Rightarrow> True
      | RangeFrame _ _ \<Rightarrow> \<exists>plan. runtime_plan_of rt peer ''BLOCK_RANGE'' = Inr plan
      | ManifestFrame _ _ \<Rightarrow> \<exists>plan. runtime_plan_of rt peer ''SNAPSHOT'' = Inr plan)"

lemma quarantined_session: "quarantined (discipline (rt_fork rt) peer) \<Longrightarrow> runtime_session rt peer = Inl (SyncRuntimeError ''peer is quarantined'')"
  by (simp add: runtime_session_def)

lemma quarantined_catchup:
  "quarantined (discipline (rt_fork rt) peer) \<Longrightarrow>
     \<exists>e. receive_catchup mode caught check rt verifier peer frame = (Inl (SyncRuntimeError e), rt)"
  by (auto simp: quarantined_session receive_catchup_def runtime_plan_of_def split: option.splits)

lemma quarantined_rejects: "quarantined (discipline (rt_fork rt) peer) \<Longrightarrow> \<exists>e. rejects rt verifier peer m (SyncRuntimeError e) rt"
  by (cases m)
    (simp_all add: rejects_def receive_status_def quarantined_session receive_block_range_def receive_snapshot_def quarantined_catchup)


section \<open>The invariant of the runtime\<close>

inductive runtime_step :: "sync_runtime \<Rightarrow> sync_runtime \<Rightarrow> bool" where
  registered: "runtime_register rt s = Inr (peer, rt') \<Longrightarrow> runtime_step rt rt'"
| status: "receive_status rt verifier peer frame = (r, rt') \<Longrightarrow> runtime_step rt rt'"
| planned: "runtime_plan rt signer peer local_height target = Inr (plan, rt') \<Longrightarrow> runtime_step rt rt'"
| range: "receive_block_range rt verifier peer frame local_hash = (a, rt') \<Longrightarrow> runtime_step rt rt'"
| snapshot: "receive_snapshot rt verifier peer frame chunks = (u, rt') \<Longrightarrow> runtime_step rt rt'"

definition fork_step :: "fork_choice \<Rightarrow> fork_choice \<Rightarrow> bool" where
  "fork_step f f' \<longleftrightarrow> f' = f \<or> (\<exists>c r. claim_post_init c = Inr () \<and> observe f c = (r, f')) \<or>
     (\<exists>peer. f' = snd (record_protocol_fault f peer))"

text \<open>What an operation does to a session: it keeps the two peers and goes forward.\<close>

definition session_after :: "session \<Rightarrow> session \<Rightarrow> bool" where
  "session_after s s' \<longleftrightarrow> local_peer s' = local_peer s \<and> remote_peer s' = remote_peer s \<and> next_receive s \<le> next_receive s'"

lemma receive_session_after: "receive_frame s v f = Inr (e, s') \<Longrightarrow> session_after s s' \<and> we_sequence e < next_receive s'"
  by (elim receive_frame_Inr) (simp add: session_after_def)

definition runtime_sessions_ok :: "sync_runtime \<Rightarrow> bool" where
  "runtime_sessions_ok rt \<longleftrightarrow> dict_ok (rt_sessions rt) \<and>
     (\<forall>p s. dict_get (rt_sessions rt) p = Some s \<longrightarrow> node_id (remote_peer s) = p \<and>
        hs_chain_id (local_peer s) = fk_chain_id (rt_fork rt) \<and> lower (genesis_hash (local_peer s)) = fk_genesis_hash (rt_fork rt))"

definition status_sequences_ok :: "sync_runtime \<Rightarrow> bool" where
  "status_sequences_ok rt \<longleftrightarrow>
     (\<forall>p n. dict_get (status_sequences rt) p = Some n \<longrightarrow> (\<exists>s. dict_get (rt_sessions rt) p = Some s \<and> n < next_receive s))"

definition plan_ok :: "sync_runtime \<Rightarrow> string \<Rightarrow> sync_plan \<Rightarrow> bool" where
  "plan_ok rt p plan \<longleftrightarrow> sp_peer_id plan = p \<and> dict_get (rt_sessions rt) p \<noteq> None \<and>
     0 \<le> sp_local_height plan \<and> sp_local_height plan < sp_target_height plan \<and>
     (sp_mode plan = ''SNAPSHOT'' \<longleftrightarrow> sc_threshold (rt_snapshot rt) \<le> sp_target_height plan - sp_local_height plan) \<and>
     (\<exists>c. dict_get (canonical_claims (rt_fork rt)) (sp_target_height plan) = Some c)"

definition runtime_plans_ok :: "sync_runtime \<Rightarrow> bool" where
  "runtime_plans_ok rt \<longleftrightarrow> (\<forall>p plan. dict_get (rt_plans rt) p = Some plan \<longrightarrow> plan_ok rt p plan)"

definition runtime_ok :: "sync_runtime \<Rightarrow> bool" where
  "runtime_ok rt \<longleftrightarrow> fork_reachable (rt_fork rt) \<and> scheduled (rt_schedule rt) \<and> fk_chain_id (rt_fork rt) = rt_chain rt \<and>
     power_resolver (rt_fork rt) = schedule_resolver (rt_schedule rt) \<and>
     runtime_sessions_ok rt \<and> status_sequences_ok rt \<and> runtime_plans_ok rt"

lemma fork_step_keeps:
  assumes "fork_step f f'"
  shows "fk_chain_id f' = fk_chain_id f" "fk_genesis_hash f' = fk_genesis_hash f" "power_resolver f' = power_resolver f"
    "fork_reachable f \<Longrightarrow> fork_reachable f'"
    "dict_get (canonical_claims f) h = Some c \<Longrightarrow> dict_get (canonical_claims f') h = Some c"
proof -
  have same: "fk_chain_id f' = fk_chain_id f \<and> fk_genesis_hash f' = fk_genesis_hash f \<and> power_resolver f' = power_resolver f"
    if "observe f d = (r, f')" for d r
    using that by (cases rule: observe_cases [of f d]) (auto simp: noted_def record_protocol_fault_def Let_def)
  then show "fk_chain_id f' = fk_chain_id f" "fk_genesis_hash f' = fk_genesis_hash f" "power_resolver f' = power_resolver f"
    using assms by (auto simp: fork_step_def record_protocol_fault_def Let_def)
  show "fork_reachable f'" if "fork_reachable f"
  proof -
    have "fork_reachable (snd (record_protocol_fault f peer))" for peer
      by (rule fork_reachable.reported [OF that]) (rule surjective_pairing)
    then show ?thesis
      using assms that unfolding fork_step_def by (auto intro: fork_reachable.observed)
  qed
  show "dict_get (canonical_claims f') h = Some c" if "dict_get (canonical_claims f) h = Some c"
    using assms that observe_keeps unfolding fork_step_def
    by (elim disjE exE conjE) (auto simp: record_protocol_fault_def Let_def simp del: map_of_eq_Some_iff)
qed

lemma fork_steps_keep:
  assumes "fork_step\<^sup>*\<^sup>* f f'"
  shows "fk_chain_id f' = fk_chain_id f" "fk_genesis_hash f' = fk_genesis_hash f" "power_resolver f' = power_resolver f"
    "fork_reachable f \<Longrightarrow> fork_reachable f'"
    "dict_get (canonical_claims f) h = Some c \<Longrightarrow> dict_get (canonical_claims f') h = Some c"
  using assms by (induction rule: rtranclp_induct; simp add: fork_step_keeps del: map_of_eq_Some_iff)+

text \<open>What every operation does to the rest of the runtime: the fork choice and one session go on.\<close>

definition advances :: "sync_runtime \<Rightarrow> string \<Rightarrow> sync_runtime \<Rightarrow> bool" where
  "advances rt peer rt' \<longleftrightarrow> rt_chain rt' = rt_chain rt \<and> rt_schedule rt' = rt_schedule rt \<and> rt_snapshot rt' = rt_snapshot rt \<and>
     fork_step\<^sup>*\<^sup>* (rt_fork rt) (rt_fork rt') \<and>
     (rt_sessions rt' = rt_sessions rt \<or>
      (\<exists>s s'. dict_get (rt_sessions rt) peer = Some s \<and> session_after s s' \<and> rt_sessions rt' = dict_set peer s' (rt_sessions rt)))"

lemma advances_session:
  assumes "advances rt peer rt'" "dict_get (rt_sessions rt) p = Some s"
  obtains s' where "dict_get (rt_sessions rt') p = Some s'" "session_after s s'"
proof -
  have "session_after s s"
    by (simp add: session_after_def)
  then show thesis
    using assms that unfolding advances_def by (cases "p = peer") (auto simp del: map_of_eq_Some_iff)
qed

lemma advances_session_back:
  assumes "advances rt peer rt'" "dict_get (rt_sessions rt') p = Some s'"
  obtains s where "dict_get (rt_sessions rt) p = Some s" "session_after s s'"
proof -
  have "session_after s' s'"
    by (simp add: session_after_def)
  then show thesis
    using assms that unfolding advances_def by (auto simp del: map_of_eq_Some_iff split: if_splits)
qed

lemma advances_ok:
  assumes "runtime_ok rt" "advances rt peer rt'"
    and "\<And>p n. dict_get (status_sequences rt') p = Some n \<Longrightarrow> dict_get (status_sequences rt) p = Some n \<or>
      (\<exists>s. dict_get (rt_sessions rt') p = Some s \<and> n < next_receive s)"
    and "\<And>p plan. dict_get (rt_plans rt') p = Some plan \<Longrightarrow> dict_get (rt_plans rt) p = Some plan \<or> plan_ok rt' p plan"
  shows "runtime_ok rt'"
proof -
  have fork: "fork_step\<^sup>*\<^sup>* (rt_fork rt) (rt_fork rt')"
    and same: "rt_chain rt' = rt_chain rt" "rt_schedule rt' = rt_schedule rt" "rt_snapshot rt' = rt_snapshot rt"
    using assms(2) by (simp_all add: advances_def)
  note keeps = fork_steps_keep [OF fork]
  have "dict_ok (rt_sessions rt')"
    using assms(1,2) by (auto simp: advances_def runtime_ok_def runtime_sessions_ok_def)
  moreover have "node_id (remote_peer s') = p \<and> hs_chain_id (local_peer s') = fk_chain_id (rt_fork rt') \<and>
      lower (genesis_hash (local_peer s')) = fk_genesis_hash (rt_fork rt')" if "dict_get (rt_sessions rt') p = Some s'" for p s'
    using assms(1) keeps(1,2) by (rule_tac advances_session_back [OF assms(2) that])
      (auto simp: runtime_ok_def runtime_sessions_ok_def session_after_def)
  ultimately have sessions: "runtime_sessions_ok rt'"
    by (simp add: runtime_sessions_ok_def del: map_of_eq_Some_iff)
  have "\<exists>s. dict_get (rt_sessions rt') p = Some s \<and> n < next_receive s" if n: "dict_get (status_sequences rt') p = Some n" for p n
    using assms(3) [OF n]
  proof
    assume "dict_get (status_sequences rt) p = Some n"
    then obtain s where s: "dict_get (rt_sessions rt) p = Some s" "n < next_receive s"
      using assms(1) unfolding runtime_ok_def status_sequences_ok_def by blast
    obtain s' where "dict_get (rt_sessions rt') p = Some s'" "session_after s s'"
      using assms(2) s(1) by (rule advances_session)
    then show ?thesis
      using s(2) by (intro exI [of _ s']) (simp add: session_after_def)
  qed
  then have sequences: "status_sequences_ok rt'"
    unfolding status_sequences_ok_def by blast
  have "plan_ok rt' p plan" if plan: "dict_get (rt_plans rt') p = Some plan" for p plan
    using assms(4) [OF plan]
  proof
    assume "dict_get (rt_plans rt) p = Some plan"
    then have ok: "plan_ok rt p plan"
      using assms(1) unfolding runtime_ok_def runtime_plans_ok_def by blast
    then obtain s where "dict_get (rt_sessions rt) p = Some s"
      by (auto simp: plan_ok_def simp del: map_of_eq_Some_iff)
    then obtain s' where "dict_get (rt_sessions rt') p = Some s'"
      using advances_session [OF assms(2)] by blast
    then show ?thesis
      using ok same(3) keeps(5) by (auto simp: plan_ok_def simp del: map_of_eq_Some_iff)
  qed
  then show ?thesis
    using assms(1) sessions sequences same keeps(1,3,4) unfolding runtime_ok_def runtime_plans_ok_def by simp
qed

lemma advances_put:
  assumes "dict_get (rt_sessions rt) peer = Some s" "session_after s s'" "fork_step\<^sup>*\<^sup>* (rt_fork rt) f"
  shows "advances rt peer ((put_session rt peer s')\<lparr>rt_fork := f\<rparr>)"
  using assms by (auto simp: advances_def put_session_def simp del: map_of_eq_Some_iff)

lemma advances_fork: "fork_step\<^sup>*\<^sup>* (rt_fork rt) f \<Longrightarrow> advances rt peer (rt\<lparr>rt_fork := f\<rparr>)"
  by (simp add: advances_def)

lemma advances_more [simp]:
  "advances rt peer (rt'\<lparr>rt_plans := x\<rparr>) = advances rt peer rt'" "advances rt peer (rt'\<lparr>status_sequences := y\<rparr>) = advances rt peer rt'"
  by (simp_all add: advances_def)

lemma advances_fault: "advances rt peer rt' \<Longrightarrow> advances rt peer (fault_peer rt' q)"
  using rtranclp.rtrancl_into_rtrancl [of fork_step "rt_fork rt" "rt_fork rt'" "snd (record_protocol_fault (rt_fork rt') q)"]
  by (auto simp: advances_def fault_peer_def fork_step_def)

lemma fork_step_observe: "claim_post_init c = Inr () \<Longrightarrow> observe f c = (r, f') \<Longrightarrow> fork_step\<^sup>*\<^sup>* f f'"
  by (intro r_into_rtranclp [of fork_step]) (auto simp: fork_step_def)

lemma runtime_session_Inr:
  "runtime_session rt peer = Inr s \<longleftrightarrow> \<not> quarantined (discipline (rt_fork rt) peer) \<and> dict_get (rt_sessions rt) peer = Some s"
  by (auto simp: runtime_session_def simp del: map_of_eq_Some_iff split: option.splits)

lemma advances_refl [simp]: "advances rt peer rt"
  by (simp add: advances_def)

lemma status_body_advances:
  assumes "status_body rt verifier s peer frame = (r, rt')" "dict_get (rt_sessions rt) peer = Some s"
  shows "advances rt peer rt'" "rt_plans rt' = rt_plans rt"
    "\<And>p n. dict_get (status_sequences rt') p = Some n \<Longrightarrow> dict_get (status_sequences rt) p = Some n \<or>
      (\<exists>s. dict_get (rt_sessions rt') p = Some s \<and> n < next_receive s)"
proof -
  have "advances rt peer rt' \<and> rt_plans rt' = rt_plans rt \<and>
    (\<forall>p n. dict_get (status_sequences rt') p = Some n \<longrightarrow> dict_get (status_sequences rt) p = Some n \<or>
      (\<exists>s. dict_get (rt_sessions rt') p = Some s \<and> n < next_receive s))"
  proof (cases "receive_frame s verifier frame")
    case (Inl e)
    then show ?thesis using assms(1) by (simp add: status_body_def)
  next
    case (Inr received)
    obtain envelope s' where received: "received = (envelope, s')"
      by (cases received)
    note after = receive_session_after [OF Inr [unfolded received]]
    let ?rt1 = "put_session rt peer s'"
    have put: "advances rt peer ?rt1"
      using advances_put [OF assms(2) conjunct1 [OF after] rtranclp.rtrancl_refl] by (simp add: put_session_def)
    show ?thesis
    proof (cases "rt' = ?rt1")
      case True
      then show ?thesis using put by (simp add: put_session_def)
    next
      case False
      then obtain c x f where c: "claim_of_status peer (we_payload envelope) = Inr c" "observe (rt_fork rt) c = (x, f)"
          "rt' = ?rt1\<lparr>rt_fork := f\<rparr> \<or>
           rt' = ?rt1\<lparr>rt_fork := f, status_sequences := dict_set peer (we_sequence envelope) (status_sequences rt)\<rparr>"
        using assms(1) by (auto simp: status_body_def Inr received Let_def put_session_def split: sum.splits if_splits prod.splits)
      have "fork_step\<^sup>*\<^sup>* (rt_fork rt) f"
        using fork_step_observe claim_of_status_peer [OF c(1)] c(2) by blast
      then have "advances rt peer (?rt1\<lparr>rt_fork := f\<rparr>)"
        using advances_put [OF assms(2) conjunct1 [OF after]] by blast
      then have "advances rt peer rt'"
        using c(3) by (auto simp: put_session_def advances_def)
      then show ?thesis
        using c(3) conjunct2 [OF after] by (auto simp: put_session_def simp del: map_of_eq_Some_iff split: if_splits)
    qed
  qed
  then show "advances rt peer rt'" "rt_plans rt' = rt_plans rt"
    "\<And>p n. dict_get (status_sequences rt') p = Some n \<Longrightarrow> dict_get (status_sequences rt) p = Some n \<or>
      (\<exists>s. dict_get (rt_sessions rt') p = Some s \<and> n < next_receive s)"
    by blast+
qed

lemma status_ok:
  assumes "runtime_ok rt" "receive_status rt verifier peer frame = (r, rt')"
  shows "runtime_ok rt'"
proof (cases "runtime_session rt peer")
  case (Inl e)
  then show ?thesis using assms by (simp add: receive_status_def)
next
  case (Inr s)
  obtain x rt1 where body: "status_body rt verifier s peer frame = (x, rt1)"
    by (cases "status_body rt verifier s peer frame")
  have "dict_get (rt_sessions rt) peer = Some s"
    using Inr by (simp add: runtime_session_Inr)
  note body' = status_body_advances [OF body this]
  have "rt' = rt1 \<or> rt' = fault_peer rt1 peer"
    using assms(2) Inr body by (auto simp: receive_status_def Let_def split: sum.splits if_splits)
  then show ?thesis
  proof
    assume "rt' = rt1"
    then show ?thesis
      using advances_ok [OF assms(1) body'(1)] body'(2,3) by simp
  next
    assume rt': "rt' = fault_peer rt1 peer"
    show ?thesis
      unfolding rt' by (rule advances_ok [OF assms(1) advances_fault [OF body'(1)]]) (use body'(2,3) in \<open>auto simp: fault_peer_def\<close>)
  qed
qed

lemma catchup_ok:
  assumes "runtime_ok rt" "receive_catchup mode caught check rt verifier peer frame = (r, rt')"
  shows "runtime_ok rt'"
proof (cases "runtime_session rt peer")
  case (Inl e)
  then show ?thesis
    using assms by (auto simp: receive_catchup_def bindE_def split: sum.splits)
next
  case (Inr s)
  have s: "dict_get (rt_sessions rt) peer = Some s"
    using Inr by (simp add: runtime_session_Inr)
  have kept: "runtime_ok rt1" if "advances rt peer rt1" "status_sequences rt1 = status_sequences rt"
      "\<And>p plan. dict_get (rt_plans rt1) p = Some plan \<Longrightarrow> dict_get (rt_plans rt) p = Some plan" for rt1
    using assms(1) that by (auto intro!: advances_ok [OF assms(1) that(1)] simp del: map_of_eq_Some_iff)
  show ?thesis
  proof (cases "receive_frame s verifier frame")
    case (Inl e)
    then have "rt' = rt \<or> rt' = fault_peer rt peer"
      using assms(2) Inr by (auto simp: receive_catchup_def bindE_def Let_def split: sum.splits if_splits)
    then show ?thesis
      using assms(1) kept [OF advances_fault [OF advances_refl]] by (auto simp: fault_peer_def)
  next
    case received: (Inr received)
    obtain envelope s' where r: "received = (envelope, s')"
      by (cases received)
    let ?rt1 = "put_session rt peer s'"
    have put: "advances rt peer ?rt1"
      using advances_put [OF s _ rtranclp.rtrancl_refl] receive_session_after [OF received [unfolded r]] by (simp add: put_session_def)
    have "rt' \<in> {rt, ?rt1, fault_peer ?rt1 peer, ?rt1\<lparr>rt_plans := dict_del peer (rt_plans rt)\<rparr>}"
      using assms(2) Inr received r
      by (auto simp: receive_catchup_def bindE_def Let_def put_session_def split: sum.splits if_splits)
    moreover have "runtime_ok ?rt1"
      by (rule kept [OF put]) (simp_all add: put_session_def)
    moreover have "runtime_ok (fault_peer ?rt1 peer)"
      by (rule kept [OF advances_fault [OF put]]) (simp_all add: fault_peer_def put_session_def)
    moreover have "runtime_ok (?rt1\<lparr>rt_plans := dict_del peer (rt_plans rt)\<rparr>)"
      using put by (intro kept) (auto simp: put_session_def simp del: map_of_eq_Some_iff split: if_splits)
    ultimately show ?thesis
      using assms(1) by blast
  qed
qed

lemma register_ok:
  assumes "runtime_ok rt" "runtime_register rt s = Inr (peer, rt')"
  shows "runtime_ok rt'"
proof -
  have r: "dict_get (rt_sessions rt) peer = None" "peer = node_id (remote_peer s)"
      "hs_chain_id (local_peer s) = fk_chain_id (rt_fork rt)" "lower (genesis_hash (local_peer s)) = fk_genesis_hash (rt_fork rt)"
      "rt' = rt\<lparr>rt_sessions := dict_set peer s (rt_sessions rt)\<rparr>"
    using assms(2) by (auto simp: runtime_register_def Let_def if_Inl_Inr_iff)
  have kept: "dict_get (rt_sessions rt') p = Some u" if "dict_get (rt_sessions rt) p = Some u" for p u
    using that r(1,5) by (auto simp del: map_of_eq_Some_iff)
  have "runtime_sessions_ok rt'"
    using assms(1) r by (auto simp: runtime_ok_def runtime_sessions_ok_def simp del: map_of_eq_Some_iff)
  moreover have "status_sequences_ok rt'"
    unfolding status_sequences_ok_def
  proof (intro allI impI)
    fix p n
    assume "dict_get (status_sequences rt') p = Some n"
    then have "dict_get (status_sequences rt) p = Some n"
      by (simp add: r(5) del: map_of_eq_Some_iff)
    then obtain u where "dict_get (rt_sessions rt) p = Some u" "n < next_receive u"
      using assms(1) unfolding runtime_ok_def status_sequences_ok_def by blast
    then show "\<exists>u. dict_get (rt_sessions rt') p = Some u \<and> n < next_receive u"
      using kept by blast
  qed
  moreover have "plan_ok rt' p plan" if "plan_ok rt p plan" for p plan
    using that kept r(5) by (auto simp: plan_ok_def simp del: map_of_eq_Some_iff)
  then have "runtime_plans_ok rt'"
    using assms(1) r(5) unfolding runtime_ok_def runtime_plans_ok_def by simp
  ultimately show ?thesis
    using assms(1) r(5) by (simp add: runtime_ok_def)
qed

lemma fork_head_canonical: "fork_head f = Some c \<Longrightarrow> fork_ok f \<Longrightarrow> dict_get (canonical_claims f) (cl_height c) = Some c"
  using map_of_SomeD [of "canonical_claims f" _ c]
  by (fastforce simp: fork_head_def fork_ok_def simp del: map_of_eq_Some_iff split: if_splits)

lemma planned_ok:
  assumes "runtime_ok rt" "runtime_plan rt signer peer local_height target = Inr (plan, rt')"
  shows "runtime_ok rt'"
proof -
  obtain s c mode t payload frame s' where r: "runtime_session rt peer = Inr s" "fork_head (rt_fork rt) = Some c"
      "cl_height c = target" "local_height < target" "choose_mode (rt_snapshot rt) local_height target = Inr mode"
      "send s signer t payload = Inr (frame, s')"
      "plan = \<lparr>sp_peer_id = peer, sp_mode = mode, sp_local_height = local_height, sp_target_height = target,
               request_frame = frame\<rparr>"
      "rt' = (put_session rt peer s')\<lparr>rt_plans := dict_set peer plan (rt_plans rt)\<rparr>"
    using assms(2) by (auto simp: runtime_plan_def bindE_Inr_iff if_Inl_Inr_iff Let_def split: option.splits if_splits)
  have s: "dict_get (rt_sessions rt) peer = Some s"
    using r(1) by (simp add: runtime_session_Inr)
  have "session_after s s'"
    using r(6) by (simp add: send_Inr session_after_def)
  then have "advances rt peer (put_session rt peer s')"
    using advances_put [OF s _ rtranclp.rtrancl_refl] by (simp add: put_session_def)
  then have adv: "advances rt peer rt'"
    by (simp add: r(8))
  have "fork_ok (rt_fork rt)"
    using assms(1) fork_reachable_ok by (simp add: runtime_ok_def)
  then have "plan_ok rt' peer plan"
    using r(2-5) fork_head_canonical [OF r(2)]
    by (auto simp: plan_ok_def r(7,8) put_session_def choose_mode_def if_Inl_Inr_iff simp del: map_of_eq_Some_iff split: if_splits)
  then show ?thesis
    using r(8) by (intro advances_ok [OF assms(1) adv]) (auto simp: put_session_def simp del: map_of_eq_Some_iff split: if_splits)
qed

lemma init_ok:
  assumes "sync_runtime_init chain genesis expected verifier_chain sets v threshold quarantine = Inr rt" "scheduled sets"
  shows "runtime_ok rt"
proof -
  obtain f where f: "fork_choice_init chain genesis expected quarantine (Some (schedule_resolver sets)) = Inr f"
      "rt_fork rt = f" "rt_schedule rt = sets" "rt_chain rt = chain" "rt_sessions rt = []" "status_sequences rt = []" "rt_plans rt = []"
    using assms(1) by (auto simp: sync_runtime_init_def bindE_Inr_iff if_Inl_Inr_iff)
  have "fork_reachable f" "fk_chain_id f = chain" "power_resolver f = schedule_resolver sets"
    using fork_reachable.started [OF f(1)] f(1) by (auto simp: fork_choice_init_def bindE_Inr_iff if_Inl_Inr_iff)
  then show ?thesis
    using assms(2) f by (simp add: runtime_ok_def runtime_sessions_ok_def status_sequences_ok_def runtime_plans_ok_def)
qed

lemma runtime_step_ok: "runtime_step rt rt' \<Longrightarrow> runtime_ok rt \<Longrightarrow> runtime_ok rt'"
  by (cases rule: runtime_step.cases)
    (auto simp: receive_block_range_def receive_snapshot_def intro: register_ok status_ok planned_ok catchup_ok)

inductive runtime_reachable :: "sync_runtime \<Rightarrow> bool" where
  started: "sync_runtime_init chain genesis expected verifier_chain sets v threshold quarantine = Inr rt \<Longrightarrow> scheduled sets \<Longrightarrow>
    runtime_reachable rt"
| step: "runtime_reachable rt \<Longrightarrow> runtime_step rt rt' \<Longrightarrow> runtime_reachable rt'"

lemma runtime_reachable_ok: "runtime_reachable rt \<Longrightarrow> runtime_ok rt"
  by (induction rule: runtime_reachable.induct) (auto intro: init_ok runtime_step_ok)

text \<open>
  C24. The runtime keeps its components in line with each other, whatever arrives and in whatever order:
  every session belongs to the peer it is registered for and to the chain and genesis of the fork choice;
  a canonical claim has the voting power of the validator set in force at its height, and the accepted
  claims of two peers for one height name one block; the last status of a peer lies behind what its
  session expects next; and every plan is one of a registered peer, forward to a canonical height, in
  the mode its distance asks for.
\<close>

theorem sync_runtime_consistent:
  assumes "runtime_reachable rt"
  shows "(\<forall>p s. dict_get (rt_sessions rt) p = Some s \<longrightarrow> node_id (remote_peer s) = p \<and>
      hs_chain_id (local_peer s) = rt_chain rt \<and> lower (genesis_hash (local_peer s)) = fk_genesis_hash (rt_fork rt)) \<and>
    (\<forall>h c. dict_get (canonical_claims (rt_fork rt)) h = Some c \<longrightarrow> cl_height c = h \<and> cl_chain_id c = rt_chain rt \<and>
      (\<exists>s. at_height (rt_schedule rt) h = Inr s \<and> cl_total_power c = vs_total_power s)) \<and>
    (\<forall>p q c d. dict_get (claims (rt_fork rt)) p = Some c \<and> dict_get (claims (rt_fork rt)) q = Some d \<and> cl_height c = cl_height d \<longrightarrow>
      lower (cl_block_hash c) = lower (cl_block_hash d)) \<and>
    (\<forall>p n. dict_get (status_sequences rt) p = Some n \<longrightarrow> (\<exists>s. dict_get (rt_sessions rt) p = Some s \<and> n < next_receive s)) \<and>
    (\<forall>p plan. dict_get (rt_plans rt) p = Some plan \<longrightarrow> dict_get (rt_sessions rt) p \<noteq> None \<and>
      0 \<le> sp_local_height plan \<and> sp_local_height plan < sp_target_height plan \<and>
      (sp_mode plan = ''SNAPSHOT'' \<longleftrightarrow> sc_threshold (rt_snapshot rt) \<le> sp_target_height plan - sp_local_height plan) \<and>
      (\<exists>c. dict_get (canonical_claims (rt_fork rt)) (sp_target_height plan) = Some c))"
proof -
  have ok: "runtime_ok rt"
    using assms by (rule runtime_reachable_ok)
  then have fork: "fork_ok (rt_fork rt)"
    using fork_reachable_ok by (simp add: runtime_ok_def)
  have "cl_height c = h \<and> cl_chain_id c = rt_chain rt \<and> (\<exists>s. at_height (rt_schedule rt) h = Inr s \<and> cl_total_power c = vs_total_power s)"
    if c: "dict_get (canonical_claims (rt_fork rt)) h = Some c" for h c
  proof -
    have "cl_height c = h \<and> cl_chain_id c = fk_chain_id (rt_fork rt) \<and> power_resolver (rt_fork rt) h = Some (cl_total_power c)"
      using fork map_of_SomeD [OF c] unfolding fork_ok_def by blast
    then show ?thesis
      using ok by (auto simp: runtime_ok_def schedule_resolver_def split: sum.splits)
  qed
  moreover have "lower (cl_block_hash c) = lower (cl_block_hash d)"
    if cd: "dict_get (claims (rt_fork rt)) p = Some c" "dict_get (claims (rt_fork rt)) q = Some d" "cl_height c = cl_height d" for p q c d
  proof -
    have "\<exists>e. dict_get (canonical_claims (rt_fork rt)) (cl_height c) = Some e \<and> lower (cl_block_hash e) = lower (cl_block_hash c)"
      "\<exists>e. dict_get (canonical_claims (rt_fork rt)) (cl_height d) = Some e \<and> lower (cl_block_hash e) = lower (cl_block_hash d)"
      using fork map_of_SomeD [OF cd(1)] map_of_SomeD [OF cd(2)] unfolding fork_ok_def by blast+
    then show ?thesis
      using cd(3) by auto
  qed
  moreover have "node_id (remote_peer s) = p \<and> hs_chain_id (local_peer s) = rt_chain rt \<and>
      lower (genesis_hash (local_peer s)) = fk_genesis_hash (rt_fork rt)" if "dict_get (rt_sessions rt) p = Some s" for p s
    using ok that unfolding runtime_ok_def runtime_sessions_ok_def by metis
  moreover have "\<exists>s. dict_get (rt_sessions rt) p = Some s \<and> n < next_receive s" if "dict_get (status_sequences rt) p = Some n" for p n
    using ok that unfolding runtime_ok_def status_sequences_ok_def by blast
  moreover have "plan_ok rt p plan" if "dict_get (rt_plans rt) p = Some plan" for p plan
    using ok that unfolding runtime_ok_def runtime_plans_ok_def by blast
  ultimately show ?thesis
    unfolding plan_ok_def by (intro conjI allI impI) blast+
qed

section \<open>A claim without votes\<close>

lemma halted_fork_step: "fork_step f f' \<Longrightarrow> safety_halted f \<Longrightarrow> safety_halted f'"
  by (auto simp: fork_step_def observe_def record_protocol_fault_def Let_def) (simp add: safety_halted_def)

lemma halted_fork_steps: "fork_step\<^sup>*\<^sup>* f f' \<Longrightarrow> safety_halted f \<Longrightarrow> safety_halted f'"
  by (induction rule: rtranclp_induct) (auto intro: halted_fork_step)

lemma fork_step_fault: "fork_step f (snd (record_protocol_fault f peer))"
  by (auto simp: fork_step_def)

lemma status_fork:
  assumes "receive_status rt verifier peer frame = (r, rt')"
  shows "fork_step\<^sup>*\<^sup>* (rt_fork rt) (rt_fork rt')"
proof (cases "runtime_session rt peer")
  case (Inl e)
  then show ?thesis using assms by (simp add: receive_status_def)
next
  case (Inr s)
  obtain x rt1 where body: "status_body rt verifier s peer frame = (x, rt1)"
    by (cases "status_body rt verifier s peer frame")
  have "fork_step (rt_fork rt) (rt_fork rt1)"
    using status_body_fork [OF body] by (auto simp: fork_step_def)
  moreover have "rt' = rt1 \<or> rt' = fault_peer rt1 peer"
    using assms Inr body by (auto simp: receive_status_def Let_def split: sum.splits if_splits)
  then have "rt_fork rt' = rt_fork rt1 \<or> fork_step (rt_fork rt1) (rt_fork rt')"
    by (auto simp: fault_peer_def fork_step_fault)
  ultimately show ?thesis
    by (auto intro: rtranclp.rtrancl_into_rtrancl)
qed

lemma catchup_fork:
  assumes "receive_catchup mode caught check rt verifier peer frame = (r, rt')"
  shows "rt_fork rt' = rt_fork rt \<or> fork_step (rt_fork rt) (rt_fork rt')"
  using assms fork_step_fault [of "rt_fork rt" peer]
  by (auto simp: receive_catchup_def Let_def put_session_def fault_peer_def split: sum.splits if_splits prod.splits)

lemma runtime_step_fork: "runtime_step rt rt' \<Longrightarrow> fork_step\<^sup>*\<^sup>* (rt_fork rt) (rt_fork rt')"
proof (induction rule: runtime_step.induct)
  case (planned rt signer peer local_height target plan rt')
  then show ?case
    by (auto simp: runtime_plan_def bindE_Inr_iff if_Inl_Inr_iff Let_def put_session_def split: if_splits)
qed (auto simp: runtime_register_def Let_def if_Inl_Inr_iff receive_block_range_def receive_snapshot_def
    dest!: catchup_fork status_fork)

lemma runtime_steps_fork: "runtime_step\<^sup>*\<^sup>* rt rt' \<Longrightarrow> fork_step\<^sup>*\<^sup>* (rt_fork rt) (rt_fork rt')"
  by (induction rule: rtranclp_induct) (auto dest: runtime_step_fork)

lemma halted_refuses_status:
  assumes "safety_halted (rt_fork rt)"
  shows "\<exists>e. fst (receive_status rt verifier peer frame) = Inl e"
proof -
  have "fst (status_body rt verifier s peer frame) \<noteq> Inr c" for s c
    using assms by (auto simp: status_body_def Let_def put_session_def observe_def split: sum.splits prod.splits)
  then have "\<exists>e rt1. status_body rt verifier s peer frame = (Inl e, rt1)" for s
    by (metis fst_conv sum.exhaust surj_pair)
  then show ?thesis
  proof (cases "runtime_session rt peer")
    case (Inr s)
    obtain e rt1 where "status_body rt verifier s peer frame = (Inl e, rt1)"
      using \<open>\<And>s. \<exists>e rt1. status_body rt verifier s peer frame = (Inl e, rt1)\<close> by blast
    then show ?thesis
      using Inr by (simp add: receive_status_def Let_def)
  qed (simp add: receive_status_def)
qed

lemma accepted_status:
  assumes "receive_status rt verifier peer frame = (Inr c, rt')"
  obtains s envelope s' where "runtime_session rt peer = Inr s" "receive_frame s verifier frame = Inr (envelope, s')"
    "claim_of_status peer (we_payload envelope) = Inr c" "observe (rt_fork rt) c = (Inr (fork_head (rt_fork rt')), rt_fork rt')"
    "eligible (rt_fork rt) c" "\<not> conflicts (rt_fork rt) c" "linked_below (rt_fork rt) c" "rt_fork rt' = noted (rt_fork rt) c"
proof -
  obtain s where s: "runtime_session rt peer = Inr s"
    using assms by (cases "runtime_session rt peer") (simp_all add: receive_status_def)
  have body: "status_body rt verifier s peer frame = (Inr c, rt')"
  proof -
    obtain x rt1 where "status_body rt verifier s peer frame = (x, rt1)"
      by (cases "status_body rt verifier s peer frame")
    then show ?thesis
      using assms s by (cases x) (simp_all add: receive_status_def Let_def split: if_splits)
  qed
  obtain envelope s' where received: "receive_frame s verifier frame = Inr (envelope, s')"
    using body by (cases "receive_frame s verifier frame") (auto simp: status_body_def)
  obtain c' where claim: "claim_of_status peer (we_payload envelope) = Inr c'"
    using body received by (cases "claim_of_status peer (we_payload envelope)") (simp_all add: status_body_def Let_def split: if_splits)
  obtain y f' where observed: "observe (rt_fork rt) c' = (y, f')"
    by (cases "observe (rt_fork rt) c'")
  have "c' = c \<and> (\<exists>x. y = Inr x) \<and> rt_fork rt' = f'"
    using body received claim observed
    by (cases y) (auto simp: status_body_def Let_def put_session_def split: if_splits)
  then obtain x where r: "claim_of_status peer (we_payload envelope) = Inr c" "observe (rt_fork rt) c = (Inr x, rt_fork rt')"
    using claim observed by auto
  have "rt_fork rt' = noted (rt_fork rt) c \<and> x = fork_head (noted (rt_fork rt) c) \<and>
      eligible (rt_fork rt) c \<and> \<not> conflicts (rt_fork rt) c \<and> linked_below (rt_fork rt) c"
    using r(2) by (cases rule: observe_cases [of "rt_fork rt" c]) auto
  then show thesis
    using that [OF s received r(1)] r(2) by simp
qed

lemma status_body_votes: "status_body (rt\<lparr>rt_vote_verifier := votes\<rparr>) verifier s peer frame =
    map_prod id (\<lambda>rt'. rt'\<lparr>rt_vote_verifier := votes\<rparr>) (status_body rt verifier s peer frame)"
proof (cases "receive_frame s verifier frame")
  case (Inr received)
  obtain envelope s' where received: "received = (envelope, s')"
    by (cases received)
  show ?thesis
  proof (cases "claim_of_status peer (we_payload envelope)")
    case claim: (Inr c)
    obtain y f' where "observe (rt_fork rt) c = (y, f')"
      by (cases "observe (rt_fork rt) c")
    then show ?thesis
      using Inr received claim by (cases y) (simp_all add: status_body_def put_session_def Let_def)
  qed (use Inr received in \<open>simp add: status_body_def put_session_def Let_def\<close>)
qed (simp add: status_body_def)

lemma session_votes: "runtime_session (rt\<lparr>rt_vote_verifier := votes\<rparr>) peer = runtime_session rt peer"
  by (simp add: runtime_session_def)

lemma status_without_votes: "receive_status (rt\<lparr>rt_vote_verifier := votes\<rparr>) verifier peer frame =
    map_prod id (\<lambda>rt'. rt'\<lparr>rt_vote_verifier := votes\<rparr>) (receive_status rt verifier peer frame)"
proof (cases "runtime_session rt peer")
  case (Inr s)
  obtain y rt1 where "status_body rt verifier s peer frame = (y, rt1)"
    by (cases "status_body rt verifier s peer frame")
  then show ?thesis
    using Inr by (cases y) (simp_all add: receive_status_def status_body_votes session_votes fault_peer_def Let_def)
qed (simp add: receive_status_def session_votes)

text \<open>
  C39. The runtime believes the voting power that a status states: no vote of a validator is looked at,
  with any vote verifier the claim is accepted alike. When a second peer then reports another block of
  that height, the fork choice halts with the message of conflicting certificates, the second peer gets
  the fault, and no later status of any peer is accepted in any further state.
\<close>

theorem uncertified_status_halts:
  assumes "receive_status rt verifier p f = (Inr c, rt1)"
    and "runtime_session rt1 q = Inr s" "receive_frame s verifier g = Inr (envelope, s')" "we_type envelope = STATUS"
    and "dict_get_default (status_sequences rt1) q (-1) < we_sequence envelope"
    and "claim_of_status q (we_payload envelope) = Inr d" "eligible (rt_fork rt1) d"
    and "cl_height d = cl_height c" "lower (cl_block_hash d) \<noteq> lower (cl_block_hash c)"
  shows "(\<forall>votes. receive_status (rt\<lparr>rt_vote_verifier := votes\<rparr>) verifier p f = (Inr c, rt1\<lparr>rt_vote_verifier := votes\<rparr>)) \<and>
    (\<exists>rt2. receive_status rt1 verifier q g = (Inl (SyncRuntimeError ''conflicting valid finality certificates detected''), rt2) \<and>
       faults (discipline (rt_fork rt2) q) = faults (discipline (rt_fork rt1) q) + 1 \<and>
       (\<forall>rt3 verifier' r h. runtime_step\<^sup>*\<^sup>* rt2 rt3 \<longrightarrow> (\<exists>e. fst (receive_status rt3 verifier' r h) = Inl e)))"
proof -
  have noted: "rt_fork rt1 = noted (rt_fork rt) c" "\<not> conflicts (rt_fork rt) c"
    using assms(1) by (rule accepted_status; simp)+
  then obtain e where e: "dict_get (canonical_claims (rt_fork rt1)) (cl_height c) = Some e" "lower (cl_block_hash e) = lower (cl_block_hash c)"
    by (cases "dict_get (canonical_claims (rt_fork rt)) (cl_height c)") (auto simp: noted_def conflicts_def)
  have observed: "\<exists>f'. observe (rt_fork rt1) d = (Inl (ConsensusSyncError ''conflicting valid finality certificates detected''), f') \<and>
      safety_halted f' \<and> discipline f' q = discipline (rt_fork rt1) q"
  proof (cases rule: observe_cases [of "rt_fork rt1" d])
    case (halted e')
    then show ?thesis by (auto simp: safety_halted_def discipline_def)
  qed (use assms(7-9) e in \<open>auto simp: conflicts_def\<close>)
  then obtain f' where f': "observe (rt_fork rt1) d = (Inl (ConsensusSyncError ''conflicting valid finality certificates detected''), f')"
      "safety_halted f'" "discipline f' q = discipline (rt_fork rt1) q"
    by blast
  have "json_keys (we_payload envelope) = set status_fields"
    using assms(3) by (rule receive_frame_Inr)
      (simp add: assms(4) validate_payload_def validate_status_def bindE_Inr_iff if_Inl_Inr_iff)
  then have body: "status_body rt1 verifier s q g =
      (Inl (ConsensusSyncError ''conflicting valid finality certificates detected''), (put_session rt1 q s')\<lparr>rt_fork := f'\<rparr>)"
    using assms(3-6) f'(1) by (simp add: status_body_def put_session_def)
  then obtain rt2 where rt2: "receive_status rt1 verifier q g =
      (Inl (SyncRuntimeError ''conflicting valid finality certificates detected''), rt2)"
      "rt_fork rt2 = snd (record_protocol_fault f' q)"
    using assms(2) f'(3) by (simp add: receive_status_def status_caught_def error_message_def fault_peer_def)
  have "safety_halted (rt_fork rt2)"
    using f'(2) rt2(2) halted_fork_step fork_step_fault by metis
  then have "\<exists>e. fst (receive_status rt3 verifier' r h) = Inl e" if "runtime_step\<^sup>*\<^sup>* rt2 rt3" for rt3 verifier' r h
    using halted_refuses_status halted_fork_steps runtime_steps_fork [OF that] by blast
  moreover have "faults (discipline (rt_fork rt2) q) = faults (discipline (rt_fork rt1) q) + 1"
    using status_fault [OF assms(2) rt2(1)] by (simp add: faulted_once_def)
  ultimately show ?thesis
    using rt2(1) status_without_votes [where rt = rt and verifier = verifier and peer = p and frame = f] assms(1) by auto
qed

section \<open>An honest peer is served\<close>

definition range_payload :: "json list \<Rightarrow> finality_proof list \<Rightarrow> (string \<times> json) list" where
  "range_payload bs proofs = [(''blocks'', JArr bs), (''finality_proofs'', JArr (map proof_to_payload proofs))]"

text \<open>A range that a plan waits for, with a proof for every block.\<close>

definition servable :: "sync_runtime \<Rightarrow> sync_plan \<Rightarrow> string \<Rightarrow> json list \<Rightarrow> finality_proof list \<Rightarrow> bool" where
  "servable rt plan local_hash bs proofs \<longleftrightarrow>
     json_ok (JArr bs) \<and> validate_block_range bs (JInt (sp_local_height plan + 1)) = Inr () \<and>
     list_all2 (\<lambda>b p. payload_ok p \<and> (\<exists>c. verify_proof (rt_chain rt) (rt_schedule rt) (rt_vote_verifier rt) p = Inr c \<and>
       check_binding (b, c) = Inr ())) bs proofs \<and>
     block_text (hd bs) ''parent_hash'' = lower local_hash \<and>
     sp_local_height plan + int (length bs) \<le> sp_target_height plan \<and>
     (\<forall>c. fork_head (rt_fork rt) = Some c \<and> sp_local_height plan + int (length bs) = sp_target_height plan \<longrightarrow>
       block_text (last bs) ''block_hash'' = lower (cl_block_hash c) \<and> block_text (last bs) ''state_root'' = lower (cl_state_root c))"

lemma members_canon: "json_ok b \<Longrightarrow> json_at (members_of (json_canon b)) k = json_canon (json_at (members_of b) k)"
proof (cases b)
  case (JObj ms)
  assume "json_ok b"
  moreover obtain ms' where "json_canon (JObj ms) = JObj ms'"
    by simp
  ultimately show ?thesis
    using json_at_canon_any [of ms ms' k] JObj by (simp add: members_of_def del: json_canon.simps)
qed (simp_all add: members_of_def json_at_def)

lemma block_text_canon: "json_ok b \<Longrightarrow> block_text (json_canon b) f = block_text b f"
  by (simp add: block_text_def members_canon)

lemma block_height_canon: "json_ok b \<Longrightarrow> block_height (json_canon b) = block_height b"
  by (simp add: block_height_def members_canon split: json.split)

lemma check_binding_canon: "json_ok b \<Longrightarrow> check_binding (json_canon b, c) = check_binding (b, c)"
  by (simp add: check_binding_def block_text_canon block_height_canon)

lemma served_range:
  assumes "servable rt plan local_hash bs proofs" "json_canon (JObj (range_payload bs proofs)) = JObj p"
    "we_type envelope = BLOCK_RANGE" "we_payload envelope = p"
  shows "\<exists>acc. check_range peer rt plan envelope local_hash = Inr acc \<and> ra_block_count acc = int (length bs) \<and>
    terminal_hash acc = block_text (last bs) ''block_hash''"
proof -
  note s = assms(1) [unfolded servable_def]
  have bs: "bs \<noteq> []" "linked_blocks (sp_local_height plan + 1) None bs" "\<forall>b \<in> set bs. json_ok b"
    using s validate_range_linked by (auto simp: list_all_iff)
  have "json_keys p = {''blocks'', ''finality_proofs''}"
    using json_keys_canon [OF assms(2)] by (simp add: range_payload_def json_keys_def)
  moreover have "json_at p ''blocks'' = JArr (map json_canon bs)"
      "json_at p ''finality_proofs'' = JArr (map json_canon (map proof_to_payload proofs))"
    using json_at_canon_any [OF assms(2)] by (simp_all add: range_payload_def json_at_def)
  moreover have "validate_block_range (map json_canon bs) (JInt (sp_local_height plan + 1)) = Inr ()"
    using validate_block_range_canon [of bs "JInt (sp_local_height plan + 1)"] s by simp
  moreover obtain cs where cs: "length cs = length bs"
      "\<forall>i < length bs. verify_proof (rt_chain rt) (rt_schedule rt) (rt_vote_verifier rt) (proofs ! i) = Inr (cs ! i) \<and>
         check_binding (bs ! i, cs ! i) = Inr ()"
  proof -
    have "\<forall>i < length bs. \<exists>c. verify_proof (rt_chain rt) (rt_schedule rt) (rt_vote_verifier rt) (proofs ! i) = Inr c \<and>
        check_binding (bs ! i, c) = Inr ()"
      using s by (auto simp: list_all2_conv_all_nth)
    then obtain f where f: "\<forall>i < length bs. verify_proof (rt_chain rt) (rt_schedule rt) (rt_vote_verifier rt) (proofs ! i) = Inr (f i) \<and>
        check_binding (bs ! i, f i) = Inr ()"
      by metis
    show thesis
      using that [of "map f [0..<length bs]"] f by simp
  qed
  have lengths: "length proofs = length bs" "\<forall>i < length bs. payload_ok (proofs ! i)"
    using s by (auto simp: list_all2_conv_all_nth)
  have "mapE (\<lambda>item. bindE (proof_from_payload item) (verify_proof (rt_chain rt) (rt_schedule rt) (rt_vote_verifier rt)))
      (map json_canon (map proof_to_payload proofs)) = Inr cs"
    unfolding mapE_Inr_iff using cs lengths by (simp add: list_all2_conv_all_nth proof_payload_roundtrip)
  moreover have "all_ok check_binding (zip (map json_canon bs) cs) = Inr ()"
    using cs bs(3) by (auto simp: all_ok_Inr_iff set_zip check_binding_canon)
  moreover have "block_height (last bs) = sp_local_height plan + int (length bs)"
    using linked_height [OF bs(2), of "length bs - 1"] bs(1) by (simp add: last_conv_nth of_nat_diff Suc_le_eq)
  moreover have "hd (map json_canon bs) = json_canon (hd bs)" "last (map json_canon bs) = json_canon (last bs)"
      "json_ok (hd bs)" "json_ok (last bs)"
    using bs(1,3) by (simp_all add: hd_map last_map)
  ultimately show ?thesis
    using s assms(3,4) lengths(1)
    by (auto simp: check_range_def Let_def block_text_canon block_height_canon split: option.split)
qed

lemma honest_delivery:
  assumes "servable rt plan local_hash bs proofs" "runtime_plan_of rt peer ''BLOCK_RANGE'' = Inr plan"
    and "runtime_session rt peer = Inr s" "sessions_in_step t s"
    and "send t signer BLOCK_RANGE (range_payload bs proofs) = Inr (frame, t')"
    and "\<And>m sig. signer m = Inr sig \<Longrightarrow> verifier peer m sig = Inr True"
    and "node_id (local_peer t) = peer"
  shows "\<exists>acc rt'. receive_block_range rt verifier peer frame local_hash = (Inr acc, rt') \<and>
    ra_block_count acc = int (length bs) \<and> terminal_hash acc = block_text (last bs) ''block_hash''"
proof -
  obtain p where p: "json_canon (JObj (range_payload bs proofs)) = JObj p"
    by simp
  have ok: "json_ok (JObj (range_payload bs proofs))"
    using assms(1) by (simp add: servable_def range_payload_def list_all_iff)
  obtain envelope s' where e: "receive_frame s verifier frame = Inr (envelope, s')" "we_type envelope = BLOCK_RANGE"
      "we_payload envelope = p"
    using send_receive [OF assms(4) ok assms(5) p, of verifier] assms(6,7) by blast
  have "servable (put_session rt peer s') plan local_hash bs proofs"
    using assms(1) by (simp add: servable_def put_session_def)
  from served_range [OF this p e(2,3)] obtain acc where
    "check_range peer (put_session rt peer s') plan envelope local_hash = Inr acc"
    "ra_block_count acc = int (length bs)" "terminal_hash acc = block_text (last bs) ''block_hash''"
    by blast
  then show ?thesis
    using assms(2,3) e(1) by (simp add: receive_block_range_def receive_catchup_def Let_def)
qed

text \<open>
  C26. An honest peer completes a catch-up: when a peer at the other end of the session sends the blocks
  a plan waits for, with a finality proof for each that the set of its height verifies, the runtime
  accepts the range, up to the last block.
\<close>

theorem honest_range_accepted:
  assumes "runtime_reachable rt" "servable rt plan local_hash bs proofs" "dict_get (rt_plans rt) peer = Some plan"
    and "sp_mode plan = ''BLOCK_RANGE''" "\<not> quarantined (discipline (rt_fork rt) peer)"
    and "dict_get (rt_sessions rt) peer = Some s" "sessions_in_step t s"
    and "send t signer BLOCK_RANGE (range_payload bs proofs) = Inr (frame, t')"
    and "\<forall>m sig. signer m = Inr sig \<longrightarrow> verifier peer m sig = Inr True"
  shows "\<exists>acc rt'. receive_block_range rt verifier peer frame local_hash = (Inr acc, rt') \<and>
    ra_block_count acc = int (length bs) \<and> terminal_hash acc = block_text (last bs) ''block_hash''"
proof (rule honest_delivery [OF assms(2) _ _ assms(7,8)])
  show "runtime_plan_of rt peer ''BLOCK_RANGE'' = Inr plan"
    using assms(3,4) by (simp add: runtime_plan_of_def)
  show "runtime_session rt peer = Inr s"
    using assms(5,6) by (simp add: runtime_session_def)
  show "\<And>m sig. signer m = Inr sig \<Longrightarrow> verifier peer m sig = Inr True"
    using assms(9) by blast
  have "node_id (remote_peer s) = peer"
    using runtime_reachable_ok [OF assms(1)] assms(6) unfolding runtime_ok_def runtime_sessions_ok_def by metis
  then show "node_id (local_peer t) = peer"
    using assms(7) by (simp add: sessions_in_step_def)
qed

section \<open>A sample catch-up\<close>

text \<open>A bound on the length of a text that does not look into its strings.\<close>

primrec json_bound :: "json \<Rightarrow> int" where
  "json_bound JNull = 4"
| "json_bound (JBool b) = 5"
| "json_bound (JInt i) = int (length (int_str i))"
| "json_bound (JStr s) = 6 * int (length s) + 2"
| "json_bound (JArr vs) = sum_list (map (\<lambda>n. n + 1) (map json_bound vs)) + 2"
| "json_bound (JObj ms) = sum_list (map (\<lambda>m. 6 * int (length (fst m)) + 4 + snd m) (map (map_prod id json_bound) ms)) + 2"

lemma length_escape: "length (json_escape c) \<le> 6"
  by (simp add: json_escape_def)

lemma length_quote: "length (json_quote s) \<le> 6 * length s + 2"
proof -
  have "length (concat (map json_escape s)) \<le> 6 * length s"
    by (induction s) (use length_escape in \<open>auto intro: add_mono\<close>)
  then show ?thesis
    by (simp add: json_quote_def)
qed

lemma length_join: "int (length (join [c] ss)) \<le> sum_list (map (\<lambda>s. int (length s) + 1) ss)"
  by (induction "[c]" ss rule: join.induct) auto

lemma length_render: "int (length (json_render v)) \<le> json_bound v"
proof (induction v)
  case (JStr s)
  then show ?case using length_quote [of s] by simp
next
  case (JArr vs)
  have "int (length (join [CHR '','']  (map json_render vs))) \<le> (\<Sum>v \<leftarrow> vs. int (length (json_render v)) + 1)"
    using length_join [of "CHR '',''" "map json_render vs"] by (simp only: map_map comp_def)
  also have "\<dots> \<le> (\<Sum>v \<leftarrow> vs. json_bound v + 1)"
    using JArr by (intro sum_list_mono) simp
  finally have "int (length (join [CHR '','']  (map json_render vs))) \<le> sum_list (map (\<lambda>n. n + 1) (map json_bound vs))"
    by (simp only: map_map comp_def)
  then show ?case
    by (simp only: json_render.simps json_bound.simps length_append list.size of_nat_add)
next
  case (JObj ms)
  have member: "int (length (json_member (fst m, json_render (snd m)))) + 1 \<le> 6 * int (length (fst m)) + 4 + json_bound (snd m)" if "m \<in> set ms" for m
  proof -
    have "int (length (json_render (snd m))) \<le> json_bound (snd m)"
      using JObj [OF that] by (cases m) simp
    then show ?thesis
      using length_quote [of "fst m"] by (simp add: json_member_def)
  qed
  have "int (length (join [CHR '',''] (map json_member (map (map_prod id json_render) ms)))) \<le>
      (\<Sum>m \<leftarrow> ms. int (length (json_member (fst m, json_render (snd m)))) + 1)"
    using length_join [of "CHR '',''" "map json_member (map (map_prod id json_render) ms)"]
    by (simp only: map_map comp_def map_prod_def case_prod_beta id_apply)
  also have "\<dots> \<le> (\<Sum>m \<leftarrow> ms. 6 * int (length (fst m)) + 4 + json_bound (snd m))"
    using member by (intro sum_list_mono) simp
  finally have "int (length (join [CHR '',''] (map json_member (map (map_prod id json_render) ms)))) \<le>
      sum_list (map (\<lambda>m. 6 * int (length (fst m)) + 4 + snd m) (map (map_prod id json_bound) ms))"
    by (simp only: map_map comp_def map_prod_def case_prod_beta id_apply fst_conv snd_conv)
  then show ?case
    by (simp only: json_render.simps json_bound.simps length_append list.size of_nat_add)
qed simp_all

lemma json_bound_canon: "json_bound (json_canon v) = json_bound v"
proof (induction v)
  case (JArr vs)
  then show ?case by (simp add: comp_def cong: map_cong)
next
  case (JObj ms)
  have "(\<Sum>m \<leftarrow> sort_key fst (map (map_prod id json_canon) ms). 6 * int (length (fst m)) + 4 + json_bound (snd m)) =
      (\<Sum>m \<leftarrow> ms. 6 * int (length (fst m)) + 4 + json_bound (json_canon (snd m)))"
    unfolding sum_list_sort_key by (simp add: comp_def map_prod_def case_prod_beta)
  also have "\<dots> = (\<Sum>m \<leftarrow> ms. 6 * int (length (fst m)) + 4 + json_bound (snd m))"
    using JObj by (intro arg_cong [where f = sum_list] map_cong refl) force
  finally show ?case
    by (simp add: comp_def map_prod_def case_prod_beta)
qed simp_all

lemma length_dumps: "int (length (json_dumps v)) \<le> json_bound v"
  using length_render [of "json_canon v"] by (simp add: json_dumps_def json_bound_canon)

lemma stamped_send:
  assumes "validate_kind t p = Inr ()" "json_bound (JObj p) \<le> 100000" "next_send s \<in> {0, 1}"
  shows "\<exists>f. send s stamp t p = Inr (f, s\<lparr>next_send := next_send s + 1\<rparr>)"
proof -
  have "validate_payload t p = Inr ()"
    using assms(1,2) length_dumps [of "JObj p"] by (simp add: validate_payload_def wire_canonical_def MAX_FRAME_BYTES_def)
  moreover have "json_bound (JObj (envelope_json t (next_send s) p ''s'')) \<le> json_bound (JObj p) + 1000"
  proof -
    have "length (type_value t) \<le> 17"
      by (cases t) simp_all
    moreover have "length (int_str (next_send s)) \<le> 1"
      using assms(3) by (auto simp: int_str_def) code_simp+
    ultimately show ?thesis
      by (simp add: envelope_json_def unsigned_json_def)
  qed
  then have "int (length (json_dumps (JObj (envelope_json t (next_send s) p ''s'')))) \<le> 101000"
    using length_dumps [of "JObj (envelope_json t (next_send s) p ''s'')"] assms(2) by linarith
  ultimately show ?thesis
    using assms(3) by (auto simp: send_Inr encode_frame_Inr stamp_def MAX_FRAME_BYTES_def MAX_SIGNATURE_BYTES_def MAX_SEQUENCE_def)
qed

lemma digit_lengths: "length (int_str 0) = 1" "length (int_str 1) = 1" "length (int_str 3) = 1" "length (int_str 7) = 1"
  by code_simp+

definition carol :: handshake where
  "carol = alice\<lparr>node_id := ''carol'', session_nonce := wire_value (CHR ''4'')\<rparr>"

definition runtime_fork :: fork_choice where
  "runtime_fork = \<lparr>fk_chain_id = 7, fk_genesis_hash = wire_value (CHR ''0''), fk_expected_power = 3,
     power_resolver = schedule_resolver [sample_set], quarantine_threshold = 2, claims = [], canonical_claims = [],
     disciplines = [], safety_halt = None\<rparr>"

definition sample_runtime :: "(string, session) dict \<Rightarrow> sync_runtime" where
  "sample_runtime sessions = \<lparr>rt_chain = 7, rt_schedule = [sample_set], rt_vote_verifier = trusting, rt_fork = runtime_fork,
     rt_snapshot = \<lparr>sc_chain_id = 7, sc_threshold = 10\<rparr>, rt_sessions = sessions, status_sequences = [], rt_plans = []\<rparr>"

definition both_sessions :: "(string, session) dict" where
  "both_sessions = [(''bob'', alice_session), (''carol'', alice_session\<lparr>remote_peer := carol\<rparr>)]"

definition carol_session :: session where
  "carol_session = alice_session\<lparr>local_peer := carol, remote_peer := alice\<rparr>"

lemma sample_genesis: "is_hash32 (wire_value (CHR ''0''))" "lower (wire_value (CHR ''0'')) = wire_value (CHR ''0'')"
  by code_simp+

lemma cs_hash_ok: "is_hash32 h \<Longrightarrow> cs_hash h f = Inr ()"
  by (simp add: cs_hash_Inr)

lemma sample_runtime_started: "sync_runtime_init 7 (wire_value (CHR ''0'')) 3 7 [sample_set] trusting 10 2 = Inr (sample_runtime [])"
proof -
  have "vs_total_power sample_set = 3"
    by (simp add: vs_total_power_def sample_set_def sample_validators_def)
  then show ?thesis
    by (simp add: sync_runtime_init_def sample_at_height fork_choice_init_def cs_hash_ok sample_genesis(1)
        sample_genesis(2) snapshot_catchup_init_def sample_runtime_def runtime_fork_def)
qed

lemma sample_runtime_reachable: "runtime_reachable (sample_runtime both_sessions)"
proof -
  have names: "node_id bob = ''bob''" "node_id carol = ''carol''" "genesis_hash alice = wire_value (CHR ''0'')" "hs_chain_id alice = 7"
    by (simp_all add: alice_def bob_def carol_def)
  have "runtime_reachable (sample_runtime [])"
    by (rule started [OF sample_runtime_started sample_scheduled])
  moreover have "runtime_register (sample_runtime []) alice_session = Inr (''bob'', sample_runtime [(''bob'', alice_session)])"
    by (simp add: runtime_register_def sample_runtime_def alice_session_def names runtime_fork_def sample_genesis Let_def)
  moreover have "runtime_register (sample_runtime [(''bob'', alice_session)]) (alice_session\<lparr>remote_peer := carol\<rparr>) =
      Inr (''carol'', sample_runtime both_sessions)"
    by (simp add: runtime_register_def sample_runtime_def alice_session_def names runtime_fork_def sample_genesis both_sessions_def Let_def)
  ultimately show ?thesis
    by (meson runtime_reachable.step runtime_step.registered)
qed

definition sample_status :: "string \<Rightarrow> (string \<times> json) list" where
  "sample_status b = [(''chain_id'', JInt 7), (''genesis_hash'', JStr (wire_value (CHR ''0''))), (''height'', JInt 1),
     (''block_hash'', JStr b), (''parent_hash'', JStr (wire_value (CHR ''0''))), (''state_root'', JStr block_y),
     (''signed_power'', JInt 3), (''total_power'', JInt 3)]"

definition stated_claim :: "string \<Rightarrow> string \<Rightarrow> finalized_claim" where
  "stated_claim peer b = \<lparr>peer_id = peer, cl_chain_id = 7, cl_genesis_hash = wire_value (CHR ''0''), cl_height = 1,
     cl_block_hash = b, cl_parent_hash = wire_value (CHR ''0''), cl_state_root = block_y, cl_signed_power = 3, cl_total_power = 3\<rparr>"

lemma canonical_hash_ok: "is_hash32 h \<Longrightarrow> lower h = h \<Longrightarrow> canonical_hash (JStr h) f = Inr h"
  by (simp add: canonical_hash_def wire_hash_def is_hash32_def)

lemma sample_status_ok:
  assumes "is_hash32 b" "lower b = b"
  shows "validate_kind STATUS (sample_status b) = Inr ()" "json_ok (JObj (sample_status b))" "json_bound (JObj (sample_status b)) \<le> 100000"
proof -
  have length: "length b = 66"
    using assms(1) by (simp add: is_hash32_def)
  show "validate_kind STATUS (sample_status b) = Inr ()"
    using assms sample_genesis sample_blocks
    by (simp add: validate_status_def sample_status_def json_keys_def status_fields_def status_number_def int_at_least_def
        json_at_def all_ok_def canonical_hash_ok)
  show "json_ok (JObj (sample_status b))"
    by (simp add: sample_status_def)
  show "json_bound (JObj (sample_status b)) \<le> 100000"
    by (simp add: sample_status_def length wire_value_def block_y_def digit_lengths)
qed

lemma sample_claimed:
  assumes "is_hash32 b" "peer \<noteq> []" "json_canon (JObj (sample_status b)) = JObj p"
  shows "claim_of_status peer p = Inr (stated_claim peer b)"
proof -
  have at: "json_at p k = json_canon (json_at (sample_status b) k)" for k
    by (rule json_at_canon_any [OF assms(3)]) (simp add: sample_status_def)
  have fields: "json_at (sample_status b) ''chain_id'' = JInt 7" "json_at (sample_status b) ''genesis_hash'' = JStr (wire_value (CHR ''0''))"
      "json_at (sample_status b) ''height'' = JInt 1" "json_at (sample_status b) ''block_hash'' = JStr b"
      "json_at (sample_status b) ''parent_hash'' = JStr (wire_value (CHR ''0''))" "json_at (sample_status b) ''state_root'' = JStr block_y"
      "json_at (sample_status b) ''signed_power'' = JInt 3" "json_at (sample_status b) ''total_power'' = JInt 3"
    by (simp_all add: sample_status_def json_at_def)
  have "claim_post_init (stated_claim peer b) = Inr ()"
    using assms(1,2) sample_genesis(1) sample_blocks(2) by (simp add: claim_post_init_def stated_claim_def cs_hash_ok)
  then show ?thesis
    by (simp add: claim_of_status_def at fields int_field_def str_field_def stated_claim_def)
qed


lemma observe_accepts:
  assumes "eligible f c" "\<not> conflicts f c" "linked_below f c"
  shows "observe f c = (Inr (fork_head (noted f c)), noted f c)"
  using assms by (cases rule: observe_cases [of f c]) (auto simp: conflicts_def)

lemma status_delivered:
  assumes "is_hash32 b" "lower b = b" "peer = node_id (local_peer t)" "peer \<noteq> []" "next_send t \<in> {0, 1}"
    and "runtime_session rt peer = Inr s" "sessions_in_step t s"
  obtains f t' envelope s' where "send t stamp STATUS (sample_status b) = Inr (f, t')"
    "receive_frame s accepting f = Inr (envelope, s')" "we_type envelope = STATUS" "we_sequence envelope = next_send t"
    "json_keys (we_payload envelope) = set status_fields"
    "claim_of_status peer (we_payload envelope) = Inr (stated_claim peer b)" "s' = s\<lparr>next_receive := next_receive s + 1\<rparr>"
    "sessions_in_step t' s'" "t' = t\<lparr>next_send := next_send t + 1\<rparr>"
proof -
  note ok = sample_status_ok [OF assms(1,2)]
  obtain f where f: "send t stamp STATUS (sample_status b) = Inr (f, t\<lparr>next_send := next_send t + 1\<rparr>)"
    using stamped_send [OF ok(1,3) assms(5)] by blast
  obtain p where p: "json_canon (JObj (sample_status b)) = JObj p"
    by simp
  have keys: "json_keys p = set status_fields"
    using json_keys_canon [OF p] by (auto simp: sample_status_def json_keys_def status_fields_def)
  obtain e r where "receive_frame s accepting f = Inr (e, r)" "we_type e = STATUS" "we_sequence e = next_send t" "we_payload e = p"
      "sessions_in_step (t\<lparr>next_send := next_send t + 1\<rparr>) r" "r = s\<lparr>next_receive := next_receive s + 1\<rparr>"
    using send_receive [OF assms(7) ok(2) f p, of accepting] by (auto simp: accepting_def)
  then show thesis
    using that [OF f] keys sample_claimed [OF assms(1,4) p] by simp
qed

lemma status_accepted:
  assumes "runtime_session rt peer = Inr s" "receive_frame s accepting f = Inr (envelope, s')" "we_type envelope = STATUS"
    and "json_keys (we_payload envelope) = set status_fields" "claim_of_status peer (we_payload envelope) = Inr c"
    and "dict_get_default (status_sequences rt) peer (-1) < we_sequence envelope"
    and "eligible (rt_fork rt) c" "\<not> conflicts (rt_fork rt) c" "linked_below (rt_fork rt) c"
  shows "receive_status rt accepting peer f = (Inr c, (put_session rt peer s')\<lparr>rt_fork := noted (rt_fork rt) c,
      status_sequences := dict_set peer (we_sequence envelope) (status_sequences rt)\<rparr>)"
  using assms by (simp add: receive_status_def status_body_def put_session_def observe_accepts Let_def)

definition sample_synced :: sync_runtime where
  "sample_synced = (sample_runtime both_sessions)\<lparr>rt_sessions :=
       [(''bob'', alice_session\<lparr>next_receive := 1\<rparr>), (''carol'', alice_session\<lparr>remote_peer := carol\<rparr>)],
     rt_fork := noted runtime_fork (stated_claim ''bob'' block_x), status_sequences := [(''bob'', 0)]\<rparr>"

lemma sample_power_resolved: "schedule_resolver [sample_set] 1 = Some 3"
  by (simp add: schedule_resolver_def at_height_def sample_set_def vs_total_power_def sample_validators_def)

lemma sample_sessions_known:
  "runtime_session (sample_runtime both_sessions) ''bob'' = Inr alice_session"
  "runtime_session sample_synced ''carol'' = Inr (alice_session\<lparr>remote_peer := carol\<rparr>)"
  "runtime_session sample_synced ''bob'' = Inr (alice_session\<lparr>next_receive := 1\<rparr>)"
  by (simp_all add: runtime_session_def sample_synced_def sample_runtime_def both_sessions_def runtime_fork_def noted_def
      discipline_def dict_get_default_def)

lemma sample_status_received:
  "\<exists>f. receive_status (sample_runtime both_sessions) accepting ''bob'' f = (Inr (stated_claim ''bob'' block_x), sample_synced)"
proof -
  have step: "sessions_in_step bob_session alice_session"
    by code_simp
  have name: "''bob'' = node_id (local_peer bob_session)" "next_send bob_session = 0"
    by (simp_all add: bob_session_def bob_def)
  obtain f t' envelope s' where f: "receive_frame alice_session accepting f = Inr (envelope, s')" "we_type envelope = STATUS"
      "we_sequence envelope = 0" "json_keys (we_payload envelope) = set status_fields"
      "claim_of_status ''bob'' (we_payload envelope) = Inr (stated_claim ''bob'' block_x)" "s' = alice_session\<lparr>next_receive := 1\<rparr>"
    by (rule status_delivered [OF sample_blocks(1,3) name(1) _ _ sample_sessions_known(1) step])
      (simp_all add: name(2), simp_all add: alice_session_def)
  have fork: "rt_fork (sample_runtime both_sessions) = runtime_fork" "status_sequences (sample_runtime both_sessions) = []"
    by (simp_all add: sample_runtime_def)
  have "eligible runtime_fork (stated_claim ''bob'' block_x)" "\<not> conflicts runtime_fork (stated_claim ''bob'' block_x)"
      "linked_below runtime_fork (stated_claim ''bob'' block_x)"
    using sample_genesis(2)
    by (simp_all add: eligible_def conflicts_def linked_below_def runtime_fork_def stated_claim_def sample_power_resolved
        safety_halted_def discipline_def dict_get_default_def)
  then show ?thesis
    using status_accepted [OF sample_sessions_known(1) f(1,2,4,5)] f(3,6) fork
    by (auto simp: put_session_def sample_synced_def both_sessions_def dict_get_default_def sample_runtime_def)
qed

lemma sample_synced_reachable: "runtime_reachable sample_synced"
  using sample_runtime_reachable sample_status_received by (meson runtime_reachable.step runtime_step.status)


definition range_votes :: "finality_vote list" where
  "range_votes = map (\<lambda>i. (sample_vote block_x 0 i)\<lparr>fv_height := 1\<rparr>) [''a'', ''b'', ''c'']"

definition range_digest :: string where
  "range_digest = certificate_digest 7 1 0 block_x 3 3 [''a'', ''b'', ''c''] (map vote_hash range_votes)"

definition range_proof :: finality_proof where
  "range_proof = \<lparr>fp_chain_id = 7, fp_height = 1, fp_round = 0, fp_block_hash = block_x, fp_validator_set_hash = set_hash sample_set,
     fp_votes = range_votes, fp_certificate_hash = range_digest\<rparr>"

definition range_block :: json where
  "range_block = JObj [(''height'', JInt 1), (''block_hash'', JStr block_x), (''parent_hash'', JStr (wire_value (CHR ''0''))),
     (''state_root'', JStr block_y), (''certificate_hash'', JStr range_digest)]"

lemma range_proof_verified:
  "\<exists>c. verify_proof 7 [sample_set] trusting range_proof = Inr c \<and> check_binding (range_block, c) = Inr ()"
proof -
  have power: "(\<Sum>w \<leftarrow> range_votes. power_of (set_pairs sample_set) (fv_validator_id w)) = 3"
    "vs_total_power sample_set = 3" "length (vs_validators sample_set) = 3"
    by (simp_all add: range_votes_def sample_vote_def set_pairs_def sample_set_def sample_validators_def power_of_def
        vs_total_power_def)
  have sorted: "sort_key fv_validator_id range_votes = range_votes"
    by (rule sort_key_id_if_sorted) (simp add: range_votes_def sample_vote_def less_eq_char_def less_char_def)
  have votes: "vote_for trusting 7 (set_pairs sample_set) 1 0 block_x w" if "w \<in> set range_votes" for w
    using that sample_blocks
    by (auto simp: vote_for_def range_votes_def sample_vote_def trusting_def set_pairs_def sample_set_def sample_validators_def)
  have ids: "map fv_validator_id range_votes = [''a'', ''b'', ''c'']" "length range_votes = 3" "range_votes \<noteq> []"
    by (simp_all add: range_votes_def sample_vote_def)
  let ?c = "certificate_of 7 3 1 0 block_x 3 range_votes"
  have hash: "certificate_hash ?c = range_digest" "lower range_digest = range_digest" "is_hash32 range_digest"
    by (simp_all add: certificate_of_def range_digest_def ids certificate_digest_def)
  have "at_height [sample_set] 1 = Inr sample_set"
    by (simp add: at_height_def sample_set_def)
  then have "verify_proof 7 [sample_set] trusting range_proof = Inr ?c"
    unfolding verify_proof_Inr [OF sample_scheduled]
    using sample_blocks votes hash ids
    by (simp add: range_proof_def power sorted set_hash_def)
  moreover have "check_binding (range_block, ?c) = Inr ()"
    using sample_blocks(3) hash(2)
    by (simp add: check_binding_def hash block_height_def block_text_def members_of_def json_at_def range_block_def text_of_def)
       (simp add: certificate_of_def)
  ultimately show ?thesis
    by blast
qed

definition range_plan :: "bytes \<Rightarrow> sync_plan" where
  "range_plan frame = \<lparr>sp_peer_id = ''bob'', sp_mode = ''BLOCK_RANGE'', sp_local_height = 0, sp_target_height = 1, request_frame = frame\<rparr>"

definition sample_planned :: "bytes \<Rightarrow> sync_runtime" where
  "sample_planned frame = sample_synced\<lparr>rt_sessions :=
       [(''bob'', alice_session\<lparr>next_send := 1, next_receive := 1\<rparr>), (''carol'', alice_session\<lparr>remote_peer := carol\<rparr>)],
     rt_plans := [(''bob'', range_plan frame)]\<rparr>"

lemma synced_head: "fork_head (noted runtime_fork (stated_claim ''bob'' block_x)) = Some (stated_claim ''bob'' block_x)"
  by (simp add: fork_head_def noted_def runtime_fork_def stated_claim_def)

lemma sample_plan_made: "\<exists>frame. runtime_plan sample_synced stamp ''bob'' 0 1 = Inr (range_plan frame, sample_planned frame)"
proof -
  let ?p = "[(''start_height'', JInt 1), (''limit'', JInt 1)]"
  have "validate_kind GET_BLOCK_RANGE ?p = Inr ()"
    by (simp add: validate_range_request_def json_keys_def json_at_def int_at_least_def MAX_BLOCK_RANGE_def)
  then obtain f where f: "send (alice_session\<lparr>next_receive := 1\<rparr>) stamp GET_BLOCK_RANGE ?p =
      Inr (f, alice_session\<lparr>next_receive := 1, next_send := 1\<rparr>)"
    using stamped_send [of GET_BLOCK_RANGE ?p "alice_session\<lparr>next_receive := 1\<rparr>"]
    by (auto simp: alice_session_def digit_lengths)
  have "fork_head (rt_fork sample_synced) = Some (stated_claim ''bob'' block_x)" "rt_snapshot sample_synced = \<lparr>sc_chain_id = 7, sc_threshold = 10\<rparr>"
    by (simp_all add: sample_synced_def synced_head sample_runtime_def)
  then show ?thesis
    using f
    by (simp add: runtime_plan_def sample_sessions_known(3) choose_mode_def stated_claim_def Let_def put_session_def)
       (auto simp: sample_planned_def range_plan_def sample_synced_def sample_runtime_def)
qed

lemma sample_planned_reachable: "\<exists>frame. runtime_reachable (sample_planned frame)"
  using sample_plan_made sample_synced_reachable by (meson runtime_reachable.step runtime_step.planned)

lemma range_servable: "servable (sample_planned frame) (range_plan frame) (wire_value (CHR ''0'')) [range_block] [range_proof]"
proof -
  have "validate_block_range [range_block] (JInt 1) = Inr ()"
    using sample_blocks sample_genesis
    by (simp add: validate_block_range_def int_at_least_def MAX_BLOCK_RANGE_def check_block_def range_block_def range_fields_def
        json_keys_def json_at_def py_eq_def canonical_hash_ok range_digest_def certificate_digest_def)
  moreover have "payload_ok range_proof"
    by (simp add: payload_ok_def range_proof_def range_votes_def sample_vote_def)
  moreover have "json_ok range_block"
    by (simp add: range_block_def)
  moreover have "fork_head (rt_fork (sample_planned frame)) = Some (stated_claim ''bob'' block_x)"
    by (simp add: sample_planned_def sample_synced_def synced_head)
  ultimately show ?thesis
    using range_proof_verified
    by (simp add: servable_def sample_planned_def sample_synced_def sample_runtime_def range_plan_def)
       (simp add: block_text_def members_of_def range_block_def json_at_def text_of_def stated_claim_def)
qed

lemma range_sent:
  "\<exists>f t. send (bob_session\<lparr>next_send := 1\<rparr>) stamp BLOCK_RANGE (range_payload [range_block] [range_proof]) = Inr (f, t)"
proof -
  have lengths: "length block_x = 66" "length block_y = 66" "length range_digest = 66" "length (set_hash sample_set) = 66"
    by (simp_all add: block_x_def block_y_def range_digest_def certificate_digest_def set_hash_def)
  have "validate_block_range [range_block] (JInt 1) = Inr ()"
    using range_servable by (simp add: servable_def range_plan_def)
  then have "validate_kind BLOCK_RANGE (range_payload [range_block] [range_proof]) = Inr ()"
    by (simp add: validate_range_def range_payload_def json_keys_def json_at_def MAX_BLOCK_RANGE_def)
       (simp add: range_block_def json_at_def is_object_def proof_to_payload_def)
  moreover have "json_bound (JObj (range_payload [range_block] [range_proof])) \<le> 100000"
    by (simp add: range_payload_def range_block_def proof_to_payload_def vote_to_payload_def range_proof_def range_votes_def
        sample_vote_def lengths digit_lengths wire_value_def)
  ultimately show ?thesis
    using stamped_send [of BLOCK_RANGE "range_payload [range_block] [range_proof]" "bob_session\<lparr>next_send := 1\<rparr>"]
    by (auto simp del: json_bound.simps validate_kind.simps)
qed


lemma sample_in_step: "sessions_in_step (bob_session\<lparr>next_send := 1\<rparr>) (alice_session\<lparr>next_send := 1, next_receive := 1\<rparr>)"
  by code_simp

lemma sample_accepts: "\<forall>m sig. stamp m = Inr sig \<longrightarrow> accepting peer m sig = Inr True"
  by (simp add: accepting_def)

lemma planned_parts:
  "dict_get (rt_plans (sample_planned frame)) ''bob'' = Some (range_plan frame)" "sp_mode (range_plan frame) = ''BLOCK_RANGE''"
  "dict_get (rt_sessions (sample_planned frame)) ''bob'' = Some (alice_session\<lparr>next_send := 1, next_receive := 1\<rparr>)"
  "\<not> quarantined (discipline (rt_fork (sample_planned frame)) ''bob'')" "rt_schedule (sample_planned frame) = [sample_set]"
  by (simp_all add: sample_planned_def range_plan_def sample_synced_def noted_def runtime_fork_def discipline_def
      dict_get_default_def sample_runtime_def)

lemma sample_range_accepted:
  "\<exists>f acc rt'. receive_block_range (sample_planned frame) accepting ''bob'' f (wire_value (CHR ''0'')) = (Inr acc, rt')"
proof -
  obtain f t where f: "send (bob_session\<lparr>next_send := 1\<rparr>) stamp BLOCK_RANGE (range_payload [range_block] [range_proof]) = Inr (f, t)"
    using range_sent by blast
  have known: "runtime_plan_of (sample_planned frame) ''bob'' ''BLOCK_RANGE'' = Inr (range_plan frame)"
      "runtime_session (sample_planned frame) ''bob'' = Inr (alice_session\<lparr>next_send := 1, next_receive := 1\<rparr>)"
    using planned_parts by (simp_all add: runtime_plan_of_def runtime_session_def)
  have name: "node_id (local_peer (bob_session\<lparr>next_send := 1\<rparr>)) = ''bob''"
    by (simp add: bob_session_def bob_def)
  then show ?thesis
    using honest_delivery [OF range_servable known sample_in_step f _ name, of accepting] sample_accepts by blast
qed


lemma honest_range_accepted_witness:
  "\<exists>frame f acc rt'. receive_block_range (sample_planned frame) accepting ''bob'' f (wire_value (CHR ''0'')) = (Inr acc, rt') \<and>
     ra_block_count acc = 1"
proof -
  obtain frame where reachable: "runtime_reachable (sample_planned frame)"
    using sample_planned_reachable by blast
  obtain f t where f: "send (bob_session\<lparr>next_send := 1\<rparr>) stamp BLOCK_RANGE (range_payload [range_block] [range_proof]) = Inr (f, t)"
    using range_sent by blast
  from honest_range_accepted [where verifier = accepting, OF reachable range_servable planned_parts(1,2,4,3) sample_in_step f sample_accepts] show ?thesis
    by auto
qed


lemma sync_runtime_consistent_witness:
  "\<exists>frame c. dict_get (rt_plans (sample_planned frame)) ''bob'' = Some (range_plan frame) \<and>
     dict_get (canonical_claims (rt_fork (sample_planned frame))) (sp_target_height (range_plan frame)) = Some c"
proof -
  obtain frame where "runtime_reachable (sample_planned frame)"
    using sample_planned_reachable by blast
  from sync_runtime_consistent [OF this] show ?thesis
    using planned_parts(1) [of frame] by blast
qed

lemma uncertified_status_halts_witness:
  "\<exists>f rt'. receive_status sample_synced accepting ''carol'' f =
       (Inl (SyncRuntimeError ''conflicting valid finality certificates detected''), rt')"
proof -
  obtain g where accepted: "receive_status (sample_runtime both_sessions) accepting ''bob'' g = (Inr (stated_claim ''bob'' block_x), sample_synced)"
    using sample_status_received by blast
  have step: "sessions_in_step carol_session (alice_session\<lparr>remote_peer := carol\<rparr>)"
    by code_simp
  have name: "''carol'' = node_id (local_peer carol_session)" "next_send carol_session = 0"
    by (simp_all add: carol_session_def carol_def alice_session_def)
  obtain f envelope s' where f: "receive_frame (alice_session\<lparr>remote_peer := carol\<rparr>) accepting f = Inr (envelope, s')"
      "we_type envelope = STATUS" "we_sequence envelope = 0"
      "claim_of_status ''carol'' (we_payload envelope) = Inr (stated_claim ''carol'' block_y)"
    by (rule status_delivered [OF sample_blocks(2,4) name(1) _ _ sample_sessions_known(2) step]) (simp_all add: name(2))
  have "dict_get_default (status_sequences sample_synced) ''carol'' (-1) < we_sequence envelope"
    by (simp add: sample_synced_def dict_get_default_def f(3))
  moreover have "eligible (rt_fork sample_synced) (stated_claim ''carol'' block_y)"
    using sample_genesis(2)
    by (simp add: eligible_def sample_synced_def runtime_fork_def noted_def stated_claim_def sample_power_resolved
        safety_halted_def discipline_def dict_get_default_def)
  moreover have "cl_height (stated_claim ''carol'' block_y) = cl_height (stated_claim ''bob'' block_x)"
      "lower (cl_block_hash (stated_claim ''carol'' block_y)) \<noteq> lower (cl_block_hash (stated_claim ''bob'' block_x))"
    using sample_blocks(3-5) by (simp_all add: stated_claim_def)
  ultimately show ?thesis
    using uncertified_status_halts [OF accepted sample_sessions_known(2) f(1,2) _ f(4)] by blast
qed

end
