(* ===== verification/ValidatorRuntime.thy ===== *)
theory ValidatorRuntime
  imports NodePipeline SigningJournal SyncFinality
begin

text \<open>
  \<open>validator_runtime.py\<close>: the coordination of one proposal from its execution over external signatures and
  votes to its commit. It composes \<open>NodePipeline\<close>, \<open>SigningJournal\<close>, \<open>SyncFinality\<close> and \<open>Finality\<close>. The signer
  and the signature verifier are callbacks: \<open>None\<close> where they raise; the transaction verifier of the
  pipeline is a parameter of \<open>runtime_propose\<close>. The schedule, the pool and the store are objects the runtime shares with
  the rest of the node.
\<close>

section \<open>Bindings\<close>

record signer_binding =
  bound_validator :: string
  key_resource :: string

definition mk_binding :: "string \<Rightarrow> string \<Rightarrow> signer_binding result" where
  "mk_binding vid resource =
     (if vid = [] then Inl (ValidatorRuntimeError ''validator_id is required'')
      else if \<not> starts_with ''kms://'' resource \<and> \<not> starts_with ''hsm://'' resource
      then Inl (ValidatorRuntimeError ''validator signer must use a KMS/HSM resource'')
      else Inr \<lparr>bound_validator = vid, key_resource = resource\<rparr>)"

definition binding_as_evidence :: "signer_binding \<Rightarrow> json" where
  "binding_as_evidence b = JObj
     [(''validator_id'', JStr (bound_validator b)),
      (''key_resource_digest'', JStr (sha256_hex (encode (key_resource b))))]"

text \<open>One round of the loop over the bindings: the resources seen so far.\<close>

definition check_signer_binding :: "string set \<Rightarrow> string \<times> signer_binding \<Rightarrow> string set result" where
  "check_signer_binding resources item =
     (let (vid, b) = item in
      if bound_validator b \<noteq> vid then Inl (ValidatorRuntimeError ''signer binding identity mismatch'')
      else if key_resource b \<in> resources
      then Inl (ValidatorRuntimeError ''validator signer resources must be distinct'')
      else Inr (insert (key_resource b) resources))"

definition validate_bindings ::
  "validator_set \<Rightarrow> (string, signer_binding) dict \<Rightarrow> (string, signer_binding) dict result" where
  "validate_bindings s bindings =
     (if set (map fst bindings) \<noteq> set (map validator_id (vs_validators s))
      then Inl (ValidatorRuntimeError ''signer bindings must exactly match the active validator set'')
      else bindE (foldE check_signer_binding {} bindings) (\<lambda>_. Inr bindings))"

section \<open>The runtime\<close>

record finalized_proposal =
  fin_proposal :: executed_proposal
  fin_certificate :: finality_certificate
  fin_block :: stored_block

definition finalized_as_evidence :: "finalized_proposal \<Rightarrow> json" where
  "finalized_as_evidence f = JObj
     [(''schema_version'', JStr ''junca-live-validator-finalization/v1''),
      (''height'', JInt (sb_height (fin_block f))),
      (''block_hash'', JStr (sb_block_hash (fin_block f))),
      (''state_root'', JStr (sb_state_root (fin_block f))),
      (''certificate_hash'', JStr (certificate_hash (fin_certificate f))),
      (''signed_power'', JInt (fc_signed_power (fin_certificate f))),
      (''total_power'', JInt (fc_total_power (fin_certificate f))),
      (''finality_status'', JStr ''FINALIZED''),
      (''governance'', JStr ''JAIOS Institutional Governance''),
      (''network'', JStr ''Public Testnet / No Monetary Value''),
      (''mainnet_changed'', JBool False),
      (''assets_moved'', JBool False),
      (''bridge_activated'', JBool False)]"

record validator_runtime =
  vr_pipeline :: node_pipeline
  vr_schedule :: schedule
  vr_journal :: journal
  vr_bindings :: "(string, signer_binding) dict"
  vr_proposal :: "executed_proposal option"
  vr_machine :: "fsm option"
  vr_active :: "validator_set option"
  vr_round :: int

type_synonym signature_check = "string \<Rightarrow> bytes \<Rightarrow> bytes \<Rightarrow> bool option"

definition runtime_chain :: "validator_runtime \<Rightarrow> int" where
  "runtime_chain rt = cfg_chain_id (np_config (vr_pipeline rt))"

definition validator_runtime_init ::
  "node_pipeline \<Rightarrow> schedule \<Rightarrow> (string, signer_binding) dict \<Rightarrow> journal \<Rightarrow> validator_runtime result" where
  "validator_runtime_init n sets bindings j =
     bindE (at_height sets 0) (\<lambda>initial.
     if cfg_chain_id (np_config n) \<le> 0 then Inl (ValidatorRuntimeError ''pipeline chain identity is invalid'')
     else if sj_chain_id j \<noteq> cfg_chain_id (np_config n)
     then Inl (ValidatorRuntimeError ''chain-bound consensus signing journal is required'')
     else
       bindE (validate_bindings initial bindings) (\<lambda>b.
       Inr \<lparr>vr_pipeline = n, vr_schedule = sets, vr_journal = j, vr_bindings = b,
            vr_proposal = None, vr_machine = None, vr_active = None, vr_round = 0\<rparr>))"

definition replace_signer_bindings ::
  "validator_runtime \<Rightarrow> (string, signer_binding) dict \<Rightarrow> validator_runtime result" where
  "replace_signer_bindings rt bindings =
     (if vr_proposal rt \<noteq> None
      then Inl (ValidatorRuntimeError ''signer bindings cannot change while a proposal is pending'')
      else
        bindE (at_height (vr_schedule rt) (head_height (np_store (vr_pipeline rt)) + 1)) (\<lambda>next_set.
        bindE (validate_bindings next_set bindings) (\<lambda>b. Inr (rt\<lparr>vr_bindings := b\<rparr>))))"

text \<open>
  \<open>propose\<close> keeps the proposal and the set where the construction of the state machine raises.
  \<open>None\<close> where the selection of the candidate would not end.
\<close>

definition runtime_propose ::
  "validator_runtime \<Rightarrow> (tx_envelope \<Rightarrow> bool) \<Rightarrow> int \<Rightarrow> int option \<Rightarrow> (executed_proposal result \<times> validator_runtime) option" where
  "runtime_propose rt tx_verifier r timestamp =
     (if vr_proposal rt \<noteq> None then Some (Inl (ValidatorRuntimeError ''a proposal is already awaiting finality''), rt)
      else if r < 0 then Some (Inl (ValidatorRuntimeError ''round must be a non-negative integer''), rt)
      else
        map_option (\<lambda>executed.
          (case bindE executed (\<lambda>p.
             bindE (at_height (vr_schedule rt) (ep_height p)) (\<lambda>active.
             bindE (validate_bindings active (vr_bindings rt)) (\<lambda>_. Inr (p, active)))) of
             Inl e \<Rightarrow> (Inl e, rt)
           | Inr (p, active) \<Rightarrow>
               let rt1 = rt\<lparr>vr_proposal := Some p, vr_active := Some active\<rparr> in
               (case finality_init (runtime_chain rt) (vs_validators active) (head_height (np_store (vr_pipeline rt))) of
                  Inl e \<Rightarrow> (Inl e, rt1)
                | Inr m \<Rightarrow> (Inr p, rt1\<lparr>vr_machine := Some m, vr_round := r\<rparr>))))
          (execute_candidate (vr_pipeline rt) tx_verifier timestamp))"

definition runtime_pending :: "validator_runtime \<Rightarrow> (executed_proposal \<times> validator_set \<times> fsm) result" where
  "runtime_pending rt =
     (case (vr_proposal rt, vr_active rt, vr_machine rt) of
        (Some p, Some active, Some m) \<Rightarrow> Inr (p, active, m)
      | _ \<Rightarrow> Inl (ValidatorRuntimeError ''no proposal is awaiting finality''))"

definition unsigned_vote :: "validator_runtime \<Rightarrow> executed_proposal \<Rightarrow> string \<Rightarrow> finality_vote" where
  "unsigned_vote rt p vid =
     \<lparr>fv_chain_id = runtime_chain rt, fv_height = ep_height p, fv_round = vr_round rt, fv_block_hash = ep_block_hash p,
      fv_validator_id = vid, fv_signature = []\<rparr>"

text \<open>The \<open>except\<close> clause of \<open>sign_vote\<close>.\<close>

definition journal_refusal :: "exn \<Rightarrow> exn" where
  "journal_refusal e = (case e of ConsensusSigningJournalError m \<Rightarrow> ValidatorRuntimeError m | _ \<Rightarrow> e)"

definition runtime_sign_vote ::
  "validator_runtime \<Rightarrow> (string \<Rightarrow> bytes \<Rightarrow> bytes option) \<Rightarrow> signature_check \<Rightarrow> string
     \<Rightarrow> (finality_vote \<times> validator_runtime) result" where
  "runtime_sign_vote rt signer verifier vid =
     bindE (runtime_pending rt) (\<lambda>(p, active, _).
     if vid \<notin> set (map validator_id (vs_validators active))
     then Inl (ValidatorRuntimeError ''validator is not active for proposal height'')
     else
       (case dict_get (vr_bindings rt) vid of
          None \<Rightarrow> Inl (ValidatorRuntimeError ''validator signer binding is missing'')
        | Some binding \<Rightarrow>
            let unsigned = unsigned_vote rt p vid; payload = vote_signing_payload unsigned in
            (case get_or_sign (vr_journal rt) vid (ep_height p) (vr_round rt) (ep_block_hash p) payload
                (signer (key_resource binding) payload) (\<lambda>s. verifier vid payload s) of
               Inl e \<Rightarrow> Inl (journal_refusal e)
             | Inr (s, j) \<Rightarrow> Inr (unsigned\<lparr>fv_signature := s\<rparr>, rt\<lparr>vr_journal := j\<rparr>))))"

definition runtime_advance_round :: "validator_runtime \<Rightarrow> int \<Rightarrow> (executed_proposal \<times> validator_runtime) result" where
  "runtime_advance_round rt r =
     bindE (runtime_pending rt) (\<lambda>(p, active, _).
     if r \<le> vr_round rt
     then Inl (ValidatorRuntimeError ''new consensus round must be a strictly increasing integer'')
     else
       bindE (at_height (vr_schedule rt) (ep_height p)) (\<lambda>s.
       if set_hash active \<noteq> set_hash s
       then Inl (ValidatorRuntimeError ''active validator set changed during proposal'')
       else
         bindE (finality_init (runtime_chain rt) (vs_validators active) (head_height (np_store (vr_pipeline rt)))) (\<lambda>m.
         Inr (p, rt\<lparr>vr_machine := Some m, vr_round := r\<rparr>))))"

definition vote_check :: "signature_check \<Rightarrow> vote_verifier" where
  "vote_check verifier w = verifier (fv_validator_id w) (vote_signing_payload w) (fv_signature w)"

text \<open>A vote can change the machine and raise; the store is read and then found under its lock, as in the commit.\<close>

definition runtime_accept_vote ::
  "validator_runtime \<Rightarrow> store_db \<Rightarrow> signature_check \<Rightarrow> finality_vote \<Rightarrow> finalized_proposal option result \<times> validator_runtime" where
  "runtime_accept_vote rt locked verifier w =
     (case runtime_pending rt of
        Inl e \<Rightarrow> (Inl e, rt)
      | Inr (p, active, m) \<Rightarrow>
          if fv_height w \<noteq> ep_height p \<or> fv_round w \<noteq> vr_round rt \<or> lower (fv_block_hash w) \<noteq> ep_block_hash p
          then (Inl (ValidatorRuntimeError ''vote does not bind the pending proposal''), rt)
          else
            (case at_height (vr_schedule rt) (fv_height w) of
               Inl e \<Rightarrow> (Inl e, rt)
             | Inr s \<Rightarrow>
                 if set_hash active \<noteq> set_hash s
                 then (Inl (ValidatorRuntimeError ''active validator set changed during proposal''), rt)
                 else
                   (case add_vote m w (vote_check verifier) of
                      (Inl e, m') \<Rightarrow> (Inl e, rt\<lparr>vr_machine := Some m'\<rparr>)
                    | (Inr None, m') \<Rightarrow> (Inr None, rt\<lparr>vr_machine := Some m'\<rparr>)
                    | (Inr (Some c), m') \<Rightarrow>
                        (case commit_finalized (vr_pipeline rt) locked p c of
                           Inl e \<Rightarrow> (Inl e, rt\<lparr>vr_machine := Some m'\<rparr>)
                         | Inr (b, n) \<Rightarrow>
                             (Inr (Some \<lparr>fin_proposal = p, fin_certificate = c, fin_block = b\<rparr>),
                              rt\<lparr>vr_pipeline := n, vr_proposal := None, vr_machine := None, vr_active := None\<rparr>)))))"

definition validator_runtime_evidence :: "validator_runtime \<Rightarrow> json result" where
  "validator_runtime_evidence rt =
     bindE (case vr_active rt of
              Some s \<Rightarrow> Inr s
            | None \<Rightarrow> at_height (vr_schedule rt) (head_height (np_store (vr_pipeline rt)) + 1)) (\<lambda>active.
     bindE (mapE (\<lambda>item. case dict_get (vr_bindings rt) (validator_id item) of
                            None \<Rightarrow> Inl KeyError
                          | Some b \<Rightarrow> Inr (binding_as_evidence b)) (vs_validators active)) (\<lambda>bindings.
     Inr (JObj
       [(''schema_version'', JStr ''junca-live-validator-runtime/v1''),
        (''chain_id'', JInt (runtime_chain rt)),
        (''head_height'', JInt (head_height (np_store (vr_pipeline rt)))),
        (''pending_height'', case vr_proposal rt of None \<Rightarrow> JNull | Some p \<Rightarrow> JInt (ep_height p)),
        (''current_round'', JInt (vr_round rt)),
        (''validator_set_epoch'', JInt (epoch active)),
        (''validator_set_hash'', JStr (set_hash active)),
        (''signer_bindings'', JArr bindings),
        (''private_key_material_accepted'', JBool False),
        (''signing_journal'', journal_evidence (vr_journal rt)),
        (''governance'', JStr ''JAIOS Institutional Governance''),
        (''network'', JStr ''Public Testnet / No Monetary Value''),
        (''mainnet_changed'', JBool False),
        (''assets_moved'', JBool False),
        (''bridge_activated'', JBool False)])))"

section \<open>Every branch that returns\<close>

lemma runtime_pending_Inr [result_elims]:
  "runtime_pending rt = Inr x \<longleftrightarrow>
     (\<exists>p s m. vr_proposal rt = Some p \<and> vr_active rt = Some s \<and> vr_machine rt = Some m \<and> x = (p, s, m))"
  by (auto simp: runtime_pending_def split: option.splits)

lemma runtime_propose_cases:
  assumes "runtime_propose rt v r ts = Some (x, rt')"
  obtains (refused) e where "x = Inl e" "rt' = rt"
  | (unstarted) e p s where "x = Inl e" "rt' = rt\<lparr>vr_proposal := Some p, vr_active := Some s\<rparr>" "vr_proposal rt = None"
      "execute_candidate (vr_pipeline rt) v ts = Some (Inr p)" "at_height (vr_schedule rt) (ep_height p) = Inr s"
      "finality_init (runtime_chain rt) (vs_validators s) (head_height (np_store (vr_pipeline rt))) = Inl e"
  | (proposed) p s m where "x = Inr p" "vr_proposal rt = None" "0 \<le> r"
      "execute_candidate (vr_pipeline rt) v ts = Some (Inr p)" "at_height (vr_schedule rt) (ep_height p) = Inr s"
      "validate_bindings s (vr_bindings rt) = Inr (vr_bindings rt)"
      "finality_init (runtime_chain rt) (vs_validators s) (head_height (np_store (vr_pipeline rt))) = Inr m"
      "rt' = rt\<lparr>vr_proposal := Some p, vr_active := Some s, vr_machine := Some m, vr_round := r\<rparr>"
proof (cases "vr_proposal rt \<noteq> None \<or> r < 0")
  case True
  then have "\<exists>e. x = Inl e \<and> rt' = rt"
    using assms by (auto simp: runtime_propose_def split: if_splits)
  then show ?thesis
    using refused by blast
next
  case False
  then obtain executed where executed: "execute_candidate (vr_pipeline rt) v ts = Some executed"
    using assms by (auto simp: runtime_propose_def)
  let ?found = "bindE executed (\<lambda>p. bindE (at_height (vr_schedule rt) (ep_height p)) (\<lambda>active.
      bindE (validate_bindings active (vr_bindings rt)) (\<lambda>_. Inr (p, active))))"
  show ?thesis
  proof (cases ?found)
    case (Inl e)
    then show ?thesis
      using assms False executed by (intro refused [of e]) (simp_all add: runtime_propose_def)
  next
    case (Inr found)
    obtain p s where found: "found = (p, s)"
      by (cases found)
    then have s: "executed = Inr p" "at_height (vr_schedule rt) (ep_height p) = Inr s"
        "validate_bindings s (vr_bindings rt) = Inr (vr_bindings rt)"
      using Inr by (auto simp: bindE_Inr_iff validate_bindings_def if_Inl_Inr_iff)
    show ?thesis
    proof (cases "finality_init (runtime_chain rt) (vs_validators s) (head_height (np_store (vr_pipeline rt)))")
      case init: (Inl e)
      then show ?thesis
        using assms False executed s by (intro unstarted [where e = e and p = p and s = s]) (simp_all add: runtime_propose_def)
    next
      case init: (Inr m)
      then show ?thesis
        using assms False executed s by (intro proposed [where p = p and s = s and m = m]) (simp_all add: runtime_propose_def)
    qed
  qed
qed

lemma runtime_sign_vote_Inr:
  assumes "runtime_sign_vote rt signer verifier vid = Inr (w, rt')"
  obtains p s m b j where "runtime_pending rt = Inr (p, s, m)" "vid \<in> set (map validator_id (vs_validators s))"
    "dict_get (vr_bindings rt) vid = Some b"
    "get_or_sign (vr_journal rt) vid (ep_height p) (vr_round rt) (ep_block_hash p) (vote_signing_payload (unsigned_vote rt p vid))
       (signer (key_resource b) (vote_signing_payload (unsigned_vote rt p vid)))
       (\<lambda>s. verifier vid (vote_signing_payload (unsigned_vote rt p vid)) s) = Inr (fv_signature w, j)"
    "w = (unsigned_vote rt p vid)\<lparr>fv_signature := fv_signature w\<rparr>" "rt' = rt\<lparr>vr_journal := j\<rparr>"
proof -
  obtain p s m where pending: "runtime_pending rt = Inr (p, s, m)"
    using assms by (cases "runtime_pending rt") (auto simp: runtime_sign_vote_def)
  then have member: "vid \<in> set (map validator_id (vs_validators s))"
    using assms by (auto simp: runtime_sign_vote_def if_Inl_Inr_iff)
  then obtain b where b: "dict_get (vr_bindings rt) vid = Some b"
    using assms pending by (cases "dict_get (vr_bindings rt) vid") (auto simp: runtime_sign_vote_def)
  let ?payload = "vote_signing_payload (unsigned_vote rt p vid)"
  let ?signed = "get_or_sign (vr_journal rt) vid (ep_height p) (vr_round rt) (ep_block_hash p) ?payload
       (signer (key_resource b) ?payload) (\<lambda>s. verifier vid ?payload s)"
  obtain r where r: "?signed = Inr r"
    using assms pending member b by (cases ?signed) (auto simp: runtime_sign_vote_def Let_def)
  then show thesis
    using assms pending member b by (cases r) (auto simp: runtime_sign_vote_def Let_def intro: that)
qed

lemma runtime_accept_vote_cases:
  assumes "runtime_accept_vote rt locked verifier w = (x, rt')"
  obtains (refused) e where "x = Inl e" "rt' = rt"
  | (voted) p s m y m' where "runtime_pending rt = Inr (p, s, m)" "add_vote m w (vote_check verifier) = (y, m')"
      "rt' = rt\<lparr>vr_machine := Some m'\<rparr>" "\<And>f. x \<noteq> Inr (Some f)"
  | (finalized) p s m c m' b n where "runtime_pending rt = Inr (p, s, m)"
      "add_vote m w (vote_check verifier) = (Inr (Some c), m')" "commit_finalized (vr_pipeline rt) locked p c = Inr (b, n)"
      "fv_height w = ep_height p" "fv_round w = vr_round rt" "lower (fv_block_hash w) = ep_block_hash p"
      "x = Inr (Some \<lparr>fin_proposal = p, fin_certificate = c, fin_block = b\<rparr>)"
      "rt' = rt\<lparr>vr_pipeline := n, vr_proposal := None, vr_machine := None, vr_active := None\<rparr>"
proof (cases "runtime_pending rt")
  case (Inl e)
  then show ?thesis
    using assms by (intro refused [of e]) (simp_all add: runtime_accept_vote_def)
next
  case (Inr pending)
  obtain p s m where pending: "runtime_pending rt = Inr (p, s, m)"
    using Inr by (cases pending) auto
  show ?thesis
  proof (cases "fv_height w \<noteq> ep_height p \<or> fv_round w \<noteq> vr_round rt \<or> lower (fv_block_hash w) \<noteq> ep_block_hash p")
    case True
    then show ?thesis
      using assms pending
      by (intro refused [of "ValidatorRuntimeError ''vote does not bind the pending proposal''"]) (simp_all add: runtime_accept_vote_def)
  next
    case binds: False
    show ?thesis
    proof (cases "\<exists>t. at_height (vr_schedule rt) (fv_height w) = Inr t \<and> set_hash s = set_hash t")
      case False
      then have "\<exists>e. x = Inl e \<and> rt' = rt"
        using assms pending binds
        by (cases "at_height (vr_schedule rt) (fv_height w)") (auto simp: runtime_accept_vote_def)
      then show ?thesis
        using refused by blast
    next
      case True
      obtain y m' where add: "add_vote m w (vote_check verifier) = (y, m')"
        by (cases "add_vote m w (vote_check verifier)")
      have x: "(x, rt') = (case y of
          Inl e \<Rightarrow> (Inl e, rt\<lparr>vr_machine := Some m'\<rparr>)
        | Inr None \<Rightarrow> (Inr None, rt\<lparr>vr_machine := Some m'\<rparr>)
        | Inr (Some c) \<Rightarrow>
            (case commit_finalized (vr_pipeline rt) locked p c of
               Inl e \<Rightarrow> (Inl e, rt\<lparr>vr_machine := Some m'\<rparr>)
             | Inr (b, n) \<Rightarrow>
                 (Inr (Some \<lparr>fin_proposal = p, fin_certificate = c, fin_block = b\<rparr>),
                  rt\<lparr>vr_pipeline := n, vr_proposal := None, vr_machine := None, vr_active := None\<rparr>)))"
        using assms pending binds True add
        by (auto simp: runtime_accept_vote_def split: sum.split option.split)
      show ?thesis
      proof (cases "\<exists>c b n. y = Inr (Some c) \<and> commit_finalized (vr_pipeline rt) locked p c = Inr (b, n)")
        case True
        then show ?thesis
          using x pending binds add by (auto intro: finalized)
      next
        case False
        then have "rt' = rt\<lparr>vr_machine := Some m'\<rparr> \<and> (\<forall>f. x \<noteq> Inr (Some f))"
          using x by (cases y) (auto split: option.splits sum.splits)
        then show ?thesis
          using pending add by (intro voted [of p s m y m']) auto
      qed
    qed
  qed
qed

lemma runtime_advance_Inr:
  assumes "runtime_advance_round rt r = Inr (p, rt')"
  obtains s m m' where "runtime_pending rt = Inr (p, s, m)" "vr_round rt < r"
    "finality_init (runtime_chain rt) (vs_validators s) (head_height (np_store (vr_pipeline rt))) = Inr m'"
    "rt' = rt\<lparr>vr_machine := Some m', vr_round := r\<rparr>"
  using assms by (auto simp: runtime_advance_round_def bindE_Inr_iff if_Inl_Inr_iff)

section \<open>Histories\<close>

text \<open>
  What happens to a runtime: its own operations, and what the rest of the node does to the objects it
  shares, another set in the schedule, another pool, the import of another finalized block.
\<close>

inductive live_step ::
  "protocol_config \<Rightarrow> mempool_policy \<Rightarrow> (tx_envelope \<Rightarrow> bool) \<Rightarrow> signature_check \<Rightarrow> validator_runtime \<Rightarrow> validator_runtime \<Rightarrow> bool"
  for c pol txv sv where
  proposed: "runtime_propose rt txv r ts = Some (x, rt') \<Longrightarrow> live_step c pol txv sv rt rt'"
| signed: "runtime_sign_vote rt signer sv vid = Inr (w, rt') \<Longrightarrow> live_step c pol txv sv rt rt'"
| advanced: "runtime_advance_round rt r = Inr (p, rt') \<Longrightarrow> live_step c pol txv sv rt rt'"
| voted: "runtime_accept_vote rt (np_store (vr_pipeline rt)) sv w = (y, rt') \<Longrightarrow> live_step c pol txv sv rt rt'"
| rebound: "replace_signer_bindings rt bindings = Inr rt' \<Longrightarrow> live_step c pol txv sv rt rt'"
| scheduled: "register (vr_schedule rt) s = Inr sets \<Longrightarrow> set_ok s \<Longrightarrow> live_step c pol txv sv rt (rt\<lparr>vr_schedule := sets\<rparr>)"
| pooled: "pool_step (np_pool (vr_pipeline rt)) pool \<Longrightarrow>
    live_step c pol txv sv rt (rt\<lparr>vr_pipeline := (vr_pipeline rt)\<lparr>np_pool := pool\<rparr>\<rparr>)"
| imported: "node_reachable c pol txv (vote_check sv) n0 \<Longrightarrow> execute_candidate n0 txv ts = Some (Inr p) \<Longrightarrow>
    fsm_reachable (vote_check sv) m \<Longrightarrow> fsm_chain_id m = cfg_chain_id c \<Longrightarrow> get_certificate m h = Inr cert \<Longrightarrow>
    commit_finalized (vr_pipeline rt) (np_store (vr_pipeline rt)) p cert = Inr (b, n) \<Longrightarrow>
    live_step c pol txv sv rt (rt\<lparr>vr_pipeline := n\<rparr>)"

text \<open>A restart keeps the store and the journal and starts with a pool of its own.\<close>

definition live_restart :: "protocol_config \<Rightarrow> mempool_policy \<Rightarrow> validator_runtime \<Rightarrow> validator_runtime \<Rightarrow> bool" where
  "live_restart c pol rt rt' \<longleftrightarrow>
     (\<exists>pool sets bindings q j db. pool_reachable c pol pool \<and> scheduled sets \<and>
        open_journal (cfg_chain_id c) q (sj_db (vr_journal rt)) = (Inr j, db) \<and>
        validator_runtime_init ((vr_pipeline rt)\<lparr>np_pool := pool\<rparr>) sets bindings j = Inr rt')"

inductive live_reachable ::
  "protocol_config \<Rightarrow> mempool_policy \<Rightarrow> (tx_envelope \<Rightarrow> bool) \<Rightarrow> signature_check \<Rightarrow> validator_runtime \<Rightarrow> bool"
  for c pol txv sv where
  started: "node_reachable c pol txv (vote_check sv) n \<Longrightarrow> scheduled sets \<Longrightarrow> journal_reachable (cfg_chain_id c) j \<Longrightarrow>
    validator_runtime_init n sets bindings j = Inr rt \<Longrightarrow> live_reachable c pol txv sv rt"
| step: "live_reachable c pol txv sv rt \<Longrightarrow> live_step c pol txv sv rt rt' \<Longrightarrow> live_reachable c pol txv sv rt'"
| restarted: "live_reachable c pol txv sv rt \<Longrightarrow> live_restart c pol rt rt' \<Longrightarrow> live_reachable c pol txv sv rt'"

text \<open>A machine that decides with the powers of a set.\<close>

definition machine_of :: "vote_verifier \<Rightarrow> int \<Rightarrow> validator_set \<Rightarrow> fsm \<Rightarrow> bool" where
  "machine_of v chain s m \<longleftrightarrow> fsm_reachable v m \<and> fsm_chain_id m = chain \<and> fsm_validators m = set_pairs s \<and>
     fsm_total_power m = vs_total_power s"

definition live_ok ::
  "protocol_config \<Rightarrow> mempool_policy \<Rightarrow> (tx_envelope \<Rightarrow> bool) \<Rightarrow> signature_check \<Rightarrow> validator_runtime \<Rightarrow> bool" where
  "live_ok c pol txv sv rt \<longleftrightarrow>
     node_reachable c pol txv (vote_check sv) (vr_pipeline rt) \<and> scheduled (vr_schedule rt) \<and>
     journal_reachable (cfg_chain_id c) (vr_journal rt) \<and>
     (\<forall>p s m. runtime_pending rt = Inr (p, s, m) \<longrightarrow> set_ok s \<and> machine_of (vote_check sv) (cfg_chain_id c) s m \<and>
        (\<exists>n0 ts. node_reachable c pol txv (vote_check sv) n0 \<and> execute_candidate n0 txv ts = Some (Inr p)))"

lemma started_machine:
  assumes "set_ok s" "0 < chain" "-1 \<le> h"
  obtains m where "finality_init chain (vs_validators s) h = Inr m" "machine_of v chain s m" "checkpoint_height m = h"
    "fsm_votes m = []" "finalized m = []"
proof -
  note facts = set_ok_facts [OF assms(1)]
  have validators: "3 \<le> length (vs_validators s)" "\<forall>i \<in> set (vs_validators s). validator_post_init i = Inr ()"
    using assms(1) by (auto simp: set_ok_def validator_set_post_init_def if_Inl_Inr_iff)
  have pairs: "map (\<lambda>item. (validator_id item, item)) (vs_validators s) = set_pairs s"
    by (simp add: set_pairs_def)
  have sorted: "sort_key fst (set_pairs s) = set_pairs s"
    using facts(2) by (rule sort_key_id_if_sorted)
  obtain m where m: "finality_init chain (vs_validators s) h = Inr m"
    using assms validators facts(3) by (auto simp: finality_init_Inr pairs) (simp add: set_pairs_def)
  moreover have "fsm_reachable v m"
    using m validators(2) by (rule fsm_reachable.started)
  ultimately have "machine_of v chain s m"
    using facts(3) by (simp add: machine_of_def finality_init_Inr pairs sorted vs_total_power_def)
  then show thesis
    using that m by (auto simp: finality_init_Inr)
qed

lemma vote_keeps:
  assumes "fsm_reachable v m" "add_vote m w v = (y, m')"
  shows "fsm_chain_id m' = fsm_chain_id m \<and> fsm_validators m' = fsm_validators m \<and> fsm_total_power m' = fsm_total_power m \<and>
    (\<forall>cert. y = Inr (Some cert) \<longrightarrow> get_certificate m' (fv_height w) = Inr cert)"
  using fsm_reachable_ok [OF assms(1)] assms(2)
proof (cases rule: add_vote_cases)
  case decided
  then show ?thesis
    by (auto simp: stored_def get_certificate_Inr fresh_vote_def map_add_def simp del: map_of_eq_Some_iff)
qed (auto simp: stored_def get_certificate_Inr simp del: map_of_eq_Some_iff split: if_splits)

lemma machine_votes:
  assumes "machine_of v chain s m" "add_vote m w v = (y, m')"
  shows "machine_of v chain s m'" "\<And>cert. y = Inr (Some cert) \<Longrightarrow> get_certificate m' (fv_height w) = Inr cert"
  using assms vote_keeps [of v m w y m'] fsm_reachable.voted by (auto simp: machine_of_def)

lemma proposed_above:
  assumes "execute_candidate n txv ts = Some (Inr p)" "store_ok (np_chain n) (np_store n)"
  shows "ep_height p = head_height (np_store n) + 1" "0 \<le> head_height (np_store n)"
    "store_head (np_store n) = Inr head \<Longrightarrow> ep_parent_hash p = sb_block_hash head"
proof -
  obtain head where head: "store_head (np_store n) = Inr head" "ep_height p = sb_height head + 1" "ep_parent_hash p = sb_block_hash head"
    using assms(1) by (rule execute_candidate_Inr) blast
  obtain row where "head_height (np_store n) = sb_height head" "0 \<le> sb_height head"
    using stored_head [OF assms(2) head(1)] by blast
  then show "ep_height p = head_height (np_store n) + 1" "0 \<le> head_height (np_store n)"
    "store_head (np_store n) = Inr head' \<Longrightarrow> ep_parent_hash p = sb_block_hash head'" for head'
    using head by simp_all
qed

lemma live_started:
  assumes "validator_runtime_init n sets bindings j = Inr rt"
  shows "vr_pipeline rt = n" "vr_schedule rt = sets" "vr_journal rt = j" "runtime_pending rt = Inl (ValidatorRuntimeError ''no proposal is awaiting finality'')"
  using assms by (auto simp: validator_runtime_init_def bindE_Inr_iff if_Inl_Inr_iff runtime_pending_def)

lemma live_step_ok:
  assumes "live_step c pol txv sv rt rt'" "live_ok c pol txv sv rt" "protocol_config_post_init c = Inr ()"
  shows "live_ok c pol txv sv rt'"
  using assms(1)
proof cases
  case (proposed r ts x)
  note parts = node_reachable_parts [of c pol txv "vote_check sv" "vr_pipeline rt"]
  have rt: "node_reachable c pol txv (vote_check sv) (vr_pipeline rt)" "scheduled (vr_schedule rt)"
    using assms(2) by (simp_all add: live_ok_def)
  have store: "store_ok (np_chain (vr_pipeline rt)) (np_store (vr_pipeline rt))" "runtime_chain rt = cfg_chain_id c"
    using parts rt(1) assms(3) store_reachable_ok by (auto simp: runtime_chain_def)
  from proposed show ?thesis
  proof (cases rule: runtime_propose_cases)
    case (unstarted e p s)
    have "set_ok s"
      using at_height_ok [OF rt(2) unstarted(5)] by simp
    moreover have "0 < runtime_chain rt"
      using store parts rt(1) assms(3) by (auto simp: store_ok_def)
    ultimately obtain m where "finality_init (runtime_chain rt) (vs_validators s) (head_height (np_store (vr_pipeline rt))) = Inr m"
      using started_machine [of s "runtime_chain rt" "head_height (np_store (vr_pipeline rt))"] proposed_above(2) [OF unstarted(4) store(1)]
      by auto
    then show ?thesis
      using unstarted(6) by simp
  next
    case (proposed p s m)
    have "set_ok s"
      using at_height_ok [OF rt(2) proposed(5)] by simp
    moreover have "0 < runtime_chain rt"
      using store parts rt(1) assms(3) by (auto simp: store_ok_def)
    ultimately have "machine_of (vote_check sv) (cfg_chain_id c) s m"
      using started_machine [of s "runtime_chain rt" "head_height (np_store (vr_pipeline rt))" "vote_check sv"]
        proposed_above(2) [OF proposed(4) store(1)] proposed(7) store(2) by auto
    then show ?thesis
      using assms(2) proposed(4,8) rt(1) \<open>set_ok s\<close> by (auto simp: live_ok_def runtime_pending_Inr)
  qed (use assms(2) in simp)
next
  case (signed signer vid w)
  then obtain p s m and b :: signer_binding and j where j: "get_or_sign (vr_journal rt) vid (ep_height p) (vr_round rt) (ep_block_hash p)
       (vote_signing_payload (unsigned_vote rt p vid)) (signer (key_resource b) (vote_signing_payload (unsigned_vote rt p vid)))
       (\<lambda>s. sv vid (vote_signing_payload (unsigned_vote rt p vid)) s) = Inr (fv_signature w, j)" "rt' = rt\<lparr>vr_journal := j\<rparr>"
    by (rule runtime_sign_vote_Inr) blast
  then have "journal_reachable (cfg_chain_id c) j"
    using assms(2) journal_reachable.later_signed [OF _ j(1)] by (simp add: live_ok_def)
  then show ?thesis
    using assms(2) j(2) by (simp add: live_ok_def runtime_pending_def)
next
  case (advanced r p)
  then obtain s m m' where a: "runtime_pending rt = Inr (p, s, m)"
      "finality_init (runtime_chain rt) (vs_validators s) (head_height (np_store (vr_pipeline rt))) = Inr m'"
      "rt' = rt\<lparr>vr_machine := Some m', vr_round := r\<rparr>"
    by (rule runtime_advance_Inr)
  have "set_ok s" "runtime_chain rt = cfg_chain_id c"
    using assms(2,3) a(1) node_reachable_parts by (auto simp: live_ok_def runtime_chain_def)
  moreover have "0 < runtime_chain rt" "-1 \<le> head_height (np_store (vr_pipeline rt))"
    using a(2) by (auto simp: finality_init_Inr)
  ultimately have "machine_of (vote_check sv) (cfg_chain_id c) s m'"
    using started_machine [of s "runtime_chain rt" "head_height (np_store (vr_pipeline rt))" "vote_check sv"] a(2) by auto
  then show ?thesis
    using assms(2) a(1,3) by (auto simp: live_ok_def runtime_pending_Inr)
next
  case (voted w y)
  then show ?thesis
  proof (cases rule: runtime_accept_vote_cases)
    case (voted p s m z m')
    then have "machine_of (vote_check sv) (cfg_chain_id c) s m'"
      using assms(2) machine_votes(1) by (auto simp: live_ok_def)
    then show ?thesis
      using assms(2) voted(1,3) by (auto simp: live_ok_def runtime_pending_Inr)
  next
    case (finalized p s m cert m' b n)
    obtain n0 ts where p: "node_reachable c pol txv (vote_check sv) n0" "execute_candidate n0 txv ts = Some (Inr p)"
        and m: "machine_of (vote_check sv) (cfg_chain_id c) s m"
      using assms(2) finalized(1) unfolding live_ok_def by blast
    note m' = machine_votes [OF m finalized(2)]
    have "node_reachable c pol txv (vote_check sv) n"
      using assms(2) m' by (intro node_reachable.finalized [OF p _ _ m'(2) _ finalized(3)]) (auto simp: live_ok_def machine_of_def)
    then show ?thesis
      using assms(2) finalized(8) by (auto simp: live_ok_def runtime_pending_Inr)
  qed (use assms(2) in simp)
next
  case (rebound bindings)
  then show ?thesis
    using assms(2) by (auto simp: replace_signer_bindings_def if_Inl_Inr_iff bindE_Inr_iff live_ok_def runtime_pending_def)
next
  case (scheduled s sets)
  then show ?thesis
    using assms(2) scheduled.registered by (auto simp: live_ok_def runtime_pending_def)
next
  case (pooled pool)
  then show ?thesis
    using assms(2) node_reachable.pooled by (auto simp: live_ok_def runtime_pending_def)
next
  case (imported n0 ts p m h cert b n)
  then have "node_reachable c pol txv (vote_check sv) n"
    using assms(2) by (intro node_reachable.finalized [OF imported(2,3,4,5,6) _ imported(7)]) (simp add: live_ok_def)
  then show ?thesis
    using assms(2) imported(1) by (auto simp: live_ok_def runtime_pending_def)
qed

lemma live_restart_ok:
  assumes "live_restart c pol rt rt'" "live_ok c pol txv sv rt" "protocol_config_post_init c = Inr ()"
  shows "live_ok c pol txv sv rt'"
proof -
  obtain pool sets bindings q j db where r: "pool_reachable c pol pool" "scheduled sets"
      "open_journal (cfg_chain_id c) q (sj_db (vr_journal rt)) = (Inr j, db)"
      "validator_runtime_init ((vr_pipeline rt)\<lparr>np_pool := pool\<rparr>) sets bindings j = Inr rt'"
    using assms(1) unfolding live_restart_def by blast
  have rt: "node_reachable c pol txv (vote_check sv) (vr_pipeline rt)" "journal_reachable (cfg_chain_id c) (vr_journal rt)"
    using assms(2) by (simp_all add: live_ok_def)
  have "journal_reachable (cfg_chain_id c) j"
    using journal_reachable_ok [OF rt(2)] r(3) by (intro journal_reachable.opened [OF _ _ r(3)]) (simp_all add: journal_ok_def marks_def rows_ok_def)
  moreover have "node_reachable c pol txv (vote_check sv) ((vr_pipeline rt)\<lparr>np_pool := pool\<rparr>)"
  proof (rule node_reachable.started [OF r(1)])
    show "store_reachable (np_chain (vr_pipeline rt)) (np_store (vr_pipeline rt))"
      using node_reachable_parts [OF rt(1) assms(3)] by blast
    show "node_pipeline_init c pool (np_chain (vr_pipeline rt)) (np_store (vr_pipeline rt)) = Inr ((vr_pipeline rt)\<lparr>np_pool := pool\<rparr>)"
      using node_reachable_parts [OF rt(1) assms(3)] by (simp add: node_pipeline_init_def)
  qed
  ultimately show ?thesis
    using live_started [OF r(4)] r(2) by (simp add: live_ok_def)
qed

lemma live_reachable_ok:
  assumes "live_reachable c pol txv sv rt" "protocol_config_post_init c = Inr ()"
  shows "live_ok c pol txv sv rt"
  using assms(1)
proof induction
  case (started n sets j bindings rt)
  then show ?case
    using live_started by (simp add: live_ok_def)
qed (use assms(2) live_step_ok live_restart_ok in blast)+

section \<open>What a finalized proposal leaves behind\<close>

lemma commit_details:
  assumes "commit_finalized n (np_store n) p cert = Inr (b, n')"
    and "execute_candidate n0 txv ts = Some (Inr p)" "store_ok (np_chain n0) (np_store n0)"
  shows "store_head (np_store n') = Inr b" "sb_height b = ep_height p" "sb_block_hash b = ep_block_hash p"
    "sb_parent_hash b = ep_parent_hash p" "sb_state_root b = state_root (ep_transition p)"
    "sb_certificate_hash b = Some (certificate_hash cert)" "ep_height p = head_height (np_store n) + 1"
    "accounts_at (np_store n') None = Inr (bt_accounts (ep_transition p))"
    "pool_ok (np_pool n) \<Longrightarrow> \<forall>t \<in> set (cand_transactions (ep_candidate p)). (key_of t, t) \<notin> set (pool_txs (np_pool n'))"
proof -
  note commit = commit_finalized_Inr [OF assms(1)]
  note p = proposal_fields [OF assms(2,3)]
  obtain head a where head: "store_head (np_store n0) = Inr head" "accounts_at (np_store n0) None = Inr a"
      "execute_block (np_config n0) (sb_base_fee head) (sb_gas_used head) a (cand_transactions (ep_candidate p)) txv = Inr (ep_transition p)"
    using assms(2) by (rule execute_candidate_Inr) blast
  have snapshot: "snapshot_ok (bt_accounts (ep_transition p))"
    using execute_block_normal(1) [OF head(3) head_accounts(1) [OF assms(3) head(1,2)]] .
  obtain acc row0 where c: "check_commit (np_chain n) (np_store n) (ep_height p) (ep_block_hash p) (ep_parent_hash p) (ep_transition p)
      cert (ep_timestamp p) = Inr acc" "top_row (np_store n) = Some (ep_height p - 1, row0)"
      "np_store n' = committed (np_store n) (ep_height p)
        (committed_row (ep_block_hash p) (ep_parent_hash p) (ep_transition p) cert acc) cert (ep_timestamp p)"
      "b = mk_stored_block (ep_height p, committed_row (ep_block_hash p) (ep_parent_hash p) (ep_transition p) cert acc)"
    using commit(1) by (rule commit_Inr)
  have acc: "acc = bt_accounts (ep_transition p)"
    using check_commit_Inr(9) [OF c(1)] store_normalize_id [OF snapshot] by simp
  show new: "store_head (np_store n') = Inr b"
    by (rule commit_head(1) [OF assms(1)])
  show "sb_height b = ep_height p" "sb_block_hash b = ep_block_hash p" "sb_parent_hash b = ep_parent_hash p"
    "sb_state_root b = state_root (ep_transition p)" "sb_certificate_hash b = Some (certificate_hash cert)"
    using p(2,3) by (simp_all add: c(4) mk_stored_block_def committed_row_def lower_hash_def)
  show "ep_height p = head_height (np_store n) + 1"
    using top_row_greatest(3) [OF c(2)] by simp
  let ?row = "committed_row (ep_block_hash p) (ep_parent_hash p) (ep_transition p) cert (bt_accounts (ep_transition p))"
  have blocks: "blocks (np_store n') = blocks (np_store n) @ [(ep_height p, ?row)]"
    by (simp add: c(3) committed_def acc)
  have above: "head_height (np_store n) < ep_height p"
    using top_row_greatest(3) [OF c(2)] by simp
  have "dict_get (blocks (np_store n)) (ep_height p) = None"
    using top_row_greatest(2) [OF c(2)] by (force simp: map_of_eq_None_iff)
  then have "dict_get (blocks (np_store n')) (ep_height p) = Some ?row"
    by (simp add: blocks map_add_def del: map_of_eq_Some_iff)
  moreover have "head_height (np_store n') = ep_height p"
    using rows_snoc(4) [of "np_store n" "ep_height p" "np_store n'" ?row] blocks above by simp
  ultimately show "accounts_at (np_store n') None = Inr (bt_accounts (ep_transition p))"
    using snapshot by (simp add: accounts_at_def target_height_def committed_row_def decode_accounts_json_Inr del: map_of_eq_Some_iff)
  show "\<forall>t \<in> set (cand_transactions (ep_candidate p)). (key_of t, t) \<notin> set (pool_txs (np_pool n'))"
    if "pool_ok (np_pool n)"
    using that unfolding commit(2) by (auto simp: remove_included_keep keep_only_def Let_def hash_of_def)
qed

lemma live_parts:
  assumes "live_ok c pol txv sv rt" "protocol_config_post_init c = Inr ()" "mempool_policy_post_init pol = Inr ()"
  shows "runtime_chain rt = cfg_chain_id c" "pool_ok (np_pool (vr_pipeline rt))"
    "store_ok (np_chain (vr_pipeline rt)) (np_store (vr_pipeline rt))" "np_chain (vr_pipeline rt) = cfg_chain_id c"
    "np_config (vr_pipeline rt) = c"
proof -
  note parts = node_reachable_parts [of c pol txv "vote_check sv" "vr_pipeline rt"]
  show "runtime_chain rt = cfg_chain_id c" "np_chain (vr_pipeline rt) = cfg_chain_id c" "np_config (vr_pipeline rt) = c"
    "pool_ok (np_pool (vr_pipeline rt))" "store_ok (np_chain (vr_pipeline rt)) (np_store (vr_pipeline rt))"
    using assms parts pool_reachable_for store_reachable_ok
    by (auto simp: live_ok_def runtime_chain_def pool_for_def)
qed


definition live_history ::
  "protocol_config \<Rightarrow> mempool_policy \<Rightarrow> (tx_envelope \<Rightarrow> bool) \<Rightarrow> signature_check \<Rightarrow> validator_runtime \<Rightarrow> validator_runtime \<Rightarrow> bool" where
  "live_history c pol txv sv rt rt' \<longleftrightarrow> live_step c pol txv sv rt rt' \<or> live_restart c pol rt rt'"

lemma live_history_journal:
  assumes "live_history c pol txv sv rt rt'"
  shows "journal_step\<^sup>*\<^sup>* (vr_journal rt) (vr_journal rt')"
  using assms unfolding live_history_def
proof
  assume "live_step c pol txv sv rt rt'"
  then show ?thesis
  proof cases
    case (proposed r ts x)
    then show ?thesis by (cases rule: runtime_propose_cases) simp_all
  next
    case (signed signer vid w)
    then show ?thesis
      by (rule runtime_sign_vote_Inr) (auto intro: journal_step.signed)
  next
    case (advanced r p)
    then show ?thesis by (rule runtime_advance_Inr) simp
  next
    case (voted w y)
    then show ?thesis by (cases rule: runtime_accept_vote_cases) simp_all
  next
    case (rebound bindings)
    then show ?thesis
      by (auto simp: replace_signer_bindings_def if_Inl_Inr_iff bindE_Inr_iff)
  qed simp_all
next
  assume "live_restart c pol rt rt'"
  then show ?thesis
    using live_started(3) journal_step.restarted by (fastforce simp: live_restart_def)
qed

text \<open>
  C7. The keys of a validator never sign two blocks for one height and round, whatever happens between
  the two requests: proposals, votes, rounds, changed schedules and pools, imported blocks, and
  restarts on the stored journal.
\<close>

theorem runtime_signs_once:
  assumes "runtime_sign_vote rt signer sv vid = Inr (w, rt1)" "(live_history c pol txv sv)\<^sup>*\<^sup>* rt1 rt2"
    and "runtime_sign_vote rt2 signer' sv' vid = Inr (w', rt3)"
    and "fv_height w' = fv_height w" "fv_round w' = fv_round w"
  shows "fv_block_hash w' = fv_block_hash w \<and> fv_signature w' = fv_signature w \<and> vr_journal rt3 = vr_journal rt2"
proof -
  obtain p s m and b :: signer_binding and j where signed: "get_or_sign (vr_journal rt) vid (ep_height p) (vr_round rt) (ep_block_hash p)
      (vote_signing_payload (unsigned_vote rt p vid)) (signer (key_resource b) (vote_signing_payload (unsigned_vote rt p vid)))
      (\<lambda>s. sv vid (vote_signing_payload (unsigned_vote rt p vid)) s) = Inr (fv_signature w, j)"
      "w = (unsigned_vote rt p vid)\<lparr>fv_signature := fv_signature w\<rparr>" "rt1 = rt\<lparr>vr_journal := j\<rparr>"
    using assms(1) by (rule runtime_sign_vote_Inr) blast
  obtain p' s' m' and b' :: signer_binding and j' where again: "get_or_sign (vr_journal rt2) vid (ep_height p') (vr_round rt2) (ep_block_hash p')
      (vote_signing_payload (unsigned_vote rt2 p' vid)) (signer' (key_resource b') (vote_signing_payload (unsigned_vote rt2 p' vid)))
      (\<lambda>s. sv' vid (vote_signing_payload (unsigned_vote rt2 p' vid)) s) = Inr (fv_signature w', j')"
      "w' = (unsigned_vote rt2 p' vid)\<lparr>fv_signature := fv_signature w'\<rparr>" "rt3 = rt2\<lparr>vr_journal := j'\<rparr>"
    using assms(3) by (rule runtime_sign_vote_Inr) blast
  have steps: "journal_step\<^sup>*\<^sup>* (vr_journal rt1) (vr_journal rt2)"
    using assms(2) by induction (auto dest: live_history_journal)
  have fields: "fv_height w = ep_height p" "fv_round w = vr_round rt" "fv_block_hash w = ep_block_hash p"
      "fv_height w' = ep_height p'" "fv_round w' = vr_round rt2" "fv_block_hash w' = ep_block_hash p'"
    using signed(2) again(2) by (metis finality_vote.select_convs finality_vote.update_convs unsigned_vote_def)+
  obtain row where "dict_get (signatures (sj_db j)) (vid, ep_height p, vr_round rt) = Some row"
      and row: "sr_block_hash row = ep_block_hash p" "sr_signature row = fv_signature w"
    using signed(1) by (rule signed_row_kept)
  then have "dict_get (signatures (sj_db (vr_journal rt2))) (vid, ep_height p', vr_round rt2) = Some row"
    using journal_log.steps_keep [OF steps] signed(3) assms(4,5) fields by simp
  then show ?thesis
    using again(1) fields row again(3)
    by (cases rule: get_or_sign_Inr [OF again(1)]) auto
qed

section \<open>A quorum of votes finalizes a proposal\<close>

definition deliver :: "signature_check \<Rightarrow> validator_runtime \<Rightarrow> finality_vote list \<Rightarrow> validator_runtime" where
  "deliver sv rt ws = foldl (\<lambda>rt w. snd (runtime_accept_vote rt (np_store (vr_pipeline rt)) sv w)) rt ws"

lemma deliver_simps [simp]:
  "deliver sv rt [] = rt"
  "deliver sv rt (w # ws) = deliver sv (snd (runtime_accept_vote rt (np_store (vr_pipeline rt)) sv w)) ws"
  by (simp_all add: deliver_def)

lemma deliver_idle: "vr_proposal rt = None \<Longrightarrow> deliver sv rt ws = rt"
  by (induction ws) (simp_all add: runtime_accept_vote_def runtime_pending_def)

lemma deliver_decides:
  assumes "undecided (vote_check sv) m (ep_height p) r (ep_block_hash p) earlier ws"
    and "3 * (\<Sum>u \<leftarrow> earlier. power_of (fsm_validators m) (fv_validator_id u)) \<le> 2 * fsm_total_power m"
    and "2 * fsm_total_power m < 3 * (\<Sum>u \<leftarrow> earlier @ ws. power_of (fsm_validators m) (fv_validator_id u))"
    and "fsm_reachable (vote_check sv) m" "fsm_chain_id m = chain"
    and "runtime_pending rt = Inr (p, s, m)" "vr_round rt = r" "vr_pipeline rt = n"
    and "at_height (vr_schedule rt) (ep_height p) = Inr s"
    and commits: "\<And>c. quorum_certificate chain (ep_height p) (ep_block_hash p) c \<Longrightarrow> \<exists>b n'. commit_finalized n (np_store n) p c = Inr (b, n')"
  shows "\<exists>c b n'. commit_finalized n (np_store n) p c = Inr (b, n') \<and> vr_pipeline (deliver sv rt ws) = n' \<and>
    vr_proposal (deliver sv rt ws) = None"
  using assms(1-9)
proof (induction ws arbitrary: m earlier rt)
  case (Cons w ws)
  have ok: "fsm_ok (vote_check sv) m" "validate_vote m w (vote_check sv) = Inr ()" "fresh_vote m w"
      "fv_height w = ep_height p" "fv_round w = r" "lower (fv_block_hash w) = ep_block_hash p"
    using Cons.prems(1) by (simp_all add: undecided_def validate_vote_Inr fresh_vote_def)
  note add = add_vote_fresh [OF ok(1-3)]
  show ?case
  proof (cases "3 * support m w \<le> 2 * fsm_total_power m")
    case True
    let ?m = "stored m w"
    let ?rt = "rt\<lparr>vr_machine := Some ?m\<rparr>"
    have next_state: "snd (runtime_accept_vote rt (np_store (vr_pipeline rt)) sv w) = ?rt"
      using Cons.prems ok add True by (simp add: runtime_accept_vote_def)
    have waits: "undecided (vote_check sv) ?m (ep_height p) r (ep_block_hash p) (earlier @ [w]) ws \<and>
        3 * (\<Sum>u \<leftarrow> earlier @ [w]. power_of (fsm_validators m) (fv_validator_id u)) \<le> 2 * fsm_total_power m"
      using Cons.prems(1)
    proof (cases rule: undecided_step)
      case (decides c)
      then show ?thesis
        using add True Cons.prems(1) by (simp add: stored_def undecided_def)
    qed (use add True in simp)
    have reach: "fsm_reachable (vote_check sv) ?m"
      using Cons.prems(4) add True by (auto intro: fsm_reachable.voted)
    show ?thesis
      unfolding deliver_simps next_state
      by (rule Cons.IH [OF conjunct1 [OF waits] _ _ reach])
         (use Cons.prems waits in \<open>auto simp: stored_def runtime_pending_Inr\<close>)
  next
    case False
    let ?c = "new_certificate m w"
    let ?m = "(stored m w)\<lparr>finalized := finalized m @ [(fv_height w, ?c)]\<rparr>"
    have add': "add_vote m w (vote_check sv) = (Inr (Some ?c), ?m)"
      using add False by simp
    have reach: "fsm_reachable (vote_check sv) ?m"
      using Cons.prems(4) add' by (rule fsm_reachable.voted)
    have got: "get_certificate ?m (ep_height p) = Inr ?c"
      using ok by (simp add: get_certificate_Inr fresh_vote_def map_add_def del: map_of_eq_Some_iff)
    have "fsm_chain_id ?m = chain" "fc_block_hash ?c = ep_block_hash p"
      using Cons.prems(5) ok by (simp_all add: stored_def new_certificate_def certificate_of_def)
    then have "quorum_certificate chain (ep_height p) (ep_block_hash p) ?c"
      using machine_certificate [OF reach got] by (simp only:)
    then obtain b n' where commit: "commit_finalized n (np_store n) p ?c = Inr (b, n')"
      using commits by blast
    then have "vr_pipeline (snd (runtime_accept_vote rt (np_store (vr_pipeline rt)) sv w)) = n' \<and>
        vr_proposal (snd (runtime_accept_vote rt (np_store (vr_pipeline rt)) sv w)) = None"
      using Cons.prems ok add' by (simp add: runtime_accept_vote_def)
    then show ?thesis
      using commit deliver_idle by auto
  qed
qed simp

text \<open>Too few votes leave the proposal pending.\<close>

lemma deliver_waits:
  assumes "undecided (vote_check sv) m (ep_height p) r (ep_block_hash p) earlier ws"
    and "3 * (\<Sum>u \<leftarrow> earlier @ ws. power_of (fsm_validators m) (fv_validator_id u)) \<le> 2 * fsm_total_power m"
    and "\<And>i. 0 \<le> power_of (fsm_validators m) i" "map snd (fsm_votes m) = earlier"
    and "runtime_pending rt = Inr (p, s, m)" "vr_round rt = r" "at_height (vr_schedule rt) (ep_height p) = Inr s"
  shows "vr_proposal (deliver sv rt ws) = Some p \<and>
    (ws \<noteq> [] \<longrightarrow> (let rt' = deliver sv rt (butlast ws) in fst (runtime_accept_vote rt' (np_store (vr_pipeline rt')) sv (last ws)) = Inr None))"
  using assms
proof (induction ws arbitrary: m earlier rt)
  case Nil
  then show ?case
    by (simp add: runtime_pending_Inr)
next
  case (Cons w ws)
  have ok: "fsm_ok (vote_check sv) m" "validate_vote m w (vote_check sv) = Inr ()" "fresh_vote m w"
      "fv_height w = ep_height p" "fv_round w = r" "lower (fv_block_hash w) = ep_block_hash p"
    using Cons.prems(1) by (simp_all add: undecided_def validate_vote_Inr fresh_vote_def)
  have "0 \<le> (\<Sum>u \<leftarrow> ws. power_of (fsm_validators m) (fv_validator_id u))"
    using Cons.prems(3) by (intro sum_list_nonneg) auto
  moreover have "matching_votes (fsm_votes m) w = earlier"
    using Cons.prems(1,4) ok(4-6) by (simp add: matching_votes_def undecided_def)
  ultimately have few: "3 * support m w \<le> 2 * fsm_total_power m"
    using Cons.prems(2) by (simp add: support_def supporters_def)
  let ?rt = "rt\<lparr>vr_machine := Some (stored m w)\<rparr>"
  have add: "add_vote m w (vote_check sv) = (Inr None, stored m w)"
    using add_vote_fresh [OF ok(1-3)] few by simp
  have this_one: "runtime_accept_vote rt (np_store (vr_pipeline rt)) sv w = (Inr None, ?rt)"
    using Cons.prems ok add by (simp add: runtime_accept_vote_def)
  have waits: "undecided (vote_check sv) (stored m w) (ep_height p) r (ep_block_hash p) (earlier @ [w]) ws"
    using Cons.prems(1)
  proof (cases rule: undecided_step)
    case (decides c)
    then show ?thesis
      using add Cons.prems(1) by (simp add: stored_def undecided_def)
  qed (use add in simp)
  have "vr_proposal (deliver sv ?rt ws) = Some p \<and>
    (ws \<noteq> [] \<longrightarrow> (let rt' = deliver sv ?rt (butlast ws) in fst (runtime_accept_vote rt' (np_store (vr_pipeline rt')) sv (last ws)) = Inr None))"
    by (rule Cons.IH [OF waits]) (use Cons.prems in \<open>auto simp: stored_def runtime_pending_Inr\<close>)
  then show ?case
    using this_one by simp
qed

text \<open>A vote for a proposal, of a member of a set and with a signature that verifies.\<close>

definition good_vote :: "signature_check \<Rightarrow> int \<Rightarrow> validator_set \<Rightarrow> executed_proposal \<Rightarrow> int \<Rightarrow> finality_vote \<Rightarrow> bool" where
  "good_vote sv chain s p r w \<longleftrightarrow>
     fv_chain_id w = chain \<and> fv_height w = ep_height p \<and> fv_round w = r \<and> is_hash32 (fv_block_hash w) \<and>
     lower (fv_block_hash w) = ep_block_hash p \<and> fv_validator_id w \<in> validator_id ` set (vs_validators s) \<and>
     fv_signature w \<noteq> [] \<and> length (fv_signature w) \<le> 4096 \<and>
     sv (fv_validator_id w) (vote_signing_payload w) (fv_signature w) = Some True"

text \<open>A machine just started for a proposal is undecided about good votes of distinct members.\<close>

lemma propose_undecided:
  assumes "live_reachable c pol txv sv rt" "protocol_config_post_init c = Inr ()" "mempool_policy_post_init pol = Inr ()"
    and "runtime_propose rt txv r ts = Some (Inr p, rt1)" "vr_active rt1 = Some s"
    and "\<forall>w \<in> set ws. good_vote sv (cfg_chain_id c) s p r w" "distinct (map fv_validator_id ws)"
  obtains m where "undecided (vote_check sv) m (ep_height p) r (ep_block_hash p) [] ws" "machine_of (vote_check sv) (cfg_chain_id c) s m"
    "runtime_pending rt1 = Inr (p, s, m)" "vr_round rt1 = r" "at_height (vr_schedule rt1) (ep_height p) = Inr s" "set_ok s"
    "execute_candidate (vr_pipeline rt) txv ts = Some (Inr p)" "vr_pipeline rt1 = vr_pipeline rt" "fsm_votes m = []"
proof -
  have ok: "live_ok c pol txv sv rt"
    using assms(1,2) by (rule live_reachable_ok)
  note parts = live_parts [OF ok assms(2,3)]
  let ?n = "vr_pipeline rt"
  from assms(4) obtain m where rt1: "0 \<le> r" "execute_candidate ?n txv ts = Some (Inr p)"
      "at_height (vr_schedule rt) (ep_height p) = Inr s"
      "finality_init (runtime_chain rt) (vs_validators s) (head_height (np_store ?n)) = Inr m"
      "rt1 = rt\<lparr>vr_proposal := Some p, vr_active := Some s, vr_machine := Some m, vr_round := r\<rparr>"
    by (cases rule: runtime_propose_cases) (use assms(5) in auto)
  have set: "set_ok s"
    using at_height_ok [OF _ rt1(3)] ok by (simp add: live_ok_def)
  note above = proposed_above [OF rt1(2) parts(3)]
  have chain: "0 < cfg_chain_id c"
    using parts(3,4) by (simp add: store_ok_def)
  have m: "machine_of (vote_check sv) (cfg_chain_id c) s m" "checkpoint_height m = head_height (np_store ?n)" "fsm_votes m = []"
      "finalized m = []"
    using started_machine [OF set chain, of "head_height (np_store ?n)" "vote_check sv"] rt1(4) above(2) parts(1) by auto
  have pairs: "fst ` set (set_pairs s) = validator_id ` set (vs_validators s)"
    by (force simp: set_pairs_def)
  have "vote_ok (vote_check sv) m w" if "w \<in> set ws" for w
    using assms(6) that m(1) rt1(1) above pairs
    by (auto simp: good_vote_def vote_ok_def vote_for_def machine_of_def vote_check_def)
  then have "undecided (vote_check sv) m (ep_height p) r (ep_block_hash p) [] ws"
    using assms(6,7) m above fsm_reachable_ok
    by (auto simp: undecided_def latest_finalized_height_def machine_of_def good_vote_def)
  then show thesis
    by (rule that) (use m(1,3) rt1 set in \<open>simp_all add: runtime_pending_Inr\<close>)
qed

lemma set_power_nonneg:
  assumes "set_ok s"
  shows "0 \<le> vs_total_power s"
  using vset.weight_mono [of s "{}" "fst ` set (set_pairs s)"] vset.total_sum [of s] assms by simp

lemma propose_decides:
  assumes "live_reachable c pol txv sv rt" "protocol_config_post_init c = Inr ()" "mempool_policy_post_init pol = Inr ()"
    and "runtime_propose rt txv r ts = Some (Inr p, rt1)" "vr_active rt1 = Some s"
    and "\<forall>w \<in> set ws. good_vote sv (cfg_chain_id c) s p r w" "distinct (map fv_validator_id ws)"
    and "2 * vs_total_power s < 3 * sum (power_of (set_pairs s)) (fv_validator_id ` set ws)"
    and "\<forall>item \<in> set (blocks (np_store (vr_pipeline rt))). br_block_hash (snd item) \<noteq> ep_block_hash p"
    and "sqlite_int (ep_height p)" "sqlite_int (base_fee_per_gas (ep_transition p))" "sqlite_int (gas_used (ep_transition p))"
      "\<forall>t. ts = Some t \<longrightarrow> sqlite_int t"
  shows "\<exists>cert b n'. commit_finalized (vr_pipeline rt) (np_store (vr_pipeline rt)) p cert = Inr (b, n') \<and>
    vr_pipeline (deliver sv rt1 ws) = n' \<and> vr_proposal (deliver sv rt1 ws) = None"
proof -
  obtain m where m: "undecided (vote_check sv) m (ep_height p) r (ep_block_hash p) [] ws" "machine_of (vote_check sv) (cfg_chain_id c) s m"
    "runtime_pending rt1 = Inr (p, s, m)" "vr_round rt1 = r" "at_height (vr_schedule rt1) (ep_height p) = Inr s" "set_ok s"
    "execute_candidate (vr_pipeline rt) txv ts = Some (Inr p)" "vr_pipeline rt1 = vr_pipeline rt"
    by (rule propose_undecided [OF assms(1-7)])
  note parts = live_parts [OF live_reachable_ok [OF assms(1,2)] assms(2,3)]
  have commits: "\<exists>b n'. commit_finalized (vr_pipeline rt) (np_store (vr_pipeline rt)) p cert = Inr (b, n')"
    if "quorum_certificate (cfg_chain_id c) (ep_height p) (ep_block_hash p) cert" for cert
    using proposal_commits [OF m(7) parts(3), of cert] that parts(4,5) assms(9-13) by auto
  show ?thesis
    by (rule deliver_decides [OF m(1) _ _ _ _ _ _ _ _ commits])
       (use m set_power_nonneg assms(7,8) in \<open>simp_all add: machine_of_def sum_list_distinct_ids\<close>)
qed

lemma propose_waits:
  assumes "live_reachable c pol txv sv rt" "protocol_config_post_init c = Inr ()" "mempool_policy_post_init pol = Inr ()"
    and "runtime_propose rt txv r ts = Some (Inr p, rt1)" "vr_active rt1 = Some s"
    and "\<forall>w \<in> set ws. good_vote sv (cfg_chain_id c) s p r w" "distinct (map fv_validator_id ws)"
    and "3 * sum (power_of (set_pairs s)) (fv_validator_id ` set ws) \<le> 2 * vs_total_power s"
  shows "vr_proposal (deliver sv rt1 ws) = Some p"
    "ws = earlier @ [w] \<Longrightarrow> fst (runtime_accept_vote (deliver sv rt1 earlier) (np_store (vr_pipeline (deliver sv rt1 earlier))) sv w) = Inr None"
proof -
  obtain m where m: "undecided (vote_check sv) m (ep_height p) r (ep_block_hash p) [] ws" "machine_of (vote_check sv) (cfg_chain_id c) s m"
    "runtime_pending rt1 = Inr (p, s, m)" "vr_round rt1 = r" "at_height (vr_schedule rt1) (ep_height p) = Inr s" "set_ok s"
      "fsm_votes m = []"
    by (rule propose_undecided [OF assms(1-7)])
  have "0 \<le> power_of (set_pairs s) i" for i
  proof (cases "i \<in> fst ` set (set_pairs s)")
    case True
    then show ?thesis
      using vset.weight_mono [of s "{}" "{i}"] m(6) by simp
  next
    case False
    then have "dict_get (set_pairs s) i = None"
      by (simp add: map_of_eq_None_iff)
    then show ?thesis
      by (simp add: power_of_def)
  qed
  then have "vr_proposal (deliver sv rt1 ws) = Some p \<and>
    (ws \<noteq> [] \<longrightarrow> (let rt' = deliver sv rt1 (butlast ws) in fst (runtime_accept_vote rt' (np_store (vr_pipeline rt')) sv (last ws)) = Inr None))"
    by (intro deliver_waits [OF m(1) _ _ _ m(3-5)])
       (use m(2,7) assms(7,8) in \<open>simp_all add: machine_of_def sum_list_distinct_ids\<close>)
  then show "vr_proposal (deliver sv rt1 ws) = Some p"
    "ws = earlier @ [w] \<Longrightarrow> fst (runtime_accept_vote (deliver sv rt1 earlier) (np_store (vr_pipeline (deliver sv rt1 earlier))) sv w) = Inr None"
    by (simp_all add: Let_def)
qed


section \<open>A sample runtime\<close>

definition sample_bindings :: "(string, signer_binding) dict" where
  "sample_bindings = map (\<lambda>i. (i, \<lparr>bound_validator = i, key_resource = ''kms://'' @ i\<rparr>)) [''a'', ''b'', ''c'']"

definition approving :: signature_check where "approving _ _ _ = Some True"

definition fixed_signer :: "string \<Rightarrow> bytes \<Rightarrow> bytes option" where "fixed_signer _ _ = Some (replicate 64 (CHR ''s''))"

definition first_journal :: journal where
  "first_journal = \<lparr>sj_chain_id = 7, sj_db = empty_journal_db\<lparr>meta_chain_id := Some ''7''\<rparr>\<rparr>"

definition idle_runtime :: validator_runtime where
  "idle_runtime = \<lparr>vr_pipeline = sample_node 2 0, vr_schedule = [sample_set], vr_journal = first_journal, vr_bindings = sample_bindings,
     vr_proposal = None, vr_machine = None, vr_active = None, vr_round = 0\<rparr>"

lemma first_journal_reachable: "journal_reachable 7 first_journal"
proof (rule journal_reachable.opened)
  show "open_journal 7 True empty_journal_db = (Inr first_journal, sj_db first_journal)"
    by code_simp
qed (simp_all add: empty_journal_db_def)

lemma sample_bindings_valid: "validate_bindings sample_set sample_bindings = Inr sample_bindings"
  by (auto simp: validate_bindings_def sample_set_def sample_validators_def sample_bindings_def check_signer_binding_def)

lemma idle_runtime_reachable: "live_reachable sample_config sample_policy (\<lambda>_. True) approving idle_runtime"
proof (rule live_reachable.started [OF sample_node_reachable sample_scheduled])
  show "journal_reachable (cfg_chain_id sample_config) first_journal"
    using first_journal_reachable by (simp add: sample_chain)
  show "validator_runtime_init (sample_node 2 0) [sample_set] sample_bindings first_journal = Inr idle_runtime"
    by (simp add: validator_runtime_init_def sample_at_height sample_chain first_journal_def sample_bindings_valid)
       (simp add: idle_runtime_def first_journal_def)
qed

lemma sample_active: "at_height [sample_set] 1 = Inr sample_set"
  by (simp add: at_height_def)

lemma sample_head_height: "head_height (np_store (sample_node 2 0)) = 0"
  by (simp add: sample_node_def funded_store_def head_height_def)

lemma idle_proposes:
  obtains p rt where "runtime_propose idle_runtime (\<lambda>_. True) 0 (Some 99) = Some (Inr p, rt)" "vr_active rt = Some sample_set"
    "vr_proposal rt = Some p" "ep_height p = 1" "base_fee_per_gas (ep_transition p) = 2" "gas_used (ep_transition p) = 5"
    "\<exists>m. ep_block_hash p = digest0x m" "live_reachable sample_config sample_policy (\<lambda>_. True) approving rt"
    "runtime_pending rt = Inr (p, sample_set, next_fsm)" "vr_bindings rt = sample_bindings" "vr_journal rt = first_journal"
    "vr_round rt = 0" "runtime_chain rt = 7"
proof -
  obtain p where p: "execute_candidate (sample_node 2 0) (\<lambda>_. True) (Some 99) = Some (Inr p)" "ep_height p = 1"
      "base_fee_per_gas (ep_transition p) = 2" "gas_used (ep_transition p) = 5" "\<exists>m. ep_block_hash p = digest0x m"
    by (rule sample_proposal)
  have init: "finality_init 7 (vs_validators sample_set) 0 = Inr next_fsm"
    by (simp add: finality_init_def next_fsm_def sample_fsm_def sample_set_def sample_validators_def dict_of_def
        less_eq_char_def less_char_def)
  let ?rt = "idle_runtime\<lparr>vr_proposal := Some p, vr_active := Some sample_set, vr_machine := Some next_fsm, vr_round := 0\<rparr>"
  have chain: "runtime_chain idle_runtime = 7"
    by (simp add: runtime_chain_def idle_runtime_def sample_chain)
  have propose: "runtime_propose idle_runtime (\<lambda>_. True) 0 (Some 99) = Some (Inr p, ?rt)"
    unfolding runtime_propose_def chain
    by (simp add: idle_runtime_def p(1,2) sample_active sample_bindings_valid init sample_head_height)
  show thesis
    using propose p(2-5) live_reachable.step [OF idle_runtime_reachable live_step.proposed [OF propose]]
    by (intro that [of p ?rt]) (simp_all add: runtime_pending_def idle_runtime_def runtime_chain_def sample_chain)
qed

definition block_votes :: "executed_proposal \<Rightarrow> finality_vote list" where
  "block_votes p = map (\<lambda>i. \<lparr>fv_chain_id = 7, fv_height = ep_height p, fv_round = 0, fv_block_hash = ep_block_hash p,
     fv_validator_id = i, fv_signature = ''s''\<rparr>) [''a'', ''b'', ''c'']"

lemma block_votes_good:
  assumes "ep_block_hash p = digest0x m"
  shows "\<forall>w \<in> set (block_votes p). good_vote approving 7 sample_set p 0 w" "distinct (map fv_validator_id (block_votes p))"
    "2 * vs_total_power sample_set < 3 * sum (power_of (set_pairs sample_set)) (fv_validator_id ` set (block_votes p))"
  using assms by (auto simp: block_votes_def good_vote_def approving_def sample_set_def sample_validators_def vs_total_power_def
      set_pairs_def power_of_def)

lemma sample_new_hash:
  assumes "ep_block_hash p = digest0x m"
  shows "\<forall>item \<in> set (blocks (np_store (vr_pipeline idle_runtime))). br_block_hash (snd item) \<noteq> ep_block_hash p"
  using assms underscore_hash_ok(3) by (auto simp: idle_runtime_def sample_node_def funded_store_def funded_row_def)

lemma deliver_finalized:
  assumes "live_reachable c pol txv sv rt" "vr_proposal rt \<noteq> None" "vr_proposal (deliver sv rt ws) = None"
  obtains rt1 w f rt2 where "live_reachable c pol txv sv rt1"
    "runtime_accept_vote rt1 (np_store (vr_pipeline rt1)) sv w = (Inr (Some f), rt2)"
  using assms
proof (induction ws arbitrary: rt thesis)
  case (Cons w ws)
  obtain x rt' where accept: "runtime_accept_vote rt (np_store (vr_pipeline rt)) sv w = (x, rt')"
    by (cases "runtime_accept_vote rt (np_store (vr_pipeline rt)) sv w")
  have reach: "live_reachable c pol txv sv rt'"
    using Cons.prems(2) live_step.voted [OF accept] by (rule live_reachable.step)
  show ?case
  proof (cases "\<exists>f. x = Inr (Some f)")
    case True
    then show ?thesis
      using Cons.prems(1,2) accept by blast
  next
    case False
    then have "vr_proposal rt' \<noteq> None"
      using accept Cons.prems(3) by (cases rule: runtime_accept_vote_cases [OF accept]) auto
    then show ?thesis
      using Cons.IH [OF Cons.prems(1) reach] Cons.prems(4) accept by auto
  qed
qed simp



lemma runtime_signs_once_witness:
  "\<exists>rt w rt1 w' rt3. runtime_sign_vote rt fixed_signer approving ''a'' = Inr (w, rt1) \<and>
     runtime_sign_vote rt1 fixed_signer approving ''a'' = Inr (w', rt3) \<and> fv_block_hash w' = fv_block_hash w"
proof -
  obtain p rt where p: "ep_height p = 1" "\<exists>m. ep_block_hash p = digest0x m"
      "runtime_pending rt = Inr (p, sample_set, next_fsm)" "vr_bindings rt = sample_bindings" "vr_journal rt = first_journal"
      "vr_round rt = 0" "runtime_chain rt = 7"
    by (rule idle_proposes)
  obtain m where m: "ep_block_hash p = digest0x m"
    using p(2) by blast
  have hash: "is_lower_hash (ep_block_hash p)" "lower (ep_block_hash p) = ep_block_hash p"
    using sha256_hex_lower_hex by (simp_all only: m lower_digest0x) (simp_all add: is_lower_hash_def digest0x_def starts_with_def)
  let ?payload = "vote_signing_payload (unsigned_vote rt p ''a'')" and ?s = "replicate 64 (CHR ''s'')"
  let ?row = "\<lparr>sr_block_hash = ep_block_hash p, sr_payload_digest = sha256_hex ?payload, sr_signature = ?s\<rparr>"
  let ?j = "with_signature first_journal (''a'', 1, 0) ?row"
  have "\<not> is_space (CHR ''a'')"
    by code_simp
  moreover have "json_dumps (vote_payload_json block chain h r vid) \<noteq> []" for block chain h r vid
    by (simp add: json_dumps_def vote_payload_json_def)
  ultimately have able: "signable first_journal ''a'' 1 0 (ep_block_hash p) ?payload" "signable ?j ''a'' 1 0 (ep_block_hash p) ?payload"
    using hash p by (simp_all add: signable_def canonical_payload_def vote_signing_payload_def unsigned_vote_def first_journal_def
        with_signature_def sqlite_int_def)
  have first: "get_or_sign first_journal ''a'' 1 0 (ep_block_hash p) ?payload (Some ?s) (\<lambda>_. Some True) = Inr (?s, ?j)"
    using able(1) by (subst get_or_sign_new) (simp_all add: first_journal_def empty_journal_db_def)
  have row: "dict_get (signatures (sj_db ?j)) (''a'', 1, 0) = Some ?row"
    by (simp add: with_signature_def del: map_of_eq_Some_iff)
  have again: "get_or_sign ?j ''a'' 1 0 (ep_block_hash p) ?payload (Some ?s) (\<lambda>_. Some True) = Inr (?s, ?j)"
    unfolding get_or_sign_stored [OF able(2) row] by simp
  have member: "''a'' \<in> set (map validator_id (vs_validators sample_set))" "dict_get sample_bindings ''a'' = Some \<lparr>bound_validator = ''a'', key_resource = ''kms://a''\<rparr>"
    by (simp_all add: sample_set_def sample_validators_def sample_bindings_def)
  let ?w = "(unsigned_vote rt p ''a'')\<lparr>fv_signature := ?s\<rparr>" and ?rt = "rt\<lparr>vr_journal := ?j\<rparr>"
  have sign: "runtime_sign_vote rt fixed_signer approving ''a'' = Inr (?w, ?rt)"
    using p first member by (simp add: runtime_sign_vote_def fixed_signer_def approving_def [abs_def] Let_def)
  have same: "unsigned_vote ?rt p ''a'' = unsigned_vote rt p ''a''" "runtime_pending ?rt = runtime_pending rt"
    by (simp_all add: unsigned_vote_def runtime_chain_def runtime_pending_def)
  have sign_again: "runtime_sign_vote ?rt fixed_signer approving ''a'' = Inr (?w, ?rt)"
    using p again member by (simp add: runtime_sign_vote_def fixed_signer_def approving_def [abs_def] same Let_def)
  from runtime_signs_once [OF sign rtranclp.rtrancl_refl sign_again] sign sign_again show ?thesis
    by blast
qed

end
