(* ===== verification/VoteWire.thy ===== *)
theory VoteWire
  imports WireProtocol
begin

text \<open>
  \<open>validator_node.py\<close>, the data its validators exchange and are configured with: votes with a second
  signature for the transport, their frames and how a connection is read, the two encodings of a
  signature, and the identifiers, key names and assignments of the command line.
\<close>

section \<open>Identifiers and configuration\<close>

definition identifier_ok :: "string \<Rightarrow> bool" where
  "identifier_ok s \<longleftrightarrow> s \<noteq> [] \<and> length s \<le> 128 \<and> list_all (\<lambda>c. is_alnum c \<or> c = CHR ''-'' \<or> c = CHR ''_'') s"

definition check_identifier :: "string \<Rightarrow> string result" where
  "check_identifier s =
     (if s = [] \<or> 128 < length s then Inl (ValidatorNodeError ''validator identifier is invalid'')
      else if \<not> list_all (\<lambda>c. is_alnum c \<or> c = CHR ''-'' \<or> c = CHR ''_'') s
      then Inl (ValidatorNodeError ''validator identifier is invalid'')
      else Inr s)"

text \<open>\<open>sub in s\<close>.\<close>

definition contains :: "string \<Rightarrow> string \<Rightarrow> bool" where
  "contains sub s = list_ex (\<lambda>n. starts_with sub (drop n s)) [0..<length s + 1]"

definition kms_arn :: "string \<Rightarrow> string result" where
  "kms_arn s =
     (if \<not> starts_with ''arn:aws:kms:'' s \<or> \<not> contains '':key/'' s \<or> 512 < length s
      then Inl (ValidatorNodeError ''AWS KMS key ARN is invalid'')
      else Inr s)"

text \<open>\<open>value.split("=", 1)\<close> and \<open>value.rsplit(":", 1)\<close>: the parts around the first and the last separator.\<close>

definition split_first :: "char \<Rightarrow> string \<Rightarrow> string \<times> string" where
  "split_first c s = (takeWhile (\<lambda>d. d \<noteq> c) s, drop 1 (dropWhile (\<lambda>d. d \<noteq> c) s))"

definition split_last :: "char \<Rightarrow> string \<Rightarrow> string \<times> string" where
  "split_last c s = (let (a, b) = split_first c (rev s) in (rev b, rev a))"

definition add_assignment :: "string \<Rightarrow> (string, string) dict \<Rightarrow> string \<Rightarrow> (string, string) dict result" where
  "add_assignment label d s =
     (if CHR ''='' \<notin> set s then Inl (ValidatorNodeError (label @ '' assignment is invalid''))
      else
        let (identity, assigned) = split_first (CHR ''='') s in
        bindE (check_identifier identity) (\<lambda>i.
        if dict_get d i \<noteq> None \<or> assigned = [] then Inl (ValidatorNodeError (label @ '' assignment is invalid''))
        else Inr (dict_set i assigned d)))"

definition parse_assignments :: "string list \<Rightarrow> string \<Rightarrow> (string, string) dict result" where
  "parse_assignments values label =
     bindE (foldE (add_assignment label) [] values) (\<lambda>d.
     if length d \<noteq> 3 then Inl (ValidatorNodeError (label @ '' requires exactly 3 assignments'')) else Inr d)"

text \<open>\<open>int(text)\<close>: white space around it, a sign, and digits with single underscores between them.\<close>

fun digits10 :: "bool \<Rightarrow> nat \<Rightarrow> string \<Rightarrow> nat option" where
  "digits10 need acc [] = (if need then None else Some acc)"
| "digits10 need acc (c # cs) =
     (if is_digit c then digits10 False (10 * acc + (of_char c - 48)) cs
      else if c = CHR ''_'' \<and> \<not> need then digits10 True acc cs
      else None)"

definition python_int :: "string \<Rightarrow> int option" where
  "python_int s =
     (case rev (dropWhile is_int_space (rev (dropWhile is_int_space s))) of
        [] \<Rightarrow> None
      | c # r \<Rightarrow>
          if c = CHR ''-'' then map_option (\<lambda>n. - int n) (digits10 True 0 r)
          else if c = CHR ''+'' then map_option int (digits10 True 0 r)
          else map_option int (digits10 True 0 (c # r)))"

definition parse_endpoint :: "string \<Rightarrow> (string \<times> int) result" where
  "parse_endpoint s =
     (if CHR '':'' \<notin> set s then Inl (ValidatorNodeError ''peer endpoint is invalid'')
      else
        let (host, port_text) = split_last (CHR '':'') s in
        (case python_int port_text of
           None \<Rightarrow> Inl (ValidatorNodeError ''peer endpoint is invalid'')
         | Some port \<Rightarrow>
             if host = [] \<or> port \<noteq> 30303 then Inl (ValidatorNodeError ''peer endpoint must use port 30303'')
             else Inr (host, port)))"

definition parse_peer_endpoints :: "string list \<Rightarrow> (string, string \<times> int) dict result" where
  "parse_peer_endpoints values =
     bindE (parse_assignments values ''peer'') (\<lambda>assignments.
     mapE (\<lambda>(identity, endpoint). bindE (parse_endpoint endpoint) (\<lambda>e. Inr (identity, e))) assignments)"

fun split_on :: "char \<Rightarrow> string \<Rightarrow> string list" where
  "split_on c [] = [[]]"
| "split_on c (d # s) =
     (case split_on c s of
        [] \<Rightarrow> [[d]]
      | t # ts \<Rightarrow> if d = c then [] # t # ts else (d # t) # ts)"

text \<open>The argument is the text of the environment variable.\<close>

definition environment_assignments :: "string \<Rightarrow> string \<Rightarrow> string list result" where
  "environment_assignments variable assigned =
     (let s = strip assigned in
      if s = [] then Inr []
      else
        let parts = map strip (split_on (CHR '','') s) in
        if [] \<in> set parts then Inl (ValidatorNodeError (variable @ '' contains an empty assignment'')) else Inr parts)"

section \<open>Authenticated votes\<close>

record authenticated_vote =
  av_chain_id :: int
  av_height :: int
  av_round :: int
  av_block_hash :: string
  av_validator_id :: string
  av_signature :: bytes
  av_peer_signature :: bytes
  av_timestamp :: "int option"

definition timestamp_member :: "int option \<Rightarrow> (string \<times> json) list" where
  "timestamp_member ts = (case ts of None \<Rightarrow> [] | Some t \<Rightarrow> [(''block_timestamp'', JInt t)])"

definition peer_payload_json :: "authenticated_vote \<Rightarrow> json" where
  "peer_payload_json p = JObj
     ([(''block_hash'', JStr (av_block_hash p)),
       (''chain_id'', JInt (av_chain_id p)),
       (''height'', JInt (av_height p)),
       (''round'', JInt (av_round p)),
       (''signature'', JStr (hex_of (av_signature p))),
       (''validator_id'', JStr (av_validator_id p))] @ timestamp_member (av_timestamp p))"

definition peer_signing_payload :: "authenticated_vote \<Rightarrow> bytes" where
  "peer_signing_payload p =
     ''JUNCA_AUTHENTICATED_PEER_VOTE_V1'' @ [CHR 0x00] @ encode (json_dumps (peer_payload_json p))"

definition canonical_json :: "json \<Rightarrow> bytes" where
  "canonical_json v = encode (json_dumps v @ [CHR 0x0A])"

definition vote_members :: "authenticated_vote \<Rightarrow> (string \<times> json) list" where
  "vote_members p =
     [(''chain_id'', JInt (av_chain_id p)),
      (''height'', JInt (av_height p)),
      (''round'', JInt (av_round p)),
      (''block_hash'', JStr (av_block_hash p)),
      (''validator_id'', JStr (av_validator_id p)),
      (''signature'', JStr (hex_of (av_signature p))),
      (''peer_signature'', JStr (hex_of (av_peer_signature p)))] @ timestamp_member (av_timestamp p)"

definition vote_frame :: "authenticated_vote \<Rightarrow> bytes result" where
  "vote_frame p =
     (let body = canonical_json (JObj (vote_members p)) in
      if 16384 < length body then Inl (ValidatorNodeError ''peer vote frame exceeds size boundary'')
      else Inr (be_bytes4 (int (length body)) @ body))"

definition packet_fields :: "string set" where
  "packet_fields =
     {''chain_id'', ''height'', ''round'', ''block_hash'', ''validator_id'', ''signature'', ''peer_signature''}"

definition natural :: "json \<Rightarrow> int option" where
  "natural v = (case v of JInt i \<Rightarrow> if i < 0 then None else Some i | _ \<Rightarrow> None)"

definition signature_field :: "json \<Rightarrow> bytes option" where
  "signature_field v = (case v of JStr s \<Rightarrow> from_hex s | _ \<Rightarrow> None)"

definition vote_timestamp :: "json \<Rightarrow> int option result" where
  "vote_timestamp v =
     (case v of
        JNull \<Rightarrow> Inr None
      | JInt t \<Rightarrow> if t \<le> 0 then Inl (ValidatorNodeError ''authenticated vote timestamp is invalid'') else Inr (Some t)
      | _ \<Rightarrow> Inl (ValidatorNodeError ''authenticated vote timestamp is invalid''))"

definition identifier_field :: "json \<Rightarrow> string result" where
  "identifier_field v = (case v of JStr s \<Rightarrow> check_identifier s | _ \<Rightarrow> Inl (ValidatorNodeError ''validator identifier is invalid''))"

definition block_hash_field :: "json \<Rightarrow> string option" where
  "block_hash_field v = (case v of JStr s \<Rightarrow> if length s \<noteq> 66 \<or> \<not> starts_with ''0x'' s then None else Some s | _ \<Rightarrow> None)"

definition authenticated_vote_of :: "(string \<times> json) list \<Rightarrow> authenticated_vote result" where
  "authenticated_vote_of ms =
     (if json_keys ms \<noteq> packet_fields \<and> json_keys ms \<noteq> insert ''block_timestamp'' packet_fields
      then Inl (ValidatorNodeError ''authenticated vote fields are invalid'')
      else
        case (natural (json_at ms ''chain_id''), natural (json_at ms ''height''), natural (json_at ms ''round'')) of
          (Some chain, Some h, Some r) \<Rightarrow>
            if chain = 0 then Inl (ValidatorNodeError ''authenticated vote numeric identity is invalid'')
            else
              (case block_hash_field (json_at ms ''block_hash'') of
                 None \<Rightarrow> Inl (ValidatorNodeError ''authenticated vote block hash is invalid'')
               | Some block \<Rightarrow>
                   (case (signature_field (json_at ms ''signature''), signature_field (json_at ms ''peer_signature'')) of
                      (Some s, Some ps) \<Rightarrow>
                        if s = [] \<or> ps = [] then Inl (ValidatorNodeError ''authenticated vote signatures are invalid'')
                        else
                          bindE (vote_timestamp (json_at ms ''block_timestamp'')) (\<lambda>ts.
                          bindE (identifier_field (json_at ms ''validator_id'')) (\<lambda>vid.
                          Inr \<lparr>av_chain_id = chain, av_height = h, av_round = r, av_block_hash = block,
                               av_validator_id = vid, av_signature = s, av_peer_signature = ps, av_timestamp = ts\<rparr>))
                    | _ \<Rightarrow> Inl (ValidatorNodeError ''authenticated vote signatures are invalid'')))
        | _ \<Rightarrow> Inl (ValidatorNodeError ''authenticated vote numeric identity is invalid''))"

section \<open>Reading a connection\<close>

text \<open>
  A connection is what it will deliver: the pieces the network cuts the peer's bytes into, then its end.
  \<open>recv(n)\<close> returns at most \<open>n\<close> bytes of the next piece, and nothing at the end.
\<close>

definition recv :: "nat \<Rightarrow> bytes list \<Rightarrow> bytes \<times> bytes list" where
  "recv n conn =
     (case conn of
        [] \<Rightarrow> ([], [])
      | piece # rest \<Rightarrow> (take n piece, if length piece \<le> n then rest else drop n piece # rest))"

function receive_loop :: "nat \<Rightarrow> bytes \<Rightarrow> bytes list \<Rightarrow> (bytes \<times> bytes list) result" where
  "receive_loop n got conn =
     (if n \<le> length got then Inr (got, conn)
      else
        let (piece, conn') = recv (n - length got) conn in
        if piece = [] then Inl (ValidatorNodeError ''peer vote frame is truncated'')
        else receive_loop n (got @ piece) conn')"
  by pat_completeness auto

termination
proof (relation "measure (\<lambda>(n, got, _). n - length got)")
  fix n :: nat and got piece :: bytes and conn conn' :: "bytes list" and x
  assume step: "\<not> n \<le> length got" "x = recv (n - length got) conn" "(piece, conn') = x" "piece \<noteq> []"
  then have "0 < length piece"
    by simp
  then have "n - (length got + length piece) < n - length got"
    using step(1) by arith
  then show "((n, got @ piece, conn'), n, got, conn) \<in> measure (\<lambda>(n, got, _). n - length got)"
    by simp
qed simp

declare receive_loop.simps [simp del]

definition receive_exact :: "bytes list \<Rightarrow> nat \<Rightarrow> (bytes \<times> bytes list) result" where
  "receive_exact conn n = receive_loop n [] conn"

text \<open>
  \<open>json.loads\<close> of bytes: the encoding is guessed from the first bytes. A text with a character above
  255 is outside the model and counts as one that does not decode.
\<close>

fun utf8_decode :: "bytes \<Rightarrow> string option" where
  "utf8_decode [] = Some []"
| "utf8_decode (c # cs) =
     (let n = (of_char c :: nat) in
      if n < 128 then map_option ((#) c) (utf8_decode cs)
      else if n = 194 \<or> n = 195 then
        (case cs of
           [] \<Rightarrow> None
         | d # ds \<Rightarrow>
             let m = (of_char d :: nat) in
             if 128 \<le> m \<and> m < 192 then map_option ((#) (char_of (64 * (n - 192) + (m - 128)))) (utf8_decode ds) else None)
      else None)"

text \<open>UTF-16 and UTF-32, in units of \<open>Suc k\<close> bytes, with the byte of the character first or last.\<close>

function wide_decode :: "nat \<Rightarrow> bool \<Rightarrow> bytes \<Rightarrow> string option" where
  "wide_decode k big bs =
     (if bs = [] then Some []
      else
        let u = take (Suc k) bs; c = (if big then last u else hd u); zeros = (if big then butlast u else tl u) in
        if length u \<noteq> Suc k \<or> (\<exists>z \<in> set zeros. z \<noteq> CHR 0x00) then None
        else map_option ((#) c) (wide_decode k big (drop (Suc k) bs)))"
  by pat_completeness auto

termination
  by (relation "measure (\<lambda>(_, _, bs). length bs)") auto

declare wide_decode.simps [simp del]

definition json_text :: "bytes \<Rightarrow> string option" where
  "json_text b =
     (let z = (\<lambda>i. b ! i = CHR 0x00) in
      if starts_with [CHR 0x00, CHR 0x00, CHR 0xFE, CHR 0xFF] b then wide_decode 3 True (drop 4 b)
      else if starts_with [CHR 0xFF, CHR 0xFE, CHR 0x00, CHR 0x00] b then wide_decode 3 False (drop 4 b)
      else if starts_with [CHR 0xFE, CHR 0xFF] b then wide_decode 1 True (drop 2 b)
      else if starts_with [CHR 0xFF, CHR 0xFE] b then wide_decode 1 False (drop 2 b)
      else if starts_with [CHR 0xEF, CHR 0xBB, CHR 0xBF] b then utf8_decode (drop 3 b)
      else if 4 \<le> length b \<and> z 0 then (if \<not> z 1 then wide_decode 1 True b else wide_decode 3 True b)
      else if 4 \<le> length b \<and> z 1 then (if \<not> z 2 \<or> \<not> z 3 then wide_decode 1 False b else wide_decode 3 False b)
      else if length b = 2 \<and> z 0 then wide_decode 1 True b
      else if length b = 2 \<and> z 1 then wide_decode 1 False b
      else utf8_decode b)"

text \<open>
  The body of \<open>_serve\<close> up to the call of the receiver: \<open>None\<close> where it leaves the connection without an
  exception.
\<close>

definition read_document :: "bytes list \<Rightarrow> (string \<times> json) list option result" where
  "read_document conn =
     bindE (receive_exact conn 4) (\<lambda>(header, conn1).
     let len = be_value header in
     if len < 1 \<or> 16384 < len then Inr None
     else
       bindE (receive_exact conn1 len) (\<lambda>(body, _).
       (case json_text body of
          None \<Rightarrow> Inl ValueError
        | Some s \<Rightarrow>
            (case json_loads s of
               None \<Rightarrow> Inl JSONDecodeError
             | Some (JObj ms) \<Rightarrow> Inr (Some ms)
             | Some _ \<Rightarrow> Inr None))))"

definition read_vote :: "bytes list \<Rightarrow> authenticated_vote option result" where
  "read_vote conn =
     bindE (read_document conn) (\<lambda>document.
     (case document of None \<Rightarrow> Inr None | Some ms \<Rightarrow> bindE (authenticated_vote_of ms) (\<lambda>p. Inr (Some p))))"

section \<open>Signatures of the key service\<close>

definition strip_zeros :: "bytes \<Rightarrow> bytes" where
  "strip_zeros b = dropWhile (\<lambda>c. c = CHR 0x00) b"

definition pad32 :: "bytes \<Rightarrow> bytes" where
  "pad32 b = replicate (32 - length b) (CHR 0x00) @ b"

definition byte_at :: "bytes \<Rightarrow> nat \<Rightarrow> nat result" where
  "byte_at b i = (if i < length b then Inr (of_char (b ! i)) else Inl IndexError)"

definition der_to_raw :: "bytes \<Rightarrow> bytes result" where
  "der_to_raw v =
     (if length v < 8 \<or> v ! 0 \<noteq> CHR 0x30 then Inl (ValidatorNodeError ''AWS KMS signature DER is invalid'')
      else
        let n1 = (of_char (v ! 1) :: nat); index = (if 128 \<le> n1 then 2 + (n1 - 128) else 2) in
        if length v \<le> index \<or> v ! index \<noteq> CHR 0x02 then Inl (ValidatorNodeError ''AWS KMS signature DER is invalid'')
        else
          bindE (byte_at v (index + 1)) (\<lambda>r_length.
          let r = take r_length (drop (index + 2) v); index2 = index + 2 + r_length in
          if length v < index2 + 2 \<or> v ! index2 \<noteq> CHR 0x02 then Inl (ValidatorNodeError ''AWS KMS signature DER is invalid'')
          else
            bindE (byte_at v (index2 + 1)) (\<lambda>s_length.
            let s = take s_length (drop (index2 + 2) v) in
            if index2 + 2 + s_length \<noteq> length v then Inl (ValidatorNodeError ''AWS KMS signature DER is invalid'')
            else
              let r' = strip_zeros r; s' = strip_zeros s in
              if length r' < 1 \<or> 32 < length r' \<or> length s' < 1 \<or> 32 < length s'
              then Inl (ValidatorNodeError ''AWS KMS signature scalar is invalid'')
              else Inr (pad32 r' @ pad32 s'))))"

definition der_integer :: "bytes \<Rightarrow> bytes" where
  "der_integer scalar =
     (let s = strip_zeros scalar; t = (if s = [] then [CHR 0x00] else s);
          u = (if (128 :: nat) \<le> of_char (t ! 0) then CHR 0x00 # t else t) in
      [CHR 0x02, char_of (length u)] @ u)"

definition raw_to_der :: "bytes \<Rightarrow> bytes result" where
  "raw_to_der v =
     (if length v \<noteq> 64 then Inl (ValidatorNodeError ''consensus signature must be 64 bytes'')
      else
        let body = der_integer (take 32 v) @ der_integer (drop 32 v) in
        Inr ([CHR 0x30, char_of (length body)] @ body))"

section \<open>Connections\<close>

text \<open>What is read does not depend on how the network cut the bytes.\<close>

lemma receive_loop_pieces:
  assumes "[] \<notin> set conn" "n - length got \<le> length (concat conn)"
  shows "\<exists>conn'. receive_loop n got conn = Inr (got @ take (n - length got) (concat conn), conn') \<and>
    concat conn' = drop (n - length got) (concat conn) \<and> [] \<notin> set conn'"
  using assms
proof (induction n got conn rule: receive_loop.induct)
  case (1 n got conn)
  show ?case
  proof (cases "n \<le> length got")
    case True
    then show ?thesis
      using "1.prems" by (simp add: receive_loop.simps [of n got])
  next
    case False
    then obtain piece rest where conn: "conn = piece # rest" "piece \<noteq> []"
      using "1.prems" by (cases conn) auto
    let ?k = "n - length got"
    have k: "0 < ?k"
      using False by simp
    show ?thesis
    proof (cases "length piece \<le> ?k")
      case True
      have "recv ?k conn = (piece, rest)"
        using True by (simp add: recv_def conn)
      with "1.IH" [OF False, of _ piece rest] "1.prems" conn True show ?thesis
        using False by (simp add: receive_loop.simps [of n got])
    next
      case long: False
      have got: "recv ?k conn = (take ?k piece, drop ?k piece # rest)" "take ?k piece \<noteq> []"
        using long k conn(2) by (simp_all add: recv_def conn(1))
      then show ?thesis
        using False "1.prems" conn long
        by (simp add: receive_loop.simps [of n got] receive_loop.simps [of n "got @ take ?k piece"])
    qed
  qed
qed

lemma receive_exact_pieces:
  assumes "[] \<notin> set conn" "concat conn = a @ rest"
  obtains conn' where "receive_exact conn (length a) = Inr (a, conn')" "concat conn' = rest" "[] \<notin> set conn'"
  using receive_loop_pieces [of conn "length a" "[]"] assms by (auto simp: receive_exact_def)

lemma receive_loop_truncated:
  assumes "length (concat conn) < n - length got"
  shows "receive_loop n got conn = Inl (ValidatorNodeError ''peer vote frame is truncated'')"
  using assms
proof (induction n got conn rule: receive_loop.induct)
  case (1 n got conn)
  then have short: "\<not> n \<le> length got"
    by simp
  show ?case
  proof (cases "\<exists>piece rest. conn = piece # rest \<and> piece \<noteq> []")
    case True
    then obtain piece rest where conn: "conn = piece # rest" "piece \<noteq> []"
      by blast
    have "recv (n - length got) conn = (piece, rest)"
      using "1.prems" by (simp add: recv_def conn(1))
    with "1.IH" [OF short, of _ piece rest] "1.prems" conn short show ?thesis
      by (simp add: receive_loop.simps [of n got])
  next
    case False
    then have "fst (recv (n - length got) conn) = []"
      by (cases conn) (auto simp: recv_def)
    then show ?thesis
      using short by (simp add: receive_loop.simps [of n got] case_prod_unfold Let_def)
  qed
qed

section \<open>The text of a document\<close>

text \<open>A rendered document is ASCII and has no NUL.\<close>

abbreviation plain :: "string \<Rightarrow> bool" where
  "plain s \<equiv> is_ascii s \<and> CHR 0x00 \<notin> set s"

lemma hex_digit_not_nul: "n < 16 \<Longrightarrow> hex_digit n \<noteq> CHR 0x00"
  by (auto simp: hex_digit_def char_eq_of_char of_char_of)

lemma plain_escape: "CHR 0x00 \<notin> set (json_escape c)"
proof (cases "c = CHR 0x00")
  case True
  have "CHR 0x00 \<notin> set (json_escape (CHR 0x00))" by code_simp
  then show ?thesis using True by simp
next
  case False
  have "CHR 0x00 \<noteq> hex_digit n" if "n < 16" for n
    using hex_digit_not_nul [OF that] by metis
  then show ?thesis
    using False nibbles [of c] by (simp add: json_escape_def Let_def)
qed

lemma plain_quote: "CHR 0x00 \<notin> set (json_quote s)"
  by (simp add: json_quote_def plain_escape)

lemma plain_int_str: "CHR 0x00 \<notin> set (int_str i)"
proof -
  have "CHR 0x00 \<notin> set (nat_str n)" for n
    using nat_str_digits [of n] by (auto simp: is_digit_def list_all_iff)
  then show ?thesis
    by (simp add: int_str_def)
qed

lemma plain_join: "CHR 0x00 \<notin> set sep \<Longrightarrow> (\<And>s. s \<in> set ss \<Longrightarrow> CHR 0x00 \<notin> set s) \<Longrightarrow> CHR 0x00 \<notin> set (join sep ss)"
  by (induction sep ss rule: join.induct) auto

lemma plain_render: "CHR 0x00 \<notin> set (json_render v)"
proof (induction v)
  case (JArr vs)
  then have "CHR 0x00 \<notin> set (join '','' (map json_render vs))"
    by (intro plain_join) auto
  then show ?case by simp
next
  case (JObj ms)
  then have "CHR 0x00 \<notin> set (join '','' (map json_member (map (map_prod id json_render) ms)))"
    by (intro plain_join) (auto simp: json_member_def plain_quote)
  then show ?case by simp
qed (simp_all add: plain_quote plain_int_str)

lemma utf8_decode_ascii: "is_ascii s \<Longrightarrow> utf8_decode s = Some s"
  by (induction s rule: utf8_decode.induct) (simp_all add: Let_def)

lemma json_text_plain:
  assumes "plain b"
  shows "json_text b = Some b"
proof -
  have small: "(of_char c :: nat) < 128" "c \<noteq> CHR 0x00" if "c \<in> set b" for c
    using assms that by (auto simp: is_ascii_def list_all_iff)
  have other: "\<not> starts_with [CHR 0x00, CHR 0x00, CHR 0xFE, CHR 0xFF] b" "\<not> starts_with [CHR 0xFF, CHR 0xFE, CHR 0x00, CHR 0x00] b"
      "\<not> starts_with [CHR 0xFE, CHR 0xFF] b" "\<not> starts_with [CHR 0xFF, CHR 0xFE] b" "\<not> starts_with [CHR 0xEF, CHR 0xBB, CHR 0xBF] b"
    using small by (cases b; force)+
  show ?thesis
  proof (cases "2 \<le> length b")
    case True
    then have "b ! 0 \<in> set b" "b ! 1 \<in> set b"
      by (auto intro: nth_mem)
    then have "b ! 0 \<noteq> CHR 0x00" "b ! 1 \<noteq> CHR 0x00"
      using small(2) by blast+
    then show ?thesis
      using assms by (simp add: json_text_def Let_def other utf8_decode_ascii)
  next
    case False
    then show ?thesis
      using assms by (simp add: json_text_def Let_def other utf8_decode_ascii)
  qed
qed

lemma json_loads_line:
  assumes "json_ok (JObj ms)" "json_canon (JObj ms) = JObj ms'"
  shows "json_loads (json_dumps (JObj ms) @ [CHR 0x0A]) = Some (JObj ms')"
proof -
  have ok: "json_ok (JObj ms')"
    using json_ok_canon [OF assms(1)] assms(2) by simp
  have rendered: "json_dumps (JObj ms) = json_render (JObj ms')"
    by (simp only: json_dumps_def assms(2))
  have "parse_value (2 * length (json_render (JObj ms') @ [CHR 0x0A]) + 1) (json_render (JObj ms') @ [CHR 0x0A])
      = Some (JObj ms', [CHR 0x0A])"
    by (rule parse_value_obj_ok [OF ok]) simp
  then show ?thesis
    by (simp add: json_loads_def rendered del: json_render.simps)
qed

lemma canonical_json_plain: "canonical_json v = json_dumps v @ [CHR 0x0A]" "plain (canonical_json v)"
  by (simp_all add: canonical_json_def encode_ascii json_dumps_def plain_render)

section \<open>Votes on the wire\<close>

text \<open>The votes the reader accepts, which are those a validator sends.\<close>

definition wire_vote :: "authenticated_vote \<Rightarrow> bool" where
  "wire_vote p \<longleftrightarrow>
     0 < av_chain_id p \<and> 0 \<le> av_height p \<and> 0 \<le> av_round p \<and> length (av_block_hash p) = 66 \<and>
     starts_with ''0x'' (av_block_hash p) \<and> identifier_ok (av_validator_id p) \<and> av_signature p \<noteq> [] \<and>
     av_peer_signature p \<noteq> [] \<and> pred_option ((<) 0) (av_timestamp p)"

lemma check_identifier_Inr [result_elims]: "check_identifier s = Inr t \<longleftrightarrow> identifier_ok s \<and> t = s"
  by (auto simp: check_identifier_def identifier_ok_def)

lemma natural_Some [result_elims]: "natural v = Some i \<longleftrightarrow> v = JInt i \<and> 0 \<le> i"
  by (auto simp: natural_def split: json.splits)

lemma hex_field_Some: "signature_field v = Some b \<longleftrightarrow> (\<exists>s. v = JStr s \<and> from_hex s = Some b)"
  by (auto simp: signature_field_def split: json.splits)

lemma block_hash_field_Some: "block_hash_field v = Some s \<longleftrightarrow> v = JStr s \<and> length s = 66 \<and> starts_with ''0x'' s"
  by (auto simp: block_hash_field_def split: json.splits if_splits)

lemma vote_timestamp_Inr:
  "vote_timestamp v = Inr ts \<longleftrightarrow> v = JNull \<and> ts = None \<or> (\<exists>t. v = JInt t \<and> 0 < t \<and> ts = Some t)"
  by (auto simp: vote_timestamp_def split: json.splits)

lemma identifier_field_Inr: "identifier_field v = Inr s \<longleftrightarrow> v = JStr s \<and> identifier_ok s"
  by (auto simp: identifier_field_def check_identifier_Inr split: json.splits)

lemma authenticated_vote_of_Inr:
  "authenticated_vote_of ms = Inr p \<longleftrightarrow>
     json_keys ms \<in> {packet_fields, insert ''block_timestamp'' packet_fields} \<and> wire_vote p \<and>
     json_at ms ''chain_id'' = JInt (av_chain_id p) \<and> json_at ms ''height'' = JInt (av_height p) \<and>
     json_at ms ''round'' = JInt (av_round p) \<and> json_at ms ''block_hash'' = JStr (av_block_hash p) \<and>
     json_at ms ''validator_id'' = JStr (av_validator_id p) \<and>
     signature_field (json_at ms ''signature'') = Some (av_signature p) \<and>
     signature_field (json_at ms ''peer_signature'') = Some (av_peer_signature p) \<and>
     vote_timestamp (json_at ms ''block_timestamp'') = Inr (av_timestamp p)"
  (is "?l \<longleftrightarrow> ?r")
proof
  assume ?l
  then show ?r
    unfolding authenticated_vote_of_def
    by (auto simp: wire_vote_def bindE_Inr_iff natural_Some block_hash_field_Some vote_timestamp_Inr identifier_field_Inr
        split: if_splits option.splits)
next
  assume r: ?r
  then have "natural (json_at ms ''chain_id'') = Some (av_chain_id p)" "natural (json_at ms ''height'') = Some (av_height p)"
      "natural (json_at ms ''round'') = Some (av_round p)" "block_hash_field (json_at ms ''block_hash'') = Some (av_block_hash p)"
      "identifier_field (json_at ms ''validator_id'') = Inr (av_validator_id p)"
    by (auto simp: wire_vote_def natural_Some block_hash_field_Some identifier_field_Inr)
  then show ?l
    using r by (auto simp: authenticated_vote_of_def wire_vote_def)
qed

lemma vote_members_ok: "json_ok (JObj (vote_members p))"
  by (cases "av_timestamp p") (simp_all add: vote_members_def timestamp_member_def)

lemma vote_members_keys:
  "json_keys (vote_members p) = (case av_timestamp p of None \<Rightarrow> packet_fields | Some _ \<Rightarrow> insert ''block_timestamp'' packet_fields)"
  by (auto simp: vote_members_def timestamp_member_def json_keys_def packet_fields_def split: option.split)

lemma vote_members_read:
  assumes "wire_vote p" "json_canon (JObj (vote_members p)) = JObj ms"
  shows "authenticated_vote_of ms = Inr p"
proof -
  have ok: "dict_ok (vote_members p)"
    using vote_members_ok [of p] by simp
  have keys: "json_keys ms = json_keys (vote_members p)"
    using assms(2) by (rule json_keys_canon)
  have at: "json_at ms k = json_canon (json_at (vote_members p) k)" if "k \<in> json_keys (vote_members p)" for k
    using json_at_canon [OF assms(2) ok that] .
  have absent: "json_at ms k = JNull" if "k \<notin> json_keys (vote_members p)" for k
    using that keys by (simp add: json_at_def json_keys_def map_of_eq_None_iff [THEN iffD2])
  have fields: "json_at ms ''chain_id'' = JInt (av_chain_id p)" "json_at ms ''height'' = JInt (av_height p)"
      "json_at ms ''round'' = JInt (av_round p)" "json_at ms ''block_hash'' = JStr (av_block_hash p)"
      "json_at ms ''validator_id'' = JStr (av_validator_id p)" "json_at ms ''signature'' = JStr (hex_of (av_signature p))"
      "json_at ms ''peer_signature'' = JStr (hex_of (av_peer_signature p))"
    by (simp_all add: at vote_members_keys packet_fields_def split: option.split) (simp_all add: json_at_def vote_members_def)
  have "vote_timestamp (json_at ms ''block_timestamp'') = Inr (av_timestamp p)"
  proof (cases "av_timestamp p")
    case None
    then have "''block_timestamp'' \<notin> json_keys (vote_members p)"
      by (simp add: vote_members_keys packet_fields_def)
    then show ?thesis
      using None by (simp add: absent vote_timestamp_Inr)
  next
    case (Some t)
    then have "''block_timestamp'' \<in> json_keys (vote_members p)"
      by (simp add: vote_members_keys)
    then have "json_at ms ''block_timestamp'' = JInt t"
      using Some by (simp add: at) (simp add: json_at_def vote_members_def timestamp_member_def)
    then show ?thesis
      using Some assms(1) by (simp add: vote_timestamp_Inr wire_vote_def)
  qed
  then show ?thesis
    using assms(1) fields keys by (auto simp: authenticated_vote_of_Inr vote_members_keys signature_field_def split: option.split)
qed

lemma vote_frame_Inr:
  "vote_frame p = Inr f \<longleftrightarrow> length (canonical_json (JObj (vote_members p))) \<le> 16384 \<and>
     f = be_bytes4 (int (length (canonical_json (JObj (vote_members p))))) @ canonical_json (JObj (vote_members p))"
  by (auto simp: vote_frame_def Let_def)

text \<open>A document in a frame is read whatever follows it and however it is cut.\<close>

lemma read_document_frame:
  assumes "json_ok (JObj ms)" "json_canon (JObj ms) = JObj ms'" "length (canonical_json (JObj ms)) \<le> 16384"
    and "[] \<notin> set conn" "concat conn = be_bytes4 (int (length (canonical_json (JObj ms)))) @ canonical_json (JObj ms) @ rest"
  shows "read_document conn = Inr (Some ms')"
proof -
  let ?body = "canonical_json (JObj ms)"
  obtain conn1 where header: "receive_exact conn 4 = Inr (be_bytes4 (int (length ?body)), conn1)"
      "concat conn1 = ?body @ rest" "[] \<notin> set conn1"
    using receive_exact_pieces [OF assms(4,5)] by (auto simp: length_be_bytes4)
  obtain conn2 where body: "receive_exact conn1 (length ?body) = Inr (?body, conn2)"
    using receive_exact_pieces [OF header(3,2)] by blast
  have len: "be_value (be_bytes4 (int (length ?body))) = length ?body" "?body \<noteq> []"
    using assms(3) be_value_bytes4 [of "length ?body"] by linarith (simp add: canonical_json_plain(1))
  have "json_text ?body = Some ?body"
    by (rule json_text_plain [OF canonical_json_plain(2)])
  moreover have "json_loads ?body = Some (JObj ms')"
    using json_loads_line [OF assms(1,2)] by (simp add: canonical_json_plain(1))
  ultimately show ?thesis
    using assms(3) header(1) body len by (simp add: read_document_def Let_def)
qed

lemma read_document_cut:
  assumes "length body \<le> 16384" "[] \<notin> set pieces" "concat pieces = take n (be_bytes4 (int (length body)) @ body)" "n < 4 + length body"
  shows "read_document pieces = Inl (ValidatorNodeError ''peer vote frame is truncated'')"
proof (cases "n < 4")
  case True
  then have "receive_exact pieces 4 = Inl (ValidatorNodeError ''peer vote frame is truncated'')"
    using assms(3) by (simp add: receive_exact_def receive_loop_truncated)
  then show ?thesis
    by (simp add: read_document_def)
next
  case False
  then have "concat pieces = be_bytes4 (int (length body)) @ take (n - 4) body"
    using assms(3) by simp
  then obtain pieces1 where header: "receive_exact pieces 4 = Inr (be_bytes4 (int (length body)), pieces1)" "concat pieces1 = take (n - 4) body"
    using receive_exact_pieces [OF assms(2)] by (metis length_be_bytes4)
  have "receive_exact pieces1 (length body) = Inl (ValidatorNodeError ''peer vote frame is truncated'')"
    using assms(4) False by (simp add: receive_exact_def receive_loop_truncated header(2))
  moreover have "be_value (be_bytes4 (int (length body))) = length body"
    using assms(1) by (intro be_value_bytes4) simp
  moreover have "0 < length body"
    using assms(4) False by linarith
  ultimately show ?thesis
    using header(1) assms(1) by (simp add: read_document_def Let_def)
qed

lemma vote_frame_read:
  assumes "wire_vote p" "vote_frame p = Inr f" "[] \<notin> set conn" "concat conn = f @ rest"
  shows "read_vote conn = Inr (Some p)"
proof -
  obtain ms where ms: "json_canon (JObj (vote_members p)) = JObj ms"
    by simp
  have "read_document conn = Inr (Some ms)"
    using assms(2-4) by (intro read_document_frame [OF vote_members_ok ms]) (auto simp: vote_frame_Inr)
  then show ?thesis
    using vote_members_read [OF assms(1) ms] by (simp add: read_vote_def)
qed

lemma read_vote_wire: "read_vote conn = Inr (Some p) \<Longrightarrow> wire_vote p"
  by (auto simp: read_vote_def bindE_Inr_iff authenticated_vote_of_Inr split: option.splits)

definition framable :: "authenticated_vote \<Rightarrow> bool" where
  "framable p \<longleftrightarrow> wire_vote p \<and> length (canonical_json (JObj (vote_members p))) \<le> 16384"

definition frame_of :: "authenticated_vote \<Rightarrow> bytes" where
  "frame_of p = (case vote_frame p of Inr f \<Rightarrow> f | Inl _ \<Rightarrow> [])"

lemma framable_frame: "framable p \<Longrightarrow> vote_frame p = Inr (frame_of p)"
  by (auto simp: framable_def frame_of_def vote_frame_def Let_def)

interpretation vote_line: codec framable frame_of "\<lambda>f. case read_vote [f] of Inr p \<Rightarrow> p | Inl _ \<Rightarrow> None"
proof
  fix p assume p: "framable p"
  then have "frame_of p \<noteq> []"
    using framable_frame vote_frame_Inr by (auto simp: be_bytes4_def)
  then show "(case read_vote [frame_of p] of Inr p \<Rightarrow> p | Inl _ \<Rightarrow> None) = Some p"
    using p framable_frame vote_frame_read [of p "frame_of p" "[frame_of p]" "[]"] by (auto simp: framable_def)
qed

text \<open>
  C29. What a validator broadcasts is what its peers receive: a vote within the bounds of the format, framed
  and sent over a connection that may cut the bytes anywhere and carry more behind them, is read back with
  every field unchanged, and two such votes have the same frame only if they are the same. In the other
  direction whatever is read is such a vote, and a connection that ends inside a frame is refused.
\<close>

theorem vote_frame_roundtrip:
  assumes "wire_vote p" "vote_frame p = Inr f" "[] \<notin> set conn" "concat conn = f @ rest"
  shows "read_vote conn = Inr (Some p) \<and>
    (\<forall>q. wire_vote q \<longrightarrow> vote_frame q = Inr f \<longrightarrow> q = p) \<and>
    (\<forall>conn' q. read_vote conn' = Inr (Some q) \<longrightarrow> wire_vote q) \<and>
    (\<forall>pieces n. concat pieces = take n f \<longrightarrow> n < length f \<longrightarrow> [] \<notin> set pieces \<longrightarrow>
       read_vote pieces = Inl (ValidatorNodeError ''peer vote frame is truncated''))"
proof (intro conjI allI impI)
  show "read_vote conn = Inr (Some p)"
    using assms by (rule vote_frame_read)
  show "q = p" if "wire_vote q" "vote_frame q = Inr f" for q
  proof -
    have "framable p" "framable q" "frame_of p = f" "frame_of q = f"
      using assms(1,2) that by (simp_all add: framable_def frame_of_def) (auto simp: vote_frame_Inr)
    then show ?thesis
      using vote_line.enc_inject by metis
  qed
  show "wire_vote q" if "read_vote conn' = Inr (Some q)" for conn' q
    using that by (rule read_vote_wire)
  show "read_vote pieces = Inl (ValidatorNodeError ''peer vote frame is truncated'')"
    if "concat pieces = take n f" "n < length f" "[] \<notin> set pieces" for pieces n
    using assms(2) read_document_cut [OF _ that(3)] that(1,2) by (auto simp: read_vote_def vote_frame_Inr)
qed

text \<open>The transport signature binds every field but itself.\<close>

lemma peer_payload_inject:
  assumes "peer_signing_payload p = peer_signing_payload q"
  shows "q\<lparr>av_peer_signature := av_peer_signature p\<rparr> = p"
proof -
  define ms where "ms r = (case peer_payload_json r of JObj m \<Rightarrow> m | _ \<Rightarrow> [])" for r
  have obj: "peer_payload_json r = JObj (ms r)" for r
    by (simp add: ms_def peer_payload_json_def)
  have ok: "json_ok (JObj (ms r))" for r
    by (cases "av_timestamp r") (simp_all add: ms_def peer_payload_json_def timestamp_member_def)
  then have dict: "dict_ok (ms r)" for r
    by simp
  obtain c where c: "json_canon (JObj (ms p)) = JObj c" "json_canon (JObj (ms q)) = JObj c"
    using assms json_dumps_inject [OF ok ok, of p q] by (simp add: peer_signing_payload_def obj)
  have keys: "json_keys (ms p) = json_keys (ms q)"
    using json_keys_canon [OF c(1)] json_keys_canon [OF c(2)] by simp
  have at: "json_canon (json_at (ms p) k) = json_canon (json_at (ms q) k)" for k
  proof (cases "k \<in> json_keys (ms p)")
    case True
    then show ?thesis
      using json_at_canon [OF c(1) dict] json_at_canon [OF c(2) dict] keys by auto
  next
    case False
    then show ?thesis
      using keys by (simp add: json_at_def json_keys_def map_of_eq_None_iff [THEN iffD2])
  qed
  have fields: "json_at (ms r) ''chain_id'' = JInt (av_chain_id r)" "json_at (ms r) ''height'' = JInt (av_height r)"
      "json_at (ms r) ''round'' = JInt (av_round r)" "json_at (ms r) ''block_hash'' = JStr (av_block_hash r)"
      "json_at (ms r) ''validator_id'' = JStr (av_validator_id r)" "json_at (ms r) ''signature'' = JStr (hex_of (av_signature r))"
      "json_at (ms r) ''block_timestamp'' = (case av_timestamp r of None \<Rightarrow> JNull | Some t \<Rightarrow> JInt t)" for r
    by (simp_all add: json_at_def ms_def peer_payload_json_def timestamp_member_def split: option.split)
  have "av_timestamp p = av_timestamp q"
    using at [of "''block_timestamp''"] by (auto simp: fields split: option.splits)
  then show ?thesis
    using at [of "''chain_id''"] at [of "''height''"] at [of "''round''"] at [of "''block_hash''"] at [of "''validator_id''"]
      at [of "''signature''"] by (simp add: fields)
qed

section \<open>Signature encodings\<close>

lemma strip_zeros_id: "strip_zeros b = b \<longleftrightarrow> b = [] \<or> b ! 0 \<noteq> CHR 0x00"
proof (cases b)
  case (Cons c cs)
  have "length (strip_zeros cs) \<le> length cs"
    by (simp add: strip_zeros_def length_dropWhile_le)
  then have "strip_zeros cs \<noteq> c # cs"
    by auto
  then show ?thesis
    using Cons by (auto simp: strip_zeros_def)
qed (simp add: strip_zeros_def)

lemma strip_zeros_idem [simp]: "strip_zeros (strip_zeros b) = strip_zeros b"
  by (simp add: strip_zeros_def)

lemma strip_zeros_Nil [simp]: "strip_zeros [] = []"
  by (simp add: strip_zeros_def)

lemma strip_zeros_Cons [simp]: "strip_zeros (CHR 0x00 # b) = strip_zeros b"
  by (simp add: strip_zeros_def)

lemma strip_zeros_append: "b = replicate (length b - length (strip_zeros b)) (CHR 0x00) @ strip_zeros b"
  by (induction b) (auto simp: strip_zeros_def Suc_diff_le length_dropWhile_le)

lemma length_strip_zeros: "length (strip_zeros b) \<le> length b"
  by (simp add: strip_zeros_def length_dropWhile_le)

lemma pad32_strip: "length b = 32 \<Longrightarrow> pad32 (strip_zeros b) = b"
  using strip_zeros_append [of b] by (simp add: pad32_def)

lemma strip_pad32: "strip_zeros (pad32 b) = strip_zeros b"
proof -
  have "strip_zeros (replicate n (CHR 0x00) @ b) = strip_zeros b" for n
    by (induction n) simp_all
  then show ?thesis
    by (simp add: pad32_def)
qed

lemma length_pad32: "length b \<le> 32 \<Longrightarrow> length (pad32 b) = 32"
  by (simp add: pad32_def)

lemma der_integer_shape:
  assumes "length b = 32"
  obtains u where "der_integer b = [CHR 0x02, char_of (length u)] @ u" "strip_zeros u = strip_zeros b" "u \<noteq> []" "length u \<le> 33"
proof -
  define t where "t = (if strip_zeros b = [] then [CHR 0x00] else strip_zeros b)"
  define u where "u = (if (128 :: nat) \<le> of_char (t ! 0) then CHR 0x00 # t else t)"
  have t: "strip_zeros t = strip_zeros b" "t \<noteq> []" "length t \<le> 32"
    using length_strip_zeros [of b] assms by (auto simp: t_def)
  have "strip_zeros u = strip_zeros b" "u \<noteq> []" "length u \<le> 33"
    using t by (auto simp: u_def)
  moreover have "der_integer b = [CHR 0x02, char_of (length u)] @ u"
    by (simp add: der_integer_def Let_def t_def u_def)
  ultimately show thesis
    using that by blast
qed

lemma der_to_raw_at:
  assumes "v ! 0 = CHR 0x30" "(of_char (v ! 1) :: nat) < 128" "v ! 2 = CHR 0x02" "(of_char (v ! 3) :: nat) = m"
    and "v ! (4 + m) = CHR 0x02" "(of_char (v ! (5 + m)) :: nat) = n" "length v = 6 + m + n" "0 < m" "0 < n"
    and "take m (drop 4 v) = u" "drop (6 + m) v = w" "length w = n"
  shows "der_to_raw v =
    (if length (strip_zeros u) \<in> {1..32} \<and> length (strip_zeros w) \<in> {1..32}
     then Inr (pad32 (strip_zeros u) @ pad32 (strip_zeros w))
     else Inl (ValidatorNodeError ''AWS KMS signature scalar is invalid''))"
proof -
  have idx: "(3 :: nat) = 2 + 1" "4 + m = 2 + 2 + m" "5 + m = 2 + 2 + m + 1" "6 + m = 2 + 2 + m + 2"
    by simp_all
  have r: "byte_at v (2 + 1) = Inr m" "byte_at v (2 + 2 + m + 1) = Inr n"
    using assms(4,6,7,9) by (simp_all add: byte_at_def)
  have small: "\<not> 128 \<le> (of_char (v ! 1) :: nat)" "\<not> length v < 8" "\<not> length v \<le> 2" "\<not> length v < 2 + 2 + m + 2"
      "2 + 2 + m + 2 + n = length v"
    using assms by simp_all
  show ?thesis
    using r small assms(1,3,5,10-12) unfolding der_to_raw_def Let_def
    by (auto simp: add.assoc Suc_le_eq)
qed

lemma der_to_raw_integers:
  assumes "(of_char l :: nat) < 128" "u \<noteq> []" "w \<noteq> []" "length u < 256" "length w < 256"
  shows "der_to_raw ([CHR 0x30, l] @ [CHR 0x02, char_of (length u)] @ u @ [CHR 0x02, char_of (length w)] @ w) =
    (if length (strip_zeros u) \<in> {1..32} \<and> length (strip_zeros w) \<in> {1..32}
     then Inr (pad32 (strip_zeros u) @ pad32 (strip_zeros w))
     else Inl (ValidatorNodeError ''AWS KMS signature scalar is invalid''))"
proof -
  let ?a = "[CHR 0x30, l, CHR 0x02, char_of (length u)]" and ?b = "[CHR 0x02, char_of (length w)]"
  let ?v = "?a @ u @ ?b @ w"
  have v: "[CHR 0x30, l] @ [CHR 0x02, char_of (length u)] @ u @ [CHR 0x02, char_of (length w)] @ w = ?v"
    by simp
  have len: "1 \<le> length u" "1 \<le> length w" "length ?v = 6 + length u + length w" "length ?a = 4" "length (?a @ u @ ?b) = 6 + length u"
      "length (?a @ u) = 4 + length u"
    using assms(2,3) by (simp_all add: Suc_le_eq)
  have at: "?v ! 0 = CHR 0x30" "?v ! 1 = l" "?v ! 2 = CHR 0x02" "?v ! 3 = char_of (length u)"
    by simp_all
  have "?v ! (4 + length u) = ((?a @ u) @ ?b @ w) ! (length (?a @ u) + 0)" "?v ! (5 + length u) = ((?a @ u) @ ?b @ w) ! (length (?a @ u) + 1)"
    by (simp_all only: append_assoc len add_0_right) (simp add: add.assoc)
  then have at2: "?v ! (4 + length u) = CHR 0x02" "?v ! (5 + length u) = char_of (length w)"
    by (simp_all only: nth_append_length_plus) simp_all
  have parts: "take (length u) (drop 4 ?v) = u" "drop (6 + length u) ?v = w"
    using append_eq_conv_conj [of ?a _ ?v] append_eq_conv_conj [of "?a @ u @ ?b" w ?v] by (simp_all only: len append_assoc) simp_all
  have bytes: "(of_char (char_of (length u) :: char) :: nat) = length u" "(of_char (char_of (length w) :: char) :: nat) = length w"
    using assms(4,5) by (simp_all add: of_char_of_small)
  show ?thesis
    unfolding v by (rule der_to_raw_at [of _ "length u" "length w"])
      (simp_all only: at at2 bytes parts len(3) assms(1-3) length_greater_0_conv not_False_eq_True)
qed

lemma der_of_raw:
  assumes "length v = 64"
  obtains d where "raw_to_der v = Inr d" "length d \<le> 72"
    "der_to_raw d = (if strip_zeros (take 32 v) = [] \<or> strip_zeros (drop 32 v) = []
       then Inl (ValidatorNodeError ''AWS KMS signature scalar is invalid'') else Inr v)"
proof -
  let ?r = "take 32 v" and ?s = "drop 32 v"
  have half: "length ?r = 32" "length ?s = 32"
    using assms by simp_all
  obtain u where u: "der_integer ?r = [CHR 0x02, char_of (length u)] @ u" "strip_zeros u = strip_zeros ?r" "u \<noteq> []" "length u \<le> 33"
    by (rule der_integer_shape [OF half(1)])
  obtain w where w: "der_integer ?s = [CHR 0x02, char_of (length w)] @ w" "strip_zeros w = strip_zeros ?s" "w \<noteq> []" "length w \<le> 33"
    by (rule der_integer_shape [OF half(2)])
  let ?l = "char_of (4 + length u + length w) :: char"
  let ?d = "[CHR 0x30, ?l] @ [CHR 0x02, char_of (length u)] @ u @ [CHR 0x02, char_of (length w)] @ w"
  have len: "length (der_integer ?r @ der_integer ?s) = 4 + length u + length w"
    by (simp only: u(1) w(1)) simp
  have d: "raw_to_der v = Inr ?d"
    unfolding raw_to_der_def Let_def len using assms by (simp only: u(1) w(1)) simp
  have "(of_char ?l :: nat) < 128"
    using u(4) w(4) by (simp add: of_char_of_small)
  then have decoded: "der_to_raw ?d = (if length (strip_zeros ?r) \<in> {1..32} \<and> length (strip_zeros ?s) \<in> {1..32}
      then Inr (pad32 (strip_zeros ?r) @ pad32 (strip_zeros ?s)) else Inl (ValidatorNodeError ''AWS KMS signature scalar is invalid''))"
    using der_to_raw_integers [of ?l u w] u(2-4) w(2-4) by simp
  have "length (strip_zeros ?r) \<le> 32" "length (strip_zeros ?s) \<le> 32"
    using length_strip_zeros half by metis+
  then have "der_to_raw ?d = (if strip_zeros ?r = [] \<or> strip_zeros ?s = []
      then Inl (ValidatorNodeError ''AWS KMS signature scalar is invalid'') else Inr v)"
    unfolding decoded pad32_strip [OF half(1)] pad32_strip [OF half(2)] by (auto simp: Suc_le_eq)
  then show thesis
    using d u(4) w(4) by (intro that [of ?d]) simp_all
qed

text \<open>Two positive scalars of 32 bytes.\<close>

definition raw_signature :: "bytes \<Rightarrow> bool" where
  "raw_signature v \<longleftrightarrow> length v = 64 \<and> strip_zeros (take 32 v) \<noteq> [] \<and> strip_zeros (drop 32 v) \<noteq> []"

lemma der_to_raw_raw:
  assumes "der_to_raw d = Inr v"
  shows "raw_signature v"
proof -
  obtain r s where v: "v = pad32 (strip_zeros r) @ pad32 (strip_zeros s)" "strip_zeros r \<noteq> []" "strip_zeros s \<noteq> []"
      "length (strip_zeros r) \<le> 32" "length (strip_zeros s) \<le> 32"
    using assms by (auto simp: der_to_raw_def Let_def bindE_Inr_iff split: if_splits)
  then show ?thesis
    using length_pad32 [OF v(4)] length_pad32 [OF v(5)] by (simp add: raw_signature_def strip_pad32)
qed

interpretation der: codec raw_signature "\<lambda>v. case raw_to_der v of Inr d \<Rightarrow> d | Inl _ \<Rightarrow> []"
  "\<lambda>d. case der_to_raw d of Inr v \<Rightarrow> Some v | Inl _ \<Rightarrow> None"
proof
  fix v assume v: "raw_signature v"
  obtain d where "raw_to_der v = Inr d" "der_to_raw d = Inr v"
    using der_of_raw [of v] v by (auto simp: raw_signature_def)
  then show "(case der_to_raw (case raw_to_der v of Inr d \<Rightarrow> d | Inl _ \<Rightarrow> []) of Inr v \<Rightarrow> Some v | Inl _ \<Rightarrow> None) = Some v"
    by simp
qed

text \<open>
  C30. The two encodings of a signature agree: a signature of two positive scalars of 32 bytes is encoded for the
  key service in at most 72 bytes and read back unchanged, distinct signatures have distinct encodings, and one with a
  zero scalar is refused. Whatever the service returns and the node accepts is such a signature.
\<close>

theorem signature_encodings_agree:
  assumes "length v = 64"
  shows "(\<exists>d. raw_to_der v = Inr d \<and> length d \<le> 72 \<and>
      der_to_raw d = (if raw_signature v then Inr v else Inl (ValidatorNodeError ''AWS KMS signature scalar is invalid'')) \<and>
      (\<forall>w. raw_signature v \<longrightarrow> raw_signature w \<longrightarrow> raw_to_der w = Inr d \<longrightarrow> w = v)) \<and>
    (\<forall>d w. der_to_raw d = Inr w \<longrightarrow> raw_signature w)"
proof -
  obtain d where d: "raw_to_der v = Inr d" "length d \<le> 72"
    "der_to_raw d = (if strip_zeros (take 32 v) = [] \<or> strip_zeros (drop 32 v) = []
       then Inl (ValidatorNodeError ''AWS KMS signature scalar is invalid'') else Inr v)"
    by (rule der_of_raw [OF assms])
  have "w = v" if "raw_signature v" "raw_signature w" "raw_to_der w = Inr d" for w
    using der.enc_inject [OF that(1,2)] d(1) that(3) by simp
  then show ?thesis
    using d assms der_to_raw_raw by (auto simp: raw_signature_def)
qed

section \<open>Samples\<close>

definition sample_vote :: authenticated_vote where
  "sample_vote = \<lparr>av_chain_id = 7, av_height = 1, av_round = 0, av_block_hash = ''0x'' @ replicate 64 (CHR ''a''),
     av_validator_id = ''node-1'', av_signature = ''s'', av_peer_signature = ''p'', av_timestamp = Some 60\<rparr>"

lemma sample_vote_framable: "framable sample_vote"
proof -
  have "identifier_ok ''node-1''" "length (canonical_json (JObj (vote_members sample_vote))) \<le> 16384"
    by code_simp+
  then show ?thesis
    by (simp add: framable_def wire_vote_def sample_vote_def)
qed

lemma vote_frame_roundtrip_witness:
  "read_vote [take 3 (frame_of sample_vote), drop 3 (frame_of sample_vote)] = Inr (Some sample_vote)"
proof -
  let ?f = "frame_of sample_vote"
  have f: "vote_frame sample_vote = Inr ?f" "wire_vote sample_vote"
    using sample_vote_framable framable_frame by (simp_all add: framable_def)
  then have "3 < length ?f"
    by (auto simp: vote_frame_Inr length_be_bytes4)
  then have "[] \<notin> set [take 3 ?f, drop 3 ?f]" "concat [take 3 ?f, drop 3 ?f] = ?f @ []"
    by auto
  then show ?thesis
    using vote_frame_roundtrip [OF f(2,1)] by blast
qed

lemma signature_encodings_agree_witness:
  "\<exists>d. raw_to_der (replicate 64 (CHR 0xFF)) = Inr d \<and> der_to_raw d = Inr (replicate 64 (CHR 0xFF))"
proof -
  have "raw_signature (replicate 64 (CHR 0xFF))"
    by code_simp
  then show ?thesis
    using signature_encodings_agree [of "replicate 64 (CHR 0xFF)"] by auto
qed

end
