(* ===== verification/TestnetConsensus.thy ===== *)
theory TestnetConsensus
  imports VoteWire ValidatorRuntime PeerSync
begin

text \<open>
  \<open>validator_node.py\<close>, the consensus of the public testnet: \<open>AwsKmsSecp256k1Adapter\<close>,
  \<open>PublicTestnetConsensus\<close>, which lets only votes with an authenticated transport into the validator runtime,
  and \<open>ValidatorSyncRecovery\<close>, which imports blocks of peers. The key service is a parameter, a function that signs a digest
  and one that verifies; both give \<open>None\<close> where the call raises. So are the verifiers of votes.
\<close>

section \<open>The key service\<close>

type_synonym service_sign = "string \<Rightarrow> bytes \<Rightarrow> bytes option"
type_synonym service_verify = "string \<Rightarrow> bytes \<Rightarrow> bytes \<Rightarrow> bool option"

definition kms_verify :: "service_verify \<Rightarrow> string \<Rightarrow> bytes \<Rightarrow> bytes \<Rightarrow> bool result" where
  "kms_verify service resource payload s =
     bindE (kms_arn resource) (\<lambda>_.
     if length s \<noteq> 64 then Inr False
     else
       (case raw_to_der s of
          Inl _ \<Rightarrow> Inr False
        | Inr der \<Rightarrow>
            (case service resource (sha256 payload) der of
               None \<Rightarrow> Inr False
             | Some valid \<Rightarrow> Inr valid)))"

definition kms_sign :: "service_sign \<Rightarrow> service_verify \<Rightarrow> string \<Rightarrow> bytes \<Rightarrow> bytes result" where
  "kms_sign sign verify resource payload =
     bindE (kms_arn resource) (\<lambda>_.
     (case sign resource (sha256 payload) of
        None \<Rightarrow> Inl (ValidatorNodeError ''AWS KMS signing failed'')
      | Some der \<Rightarrow>
          (case der_to_raw der of
             Inl _ \<Rightarrow> Inl (ValidatorNodeError ''AWS KMS signing failed'')
           | Inr s \<Rightarrow>
               bindE (kms_verify verify resource payload s) (\<lambda>valid.
               if \<not> valid then Inl (ValidatorNodeError ''AWS KMS returned an unverifiable signature'') else Inr s))))"

section \<open>The coordinator\<close>

type_synonym peer_check = "string \<Rightarrow> bytes \<Rightarrow> bytes \<Rightarrow> bool option"
type_synonym consensus_check = "string \<Rightarrow> string \<Rightarrow> bytes \<Rightarrow> bytes \<Rightarrow> bool option"

record testnet_consensus =
  tc_resources :: "(string, string) dict"
  tc_runtime :: validator_runtime
  tc_accepted :: "string set"
  tc_certificate :: "finality_certificate option"

definition signed_tx :: "tx_envelope \<Rightarrow> bool" where
  "signed_tx t = (signature t \<noteq> [])"

definition verify_consensus :: "(string, string) dict \<Rightarrow> consensus_check \<Rightarrow> signature_check" where
  "verify_consensus resources check vid payload s =
     (case dict_get resources vid of
        None \<Rightarrow> Some False
      | Some resource \<Rightarrow> Some (check vid resource payload s = Some True))"

text \<open>\<open>None\<close> for a consensus without a signer of its own.\<close>

definition runtime_signer :: "(string \<Rightarrow> bytes \<Rightarrow> bytes option) option \<Rightarrow> string \<Rightarrow> bytes \<Rightarrow> bytes option" where
  "runtime_signer signer resource payload =
     (case signer of
        None \<Rightarrow> None
      | Some f \<Rightarrow> if \<not> starts_with ''kms://'' resource then None else f (drop 6 resource) payload)"

definition node_binding :: "(string, string) dict \<Rightarrow> string \<Rightarrow> (string \<times> signer_binding) result" where
  "node_binding resources vid =
     (case dict_get resources vid of
        None \<Rightarrow> Inl KeyError
      | Some resource \<Rightarrow>
          if \<not> starts_with ''arn:aws:kms:'' resource
          then Inl (ValidatorNodeError ''public testnet validators require assigned AWS KMS signers'')
          else bindE (mk_binding vid (''kms://'' @ resource)) (\<lambda>b. Inr (vid, b)))"

definition unit_validators :: "string list \<Rightarrow> validator list result" where
  "unit_validators ids =
     mapE (\<lambda>i. let v = \<lparr>validator_id = i, voting_power = 1\<rparr> in bindE (validator_post_init v) (\<lambda>_. Inr v)) ids"

definition unit_set :: "string list \<Rightarrow> validator_set result" where
  "unit_set ids =
     bindE (unit_validators ids) (\<lambda>vs.
     let s = \<lparr>epoch = 0, activation_height = 0, vs_validators = vs\<rparr> in
     bindE (validator_set_post_init s) (\<lambda>_. Inr s))"

text \<open>The journal's database stays changed where a later step raises.\<close>

definition testnet_init ::
  "int \<Rightarrow> store_db \<Rightarrow> bool \<Rightarrow> journal_db \<Rightarrow> (string, string) dict \<Rightarrow> testnet_consensus result \<times> journal_db" where
  "testnet_init chain db quick_check_ok jdb resources =
     (let expected = sort (map fst resources) in
      case (if length expected \<noteq> 3 then Inl (ValidatorNodeError ''exactly 3 validator signer bindings are required'')
            else
              bindE (mapE (node_binding resources) expected) (\<lambda>bindings.
              bindE (unit_set expected) (\<lambda>s.
              bindE (schedule_init s) (\<lambda>sets.
              bindE (protocol_config_post_init (default_config chain)) (\<lambda>_.
              bindE (mempool_policy_post_init default_mempool_policy) (\<lambda>_.
              bindE (node_pipeline_init (default_config chain) (mk_pool (default_config chain) None) chain db) (\<lambda>n.
              Inr (bindings, sets, n)))))))) of
        Inl e \<Rightarrow> (Inl e, jdb)
      | Inr (bindings, sets, n) \<Rightarrow>
          (case open_journal chain quick_check_ok jdb of
             (Inl e, jdb') \<Rightarrow> (Inl e, jdb')
           | (Inr j, jdb') \<Rightarrow>
               (bindE (validator_runtime_init n sets bindings j) (\<lambda>rt.
                bindE (latest_finality_certificate chain db) (\<lambda>last.
                Inr \<lparr>tc_resources = resources, tc_runtime = rt, tc_accepted = {}, tc_certificate = last\<rparr>)), jdb')))"

text \<open>\<open>propose\<close> clears the accepted votes even where the runtime then refuses.\<close>

definition consensus_propose ::
  "testnet_consensus \<Rightarrow> int \<Rightarrow> int option \<Rightarrow> (executed_proposal result \<times> testnet_consensus) option" where
  "consensus_propose tc r timestamp =
     map_option (\<lambda>(x, rt). (x, tc\<lparr>tc_accepted := {}, tc_runtime := rt\<rparr>)) (runtime_propose (tc_runtime tc) signed_tx r timestamp)"

definition vote_of :: "authenticated_vote \<Rightarrow> finality_vote" where
  "vote_of p =
     \<lparr>fv_chain_id = av_chain_id p, fv_height = av_height p, fv_round = av_round p, fv_block_hash = av_block_hash p,
      fv_validator_id = av_validator_id p, fv_signature = av_signature p\<rparr>"

definition peer_authentic :: "peer_check \<Rightarrow> authenticated_vote \<Rightarrow> bool option" where
  "peer_authentic check p = check (av_validator_id p) (peer_signing_payload p) (av_peer_signature p)"

definition submit ::
  "testnet_consensus \<Rightarrow> store_db \<Rightarrow> consensus_check \<Rightarrow> peer_check \<Rightarrow> authenticated_vote
     \<Rightarrow> finalized_proposal option result \<times> testnet_consensus" where
  "submit tc locked consensus_check peer_check p =
     (if dict_get (tc_resources tc) (av_validator_id p) = None
      then (Inl (ValidatorNodeError ''vote is from an unbound validator''), tc)
      else if peer_authentic peer_check p \<noteq> Some True
      then (Inl (ValidatorNodeError ''peer vote authentication failed''), tc)
      else
        (case runtime_accept_vote (tc_runtime tc) locked (verify_consensus (tc_resources tc) consensus_check) (vote_of p) of
           (Inl e, rt) \<Rightarrow> (Inl e, tc\<lparr>tc_runtime := rt\<rparr>)
         | (Inr r, rt) \<Rightarrow>
             (Inr r, tc\<lparr>tc_runtime := rt, tc_accepted := insert (av_validator_id p) (tc_accepted tc),
                        tc_certificate := (case r of None \<Rightarrow> tc_certificate tc | Some f \<Rightarrow> Some (fin_certificate f))\<rparr>)))"

definition consensus_evidence :: "testnet_consensus \<Rightarrow> json result" where
  "consensus_evidence tc =
     bindE (validator_runtime_evidence (tc_runtime tc)) (\<lambda>runtime.
     let at = (\<lambda>k. case runtime of JObj ms \<Rightarrow> json_at ms k | _ \<Rightarrow> JNull) in
     bindE (mapE (\<lambda>vid. case dict_get (tc_resources tc) vid of
                          None \<Rightarrow> Inl KeyError
                        | Some resource \<Rightarrow> Inr (JObj
                            [(''validator_id'', JStr vid), (''kms_resource_digest'', JStr (sha256_hex (encode resource)))]))
              (sort (map fst (tc_resources tc)))) (\<lambda>bindings.
     Inr (JObj
       [(''schema_version'', JStr ''junca-public-testnet-consensus-runtime/v1''),
        (''chain_id'', at ''chain_id''),
        (''head_height'', at ''head_height''),
        (''pending_height'', at ''pending_height''),
        (''current_round'', at ''current_round''),
        (''authenticated_vote_count'', JInt (int (card (tc_accepted tc)))),
        (''required_vote_count'', JInt 3),
        (''quorum_rule'', JStr ''strictly-greater-than-two-thirds''),
        (''last_certificate_hash'', case tc_certificate tc of None \<Rightarrow> JNull | Some c \<Rightarrow> JStr (certificate_hash c)),
        (''last_certificate'', case tc_certificate tc of None \<Rightarrow> JNull | Some c \<Rightarrow> certificate_as_evidence c),
        (''signer_bindings'', JArr bindings),
        (''private_key_material_accepted'', JBool False),
        (''mainnet_changed'', JBool False),
        (''assets_moved'', JBool False),
        (''bridge_activated'', JBool False)])))"

section \<open>Importing from peers\<close>

text \<open>The store and the pipeline are the node's; the importer is the registry, the journal and the pipeline.\<close>

record sync_recovery =
  sy_resources :: "(string, string) dict"
  sy_registry :: peer_registry
  sy_chain :: int
  sy_file :: journal_file
  sy_action :: recovery_action

definition sync_recovery_init ::
  "int \<Rightarrow> store_db \<Rightarrow> string \<Rightarrow> (string, string) dict \<Rightarrow> journal_file \<Rightarrow> sync_recovery result" where
  "sync_recovery_init chain db genesis resources file =
     (if length resources \<noteq> 3 then Inl (ValidatorNodeError ''sync recovery requires exactly 3 signer bindings'')
      else
        bindE (registry_init chain genesis) (\<lambda>g.
        if chain \<le> 0 then Inl (PeerSyncError ''journal chain_id must be positive'')
        else
          bindE (recover chain file db) (\<lambda>(action, file').
          Inr \<lparr>sy_resources = resources, sy_registry = g, sy_chain = chain, sy_file = file', sy_action = action\<rparr>)))"

definition sync_observe :: "sync_recovery \<Rightarrow> peer_advertisement \<Rightarrow> sync_recovery result" where
  "sync_observe sy a = bindE (registry_observe (sy_registry sy) a) (\<lambda>(_, g). Inr (sy\<lparr>sy_registry := g\<rparr>))"

text \<open>One round of the loop over the votes: the machine and what the last vote gave.\<close>

definition sync_vote ::
  "(string, string) dict \<Rightarrow> consensus_check \<Rightarrow> peer_check \<Rightarrow> finality_certificate \<Rightarrow> fsm \<times> finality_certificate option
     \<Rightarrow> authenticated_vote \<Rightarrow> (fsm \<times> finality_certificate option) result" where
  "sync_vote resources consensus_check peer_check c st p =
     (if av_chain_id p \<noteq> fc_chain_id c \<or> av_height p \<noteq> fc_height c \<or> av_round p \<noteq> fc_round c \<or> av_block_hash p \<noteq> fc_block_hash c
      then Inl (ValidatorNodeError ''sync vote diverges from finality certificate'')
      else
        (case dict_get resources (av_validator_id p) of
           None \<Rightarrow> Inl KeyError
         | Some resource \<Rightarrow>
             (case peer_authentic peer_check p of
                None \<Rightarrow> Inl (ValidatorNodeError ''sync peer authentication failed'')
              | Some peer_ok \<Rightarrow>
                  let w = vote_of p in
                  (case consensus_check (av_validator_id p) resource (vote_signing_payload w) (fv_signature w) of
                     None \<Rightarrow> Inl (ValidatorNodeError ''sync consensus authentication failed'')
                   | Some consensus_ok \<Rightarrow>
                       if \<not> peer_ok \<or> \<not> consensus_ok
                       then Inl (ValidatorNodeError ''sync finalized state authentication failed'')
                       else
                         (case add_vote (fst st) w (\<lambda>_. Some True) of
                            (Inl e, _) \<Rightarrow> Inl e
                          | (Inr r, m) \<Rightarrow> Inr (m, r))))))"

definition authenticate_certificate ::
  "int \<Rightarrow> (string, string) dict \<Rightarrow> consensus_check \<Rightarrow> peer_check \<Rightarrow> executed_proposal \<Rightarrow> finality_certificate
     \<Rightarrow> authenticated_vote list \<Rightarrow> unit result" where
  "authenticate_certificate chain resources consensus_check peer_check p c packets =
     (if fc_chain_id c \<noteq> chain \<or> fc_height c \<noteq> ep_height p \<or> fc_block_hash c \<noteq> ep_block_hash p
      then Inl (ValidatorNodeError ''sync certificate does not bind the executed proposal'')
      else
        let expected = sort (map fst resources) in
        if length packets \<noteq> length expected \<or> sort (map av_validator_id packets) \<noteq> expected \<or> fc_validator_ids c \<noteq> expected
        then Inl (ValidatorNodeError ''sync certificate requires the exact authenticated validator set'')
        else
          bindE (unit_validators expected) (\<lambda>vs.
          bindE (finality_init chain vs (ep_height p - 1)) (\<lambda>m.
          bindE (foldE (sync_vote resources consensus_check peer_check c) (m, None) (sort_key av_validator_id packets))
            (\<lambda>(_, rebuilt).
          if rebuilt \<noteq> Some c
          then Inl (ValidatorNodeError ''sync votes do not reconstruct the supplied finality certificate'')
          else Inr ()))))"

definition retried_differs :: "(string \<times> json) list \<Rightarrow> string \<Rightarrow> executed_proposal \<Rightarrow> bool" where
  "retried_differs m peer p \<longleftrightarrow>
     json_at m ''peer_id'' \<noteq> JStr peer \<or> json_at m ''height'' \<noteq> JInt (ep_height p) \<or>
     json_at m ''parent_hash'' \<noteq> JStr (ep_parent_hash p) \<or> json_at m ''block_hash'' \<noteq> JStr (ep_block_hash p) \<or>
     json_at m ''state_root'' \<noteq> JStr (state_root (ep_transition p))"

text \<open>What happens to an unfinished import of an earlier run before the new one starts.\<close>

definition resume_import :: "sync_recovery \<Rightarrow> string \<Rightarrow> executed_proposal \<Rightarrow> sync_recovery result" where
  "resume_import sy peer p =
     (case sy_action sy of
        RetryRequired \<Rightarrow>
          bindE (read_journal (sy_chain sy) (sy_file sy)) (\<lambda>current.
          (case current of
             None \<Rightarrow> Inl (PeerSyncError ''restart candidate diverges from prepared finalized import'')
           | Some m \<Rightarrow>
               if retried_differs m peer p
               then Inl (PeerSyncError ''restart candidate diverges from prepared finalized import'')
               else Inr (sy\<lparr>sy_file := None\<rparr>)))
      | CommitConfirmed \<Rightarrow> Inr (sy\<lparr>sy_action := Clean\<rparr>)
      | Clean \<Rightarrow> Inr sy)"

definition sync_importer :: "sync_recovery \<Rightarrow> node_pipeline \<Rightarrow> importer" where
  "sync_importer sy n = \<lparr>im_registry = sy_registry sy, im_pipeline = n, im_journal_chain = sy_chain sy, im_file = sy_file sy\<rparr>"

definition sync_import ::
  "sync_recovery \<Rightarrow> node_pipeline \<Rightarrow> consensus_check \<Rightarrow> peer_check \<Rightarrow> string \<Rightarrow> executed_proposal \<Rightarrow> finality_certificate
     \<Rightarrow> authenticated_vote list \<Rightarrow> unit result \<times> sync_recovery \<times> node_pipeline" where
  "sync_import sy n consensus_check peer_check peer p c packets =
     (case bindE (authenticate_certificate (sy_chain sy) (sy_resources sy) consensus_check peer_check p c packets)
             (\<lambda>_. resume_import sy peer p) of
        Inl e \<Rightarrow> (Inl e, sy, n)
      | Inr sy1 \<Rightarrow>
          (case import_finalized (sync_importer sy1 n) (\<lambda>_. None) peer p c of
             (r, s) \<Rightarrow>
               let sy2 = sy1\<lparr>sy_registry := im_registry s, sy_file := im_file s\<rparr> in
               (case r of
                  Inl e \<Rightarrow> (Inl e, sy2, im_pipeline s)
                | Inr _ \<Rightarrow> (Inr (), sy2\<lparr>sy_action := Clean\<rparr>, im_pipeline s))))"

definition recovery_word :: "recovery_action \<Rightarrow> string" where
  "recovery_word a = (case a of Clean \<Rightarrow> ''CLEAN'' | RetryRequired \<Rightarrow> ''RETRY_REQUIRED'' | CommitConfirmed \<Rightarrow> ''COMMIT_CONFIRMED'')"

definition sync_recovery_evidence :: "sync_recovery \<Rightarrow> json" where
  "sync_recovery_evidence sy =
     (case registry_evidence (sy_registry sy) of
        JObj ms \<Rightarrow> JObj (dict_set ''schema_version'' (JStr ''junca-validator-sync-recovery/v1'') ms @
          [(''recovery_action'', JStr (recovery_word (sy_action sy))),
           (''authenticated_finalized_only'', JBool True),
           (''fork_divergence_policy'', JStr ''fail-closed'')])
      | v \<Rightarrow> v)"

section \<open>Every branch that returns\<close>

lemma submit_cases:
  assumes "submit tc locked cv pv p = (y, tc')"
  obtains (refused) e where "y = Inl e" "tc' = tc"
  | (voted) rt where "dict_get (tc_resources tc) (av_validator_id p) \<noteq> None" "peer_authentic pv p = Some True"
      "runtime_accept_vote (tc_runtime tc) locked (verify_consensus (tc_resources tc) cv) (vote_of p) = (y, rt)"
      "tc_runtime tc' = rt" "tc_resources tc' = tc_resources tc"
      "\<And>f. y = Inr (Some f) \<Longrightarrow> tc_certificate tc' = Some (fin_certificate f)"
proof (cases "dict_get (tc_resources tc) (av_validator_id p) = None \<or> peer_authentic pv p \<noteq> Some True")
  case True
  then have "\<exists>e. y = Inl e \<and> tc' = tc"
    using assms by (auto simp: submit_def split: if_splits)
  then show ?thesis
    using refused by blast
next
  case False
  obtain x rt where accept: "runtime_accept_vote (tc_runtime tc) locked (verify_consensus (tc_resources tc) cv) (vote_of p) = (x, rt)"
    by (cases "runtime_accept_vote (tc_runtime tc) locked (verify_consensus (tc_resources tc) cv) (vote_of p)")
  show ?thesis
    using assms False accept by (intro voted [of rt]) (auto simp: submit_def split: sum.splits)
qed

lemma unit_validators_Inr:
  "unit_validators ids = Inr vs \<longleftrightarrow> vs = map (\<lambda>i. \<lparr>validator_id = i, voting_power = 1\<rparr>) ids \<and> (\<forall>v \<in> set vs. validator_post_init v = Inr ())"
  by (induction ids arbitrary: vs) (auto simp: unit_validators_def bindE_Inr_iff Let_def)

lemma unit_set_Inr:
  assumes "unit_set ids = Inr s"
  shows "set_ok s" "vs_validators s = map (\<lambda>i. \<lparr>validator_id = i, voting_power = 1\<rparr>) ids" "epoch s = 0" "activation_height s = 0"
  using assms by (auto simp: unit_set_def bindE_Inr_iff Let_def unit_validators_Inr set_ok_def)

lemma testnet_init_Inr:
  assumes "testnet_init chain db q jdb resources = (Inr tc, jdb')"
  obtains bindings s n j last where "length resources = 3" "unit_set (sort (map fst resources)) = Inr s"
    "mapE (node_binding resources) (sort (map fst resources)) = Inr bindings"
    "protocol_config_post_init (default_config chain) = Inr ()" "mempool_policy_post_init default_mempool_policy = Inr ()"
    "node_pipeline_init (default_config chain) (mk_pool (default_config chain) None) chain db = Inr n"
    "open_journal chain q jdb = (Inr j, jdb')" "validator_runtime_init n [s] bindings j = Inr (tc_runtime tc)"
    "latest_finality_certificate chain db = Inr last"
    "tc = \<lparr>tc_resources = resources, tc_runtime = tc_runtime tc, tc_accepted = {}, tc_certificate = last\<rparr>"
proof -
  let ?ids = "sort (map fst resources)"
  obtain bindings s n where "length resources = 3" "unit_set ?ids = Inr s" "mapE (node_binding resources) ?ids = Inr bindings"
      "protocol_config_post_init (default_config chain) = Inr ()" "mempool_policy_post_init default_mempool_policy = Inr ()"
      "node_pipeline_init (default_config chain) (mk_pool (default_config chain) None) chain db = Inr n"
      and rest: "(case open_journal chain q jdb of
             (Inl e, jdb') \<Rightarrow> (Inl e, jdb')
           | (Inr j, jdb') \<Rightarrow>
               (bindE (validator_runtime_init n [s] bindings j) (\<lambda>rt.
                bindE (latest_finality_certificate chain db) (\<lambda>last.
                Inr \<lparr>tc_resources = resources, tc_runtime = rt, tc_accepted = {}, tc_certificate = last\<rparr>)), jdb')) = (Inr tc, jdb')"
    using assms unfolding testnet_init_def Let_def
    by (auto simp: bindE_Inr_iff if_Inl_Inr_iff schedule_init_Inr split: sum.splits if_splits)
  moreover from rest obtain j where "open_journal chain q jdb = (Inr j, jdb')"
      "bindE (validator_runtime_init n [s] bindings j) (\<lambda>rt.
         bindE (latest_finality_certificate chain db) (\<lambda>last.
         Inr \<lparr>tc_resources = resources, tc_runtime = rt, tc_accepted = {}, tc_certificate = last\<rparr>)) = Inr tc"
    by (auto split: prod.splits sum.splits)
  ultimately show thesis
    using that by (auto simp: bindE_Inr_iff)
qed

text \<open>What the adapter returns as a signature is one, and the key service has verified it over the digest.\<close>

lemma kms_sign_Inr:
  assumes "kms_sign sign verify resource payload = Inr s"
  shows "raw_signature s" "kms_verify verify resource payload s = Inr True"
    "\<exists>der. raw_to_der s = Inr der \<and> verify resource (sha256 payload) der = Some True"
proof -
  obtain der where der: "der_to_raw der = Inr s" "kms_verify verify resource payload s = Inr True"
    using assms by (auto simp: kms_sign_def bindE_Inr_iff if_Inl_Inr_iff split: option.splits sum.splits)
  then show "raw_signature s" "kms_verify verify resource payload s = Inr True"
    by (simp_all add: der_to_raw_raw)
  show "\<exists>der. raw_to_der s = Inr der \<and> verify resource (sha256 payload) der = Some True"
    using der(2) by (auto simp: kms_verify_def bindE_Inr_iff split: if_splits sum.splits option.splits)
qed

section \<open>Votes that came through the door\<close>

text \<open>A vote counts because of its signature, and reaches the machine only in a packet whose sender was authenticated.\<close>

definition attested :: "(string, string) dict \<Rightarrow> consensus_check \<Rightarrow> peer_check \<Rightarrow> vote_verifier" where
  "attested resources cv pv w =
     Some (vote_check (verify_consensus resources cv) w = Some True \<and> (\<exists>p. peer_authentic pv p = Some True \<and> vote_of p = w))"

lemma add_vote_same:
  assumes "v w = Some True \<longleftrightarrow> v' w = Some True"
  shows "add_vote m w v = add_vote m w v'"
proof -
  have "validate_vote m w v = validate_vote m w v'"
    using assms by (simp add: validate_vote_def)
  then show ?thesis
    by (simp add: add_vote_def)
qed

lemma add_vote_attested:
  "peer_authentic pv p = Some True \<Longrightarrow>
     add_vote m (vote_of p) (vote_check (verify_consensus resources cv)) = add_vote m (vote_of p) (attested resources cv pv)"
  by (intro add_vote_same) (auto simp: attested_def)

text \<open>The certificate of an import is one of a machine that counted attested votes only.\<close>

lemma sync_vote_Inr:
  assumes "sync_vote resources cv pv c (m, r0) p = Inr (m', r)"
  shows "add_vote m (vote_of p) (attested resources cv pv) = (Inr r, m')"
    "add_vote m (vote_of p) (vote_check (verify_consensus resources cv)) = (Inr r, m')"
    "peer_authentic pv p = Some True" "av_height p = fc_height c"
    "\<exists>resource. dict_get resources (av_validator_id p) = Some resource \<and>
       cv (av_validator_id p) resource (vote_signing_payload (vote_of p)) (av_signature p) = Some True"
proof -
  have height: "av_height p = fc_height c"
    using assms by (simp add: sync_vote_def split: if_splits)
  obtain resource where resource: "dict_get resources (av_validator_id p) = Some resource"
    using assms by (cases "dict_get resources (av_validator_id p)") (simp_all add: sync_vote_def split: if_splits)
  have peer: "peer_authentic pv p = Some True"
    using assms resource
    by (cases "peer_authentic pv p") (auto simp: sync_vote_def Let_def simp del: map_of_eq_Some_iff split: if_splits option.splits)
  let ?w = "vote_of p"
  have checked: "cv (av_validator_id p) resource (vote_signing_payload ?w) (fv_signature ?w) = Some True"
    using assms resource peer
    by (cases "cv (av_validator_id p) resource (vote_signing_payload ?w) (fv_signature ?w)")
       (auto simp: sync_vote_def Let_def simp del: map_of_eq_Some_iff split: if_splits)
  obtain y m1 where add: "add_vote m ?w (\<lambda>_. Some True) = (y, m1)"
    by (cases "add_vote m ?w (\<lambda>_. Some True)")
  have "add_vote m ?w (\<lambda>_. Some True) = (Inr r, m')"
    using assms resource peer checked add by (cases y) (simp_all add: sync_vote_def Let_def del: map_of_eq_Some_iff split: if_splits)
  note parts = resource peer checked this height
  have "vote_check (verify_consensus resources cv) (vote_of p) = Some True"
    using parts(1,3) by (simp add: vote_check_def verify_consensus_def vote_of_def)
  then have "attested resources cv pv (vote_of p) = Some True" "vote_check (verify_consensus resources cv) (vote_of p) = Some True"
    using parts(2) by (auto simp: attested_def)
  then show "add_vote m (vote_of p) (attested resources cv pv) = (Inr r, m')"
    "add_vote m (vote_of p) (vote_check (verify_consensus resources cv)) = (Inr r, m')"
    using parts(4) add_vote_same [of "attested resources cv pv" "vote_of p" "\<lambda>_. Some True" m]
      add_vote_same [of "vote_check (verify_consensus resources cv)" "vote_of p" "\<lambda>_. Some True" m] by metis+
  show "peer_authentic pv p = Some True" "av_height p = fc_height c"
    "\<exists>resource. dict_get resources (av_validator_id p) = Some resource \<and>
       cv (av_validator_id p) resource (vote_signing_payload (vote_of p)) (av_signature p) = Some True"
    using parts by (simp_all add: vote_of_def)
qed

lemma authenticated_machine:
  assumes "authenticate_certificate chain resources cv pv p c packets = Inr ()"
  obtains m where "fsm_reachable (attested resources cv pv) m" "fsm_reachable (vote_check (verify_consensus resources cv)) m"
    "fsm_chain_id m = chain" "get_certificate m (fc_height c) = Inr c"
proof -
  let ?a = "attested resources cv pv" and ?v = "vote_check (verify_consensus resources cv)"
  obtain vs m0 m where start: "unit_validators (sort (map fst resources)) = Inr vs" "finality_init chain vs (ep_height p - 1) = Inr m0"
      and run: "foldE (sync_vote resources cv pv c) (m0, None) (sort_key av_validator_id packets) = Inr (m, Some c)"
    using assms by (auto simp: authenticate_certificate_def Let_def if_Inl_Inr_iff bindE_Inr_iff split: prod.splits)
  have m0: "fsm_reachable ?a m0" "fsm_reachable ?v m0" "fsm_chain_id m0 = chain"
    using start fsm_reachable.started [OF start(2)] by (auto simp: unit_validators_Inr finality_init_Inr)
  let ?P = "\<lambda>(m, r). fsm_reachable ?a m \<and> fsm_reachable ?v m \<and> fsm_chain_id m = chain \<and>
      (\<forall>d. r = Some d \<longrightarrow> get_certificate m (fc_height c) = Inr d)"
  have "?P (m, Some c)"
  proof (rule foldE_invariant [OF run, of ?P])
    show "?P (m0, None)"
      using m0 by simp
    fix st st' q
    assume step: "?P st" "sync_vote resources cv pv c st q = Inr st'"
    obtain m1 r1 m2 r2 where st: "st = (m1, r1)" "st' = (m2, r2)"
      by (cases st, cases st')
    note voted = sync_vote_Inr [OF step(2) [unfolded st]]
    show "?P st'"
      using step(1) fsm_reachable.voted [OF _ voted(1)] fsm_reachable.voted [OF _ voted(2)] vote_keeps [OF _ voted(1)] voted(4)
      by (auto simp: st vote_of_def)
  qed
  then show thesis
    using that by auto
qed

section \<open>Histories\<close>

abbreviation tc_store :: "testnet_consensus \<Rightarrow> store_db" where
  "tc_store tc \<equiv> np_store (vr_pipeline (tc_runtime tc))"

definition with_pipeline :: "testnet_consensus \<Rightarrow> node_pipeline \<Rightarrow> testnet_consensus" where
  "with_pipeline tc n = tc\<lparr>tc_runtime := (tc_runtime tc)\<lparr>vr_pipeline := n\<rparr>\<rparr>"

abbreviation testnet_node :: "int \<Rightarrow> (string, string) dict \<Rightarrow> consensus_check \<Rightarrow> node_pipeline \<Rightarrow> bool" where
  "testnet_node chain resources cv \<equiv>
     node_reachable (default_config chain) default_mempool_policy signed_tx (vote_check (verify_consensus resources cv))"

inductive tc_step ::
  "int \<Rightarrow> (string, string) dict \<Rightarrow> consensus_check \<Rightarrow> peer_check \<Rightarrow> testnet_consensus \<Rightarrow> testnet_consensus \<Rightarrow> bool"
  for chain resources cv pv where
  proposed: "consensus_propose tc r ts = Some (x, tc') \<Longrightarrow> tc_step chain resources cv pv tc tc'"
| signed: "runtime_sign_vote (tc_runtime tc) signer (verify_consensus resources cv) vid = Inr (w, rt) \<Longrightarrow>
    tc_step chain resources cv pv tc (tc\<lparr>tc_runtime := rt\<rparr>)"
| submitted: "submit tc (tc_store tc) cv pv p = (y, tc') \<Longrightarrow> tc_step chain resources cv pv tc tc'"
| pooled: "pool_step (np_pool (vr_pipeline (tc_runtime tc))) pool \<Longrightarrow>
    tc_step chain resources cv pv tc (with_pipeline tc ((vr_pipeline (tc_runtime tc))\<lparr>np_pool := pool\<rparr>))"
| imported: "testnet_node chain resources cv n0 \<Longrightarrow> execute_candidate n0 signed_tx ts = Some (Inr p) \<Longrightarrow>
    sy_resources sy = resources \<Longrightarrow> sy_chain sy = chain \<Longrightarrow>
    sync_import sy (vr_pipeline (tc_runtime tc)) cv pv peer p cert packets = (y, sy', n) \<Longrightarrow>
    tc_step chain resources cv pv tc (with_pipeline tc n)"

text \<open>A restart is another start on the store and the journal that are there.\<close>

inductive tc_reachable ::
  "int \<Rightarrow> (string, string) dict \<Rightarrow> consensus_check \<Rightarrow> peer_check \<Rightarrow> testnet_consensus \<Rightarrow> bool"
  for chain resources cv pv where
  started: "store_reachable chain db \<Longrightarrow> dict_ok (signatures jdb) \<Longrightarrow> dict_ok (watermarks jdb) \<Longrightarrow>
    testnet_init chain db q jdb resources = (Inr tc, jdb') \<Longrightarrow> tc_reachable chain resources cv pv tc"
| step: "tc_reachable chain resources cv pv tc \<Longrightarrow> tc_step chain resources cv pv tc tc' \<Longrightarrow> tc_reachable chain resources cv pv tc'"

definition tc_ok :: "int \<Rightarrow> (string, string) dict \<Rightarrow> consensus_check \<Rightarrow> peer_check \<Rightarrow> testnet_consensus \<Rightarrow> bool" where
  "tc_ok chain resources cv pv tc \<longleftrightarrow>
     tc_resources tc = resources \<and> length resources = 3 \<and> protocol_config_post_init (default_config chain) = Inr () \<and>
     live_reachable (default_config chain) default_mempool_policy signed_tx (verify_consensus resources cv) (tc_runtime tc) \<and>
     (\<exists>s. unit_set (sort (map fst resources)) = Inr s \<and> vr_schedule (tc_runtime tc) = [s]) \<and>
     (\<forall>p s m. runtime_pending (tc_runtime tc) = Inr (p, s, m) \<longrightarrow>
        [s] = vr_schedule (tc_runtime tc) \<and> machine_of (attested resources cv pv) chain s m)"

lemma default_policy_ok: "mempool_policy_post_init default_mempool_policy = Inr ()"
  by (simp add: mempool_policy_post_init_def default_mempool_policy_def)

lemma tc_started_ok:
  assumes "store_reachable chain db" "dict_ok (signatures jdb)" "dict_ok (watermarks jdb)"
    and "testnet_init chain db q jdb resources = (Inr tc, jdb')"
  shows "tc_ok chain resources cv pv tc"
proof -
  obtain bindings s n j last where parts: "length resources = 3" "unit_set (sort (map fst resources)) = Inr s"
      "protocol_config_post_init (default_config chain) = Inr ()"
      "node_pipeline_init (default_config chain) (mk_pool (default_config chain) None) chain db = Inr n"
      "open_journal chain q jdb = (Inr j, jdb')" "validator_runtime_init n [s] bindings j = Inr (tc_runtime tc)"
      "tc = \<lparr>tc_resources = resources, tc_runtime = tc_runtime tc, tc_accepted = {}, tc_certificate = last\<rparr>"
    by (rule testnet_init_Inr [OF assms(4)]) blast
  have "mk_pool (default_config chain) None = mk_pool (default_config chain) (Some default_mempool_policy)"
    by (simp add: mk_pool_def)
  then have "testnet_node chain resources cv n"
    using node_reachable.started [OF pool_reachable.initial assms(1)] parts(4) by simp
  moreover have "scheduled [s]"
    using unit_set_Inr [OF parts(2)] by (intro scheduled.genesis [of s]) (simp_all add: schedule_init_Inr)
  moreover have "journal_reachable (cfg_chain_id (default_config chain)) j"
    using assms(2,3) parts(5) by (simp add: default_config_def journal_reachable.opened)
  ultimately have "live_reachable (default_config chain) default_mempool_policy signed_tx (verify_consensus resources cv) (tc_runtime tc)"
    using parts(6) by (rule live_reachable.started)
  then show ?thesis
    using parts live_started [OF parts(6)] unfolding tc_ok_def by (metis Inl_Inr_False testnet_consensus.select_convs(1))
qed

lemma imported_commit:
  assumes "sync_import sy n cv pv peer p c packets = (y, sy', n')"
  shows "n' = n \<or> (\<exists>b. authenticate_certificate (sy_chain sy) (sy_resources sy) cv pv p c packets = Inr () \<and>
    commit_finalized n (np_store n) p c = Inr (b, n'))"
proof (cases "bindE (authenticate_certificate (sy_chain sy) (sy_resources sy) cv pv p c packets) (\<lambda>_. resume_import sy peer p)")
  case (Inl e)
  then show ?thesis
    using assms by (simp add: sync_import_def)
next
  case (Inr sy1)
  then have auth: "authenticate_certificate (sy_chain sy) (sy_resources sy) cv pv p c packets = Inr ()"
    by (simp add: bindE_Inr_iff)
  obtain r s where import: "import_finalized (sync_importer sy1 n) (\<lambda>_. None) peer p c = (r, s)"
    by (cases "import_finalized (sync_importer sy1 n) (\<lambda>_. None) peer p c")
  have n': "n' = im_pipeline s"
    using assms Inr import by (simp add: sync_import_def Let_def split: sum.splits)
  have "im_pipeline s = n \<or> (\<exists>b. commit_finalized n (np_store n) p c = Inr (b, im_pipeline s))"
    using import by (cases rule: import_situation) (auto simp: sync_importer_def)
  then show ?thesis
    using n' auth by blast
qed

lemma runtime_propose_keeps:
  assumes "runtime_propose rt v r ts = Some (x, rt')"
  shows "vr_pipeline rt' = vr_pipeline rt" "vr_schedule rt' = vr_schedule rt" "vr_journal rt' = vr_journal rt"
  using assms by (cases rule: runtime_propose_cases; simp)+

lemma runtime_sign_keeps:
  assumes "runtime_sign_vote rt signer verifier vid = Inr (w, rt')"
  shows "vr_pipeline rt' = vr_pipeline rt" "vr_schedule rt' = vr_schedule rt" "runtime_pending rt' = runtime_pending rt"
    "vr_proposal rt' = vr_proposal rt" "vr_round rt' = vr_round rt"
  using assms by (rule runtime_sign_vote_Inr, simp add: runtime_pending_def)+

lemma runtime_accept_keeps:
  assumes "runtime_accept_vote rt locked verifier w = (x, rt')"
  shows "vr_schedule rt' = vr_schedule rt" "vr_journal rt' = vr_journal rt" "vr_round rt' = vr_round rt"
  using assms by (cases rule: runtime_accept_vote_cases; simp)+

lemma unit_schedule:
  assumes "unit_set ids = Inr s" "at_height [s] h = Inr t"
  shows "t = s"
  using assms(2) by (simp add: at_height_def split: if_splits)

lemma tc_step_ok:
  assumes "tc_step chain resources cv pv tc tc'" "tc_ok chain resources cv pv tc"
  shows "tc_ok chain resources cv pv tc'"
proof -
  let ?c = "default_config chain" and ?sv = "verify_consensus resources cv" and ?rt = "tc_runtime tc"
  let ?a = "attested resources cv pv"
  obtain s0 where s0: "unit_set (sort (map fst resources)) = Inr s0" "vr_schedule ?rt = [s0]"
      and res: "tc_resources tc = resources" "length resources = 3" "protocol_config_post_init ?c = Inr ()"
      and live: "live_reachable ?c default_mempool_policy signed_tx ?sv ?rt"
      and pending: "\<And>p s m. runtime_pending ?rt = Inr (p, s, m) \<Longrightarrow> [s] = vr_schedule ?rt \<and> machine_of ?a chain s m"
    using assms(2) unfolding tc_ok_def by blast
  have set: "set_ok s0" and chain: "0 < chain"
    using unit_set_Inr [OF s0(1)] res(3) by (auto simp: default_config_def protocol_config_post_init_def split: if_splits)
  have ok: "live_ok ?c default_mempool_policy signed_tx ?sv ?rt"
    using live res(3) by (rule live_reachable_ok)
  note parts = live_parts [OF ok res(3) default_policy_ok]
  have rc: "runtime_chain ?rt = chain"
    using parts(1) by (simp add: default_config_def)
  have keep: "tc_ok chain resources cv pv tc'"
    if "tc_resources tc' = resources" "live_step ?c default_mempool_policy signed_tx ?sv ?rt (tc_runtime tc')"
      "vr_schedule (tc_runtime tc') = [s0]"
      "\<And>p s m. runtime_pending (tc_runtime tc') = Inr (p, s, m) \<Longrightarrow> s = s0 \<and> machine_of ?a chain s m" for tc'
    using that live_reachable.step [OF live that(2)] s0 res unfolding tc_ok_def by auto
  from assms(1) show ?thesis
  proof cases
    case (proposed r ts x)
    then obtain rt where rt: "runtime_propose ?rt signed_tx r ts = Some (x, rt)" "tc' = tc\<lparr>tc_accepted := {}, tc_runtime := rt\<rparr>"
      by (auto simp: consensus_propose_def)
    have "s = s0 \<and> machine_of ?a chain s m" if new: "runtime_pending rt = Inr (p, s, m)" for p s m
      using rt(1)
    proof (cases rule: runtime_propose_cases)
      case (refused e)
      then show ?thesis using pending new s0 by auto
    next
      case (unstarted e p' s')
      have "s' = s0"
        using unit_schedule [OF s0(1)] unstarted(5) s0(2) by simp
      moreover have "-1 \<le> head_height (np_store (vr_pipeline ?rt))"
        using proposed_above(2) [OF unstarted(4) parts(3)] by simp
      then obtain m1 where "finality_init chain (vs_validators s0) (head_height (np_store (vr_pipeline ?rt))) = Inr m1"
        by (rule started_machine [OF set chain])
      ultimately show ?thesis
        using unstarted(6) rc by simp
    next
      case (proposed p' s' m')
      have s': "s' = s0"
        using unit_schedule [OF s0(1)] proposed(5) s0(2) by simp
      have "-1 \<le> head_height (np_store (vr_pipeline ?rt))"
        using proposed_above(2) [OF proposed(4) parts(3)] by simp
      then obtain m1 where m1: "finality_init chain (vs_validators s0) (head_height (np_store (vr_pipeline ?rt))) = Inr m1"
          "machine_of ?a chain s0 m1"
        by (rule started_machine [OF set chain])
      have "m1 = m'"
        using m1(1) proposed(7) s' rc by simp
      moreover have "s = s'" "m = m'"
        using new proposed(8) by (simp_all add: runtime_pending_Inr)
      ultimately show ?thesis
        using m1(2) s' by simp
    qed
    then show ?thesis
      using keep [of tc'] rt live_step.proposed [OF rt(1)] runtime_propose_keeps [OF rt(1)] res(1) s0(2) by simp
  next
    case (signed signer vid w rt)
    then show ?thesis
      using keep [of tc'] live_step.signed [OF signed(2)] runtime_sign_keeps [OF signed(2)] pending res(1) s0(2) by auto
  next
    case (submitted p y)
    from submitted(1) show ?thesis
    proof (cases rule: submit_cases)
      case (refused e)
      then show ?thesis using assms(2) by simp
    next
      case (voted rt)
      have accept: "runtime_accept_vote ?rt (tc_store tc) ?sv (vote_of p) = (y, rt)"
        using voted(3) res(1) by simp
      have "s = s0 \<and> machine_of ?a chain s m" if new: "runtime_pending rt = Inr (p', s, m)" for p' s m
        using accept
      proof (cases rule: runtime_accept_vote_cases)
        case (voted q t m0 z m1)
        have "add_vote m0 (vote_of p) ?a = (z, m1)"
          using voted(2) add_vote_attested submitted(1) \<open>peer_authentic pv p = Some True\<close> by metis
        then show ?thesis
          using voted(1,3) new pending [OF voted(1)] machine_votes(1) s0(2) by (auto simp: runtime_pending_Inr)
      qed (use new pending s0 in \<open>auto simp: runtime_pending_Inr\<close>)
      moreover have "live_step ?c default_mempool_policy signed_tx ?sv ?rt rt"
        using accept by (rule live_step.voted)
      ultimately show ?thesis
        using voted(4,5) runtime_accept_keeps(1) [OF accept] res(1) s0(2) by (intro keep) simp_all
    qed
  next
    case (pooled pool)
    have "runtime_pending (?rt\<lparr>vr_pipeline := n\<rparr>) = runtime_pending ?rt" for n
      by (simp add: runtime_pending_def)
    then show ?thesis
      using keep [of tc'] pooled live_step.pooled [OF pooled(2)] pending res(1) s0(2) by (auto simp: with_pipeline_def)
  next
    case (imported n0 ts p sy peer cert packets y sy' n)
    have same: "runtime_pending (?rt\<lparr>vr_pipeline := n\<rparr>) = runtime_pending ?rt" for n
      by (simp add: runtime_pending_def)
    show ?thesis
      using imported_commit [OF imported(6)]
    proof (elim disjE exE conjE)
      assume "n = vr_pipeline ?rt"
      then show ?thesis
        using imported(1) assms(2) by (simp add: with_pipeline_def)
    next
      fix b
      assume b: "authenticate_certificate (sy_chain sy) (sy_resources sy) cv pv p cert packets = Inr ()"
        "commit_finalized (vr_pipeline ?rt) (tc_store tc) p cert = Inr (b, n)"
      obtain m where m: "fsm_reachable (vote_check ?sv) m" "fsm_chain_id m = chain" "get_certificate m (fc_height cert) = Inr cert"
        by (rule authenticated_machine [OF b(1)]) (use imported(4,5) in simp)
      have "live_step ?c default_mempool_policy signed_tx ?sv ?rt (?rt\<lparr>vr_pipeline := n\<rparr>)"
        using live_step.imported [OF imported(2,3) m(1) _ m(3) b(2)] m(2) by (simp add: default_config_def)
      then show ?thesis
        using keep [of tc'] imported(1) same pending res(1) s0(2) by (auto simp: with_pipeline_def)
    qed
  qed
qed

lemma tc_reachable_ok: "tc_reachable chain resources cv pv tc \<Longrightarrow> tc_ok chain resources cv pv tc"
  by (induction rule: tc_reachable.induct) (use tc_started_ok tc_step_ok in blast)+

section \<open>Unanimity\<close>

text \<open>The packet of a validator for a block: both signatures verified, and nothing else in it is free.\<close>

definition packet_for ::
  "(string, string) dict \<Rightarrow> consensus_check \<Rightarrow> peer_check \<Rightarrow> int \<Rightarrow> int \<Rightarrow> int \<Rightarrow> string \<Rightarrow> string \<Rightarrow> authenticated_vote \<Rightarrow> bool" where
  "packet_for resources cv pv chain h r block i q \<longleftrightarrow>
     av_validator_id q = i \<and> peer_authentic pv q = Some True \<and>
     (\<exists>resource. dict_get resources i = Some resource \<and> cv i resource (vote_signing_payload (vote_of q)) (av_signature q) = Some True) \<and>
     av_chain_id q = chain \<and> av_height q = h \<and> av_round q = r \<and> lower (av_block_hash q) = block"

lemma attested_packet:
  assumes "vote_for (attested resources cv pv) chain vs h r block w"
  shows "\<exists>q. packet_for resources cv pv chain h r block (fv_validator_id w) q"
proof -
  obtain q where q: "peer_authentic pv q = Some True" "vote_of q = w" "vote_check (verify_consensus resources cv) w = Some True"
    using assms by (auto simp: vote_for_def attested_def)
  then have "\<exists>resource. dict_get resources (av_validator_id q) = Some resource \<and>
      cv (av_validator_id q) resource (vote_signing_payload (vote_of q)) (av_signature q) = Some True"
    by (auto simp: vote_check_def verify_consensus_def vote_of_def simp del: map_of_eq_Some_iff split: option.splits)
  then show ?thesis
    using assms q by (intro exI [of _ q]) (auto simp: packet_for_def vote_for_def vote_of_def simp del: map_of_eq_Some_iff)
qed

lemma unit_distinct:
  assumes "unit_set ids = Inr s"
  shows "distinct ids" "sorted ids"
  using set_ok_facts(1,2) [OF unit_set_Inr(1) [OF assms]] unit_set_Inr(2) [OF assms]
  by (simp_all add: body_ok_def set_pairs_def comp_def)

lemma unit_power:
  assumes "unit_set ids = Inr s" "i \<in> set ids"
  shows "power_of (set_pairs s) i = 1"
proof -
  have "dict_get (set_pairs s) i = Some \<lparr>validator_id = i, voting_power = 1\<rparr>"
    using assms(2) unit_distinct [OF assms(1)]
    by (intro map_of_is_SomeI) (auto simp: set_pairs_def unit_set_Inr(2) [OF assms(1)] comp_def)
  then show ?thesis
    by (simp add: power_of_def del: map_of_eq_Some_iff)
qed

lemma all_of_three:
  assumes "unit_set ids = Inr s" "length ids = 3" "backed v chain (set_pairs s) (vs_total_power s) c"
  shows "fc_validator_ids c = ids" "fc_signed_power c = 3"
proof -
  have set: "set_ok s" "vs_validators s = map (\<lambda>i. \<lparr>validator_id = i, voting_power = 1\<rparr>) ids"
    using unit_set_Inr [OF assms(1)] by simp_all
  note ids = unit_distinct [OF assms(1)] and power = unit_power [OF assms(1)]
  note b = backed_ids [OF assms(3)]
  have sub: "set (fc_validator_ids c) \<subseteq> set ids"
    using b(1) by (force simp: set_pairs_def set(2))
  have "fc_signed_power c = int (card (set (fc_validator_ids c)))"
    using b(4) sub power by (simp add: subset_iff)
  moreover have "vs_total_power s = 3"
    using assms(2) by (simp add: vs_total_power_def set(2) comp_def sum_list_triv)
  moreover have "card (set (fc_validator_ids c)) \<le> 3"
    using card_mono [OF _ sub] distinct_card [OF ids(1)] assms(2) by simp
  ultimately have card: "card (set (fc_validator_ids c)) = 3" "fc_signed_power c = 3"
    using b(5) by linarith+
  then have "set (fc_validator_ids c) = set ids"
    using sub distinct_card [OF ids(1)] assms(2) by (intro card_subset_eq) simp_all
  then show "fc_validator_ids c = ids" "fc_signed_power c = 3"
    using b(2,3) ids card(2) sorted_distinct_set_unique by metis+
qed

lemma unanimous_block:
  assumes "tc_reachable chain resources cv pv tc" "submit tc (tc_store tc) cv pv p = (Inr (Some f), tc')"
  shows "(\<forall>i \<in> fst ` set resources. \<exists>q. packet_for resources cv pv chain (sb_height (fin_block f))
      (fc_round (fin_certificate f)) (sb_block_hash (fin_block f)) i q) \<and>
    fc_validator_ids (fin_certificate f) = sort (map fst resources) \<and> fc_signed_power (fin_certificate f) = 3 \<and>
    sb_height (fin_block f) = head_height (tc_store tc) + 1 \<and> store_head (tc_store tc') = Inr (fin_block f) \<and>
    tc_certificate tc' = Some (fin_certificate f) \<and> vr_proposal (tc_runtime tc') = None"
proof -
  let ?c = "default_config chain" and ?sv = "verify_consensus resources cv" and ?rt = "tc_runtime tc"
  let ?a = "attested resources cv pv"
  have ok: "tc_ok chain resources cv pv tc"
    using assms(1) by (rule tc_reachable_ok)
  then obtain s0 where s0: "unit_set (sort (map fst resources)) = Inr s0" "vr_schedule ?rt = [s0]" "length resources = 3"
      "tc_resources tc = resources"
    and live: "live_ok ?c default_mempool_policy signed_tx ?sv ?rt" and c: "protocol_config_post_init ?c = Inr ()"
    and pending: "\<And>p s m. runtime_pending ?rt = Inr (p, s, m) \<Longrightarrow> s = s0 \<and> machine_of ?a chain s m"
    unfolding tc_ok_def using live_reachable_ok by force
  note parts = live_parts [OF live c default_policy_ok]
  from assms(2) obtain rt where rt: "peer_authentic pv p = Some True"
      "runtime_accept_vote ?rt (tc_store tc) ?sv (vote_of p) = (Inr (Some f), rt)" "tc_runtime tc' = rt"
      "tc_certificate tc' = Some (fin_certificate f)"
    by (cases rule: submit_cases) (auto simp: s0(4))
  from rt(2) show ?thesis
  proof (cases rule: runtime_accept_vote_cases)
    case (finalized q s m cert m' b n)
    have m: "s = s0" "machine_of ?a chain s0 m"
      using pending [OF finalized(1)] by auto
    have add: "add_vote m (vote_of p) ?a = (Inr (Some cert), m')"
      using finalized(2) add_vote_attested [OF rt(1)] by metis
    note m' = machine_votes [OF m(2) add]
    have cert: "fc_height cert = ep_height q" "backed ?a chain (set_pairs s0) (vs_total_power s0) cert"
      using finalized_backed [OF fsm_reachable_ok, of ?a m' "fv_height (vote_of p)" cert] m' finalized(4)
      by (auto simp: machine_of_def get_certificate_Inr)
    have all: "fc_validator_ids cert = sort (map fst resources)" "fc_signed_power cert = 3"
      using all_of_three [OF s0(1) _ cert(2)] s0(3) by simp_all
    obtain n0 ts where n0: "testnet_node chain resources cv n0" "execute_candidate n0 signed_tx ts = Some (Inr q)"
      using live finalized(1) unfolding live_ok_def by blast
    have store0: "store_ok (np_chain n0) (np_store n0)"
      using node_reachable_parts [OF n0(1) c] store_reachable_ok by blast
    note details = commit_details [OF finalized(3) n0(2) store0]
    have "\<exists>u. packet_for resources cv pv chain (sb_height b) (fc_round cert) (sb_block_hash b) i u" if i: "i \<in> fst ` set resources" for i
    proof -
      have "i \<in> set (fc_validator_ids cert)"
        using i all(1) by simp
      then obtain w where "vote_for ?a chain (set_pairs s0) (fc_height cert) (fc_round cert) (fc_block_hash cert) w" "fv_validator_id w = i"
        using backed_ids(6) [OF cert(2)] by blast
      then show ?thesis
        using attested_packet cert(1) details(2,3) commit_finalized_Inr(6) [OF finalized(3)] by metis
    qed
    then show ?thesis
      using all details(1,2,7) finalized(7,8) rt(3,4) by simp
  next
    case voted
    then show ?thesis by blast
  qed simp
qed

text \<open>
  C4. Finality on the testnet is unanimous: when a vote completes a block, each of the three configured validators
  has sent a packet for exactly this chain, height, round and block, with a transport signature and a vote
  signature that verified, and the certificate names all three. The block extends the head and is the new one.
\<close>

theorem unanimous_finality:
  assumes "tc_reachable chain resources cv pv tc" "submit tc (tc_store tc) cv pv p = (Inr (Some f), tc')"
  shows "(\<forall>i \<in> fst ` set resources. \<exists>q. packet_for resources cv pv chain (sb_height (fin_block f))
      (fc_round (fin_certificate f)) (sb_block_hash (fin_block f)) i q) \<and>
    fc_validator_ids (fin_certificate f) = sort (map fst resources) \<and> fc_signed_power (fin_certificate f) = 3 \<and>
    sb_height (fin_block f) = head_height (tc_store tc) + 1 \<and> store_head (tc_store tc') = Inr (fin_block f) \<and>
    tc_certificate tc' = Some (fin_certificate f) \<and> vr_proposal (tc_runtime tc') = None"
  using assms by (rule unanimous_block)

section \<open>The three votes are enough\<close>

definition submit_all :: "consensus_check \<Rightarrow> peer_check \<Rightarrow> testnet_consensus \<Rightarrow> authenticated_vote list \<Rightarrow> testnet_consensus" where
  "submit_all cv pv tc qs = foldl (\<lambda>tc q. snd (submit tc (tc_store tc) cv pv q)) tc qs"

lemma submit_all_simps [simp]:
  "submit_all cv pv tc [] = tc"
  "submit_all cv pv tc (q # qs) = submit_all cv pv (snd (submit tc (tc_store tc) cv pv q)) qs"
  by (simp_all add: submit_all_def)

lemma submit_all_resources: "tc_resources (submit_all cv pv tc qs) = tc_resources tc"
proof (induction qs arbitrary: tc)
  case (Cons q qs)
  obtain y tc' where "submit tc (tc_store tc) cv pv q = (y, tc')"
    by (cases "submit tc (tc_store tc) cv pv q")
  then show ?case
    using Cons by (auto elim: submit_cases)
qed simp

lemma submit_all_deliver:
  assumes "\<forall>q \<in> set qs. peer_authentic pv q = Some True \<and> dict_get (tc_resources tc) (av_validator_id q) \<noteq> None"
  shows "tc_runtime (submit_all cv pv tc qs) = deliver (verify_consensus (tc_resources tc) cv) (tc_runtime tc) (map vote_of qs)"
  using assms
proof (induction qs arbitrary: tc)
  case (Cons q qs)
  obtain y tc' where step: "submit tc (tc_store tc) cv pv q = (y, tc')"
    by (cases "submit tc (tc_store tc) cv pv q")
  then have "tc_runtime tc' = snd (runtime_accept_vote (tc_runtime tc) (tc_store tc) (verify_consensus (tc_resources tc) cv) (vote_of q)) \<and>
      tc_resources tc' = tc_resources tc"
    using Cons.prems by (auto simp: submit_def simp del: map_of_eq_Some_iff split: sum.splits prod.splits)
  then show ?case
    using Cons step by simp
qed simp

text \<open>A packet for the pending proposal whose two signatures verify.\<close>

definition good_packet ::
  "(string, string) dict \<Rightarrow> consensus_check \<Rightarrow> peer_check \<Rightarrow> int \<Rightarrow> executed_proposal \<Rightarrow> int \<Rightarrow> authenticated_vote \<Rightarrow> bool" where
  "good_packet resources cv pv chain p r q \<longleftrightarrow>
     packet_for resources cv pv chain (ep_height p) r (ep_block_hash p) (av_validator_id q) q \<and>
     is_hash32 (av_block_hash q) \<and> av_signature q \<noteq> [] \<and> length (av_signature q) \<le> 4096"

text \<open>Good packets are good votes for the runtime under the consensus.\<close>

lemma packets_vote:
  assumes "tc_reachable chain resources cv pv tc" "consensus_propose tc r ts = Some (Inr p, tc1)"
    and "\<forall>q \<in> set qs. good_packet resources cv pv chain p r q" "distinct (map av_validator_id qs)"
  obtains s0 rt1 where "live_reachable (default_config chain) default_mempool_policy signed_tx (verify_consensus resources cv) (tc_runtime tc)"
    "protocol_config_post_init (default_config chain) = Inr ()" "runtime_propose (tc_runtime tc) signed_tx r ts = Some (Inr p, rt1)"
    "vr_active rt1 = Some s0" "\<forall>w \<in> set (map vote_of qs). good_vote (verify_consensus resources cv) (cfg_chain_id (default_config chain)) s0 p r w"
    "distinct (map fv_validator_id (map vote_of qs))" "vs_total_power s0 = 3"
    "sum (power_of (set_pairs s0)) (fv_validator_id ` set (map vote_of qs)) = int (length qs)" "length resources = 3"
    "tc_runtime (submit_all cv pv tc1 qs) = deliver (verify_consensus resources cv) rt1 (map vote_of qs)"
    "execute_candidate (vr_pipeline (tc_runtime tc)) signed_tx ts = Some (Inr p)" "card (fst ` set resources) = 3"
proof -
  let ?c = "default_config chain" and ?sv = "verify_consensus resources cv" and ?rt = "tc_runtime tc"
  have ok: "tc_ok chain resources cv pv tc"
    using assms(1) by (rule tc_reachable_ok)
  then obtain s0 where s0: "unit_set (sort (map fst resources)) = Inr s0" "vr_schedule ?rt = [s0]" "length resources = 3"
      "tc_resources tc = resources"
    and live: "live_reachable ?c default_mempool_policy signed_tx ?sv ?rt" and c: "protocol_config_post_init ?c = Inr ()"
    unfolding tc_ok_def by blast
  obtain rt1 where propose: "runtime_propose ?rt signed_tx r ts = Some (Inr p, rt1)" "tc1 = tc\<lparr>tc_accepted := {}, tc_runtime := rt1\<rparr>"
    using assms(2) by (auto simp: consensus_propose_def)
  then have active: "vr_active rt1 = Some s0" and exec: "execute_candidate (vr_pipeline ?rt) signed_tx ts = Some (Inr p)"
    by (cases rule: runtime_propose_cases; use unit_schedule [OF s0(1)] s0(2) in auto)+
  have set: "set_ok s0" "vs_validators s0 = map (\<lambda>i. \<lparr>validator_id = i, voting_power = 1\<rparr>) (sort (map fst resources))"
    using unit_set_Inr [OF s0(1)] by simp_all
  have member: "av_validator_id q \<in> fst ` set resources" if "q \<in> set qs" for q
  proof -
    have "dict_get resources (av_validator_id q) \<noteq> None"
      using assms(3) that by (auto simp: good_packet_def packet_for_def simp del: map_of_eq_Some_iff)
    then show ?thesis
      by (simp add: map_of_eq_None_iff)
  qed
  have good: "\<forall>w \<in> set (map vote_of qs). good_vote ?sv (cfg_chain_id ?c) s0 p r w"
  proof
    fix w assume "w \<in> set (map vote_of qs)"
    then obtain q where q: "q \<in> set qs" "w = vote_of q"
      by auto
    then have good: "good_packet resources cv pv chain p r q" and member: "av_validator_id q \<in> fst ` set resources"
      using assms(3) member by auto
    have "fv_validator_id w \<in> validator_id ` set (vs_validators s0)"
      using member by (simp add: q(2) vote_of_def set(2) image_image)
    moreover have "verify_consensus resources cv (fv_validator_id w) (vote_signing_payload w) (fv_signature w) = Some True"
      using good by (auto simp: good_packet_def packet_for_def q(2) verify_consensus_def vote_of_def simp del: map_of_eq_Some_iff)
    ultimately show "good_vote ?sv (cfg_chain_id ?c) s0 p r w"
      using good by (simp add: good_packet_def packet_for_def good_vote_def q(2) default_config_def vote_of_def)
  qed
  have ids: "map fv_validator_id (map vote_of qs) = map av_validator_id qs"
    by (simp add: vote_of_def)
  have "power_of (set_pairs s0) i = 1" if "i \<in> av_validator_id ` set qs" for i
    using unit_power [OF s0(1)] that member by auto
  then have sum: "sum (power_of (set_pairs s0)) (fv_validator_id ` set (map vote_of qs)) = int (length qs)"
    using distinct_card [OF assms(4)] by (simp add: vote_of_def image_image)
  have card: "card (fst ` set resources) = 3"
    using unit_distinct [OF s0(1)] s0(3) by (metis distinct_card length_map length_sort list.set_map set_sort)
  have total: "vs_total_power s0 = 3"
    using s0(3) by (simp add: vs_total_power_def set(2) comp_def sum_list_triv)
  have run: "tc_runtime (submit_all cv pv tc1 qs) = deliver ?sv rt1 (map vote_of qs)"
    using submit_all_deliver [of qs pv tc1 cv] assms(3) s0(4) propose(2)
    by (auto simp: good_packet_def packet_for_def simp del: map_of_eq_Some_iff)
  have distinct: "distinct (map fv_validator_id (map vote_of qs))"
    using assms(4) ids by (simp only:)
  show thesis
    by (rule that [OF live c propose(1) active good distinct total sum s0(3) run exec card])
qed

lemma packets_decide:
  assumes "tc_reachable chain resources cv pv tc" "consensus_propose tc r ts = Some (Inr p, tc1)"
    and "\<forall>q \<in> set qs. good_packet resources cv pv chain p r q" "distinct (map av_validator_id qs)"
      "av_validator_id ` set qs = fst ` set resources"
    and "\<forall>item \<in> set (blocks (tc_store tc)). br_block_hash (snd item) \<noteq> ep_block_hash p"
    and "sqlite_int (ep_height p)" "sqlite_int (base_fee_per_gas (ep_transition p))" "sqlite_int (gas_used (ep_transition p))"
      "\<forall>t. ts = Some t \<longrightarrow> sqlite_int t"
  shows "\<exists>b. store_head (tc_store (submit_all cv pv tc1 qs)) = Inr b \<and> sb_height b = ep_height p \<and>
    sb_block_hash b = ep_block_hash p \<and> vr_proposal (tc_runtime (submit_all cv pv tc1 qs)) = None"
  using assms(1-4)
proof (rule packets_vote)
  fix s0 rt1
  let ?c = "default_config chain" and ?sv = "verify_consensus resources cv" and ?rt = "tc_runtime tc"
  assume live: "live_reachable ?c default_mempool_policy signed_tx ?sv ?rt" and c: "protocol_config_post_init ?c = Inr ()"
    and propose: "runtime_propose ?rt signed_tx r ts = Some (Inr p, rt1)" and active: "vr_active rt1 = Some s0"
    and good: "\<forall>w \<in> set (map vote_of qs). good_vote ?sv (cfg_chain_id ?c) s0 p r w" and ids: "distinct (map fv_validator_id (map vote_of qs))"
    and total: "vs_total_power s0 = 3"
    and sum: "sum (power_of (set_pairs s0)) (fv_validator_id ` set (map vote_of qs)) = int (length qs)"
    and run: "tc_runtime (submit_all cv pv tc1 qs) = deliver ?sv rt1 (map vote_of qs)"
    and exec: "execute_candidate (vr_pipeline ?rt) signed_tx ts = Some (Inr p)" and card: "card (fst ` set resources) = 3"
  have "length qs = 3"
    using distinct_card [OF assms(4)] assms(5) card by simp
  then obtain cert b n' where stored: "commit_finalized (vr_pipeline ?rt) (tc_store tc) p cert = Inr (b, n')"
      "vr_pipeline (deliver ?sv rt1 (map vote_of qs)) = n'" "vr_proposal (deliver ?sv rt1 (map vote_of qs)) = None"
    using propose_decides [OF live c default_policy_ok propose active good ids _ assms(6-10)] sum total by auto
  then show ?thesis
    using run commit_details [OF stored(1) exec live_parts(3) [OF live_reachable_ok [OF live c] c default_policy_ok]] by auto
qed

lemma packets_wait:
  assumes "tc_reachable chain resources cv pv tc" "consensus_propose tc r ts = Some (Inr p, tc1)"
    and "\<forall>q \<in> set qs. good_packet resources cv pv chain p r q" "distinct (map av_validator_id qs)" "length qs < 3"
  shows "vr_proposal (tc_runtime (submit_all cv pv tc1 qs)) = Some p"
    "qs = earlier @ [q] \<Longrightarrow> fst (submit (submit_all cv pv tc1 earlier) (tc_store (submit_all cv pv tc1 earlier)) cv pv q) = Inr None"
proof -
  let ?c = "default_config chain" and ?sv = "verify_consensus resources cv" and ?rt = "tc_runtime tc"
  obtain s0 rt1 where votes: "live_reachable ?c default_mempool_policy signed_tx ?sv ?rt" "protocol_config_post_init ?c = Inr ()"
      "runtime_propose ?rt signed_tx r ts = Some (Inr p, rt1)" "vr_active rt1 = Some s0"
      "\<forall>w \<in> set (map vote_of qs). good_vote ?sv (cfg_chain_id ?c) s0 p r w" "distinct (map fv_validator_id (map vote_of qs))"
    and power: "vs_total_power s0 = 3" "sum (power_of (set_pairs s0)) (fv_validator_id ` set (map vote_of qs)) = int (length qs)"
    and run: "tc_runtime (submit_all cv pv tc1 qs) = deliver ?sv rt1 (map vote_of qs)"
    by (rule packets_vote [OF assms(1-4)]) blast
  have few: "3 * sum (power_of (set_pairs s0)) (fv_validator_id ` set (map vote_of qs)) \<le> 2 * vs_total_power s0"
    using assms(5) power by simp
  note waits = propose_waits [OF votes(1,2) default_policy_ok votes(3-6) few]
  show "vr_proposal (tc_runtime (submit_all cv pv tc1 qs)) = Some p"
    unfolding run by (rule waits(1))
  assume qs: "qs = earlier @ [q]"
  have resources: "tc_resources tc1 = resources"
    using assms(1,2) tc_reachable_ok by (auto simp: consensus_propose_def tc_ok_def)
  have known: "\<forall>q \<in> set qs. peer_authentic pv q = Some True \<and> dict_get resources (av_validator_id q) \<noteq> None"
    using assms(3) by (auto simp: good_packet_def packet_for_def simp del: map_of_eq_Some_iff)
  have "tc_runtime tc1 = rt1"
    using assms(2) votes(3) by (auto simp: consensus_propose_def)
  then have "tc_runtime (submit_all cv pv tc1 earlier) = deliver ?sv rt1 (map vote_of earlier)"
    using submit_all_deliver [of earlier pv tc1 cv] known qs resources by simp
  moreover have "tc_resources (submit_all cv pv tc1 earlier) = resources"
    using submit_all_resources resources by simp
  moreover have "fst (runtime_accept_vote (deliver ?sv rt1 (map vote_of earlier)) (np_store (vr_pipeline (deliver ?sv rt1 (map vote_of earlier))))
      ?sv (vote_of q)) = Inr None"
    by (rule waits(2)) (simp add: qs)
  moreover have "peer_authentic pv q = Some True" "dict_get resources (av_validator_id q) \<noteq> None"
    using known qs by simp_all
  ultimately show "fst (submit (submit_all cv pv tc1 earlier) (tc_store (submit_all cv pv tc1 earlier)) cv pv q) = Inr None"
    by (auto simp: submit_def simp del: map_of_eq_Some_iff split: prod.splits sum.splits)
qed

text \<open>
  C6. On the testnet a proposal reaches its block: once one is made, good packets of the three validators, in any
  order, make it the head of the store and free the coordinator. The numbers have to fit the columns of the
  database and the hash of the block has to be new.
\<close>

theorem three_packets_finalize:
  assumes "tc_reachable chain resources cv pv tc" "consensus_propose tc r ts = Some (Inr p, tc1)"
    and "\<forall>q \<in> set qs. good_packet resources cv pv chain p r q" "distinct (map av_validator_id qs)"
      "av_validator_id ` set qs = fst ` set resources"
    and "\<forall>item \<in> set (blocks (tc_store tc)). br_block_hash (snd item) \<noteq> ep_block_hash p"
    and "sqlite_int (ep_height p)" "sqlite_int (base_fee_per_gas (ep_transition p))" "sqlite_int (gas_used (ep_transition p))"
      "\<forall>t. ts = Some t \<longrightarrow> sqlite_int t"
  shows "\<exists>b. store_head (tc_store (submit_all cv pv tc1 qs)) = Inr b \<and> sb_height b = ep_height p \<and>
    sb_block_hash b = ep_block_hash p \<and> vr_proposal (tc_runtime (submit_all cv pv tc1 qs)) = None"
  using assms by (rule packets_decide)

section \<open>Imports\<close>

lemma foldE_each: "foldE f s xs = Inr t \<Longrightarrow> x \<in> set xs \<Longrightarrow> \<exists>s1 s2. f s1 x = Inr s2"
  by (induction xs arbitrary: s) (auto simp: bindE_Inr_iff)

lemma authenticated_packets:
  assumes "authenticate_certificate chain resources cv pv p c packets = Inr ()" "lower (ep_block_hash p) = ep_block_hash p"
    and "i \<in> fst ` set resources"
  shows "\<exists>q \<in> set packets. packet_for resources cv pv chain (ep_height p) (fc_round c) (ep_block_hash p) i q"
proof -
  obtain m0 st where run: "foldE (sync_vote resources cv pv c) (m0, None) (sort_key av_validator_id packets) = Inr st"
      and c: "fc_chain_id c = chain" "fc_height c = ep_height p" "fc_block_hash c = ep_block_hash p"
      and ids: "sort (map av_validator_id packets) = sort (map fst resources)"
    using assms(1) by (auto simp: authenticate_certificate_def Let_def if_Inl_Inr_iff bindE_Inr_iff)
  have "set (sort (map av_validator_id packets)) = set (sort (map fst resources))"
    by (simp only: ids)
  then have "i \<in> av_validator_id ` set packets"
    using assms(3) by simp
  then obtain q where q: "q \<in> set packets" "av_validator_id q = i"
    by auto
  obtain m r m' r' where "sync_vote resources cv pv c (m, r) q = Inr (m', r')"
    using foldE_each [OF run, of q] q(1) by auto
  moreover from this have "av_chain_id q = fc_chain_id c" "av_round q = fc_round c" "av_block_hash q = fc_block_hash c"
    by (simp_all add: sync_vote_def split: if_splits)
  ultimately show ?thesis
    using q sync_vote_Inr c assms(2) by (intro bexI [of _ q]) (auto simp: packet_for_def simp del: map_of_eq_Some_iff)
qed

lemma sync_import_Inr:
  assumes "sync_import sy n cv pv peer p c packets = (Inr (), sy', n')"
  obtains sy1 b s where "authenticate_certificate (sy_chain sy) (sy_resources sy) cv pv p c packets = Inr ()"
    "resume_import sy peer p = Inr sy1" "import_finalized (sync_importer sy1 n) (\<lambda>_. None) peer p c = (Inr b, s)"
    "n' = im_pipeline s" "sy' = sy1\<lparr>sy_registry := im_registry s, sy_file := im_file s, sy_action := Clean\<rparr>"
proof -
  obtain sy1 where sy1: "authenticate_certificate (sy_chain sy) (sy_resources sy) cv pv p c packets = Inr ()" "resume_import sy peer p = Inr sy1"
    using assms by (auto simp: sync_import_def bindE_Inr_iff split: sum.splits)
  obtain r s where "import_finalized (sync_importer sy1 n) (\<lambda>_. None) peer p c = (r, s)"
    by (cases "import_finalized (sync_importer sy1 n) (\<lambda>_. None) peer p c")
  then show thesis
    using assms sy1 that by (cases r) (auto simp: sync_import_def Let_def)
qed

text \<open>
  C16. An import trusts nobody but the validators: if it succeeds, every configured validator has signed this
  chain, height, round and block twice, as a vote and for the transport, the block is the new head of the
  store, and no recovery record is left. What the peers advertised only selected the source.
\<close>

theorem authenticated_import:
  assumes "sync_import sy n cv pv peer p c packets = (Inr (), sy', n')" "execute_candidate n0 v ts = Some (Inr p)"
    and "store_ok (np_chain n0) (np_store n0)"
  shows "(\<forall>i \<in> fst ` set (sy_resources sy). \<exists>q \<in> set packets.
      packet_for (sy_resources sy) cv pv (sy_chain sy) (ep_height p) (fc_round c) (ep_block_hash p) i q) \<and>
    (\<exists>b. store_head (np_store n') = Inr b \<and> sb_height b = ep_height p \<and> sb_block_hash b = ep_block_hash p \<and>
      sb_certificate_hash b = Some (certificate_hash c)) \<and>
    ep_height p = head_height (np_store n) + 1 \<and> sy_file sy' = None \<and> sy_action sy' = Clean"
proof -
  obtain sy1 b s where parts: "authenticate_certificate (sy_chain sy) (sy_resources sy) cv pv p c packets = Inr ()"
    "import_finalized (sync_importer sy1 n) (\<lambda>_. None) peer p c = (Inr b, s)"
    "n' = im_pipeline s" "sy' = sy1\<lparr>sy_registry := im_registry s, sy_file := im_file s, sy_action := Clean\<rparr>"
    by (rule sync_import_Inr [OF assms(1)])
  from parts(2) obtain b' where commit: "commit_finalized n (np_store n) p c = Inr (b', n')" "im_file s = None"
    by (cases rule: import_situation) (auto simp: sync_importer_def parts(3))
  note details = commit_details [OF commit(1) assms(2,3)]
  have "lower (ep_block_hash p) = ep_block_hash p"
    using proposal_fields(3) [OF assms(2,3)] by (simp add: lower_hash_def)
  then show ?thesis
    using authenticated_packets [OF parts(1)] details(1-3,6,7) commit(2) parts(4) by auto
qed


section \<open>Good packets authenticate\<close>

lemma validate_vote_stored [simp]: "validate_vote (stored m w') w v = validate_vote m w v"
  by (simp add: validate_vote_def stored_def latest_finalized_height_def)

lemma three_votes:
  assumes "fsm_reachable v m0" "fsm_votes m0 = []" "finalized m0 = []" "fsm_total_power m0 = 3"
    and "\<forall>w \<in> {w1, w2, w3}. validate_vote m0 w v = Inr () \<and> fv_height w = h \<and> fv_round w = r \<and> lower (fv_block_hash w) = b \<and>
      power_of (fsm_validators m0) (fv_validator_id w) = 1"
    and "distinct [fv_validator_id w1, fv_validator_id w2, fv_validator_id w3]"
  obtains m1 m2 m3 c where "add_vote m0 w1 v = (Inr None, m1)" "add_vote m1 w2 v = (Inr None, m2)" "add_vote m2 w3 v = (Inr (Some c), m3)"
    "fc_height c = h" "fc_round c = r" "fc_block_hash c = b"
proof -
  note w = assms(5) [rule_format, simplified]
  let ?m1 = "stored m0 w1" and ?m2 = "stored (stored m0 w1) w2"
  have fields: "fsm_total_power ?m1 = 3" "fsm_total_power ?m2 = 3"
    using assms(4) by (simp_all add: stored_def)
  have valid: "validate_vote m0 w1 v = Inr ()" "validate_vote ?m1 w2 v = Inr ()" "validate_vote ?m2 w3 v = Inr ()"
    using assms(5) by simp_all
  have fresh: "fresh_vote m0 w1" "fresh_vote ?m1 w2" "fresh_vote ?m2 w3"
    using assms(2,3,6) by (auto simp: fresh_vote_def stored_def identity_of_def map_add_def)
  have support: "support m0 w1 = 1" "support ?m1 w2 = 2" "support ?m2 w3 = 3"
    using assms(2,5) by (simp_all add: support_def supporters_def matching_votes_def stored_def)
  have v1: "add_vote m0 w1 v = (Inr None, ?m1)"
    using add_vote_fresh [OF fsm_reachable_ok [OF assms(1)] valid(1) fresh(1)] support(1) assms(4) by simp
  have r1: "fsm_reachable v ?m1"
    using assms(1) v1 by (rule fsm_reachable.voted)
  have v2: "add_vote ?m1 w2 v = (Inr None, ?m2)"
    using add_vote_fresh [OF fsm_reachable_ok [OF r1] valid(2) fresh(2)] support(2) fields(1) by simp
  have r2: "fsm_reachable v ?m2"
    using r1 v2 by (rule fsm_reachable.voted)
  have v3: "add_vote ?m2 w3 v = (Inr (Some (new_certificate ?m2 w3)),
      (stored ?m2 w3)\<lparr>finalized := finalized ?m2 @ [(fv_height w3, new_certificate ?m2 w3)]\<rparr>)"
    using add_vote_fresh [OF fsm_reachable_ok [OF r2] valid(3) fresh(3)] support(3) fields(2) by simp
  show thesis
    by (rule that [OF v1 v2 v3]) (use assms(5) in \<open>simp_all add: new_certificate_def certificate_of_def\<close>)
qed

text \<open>The packets of the three validators for one block authenticate their certificate.\<close>

lemma sync_vote_good:
  assumes "good_packet resources cv pv chain p r q" "av_block_hash q = fc_block_hash c" "fc_chain_id c = chain" "fc_height c = ep_height p"
    "fc_round c = r" "add_vote m (vote_of q) (attested resources cv pv) = (Inr x, m')"
  shows "sync_vote resources cv pv c (m, y) q = Inr (m', x)"
proof -
  obtain resource where resource: "dict_get resources (av_validator_id q) = Some resource" "peer_authentic pv q = Some True"
      "cv (av_validator_id q) resource (vote_signing_payload (vote_of q)) (fv_signature (vote_of q)) = Some True"
    and same: "av_chain_id q = chain" "av_height q = ep_height p" "av_round q = r"
    using assms(1) by (auto simp: good_packet_def packet_for_def vote_of_def simp del: map_of_eq_Some_iff)
  have "attested resources cv pv (vote_of q) = Some True"
    using resource by (auto simp: attested_def vote_check_def verify_consensus_def vote_of_def)
  then have "add_vote m (vote_of q) (\<lambda>_. Some True) = (Inr x, m')"
    using assms(6) add_vote_same [of "attested resources cv pv" "vote_of q" "\<lambda>_. Some True" m] by simp
  then show ?thesis
    using resource same assms(2-5) by (simp add: sync_vote_def Let_def del: map_of_eq_Some_iff)
qed

lemma packets_authenticate:
  assumes "unit_set ids = Inr s" "ids = sort (map fst resources)" "length resources = 3" "0 < chain" "0 \<le> ep_height p" "0 \<le> r"
    and "lower (ep_block_hash p) = ep_block_hash p"
    and "\<forall>i \<in> set ids. good_packet resources cv pv chain p r (packet i) \<and> av_block_hash (packet i) = ep_block_hash p \<and>
      av_validator_id (packet i) = i"
  obtains c where "authenticate_certificate chain resources cv pv p c (map packet ids) = Inr ()" "quorum_certificate chain (ep_height p) (ep_block_hash p) c"
proof -
  let ?a = "attested resources cv pv"
  have len: "length ids = 3"
    using assms(2,3) by simp
  then obtain i1 i2 i3 where ids: "ids = [i1, i2, i3]"
    by (auto simp: numeral_eq_Suc length_Suc_conv)
  have set: "set_ok s" "vs_validators s = map (\<lambda>i. \<lparr>validator_id = i, voting_power = 1\<rparr>) ids"
    using unit_set_Inr [OF assms(1)] by simp_all
  obtain m0 where m0: "finality_init chain (vs_validators s) (ep_height p - 1) = Inr m0" "machine_of ?a chain s m0"
      "checkpoint_height m0 = ep_height p - 1" "fsm_votes m0 = []" "finalized m0 = []"
    by (rule started_machine [OF set(1) assms(4), of "ep_height p - 1" ?a]) (use assms(5) in simp_all)
  have total: "fsm_total_power m0 = 3" "fsm_validators m0 = set_pairs s" "fsm_chain_id m0 = chain" "fsm_reachable ?a m0"
    using m0(2) len by (simp_all add: machine_of_def vs_total_power_def set(2) comp_def sum_list_triv)
  let ?w = "\<lambda>i. vote_of (packet i)"
  have good: "validate_vote m0 (?w i) ?a = Inr () \<and> fv_height (?w i) = ep_height p \<and> fv_round (?w i) = r \<and>
      lower (fv_block_hash (?w i)) = ep_block_hash p \<and> power_of (fsm_validators m0) (fv_validator_id (?w i)) = 1 \<and> fv_validator_id (?w i) = i"
    if i: "i \<in> set ids" for i
  proof -
    have q: "good_packet resources cv pv chain p r (packet i)" "av_block_hash (packet i) = ep_block_hash p" "av_validator_id (packet i) = i"
      using assms(8) i by auto
    then have w: "fv_chain_id (?w i) = chain" "fv_height (?w i) = ep_height p" "fv_round (?w i) = r" "fv_block_hash (?w i) = ep_block_hash p"
        "fv_validator_id (?w i) = i" "is_hash32 (ep_block_hash p)" "fv_signature (?w i) \<noteq> []" "length (fv_signature (?w i)) \<le> 4096"
      by (simp_all add: good_packet_def packet_for_def vote_of_def)
    have "?a (?w i) = Some True"
      using q(1) by (auto simp: good_packet_def packet_for_def attested_def vote_check_def verify_consensus_def vote_of_def
          simp del: map_of_eq_Some_iff)
    moreover have "i \<in> fst ` set (set_pairs s)"
      using i by (force simp: set_pairs_def set(2))
    ultimately have "validate_vote m0 (?w i) ?a = Inr ()"
      using w assms(5-7) total(2,3) m0(3,5) by (simp add: validate_vote_Inr vote_ok_def vote_for_def latest_finalized_height_def)
    then show ?thesis
      using w unit_power [OF assms(1) i] assms(7) total(2) by simp
  qed
  have all: "\<forall>w \<in> {?w i1, ?w i2, ?w i3}. validate_vote m0 w ?a = Inr () \<and> fv_height w = ep_height p \<and> fv_round w = r \<and>
      lower (fv_block_hash w) = ep_block_hash p \<and> power_of (fsm_validators m0) (fv_validator_id w) = 1"
    "distinct [fv_validator_id (?w i1), fv_validator_id (?w i2), fv_validator_id (?w i3)]"
    using good [of i1] good [of i2] good [of i3] unit_distinct(1) [OF assms(1)] unfolding ids by (simp_all del: One_nat_def) metis+
  obtain m1 m2 m3 c where run: "add_vote m0 (?w i1) ?a = (Inr None, m1)" "add_vote m1 (?w i2) ?a = (Inr None, m2)"
      "add_vote m2 (?w i3) ?a = (Inr (Some c), m3)" and c: "fc_height c = ep_height p" "fc_round c = r" "fc_block_hash c = ep_block_hash p"
    by (rule three_votes [OF total(4) m0(4,5) total(1) all])
  have m2: "machine_of ?a chain s m2"
    using machine_votes(1) run(1,2) m0(2) by blast
  note m3 = machine_votes [OF m2 run(3)]
  have backed: "backed ?a chain (set_pairs s) (vs_total_power s) c"
    using finalized_backed [OF fsm_reachable_ok, of ?a m3 "fv_height (?w i3)" c] m3 by (auto simp: machine_of_def get_certificate_Inr)
  have chain: "fc_chain_id c = chain" and named: "fc_validator_ids c = ids"
    using backed_ids(7) [OF backed] all_of_three(1) [OF assms(1) len backed] .
  have step: "sync_vote resources cv pv c (m, y) (packet i) = Inr (m', x)"
    if "i \<in> set ids" "add_vote m (?w i) ?a = (Inr x, m')" for m y i x m'
    using assms(8) that c chain by (intro sync_vote_good) auto
  have "sort_key av_validator_id (map packet ids) = map packet ids"
    using assms(8) unit_distinct(2) [OF assms(1)] by (intro sort_key_id_if_sorted) (simp add: map_idI comp_def)
  then have "foldE (sync_vote resources cv pv c) (m0, None) (sort_key av_validator_id (map packet ids)) = Inr (m3, Some c)"
    using step [of i1, OF _ run(1)] step [of i2, OF _ run(2)] step [of i3, OF _ run(3)] by (simp add: ids)
  moreover have "unit_validators ids = Inr (vs_validators s)"
    using assms(1) by (auto simp: unit_set_def bindE_Inr_iff Let_def)
  moreover have "sort (map av_validator_id (map packet ids)) = ids"
    using assms(8) unit_distinct(2) [OF assms(1)] by (simp add: comp_def map_idI sort_key_id_if_sorted)
  ultimately have "authenticate_certificate chain resources cv pv p c (map packet ids) = Inr ()"
    using m0(1) c chain named len by (simp add: authenticate_certificate_def Let_def flip: assms(2))
  moreover have "get_certificate m3 (ep_height p) = Inr c"
    using m3(2) [of c] good [of i3] by (simp add: ids)
  then have "quorum_certificate chain (ep_height p) (ep_block_hash p) c"
    using machine_certificate [of ?a m3] m3(1) c(3) by (metis machine_of_def)
  ultimately show thesis
    by (rule that)
qed

section \<open>A sample testnet\<close>

definition test_ids :: "string list" where "test_ids = [''a'', ''b'', ''c'']"

definition test_resources :: "(string, string) dict" where
  "test_resources = map (\<lambda>i. (i, ''arn:aws:kms:1:key/'' @ i)) test_ids"

definition test_bindings :: "(string, signer_binding) dict" where
  "test_bindings = map (\<lambda>i. (i, \<lparr>bound_validator = i, key_resource = ''kms://arn:aws:kms:1:key/'' @ i\<rparr>)) test_ids"

definition test_set :: validator_set where
  "test_set = \<lparr>epoch = 0, activation_height = 0, vs_validators = map (\<lambda>i. \<lparr>validator_id = i, voting_power = 1\<rparr>) test_ids\<rparr>"

definition test_node :: node_pipeline where
  "test_node = \<lparr>np_config = default_config 7, np_pool = mk_pool (default_config 7) None, np_chain = 7, np_store = funded_store 2 0\<rparr>"

definition test_runtime :: validator_runtime where
  "test_runtime = \<lparr>vr_pipeline = test_node, vr_schedule = [test_set], vr_journal = sample_journal, vr_bindings = test_bindings,
     vr_proposal = None, vr_machine = None, vr_active = None, vr_round = 0\<rparr>"

definition test_consensus :: testnet_consensus where
  "test_consensus = \<lparr>tc_resources = test_resources, tc_runtime = test_runtime, tc_accepted = {}, tc_certificate = None\<rparr>"

definition all_consensus :: consensus_check where "all_consensus _ _ _ _ = Some True"
definition all_peers :: peer_check where "all_peers _ _ _ = Some True"

definition test_packet :: "executed_proposal \<Rightarrow> int \<Rightarrow> string \<Rightarrow> authenticated_vote" where
  "test_packet p r i = \<lparr>av_chain_id = 7, av_height = ep_height p, av_round = r, av_block_hash = ep_block_hash p, av_validator_id = i,
     av_signature = ''s'', av_peer_signature = ''p'', av_timestamp = Some 60\<rparr>"

lemma test_ids_sorted: "sort (map fst test_resources) = test_ids"
  by code_simp

lemma test_unit: "unit_set test_ids = Inr test_set"
  by (simp add: unit_set_def unit_validators_def test_set_def test_ids_def validator_post_init_def validator_set_post_init_def
      encode_def encode_char_def less_eq_char_def less_char_def Let_def)

lemma test_bound: "mapE (node_binding test_resources) test_ids = Inr test_bindings"
  by (simp add: node_binding_def test_resources_def test_ids_def test_bindings_def mk_binding_def)

lemma test_bindings_valid: "validate_bindings test_set test_bindings = Inr test_bindings"
  by (auto simp: validate_bindings_def test_set_def test_bindings_def test_ids_def check_signer_binding_def)

lemma test_config: "protocol_config_post_init (default_config 7) = Inr ()" "cfg_chain_id (default_config 7) = 7"
  by (simp_all add: protocol_config_post_init_def default_config_def)

lemma test_at_height: "0 \<le> h \<Longrightarrow> at_height [test_set] h = Inr test_set"
  by (simp add: at_height_def)

lemma test_journal: "sj_chain_id sample_journal = 7"
  by code_simp

lemma test_started: "testnet_init 7 (funded_store 2 0) True empty_journal_db test_resources = (Inr test_consensus, sj_db sample_journal)"
proof -
  have init: "validator_runtime_init test_node [test_set] test_bindings sample_journal = Inr test_runtime"
    by (simp add: validator_runtime_init_def test_at_height test_node_def test_config test_journal test_bindings_valid)
      (simp add: test_runtime_def test_node_def)
  have node: "node_pipeline_init (default_config 7) (mk_pool (default_config 7) None) 7 (funded_store 2 0) = Inr test_node"
    by (simp add: node_pipeline_init_def test_config test_node_def)
  have last: "latest_finality_certificate 7 (funded_store 2 0) = Inr None"
    by (simp add: latest_finality_certificate_def funded_store_def top_row_def rows_by_height_def)
  have sched: "schedule_init test_set = Inr [test_set]" "length test_ids = 3"
    by (simp_all add: schedule_init_Inr test_set_def test_ids_def)
  show ?thesis
    by (simp add: testnet_init_def test_ids_sorted test_bound test_unit sched test_config default_policy_ok node sample_journal_opened
        init last test_consensus_def)
qed

lemma test_reachable: "tc_reachable 7 test_resources cv pv test_consensus"
  by (rule tc_reachable.started [OF funded_store_reachable _ _ test_started]) (simp_all add: empty_journal_db_def)

lemma test_candidate:
  obtains k where "build_candidate (mk_pool (default_config 7) None) funded_accounts 2 None = Some (Inr k)" "cand_transactions k = []"
  by (simp add: build_candidate_def mk_pool_def default_config_def while_option_unfold executable_heads_def List.map_filter_def Let_def)

lemma test_head:
  "store_head (funded_store 2 0) = Inr (mk_stored_block (0, funded_row 2 0))" "accounts_at (funded_store 2 0) None = Inr funded_accounts"
  "head_height (funded_store 2 0) = 0" "np_config test_node = default_config 7" "np_pool test_node = mk_pool (default_config 7) None"
  "np_chain test_node = 7" "np_store test_node = funded_store 2 0"
  using sample_node_head [of 2 0] by (simp_all add: sample_node_def test_node_def) (simp add: head_height_def funded_store_def)

lemma test_executes:
  assumes "0 < t"
  obtains p where "execute_candidate test_node signed_tx (Some t) = Some (Inr p)" "ep_height p = 1" "base_fee_per_gas (ep_transition p) = 2"
    "gas_used (ep_transition p) = 0" "\<exists>m. ep_block_hash p = digest0x m" "ep_timestamp p = Some t"
proof -
  have ok: "accounts_ok funded_accounts"
    using funded_snapshot by (simp add: snapshot_ok_def)
  obtain bt where bt: "execute_block (default_config 7) 2 0 funded_accounts [] signed_tx = Inr bt" "base_fee_per_gas bt = 2" "gas_used bt = 0"
    by (simp add: execute_block_def normalize_accounts_id [OF ok] next_base_fee_def) (simp add: default_config_def Let_def)
  obtain k where k: "build_candidate (mk_pool (default_config 7) None) funded_accounts 2 None = Some (Inr k)" "cand_transactions k = []"
    by (rule test_candidate)
  show thesis
    by (rule that [of "\<lparr>ep_height = 1, ep_parent_hash = underscore_hash, ep_block_hash = digest0x (header_text
        (candidate_digest k) 7 1 underscore_hash (state_root bt) (Some t)), ep_timestamp = Some t, ep_candidate = k, ep_transition = bt\<rparr>"])
       (use assms bt k in \<open>auto simp: execute_candidate_def test_head test_config(2)\<close>)
qed

lemma test_proposes:
  assumes "0 < t" "0 \<le> r"
  obtains p tc where "consensus_propose test_consensus r (Some t) = Some (Inr p, tc)" "execute_candidate test_node signed_tx (Some t) = Some (Inr p)"
    "ep_height p = 1" "base_fee_per_gas (ep_transition p) = 2" "gas_used (ep_transition p) = 0" "\<exists>m. ep_block_hash p = digest0x m"
    "ep_timestamp p = Some t" "vr_proposal (tc_runtime tc) = Some p" "vr_round (tc_runtime tc) = r" "tc_resources tc = test_resources"
    "vr_pipeline (tc_runtime tc) = test_node" "vr_journal (tc_runtime tc) = sample_journal" "vr_bindings (tc_runtime tc) = test_bindings"
    "vr_active (tc_runtime tc) = Some test_set" "vr_machine (tc_runtime tc) \<noteq> None"
proof -
  obtain p where p: "execute_candidate test_node signed_tx (Some t) = Some (Inr p)" "ep_height p = 1" "base_fee_per_gas (ep_transition p) = 2"
      "gas_used (ep_transition p) = 0" "\<exists>m. ep_block_hash p = digest0x m" "ep_timestamp p = Some t"
    by (rule test_executes [OF assms(1)])
  obtain m where m: "finality_init 7 (vs_validators test_set) 0 = Inr m"
    by (rule started_machine [OF unit_set_Inr(1) [OF test_unit], of 7 0]) simp_all
  let ?rt = "test_runtime\<lparr>vr_proposal := Some p, vr_active := Some test_set, vr_machine := Some m, vr_round := r\<rparr>"
  have chain: "runtime_chain test_runtime = 7"
    by (simp add: runtime_chain_def test_runtime_def test_head test_config)
  have propose: "runtime_propose test_runtime signed_tx r (Some t) = Some (Inr p, ?rt)"
    unfolding runtime_propose_def chain using assms(2)
    by (simp add: test_runtime_def p(1,2) test_at_height test_bindings_valid test_head m)
  show thesis
    by (rule that [of p "test_consensus\<lparr>tc_accepted := {}, tc_runtime := ?rt\<rparr>"])
       (use p in \<open>simp_all add: consensus_propose_def test_consensus_def propose\<close>, simp_all add: test_runtime_def)
qed

lemma test_packet_good:
  assumes "i \<in> set test_ids" "ep_block_hash p = digest0x m"
  shows "good_packet test_resources all_consensus all_peers 7 p r (test_packet p r i)"
proof -
  have "dict_get test_resources i \<noteq> None"
    using assms(1) by (auto simp: test_resources_def test_ids_def)
  then show ?thesis
    using assms(2) by (auto simp: good_packet_def packet_for_def test_packet_def peer_authentic_def all_peers_def all_consensus_def
        simp del: map_of_eq_Some_iff)
qed

lemma test_fresh_hash:
  assumes "ep_block_hash p = digest0x m"
  shows "\<forall>item \<in> set (blocks (tc_store test_consensus)). br_block_hash (snd item) \<noteq> ep_block_hash p"
  using assms underscore_hash_ok(3) by (auto simp: test_consensus_def test_runtime_def test_head funded_store_def funded_row_def)

lemma test_finalizes:
  assumes "consensus_propose test_consensus r (Some t) = Some (Inr p, tc)" "ep_height p = 1" "base_fee_per_gas (ep_transition p) = 2"
    "gas_used (ep_transition p) = 0" "ep_block_hash p = digest0x m" "t = 60"
  shows "\<forall>q \<in> set (map (test_packet p r) test_ids). good_packet test_resources all_consensus all_peers 7 p r q"
    "distinct (map av_validator_id (map (test_packet p r) test_ids))"
    "av_validator_id ` set (map (test_packet p r) test_ids) = fst ` set test_resources"
    "sqlite_int (ep_height p)" "sqlite_int (base_fee_per_gas (ep_transition p))" "sqlite_int (gas_used (ep_transition p))"
    "\<forall>s. Some t = Some s \<longrightarrow> sqlite_int s"
proof -
  show "\<forall>q \<in> set (map (test_packet p r) test_ids). good_packet test_resources all_consensus all_peers 7 p r q"
    using test_packet_good assms(5) by auto
qed (use assms in \<open>auto simp: test_packet_def test_ids_def test_resources_def sqlite_int_def\<close>)

lemma three_packets_finalize_witness:
  "\<exists>p tc b. consensus_propose test_consensus 0 (Some 60) = Some (Inr p, tc) \<and>
     store_head (tc_store (submit_all all_consensus all_peers tc (map (test_packet p 0) test_ids))) = Inr b \<and> sb_height b = 1"
proof -
  obtain p tc where p: "consensus_propose test_consensus 0 (Some 60) = Some (Inr p, tc)" "ep_height p = 1"
      "base_fee_per_gas (ep_transition p) = 2" "gas_used (ep_transition p) = 0" "\<exists>m. ep_block_hash p = digest0x m"
    by (rule test_proposes [of 60 0]) simp_all
  obtain m where m: "ep_block_hash p = digest0x m"
    using p(5) by blast
  note given = test_finalizes [OF p(1-4) m refl]
  show ?thesis
    using three_packets_finalize [OF test_reachable p(1) given(1-3) test_fresh_hash [OF m] given(4-7)] p(1,2) by auto
qed

text \<open>The submission that completed a block.\<close>

lemma submit_all_finalized:
  assumes "tc_reachable chain resources cv pv tc" "vr_proposal (tc_runtime tc) \<noteq> None" "vr_proposal (tc_runtime (submit_all cv pv tc qs)) = None"
  obtains tc1 q f tc2 where "tc_reachable chain resources cv pv tc1" "submit tc1 (tc_store tc1) cv pv q = (Inr (Some f), tc2)"
  using assms
proof (induction qs arbitrary: tc thesis)
  case (Cons q qs)
  obtain y tc' where step: "submit tc (tc_store tc) cv pv q = (y, tc')"
    by (cases "submit tc (tc_store tc) cv pv q")
  have reach: "tc_reachable chain resources cv pv tc'"
    using Cons.prems(2) tc_step.submitted [OF step] by (rule tc_reachable.step)
  show ?case
  proof (cases "\<exists>f. y = Inr (Some f)")
    case True
    then show ?thesis
      using Cons.prems(1,2) step by blast
  next
    case False
    have "vr_proposal (tc_runtime tc') \<noteq> None"
      using step
    proof (cases rule: submit_cases)
      case (voted rt)
      from voted(3) show ?thesis
        by (cases rule: runtime_accept_vote_cases) (use Cons.prems(3) voted(4) False in auto)
    qed (use Cons.prems(3) in simp)
    then show ?thesis
      using Cons.IH [OF Cons.prems(1) reach] Cons.prems(4) step by auto
  qed
qed simp

lemma unanimous_finality_witness:
  "\<exists>tc q f tc'. tc_reachable 7 test_resources all_consensus all_peers tc \<and>
     submit tc (tc_store tc) all_consensus all_peers q = (Inr (Some f), tc') \<and> fc_validator_ids (fin_certificate f) = test_ids"
proof -
  obtain p tc where p: "consensus_propose test_consensus 0 (Some 60) = Some (Inr p, tc)" "ep_height p = 1"
      "base_fee_per_gas (ep_transition p) = 2" "gas_used (ep_transition p) = 0" "\<exists>m. ep_block_hash p = digest0x m"
      "vr_proposal (tc_runtime tc) = Some p"
    by (rule test_proposes [of 60 0]) simp_all
  obtain m where m: "ep_block_hash p = digest0x m"
    using p(5) by blast
  note given = test_finalizes [OF p(1-4) m refl]
  have "vr_proposal (tc_runtime (submit_all all_consensus all_peers tc (map (test_packet p 0) test_ids))) = None"
    using packets_decide [OF test_reachable p(1) given(1-3) test_fresh_hash [OF m] given(4-7)] by blast
  moreover have "tc_reachable 7 test_resources all_consensus all_peers tc"
    using test_reachable tc_step.proposed [OF p(1)] by (rule tc_reachable.step)
  ultimately obtain tc1 q f tc2 where f: "tc_reachable 7 test_resources all_consensus all_peers tc1"
      "submit tc1 (tc_store tc1) all_consensus all_peers q = (Inr (Some f), tc2)"
    using submit_all_finalized [of 7 test_resources all_consensus all_peers tc] p(6) by (metis option.distinct(1))
  from unanimous_finality [OF f] f show ?thesis
    unfolding test_ids_sorted by blast
qed

definition test_recovery :: "recovery_action \<Rightarrow> journal_file \<Rightarrow> peer_registry \<Rightarrow> sync_recovery" where
  "test_recovery a jf g = \<lparr>sy_resources = test_resources, sy_registry = g, sy_chain = 7, sy_file = jf, sy_action = a\<rparr>"

lemma test_certified:
  obtains p c where "execute_candidate test_node signed_tx (Some 60) = Some (Inr p)" "ep_height p = 1"
    "authenticate_certificate 7 test_resources all_consensus all_peers p c (map (test_packet p 0) test_ids) = Inr ()"
    "\<exists>b n. commit_finalized test_node (np_store test_node) p c = Inr (b, n)"
proof -
  obtain p where p: "execute_candidate test_node signed_tx (Some 60) = Some (Inr p)" "ep_height p = 1" "base_fee_per_gas (ep_transition p) = 2"
      "gas_used (ep_transition p) = 0" "\<exists>m. ep_block_hash p = digest0x m" "ep_timestamp p = Some 60"
    by (rule test_executes [of 60]) simp_all
  then obtain m where m: "ep_block_hash p = digest0x m"
    by blast
  have good: "\<forall>i \<in> set test_ids. good_packet test_resources all_consensus all_peers 7 p 0 (test_packet p 0 i) \<and>
      av_block_hash (test_packet p 0 i) = ep_block_hash p \<and> av_validator_id (test_packet p 0 i) = i"
    using test_packet_good [OF _ m] by (simp add: test_packet_def)
  have hash: "lower (ep_block_hash p) = ep_block_hash p" "length test_resources = 3"
    using m by (simp_all add: test_resources_def test_ids_def)
  obtain c where c: "authenticate_certificate 7 test_resources all_consensus all_peers p c (map (test_packet p 0) test_ids) = Inr ()"
      "quorum_certificate 7 (ep_height p) (ep_block_hash p) c"
    by (rule packets_authenticate [OF test_unit test_ids_sorted [symmetric] hash(2) _ _ _ hash(1) good]) (use p(2) in simp_all)
  have "\<forall>item \<in> set (blocks (np_store test_node)). br_block_hash (snd item) \<noteq> ep_block_hash p"
    using test_fresh_hash [OF m] by (simp add: test_consensus_def test_runtime_def)
  then have "\<exists>b n. commit_finalized test_node (np_store test_node) p c = Inr (b, n)"
    using proposal_commits [OF p(1), of c] store_reachable_ok [OF funded_store_reachable] c(2) p(2-4)
    by (auto simp: test_head test_config sqlite_int_def)
  then show thesis
    using that p(1,2) c(1) by blast
qed

lemma test_begins:
  assumes "execute_candidate test_node signed_tx (Some 60) = Some (Inr p)" "ep_height p = 1"
  obtains jf m where "begin_import 7 None ''p'' p = Inr jf" "read_journal 7 jf = Inr (Some m)" "same_journal (prepared_record 7 ''p'' p) m"
proof -
  have store: "store_ok (np_chain test_node) (np_store test_node)"
    using store_reachable_ok [OF funded_store_reachable] by (simp add: test_head)
  note fields = proposal_fields [OF assms(1) store]
  have "begin_import 7 None ''p'' p = Inr (write_journal (prepared_record 7 ''p'' p))"
    by (simp add: begin_import_def read_journal_def)
  moreover have "good_journal 7 (prepared_record 7 ''p'' p)"
    using fields assms(2) by (intro prepared_good) (simp_all add: lower_hash_def)
  then obtain m where "read_journal 7 (write_journal (prepared_record 7 ''p'' p)) = Inr (Some m)" "same_journal (prepared_record 7 ''p'' p) m"
    by (rule read_write_journal)
  ultimately show thesis
    using that by blast
qed

lemma authenticated_import_witness:
  "\<exists>p c sy n. sync_import (test_recovery Clean None sample_registry) test_node all_consensus all_peers ''p'' p c (map (test_packet p 0) test_ids)
       = (Inr (), sy, n) \<and> head_height (np_store test_node) + 1 = ep_height p \<and> sy_file sy = None"
proof -
  obtain p c where p: "execute_candidate test_node signed_tx (Some 60) = Some (Inr p)" "ep_height p = 1"
    "authenticate_certificate 7 test_resources all_consensus all_peers p c (map (test_packet p 0) test_ids) = Inr ()"
    "\<exists>b n. commit_finalized test_node (np_store test_node) p c = Inr (b, n)"
    by (rule test_certified)
  then obtain b n where commit: "commit_finalized test_node (np_store test_node) p c = Inr (b, n)"
    by blast
  have store: "store_ok (np_chain test_node) (np_store test_node)"
    using store_reachable_ok [OF funded_store_reachable] by (simp add: test_head)
  obtain jf m where jf: "begin_import 7 None ''p'' p = Inr jf" "read_journal 7 jf = Inr (Some m)" "same_journal (prepared_record 7 ''p'' p) m"
    by (rule test_begins [OF p(1,2)])
  have "json_at m ''block_hash'' = JStr (ep_block_hash p)"
    using jf(3) by (simp add: same_journal_def prepared_record_def json_at_def)
  then have mark: "\<exists>jf'. mark_committed 7 jf b = Inr jf'"
    using jf(2) commit_details(3) [OF commit p(1) store] by (simp add: mark_committed_def)
  have "\<exists>sy n'. sync_import (test_recovery Clean None sample_registry) test_node all_consensus all_peers ''p'' p c (map (test_packet p 0) test_ids)
      = (Inr (), sy, n')"
    using p(2,3) commit jf(1) mark sample_source [of 0]
    by (auto simp: sync_import_def test_recovery_def resume_import_def sync_importer_def import_finalized_def import_prepared_def
        test_head sample_peer_def Let_def)
  then obtain sy n' where import: "sync_import (test_recovery Clean None sample_registry) test_node all_consensus all_peers ''p'' p c
      (map (test_packet p 0) test_ids) = (Inr (), sy, n')"
    by blast
  have "ep_height p = head_height (np_store test_node) + 1" "sy_file sy = None"
    using authenticated_import [OF import p(1) store] by blast+
  then show ?thesis
    using import by (intro exI [of _ p] exI [of _ c] exI [of _ sy] exI [of _ n']) simp
qed


end
