(* ===== verification/Spec2Isabelle.thy ===== *)
theory Spec2Isabelle
  imports ProtocolKernel Mempool Finality SyncFinality ConsensusSync SigningJournal StateStore WireProtocol NodePipeline BridgeProtocol RelayerJournal PeerSync SyncRuntime ValidatorRuntime VoteWire TestnetConsensus
begin

text \<open>
  The JUNCA Social Ecosystem Chain, the Python package \<open>src/jaios/social_ecosystem_chain\<close>: a chain of
  account states with final blocks, the node that runs it, its peers and its bridge.

  \<^bold>\<open>The program and its theories.\<close> A transaction enters the pool (\<open>Mempool\<close>), a block candidate is taken from
  the pool and executed by the kernel (\<open>ProtocolKernel\<close>), validators vote on the block through a journal that
  keeps them from signing twice (\<open>SigningJournal\<close>), the votes become a certificate (\<open>Finality\<close>), and the
  executed proposal with its certificate is written to the store and removed from the pool
  (\<open>NodePipeline\<close>, \<open>StateStore\<close>); \<open>ValidatorRuntime\<close> drives these steps on a validator. A node that is behind reads authenticated frames of its peers
  (\<open>WireProtocol\<close>), chooses the chain by their finalized claims (\<open>ConsensusSync\<close>), verifies the proofs they
  send against the validator set of each height (\<open>SyncFinality\<close>), orchestrated by \<open>SyncRuntime\<close>, and
  imports blocks through a recovery journal (\<open>PeerSync\<close>). Messages to other networks go through the
  bridge (\<open>BridgeProtocol\<close>), whose relayers share a queue with an audit log (\<open>RelayerJournal\<close>).

    \<^item> \<open>Prelude\<close>: the exceptions of the package as one datatype \<open>exn\<close>, results as \<open>exn + 'a\<close>, their sequencing
      \<open>bindE\<close>, loops that may raise (\<open>foldE\<close>, \<open>mapE\<close>, \<open>all_ok\<close>), Python dictionaries as association lists in
      insertion order, hexadecimal and integer literals.
    \<^item> \<open>Text\<close>, \<open>Json\<close>, \<open>Sha256\<close>: what the package uses of the standard library. \<open>str.lower\<close>, \<open>str.strip\<close>, UTF-8,
      \<open>json.dumps\<close> with sorted keys and \<open>json.loads\<close>, \<open>hashlib.sha256\<close> as functions that compute.
    \<^item> \<open>Quorum\<close>, \<open>WriteOnce\<close>, \<open>Codec\<close>, \<open>Channel\<close>: the interfaces between components, as locales.
    \<^item> \<open>ProtocolKernel\<close> (\<open>protocol_kernel.py\<close>): \<open>execute_block\<close> with \<open>validate_transaction\<close>, \<open>apply_transaction\<close>,
      \<open>next_base_fee\<close> and \<open>compute_state_root\<close>; a ledger is an association list of accounts.
    \<^item> \<open>Mempool\<close> (\<open>mempool.py\<close>): the pool as a record of an index by sender and nonce and a set of hashes;
      \<open>admit\<close>, \<open>remove_included\<close>, \<open>prune\<close>, \<open>build_candidate\<close>, \<open>export_snapshot\<close>, \<open>restore_snapshot\<close>.
    \<^item> \<open>Finality\<close> (\<open>finality.py\<close>): \<open>add_vote\<close> returns a result and the machine after it, since a call may
      record an equivocation and raise.
    \<^item> \<open>SyncFinality\<close> (\<open>sync_finality.py\<close>): \<open>at_height\<close> and \<open>register\<close> of the schedule, \<open>verify_proof\<close>, and the
      documents of proofs.
    \<^item> \<open>ConsensusSync\<close> (\<open>consensus_sync.py\<close>): \<open>observe\<close> of the fork choice, snapshot descriptors and their
      verification.
    \<^item> \<open>SigningJournal\<close> (\<open>consensus_signing_journal.py\<close>): the two tables and \<open>get_or_sign\<close>, \<open>open_journal\<close>.
    \<^item> \<open>StateStore\<close> (\<open>state_store.py\<close>): the tables of blocks, certificates and timestamps; opening, genesis,
      commits, reads, checkpoints, \<open>integrity_check\<close>. A write reads before it locks, so it takes the database
      as it was read and as it is found under the lock.
    \<^item> \<open>WireProtocol\<close> (\<open>wire_protocol.py\<close>): handshakes, \<open>send\<close> and \<open>receive_frame\<close> of a session, the encoding of
      frames, the validation of every kind of payload.
    \<^item> \<open>NodePipeline\<close> (\<open>node_pipeline.py\<close>): \<open>build_and_execute\<close> and \<open>commit\<close> over the pool and the store.
    \<^item> \<open>PeerSync\<close> (\<open>peer_sync.py\<close>): the registry of advertisements, the choice of a source, the recovery journal
      and \<open>import_finalized\<close>, with the faults its injector can raise.
    \<^item> \<open>SyncRuntime\<close> (\<open>sync_runtime.py\<close>): \<open>receive_status\<close>, \<open>runtime_plan\<close>, \<open>receive_block_range\<close>,
      \<open>receive_snapshot\<close> over sessions, fork choice and proof verifier.
    \<^item> \<open>ValidatorRuntime\<close> (\<open>validator_runtime.py\<close>): \<open>runtime_propose\<close>, \<open>runtime_sign_vote\<close>, \<open>runtime_advance_round\<close>,
      \<open>runtime_accept_vote\<close>: one proposal from its execution over signatures and votes to its commit, composed of
      \<open>NodePipeline\<close>, \<open>SigningJournal\<close>, \<open>SyncFinality\<close> and \<open>Finality\<close>.
    \<^item> \<open>BridgeProtocol\<close> (\<open>bridge_protocol.py\<close>): observation, confirmations, attestations, preparation, execution,
      rejection and pause of bridge messages.
    \<^item> \<open>RelayerJournal\<close> (\<open>relayer_journal.py\<close>): \<open>enqueue\<close>, \<open>lease\<close>, \<open>acknowledge\<close>, \<open>fail\<close> and the hash chain of the
      audit log.

  \<^bold>\<open>How state and errors are modelled.\<close> An object is a record and a method a function from it to a result
  with the object after it; where a Python method can change its object and then raise, the function
  gives the pair of the result and the new object. A table of SQLite is an association list by its
  primary key with the constraints of the schema checked on writing; a transaction is one step. Python
  integers are \<open>int\<close>, text is a list of characters below 256, bytes are a list of characters. Every
  \<open>raise\<close> and early return is a branch; inputs the source does not type-check and that would raise
  \<open>TypeError\<close> or \<open>AttributeError\<close> are values of the error type too, or are excluded by the types.

  \<^bold>\<open>The interfaces.\<close> A locale states what one component promises another, and is interpreted on the
  definitions of the component that keeps the promise:
    \<^item> \<open>voting_body\<close> (\<open>Quorum\<close>): powers, their total and a quorum above two thirds; its lemmas are the
      intersection and uniqueness arguments. \<open>machine\<close> in \<open>Finality\<close> and \<open>vset\<close> in \<open>SyncFinality\<close>.
    \<^item> \<open>write_once\<close> (\<open>WriteOnce\<close>): a step adds entries and changes none. \<open>chain_log\<close> (certificates),
      \<open>canon_log\<close> (canonical claims), \<open>journal_log\<close> (signatures), \<open>block_log\<close> (stored blocks),
      \<open>execution_log\<close> (executed messages), \<open>audit_kept\<close> and \<open>identity_kept\<close> (relayer queue).
    \<^item> \<open>codec\<close> and \<open>codec_pair\<close> (\<open>Codec\<close>): decoding inverts encoding. \<open>hex\<close>, \<open>canon_text\<close>,
      \<open>snapshot_text\<close> (accounts of the store) and \<open>wire_proof\<close> (proof documents).
    \<^item> \<open>ordered_channel\<close> (\<open>Channel\<close>): what one end sends the end in step with it receives, in order. \<open>wire\<close>
      in \<open>WireProtocol\<close>.

  \<^bold>\<open>What the lemmas show.\<close> Each theory first characterises every branch of its operations (lemmas named
  \<open>_Inr\<close> and \<open>_cases\<close>), then states an invariant and that every operation keeps it, as an inductive
  reachability predicate or step relation with rule induction, and then its properties. Safety: two
  certificates of one height and round need equivocators above a third of the power; a journal never signs
  two blocks of a height and round, across restarts; stored blocks are permanent; an executed bridge message
  was earned and is paid at most once, by refinement of an abstract ledger; a leased item has one owner;
  a changed audit entry needs a collision of the digest; an accepted range was signed block by block.
  Liveness: enough votes decide in any order and make the proposal of a validator the head, a finalized proposal commits, sessions deliver, an honest
  catch-up is accepted. Round trips: frames, proofs, checkpoints, restarts. Recovery: wherever an import is
  cut off, the recovery accepts what is on disk. The behaviours that go against what the code means
  are theorems as well, such as the transfer of an account to itself, rounds that finalize independently, and status
  claims that are believed without votes.

  \<^bold>\<open>Bounds and fuel.\<close> The only fuel is that of the reader \<open>json_loads\<close>, which gets more than the length
  of its text and every nested call consumes a character, so it never runs out (\<open>Json\<close>). The
  loop of \<open>build_candidate\<close> is a \<open>while\<close> combinator whose measure, the transactions not yet taken, falls in every round; that it
  returns is part of its theorem. All other loops run over lists. The limits of the code (frame
  sizes, range and chunk counts, string lengths) are its numbers.

  \<^bold>\<open>Parameters.\<close> Signature verifiers and signers are functions of the message that may raise; SQLite, files
  and clocks are the state they hold and the arguments they give. Where a theorem needs a law of a parameter
  (a signature made by a signer verifies), it is a hypothesis, and its witness gives a function that has it.
  SHA-256 is computed, and no theorem assumes that it has no collisions: they conclude that a collision exists.

  \<^bold>\<open>Not modelled.\<close> Closing connections, the recovery of SQLite from a damaged file and failures of the file
  system; characters above 255; the recursion and digit limits of the interpreter's JSON reader.
\<close>

end
